(* ===== verification/Emu_Prelude.thy ===== *)
theory Emu_Prelude
  imports Main "HOL-Library.Word"
begin

text \<open>
  What every component shares: the C integer types as words, the byte order of the
  memcpy-ed fields (the host and the guest are little-endian, devicetrees are big-endian),
  a block of host memory as a function from byte offsets, and the errno values the code
  returns. The lemmas on memory blocks are collected in \<open>mem_simps\<close>.
\<close>

unbundle bit_operations_syntax

named_theorems mem_simps
named_theorems le_simps

type_synonym u8 = "8 word"
type_synonym u16 = "16 word"
type_synonym u32 = "32 word"
type_synonym u64 = "64 word"

text \<open>A block of host memory: the byte at each offset from its start.\<close>

type_synonym block = "nat \<Rightarrow> u8"

section \<open>errno values\<close>

definition EIO :: int where "EIO = 5"
definition ENOMEM :: int where "ENOMEM = 12"
definition ENODEV :: int where "ENODEV = 19"
definition EINVAL :: int where "EINVAL = 22"
definition ENOTSUP :: int where "ENOTSUP = 95"

section \<open>Little-endian fields\<close>

definition le_bytes :: "nat \<Rightarrow> 'a::len word \<Rightarrow> u8 list" where
  "le_bytes n w = map (\<lambda>i. ucast (drop_bit (8 * i) w)) [0..<n]"

fun of_le :: "u8 list \<Rightarrow> 'a::len word" where
  "of_le [] = 0"
| "of_le (b # bs) = ucast b OR push_bit 8 (of_le bs)"

lemma length_le_bytes [simp]: "length (le_bytes n w) = n"
  by (simp add: le_bytes_def)

lemma nth_le_bytes: "i < n \<Longrightarrow> le_bytes n w ! i = ucast (drop_bit (8 * i) w)"
  by (simp add: le_bytes_def)

lemma le_bytes_Suc:
  fixes w :: "'a::len word"
  shows "le_bytes (Suc n) w = ucast w # le_bytes n (drop_bit 8 w)"
  by (rule nth_equalityI) (auto simp: le_bytes_def less_Suc_eq_0_disj drop_bit_drop_bit add.commute simp del: upt_Suc)

lemma of_le_le_bytes [le_simps]: "of_le (le_bytes n w) = take_bit (8 * n) w"
proof (induction n arbitrary: w)
  case 0
  then show ?case by (simp add: le_bytes_def)
next
  case (Suc n)
  have "ucast (ucast w :: u8) OR push_bit 8 (take_bit (8 * n) (drop_bit 8 w)) = take_bit (8 * Suc n) w"
    by (rule bit_word_eqI) (auto simp: bit_simps)
  then show ?case by (simp add: le_bytes_Suc Suc.IH)
qed

lemma of_le_le_bytes_full [simp]:
  fixes w :: "'a::len word"
  assumes "LENGTH('a) \<le> 8 * n"
  shows "of_le (le_bytes n w) = w"
  using assms by (simp add: of_le_le_bytes take_bit_word_eq_self)

lemma le_bytes_of_le:
  assumes "length bs = n" and "8 * n \<le> LENGTH('a)"
  shows "le_bytes n (of_le bs :: 'a::len word) = bs"
  using assms
proof (induction bs arbitrary: n)
  case Nil
  then show ?case by (simp add: le_bytes_def)
next
  case (Cons b bs)
  then obtain m where n: "n = Suc m" and m: "length bs = m" by auto
  let ?w = "of_le bs :: 'a word"
  have hi: "le_bytes m ?w = bs" using Cons m n by simp
  have len: "8 + 8 * m \<le> LENGTH('a)" using Cons.prems n by simp
  have b0: "ucast (ucast b OR push_bit 8 ?w :: 'a word) = b"
    using len by (intro bit_word_eqI) (auto simp: bit_simps)
  have "le_bytes m (drop_bit 8 (ucast b OR push_bit 8 ?w :: 'a word)) = le_bytes m ?w"
  proof (rule nth_equalityI)
    fix i assume "i < length (le_bytes m (drop_bit 8 (ucast b OR push_bit 8 ?w :: 'a word)))"
    then have i: "i < m" by simp
    have "ucast (drop_bit (8 * i) (drop_bit 8 (ucast b OR push_bit 8 ?w :: 'a word)))
        = (ucast (drop_bit (8 * i) ?w) :: u8)"
      using i len by (intro bit_word_eqI) (auto simp: bit_simps dest: bit_imp_le_length)
    with i show "le_bytes m (drop_bit 8 (ucast b OR push_bit 8 ?w :: 'a word)) ! i = le_bytes m ?w ! i"
      by (simp add: nth_le_bytes)
  qed simp
  with hi b0 n show ?case by (simp add: le_bytes_Suc)
qed

section \<open>Misaligned fields\<close>

lemma bit_of_le:
  "bit (of_le bs :: 'a::len word) n \<longleftrightarrow> n < 8 * length bs \<and> n < LENGTH('a) \<and> bit (bs ! (n div 8)) (n mod 8)"
proof (induction bs arbitrary: n)
  case (Cons b bs)
  show ?case
  proof (cases "n < 8")
    case True
    then show ?thesis by (auto simp: bit_simps)
  next
    case False
    then have e: "n div 8 = Suc ((n - 8) div 8)" "n mod 8 = (n - 8) mod 8" by (simp_all add: le_div_geq le_mod_geq)
    have "\<not> bit b n" using False bit_imp_le_length [of b n] by auto
    with False Cons.IH [of "n - 8"] show ?thesis by (auto simp: bit_simps e)
  qed
qed simp

lemma of_le_split:
  fixes bs cs :: "u8 list"
  assumes "length bs = k" "length cs = k" "al < k" "8 * k = LENGTH('a::len)"
  shows "drop_bit (8 * al) (of_le bs :: 'a word) OR push_bit (8 * k - 8 * al) (of_le cs) =
    of_le (take k (drop al (bs @ cs)))"
proof (rule bit_word_eqI)
  fix n assume n: "n < LENGTH('a)"
  have d: "(8 * al + n) div 8 = al + n div 8" "(8 * al + n) mod 8 = n mod 8" by simp_all
  have nk: "n < 8 * k" using n assms(4) by simp
  then have nd: "n div 8 < k" by simp
  have rhs: "bit (of_le (take k (drop al (bs @ cs))) :: 'a word) n \<longleftrightarrow> bit ((bs @ cs) ! (al + n div 8)) (n mod 8)"
    using nd nk n assms(1,2,3) by (auto simp: bit_of_le nth_append add.commute [of al])
  have lhs: "bit (drop_bit (8 * al) (of_le bs :: 'a word) OR push_bit (8 * k - 8 * al) (of_le cs)) n \<longleftrightarrow>
      8 * al + n < 8 * k \<and> bit (bs ! (al + n div 8)) (n mod 8) \<or>
      8 * k - 8 * al \<le> n \<and> bit (of_le cs :: 'a word) (n - (8 * k - 8 * al))"
    using n by (simp add: bit_simps bit_of_le d assms(1) assms(4) [symmetric])
  show "bit (drop_bit (8 * al) (of_le bs :: 'a word) OR push_bit (8 * k - 8 * al) (of_le cs)) n =
    bit (of_le (take k (drop al (bs @ cs))) :: 'a word) n"
  proof (cases "8 * al + n < 8 * k")
    case True
    then have "al + n div 8 < k" "\<not> 8 * k - 8 * al \<le> n" by linarith+
    with True show ?thesis unfolding rhs lhs by (simp add: nth_append assms(1))
  next
    case False
    define m where "m = n - (8 * k - 8 * al)"
    from False have m: "n = 8 * (k - al) + m" using assms(3) by (simp add: m_def diff_mult_distrib2)
    have e: "n div 8 = k - al + m div 8" "n mod 8 = m mod 8" by (simp_all add: m)
    have "m < 8 * k" using nk m_def by simp
    then have "bit (of_le cs :: 'a word) m \<longleftrightarrow> bit (cs ! (m div 8)) (m mod 8)"
      using assms(2,4) by (simp add: bit_of_le)
    moreover have "8 * k - 8 * al \<le> n" using False by simp
    ultimately show ?thesis unfolding rhs lhs m_def [symmetric] e
      using False assms(1,3) by (simp add: nth_append)
  qed
qed

section \<open>Big-endian words (devicetree cells)\<close>

definition be32 :: "u32 \<Rightarrow> u8 list" where
  "be32 v = [ucast (drop_bit 24 v), ucast (drop_bit 16 v), ucast (drop_bit 8 v), ucast v]"

definition of_be32 :: "u8 list \<Rightarrow> u32" where
  "of_be32 bs = of_le (rev bs)"

lemma length_be32 [simp]: "length (be32 v) = 4"
  by (simp add: be32_def)

lemma rev_be32: "rev (be32 v) = le_bytes 4 v"
  by (simp add: be32_def le_bytes_def upt_rec numeral_eq_Suc)

lemma of_be32_be32 [simp]: "of_be32 (be32 v) = v"
  by (simp add: of_be32_def rev_be32)

section \<open>Memory blocks: memcpy and memset\<close>

definition mem_read :: "block \<Rightarrow> nat \<Rightarrow> nat \<Rightarrow> u8 list" where
  "mem_read m off len = map m [off..<off + len]"

definition mem_write :: "block \<Rightarrow> nat \<Rightarrow> u8 list \<Rightarrow> block" where
  "mem_write m off bs = (\<lambda>a. if off \<le> a \<and> a < off + length bs then bs ! (a - off) else m a)"

lemma length_mem_read [simp]: "length (mem_read m off len) = len"
  by (simp add: mem_read_def)

lemma nth_mem_read [mem_simps]: "i < len \<Longrightarrow> mem_read m off len ! i = m (off + i)"
  by (simp add: mem_read_def)

lemma mem_read_0 [simp]: "mem_read m off 0 = []"
  by (simp add: mem_read_def)

lemma mem_read_eq_Nil [simp]: "mem_read m off len = [] \<longleftrightarrow> len = 0"
  by (auto simp: mem_read_def)

lemma mem_read_add: "mem_read m off (a + b) = mem_read m off a @ mem_read m (off + a) b"
  using upt_add_eq_append [of off "off + a" b] by (simp add: mem_read_def add.assoc)

lemma mem_read_sub: "k + n \<le> len \<Longrightarrow> mem_read m (p + k) n = take n (drop k (mem_read m p len))"
  by (rule nth_equalityI) (auto simp: nth_mem_read add.assoc)

lemma mem_write_Nil [simp]: "mem_write m off [] = m"
  by (rule ext) (auto simp: mem_write_def)

lemma mem_write_outside [mem_simps]:
  "a < off \<or> off + length bs \<le> a \<Longrightarrow> mem_write m off bs a = m a"
  by (auto simp: mem_write_def)

lemma mem_write_inside [mem_simps]:
  "off \<le> a \<Longrightarrow> a < off + length bs \<Longrightarrow> mem_write m off bs a = bs ! (a - off)"
  by (auto simp: mem_write_def)

lemma mem_read_cong:
  "(\<And>a. off \<le> a \<Longrightarrow> a < off + len \<Longrightarrow> m a = m' a) \<Longrightarrow> mem_read m off len = mem_read m' off len"
  by (auto simp: mem_read_def)

lemma mem_read_write_same [simp]: "mem_read (mem_write m off bs) off (length bs) = bs"
  by (rule nth_equalityI) (auto simp: mem_simps)

lemma mem_read_write_same' [mem_simps]:
  "len = length bs \<Longrightarrow> mem_read (mem_write m off bs) off len = bs"
  by simp

lemma mem_read_write_disjoint [mem_simps]:
  "off + len \<le> off' \<or> off' + length bs \<le> off \<Longrightarrow>
   mem_read (mem_write m off' bs) off len = mem_read m off len"
  by (rule mem_read_cong) (auto simp: mem_write_def)

lemma mem_write_append:
  "mem_write (mem_write m off as) (off + length as) bs = mem_write m off (as @ bs)"
  by (rule ext) (auto simp: mem_write_def nth_append)

section \<open>Words bit by bit\<close>

text \<open>Equality of two 32-bit words as 32 bit equalities the simplifier can decide.\<close>

lemma u32_bits_iff: "(a :: u32) = b \<longleftrightarrow> list_all (\<lambda>n. bit a n = bit b n) [0..<32]"
proof
  assume "list_all (\<lambda>n. bit a n = bit b n) [0..<32]"
  then show "a = b" by (intro bit_word_eqI) (simp add: list_all_iff)
qed (simp add: list_all_iff)

lemma u32_bitsI: "list_all (\<lambda>n. bit a n = bit b n) [0..<32] \<Longrightarrow> (a :: u32) = b"
  by (simp add: u32_bits_iff)

lemma word_and_1: "(w :: 'a::len word) AND 1 = of_bool (bit w 0)"
  by (simp only: and_one_eq mod_2_eq_odd bit_0)

lemma drop_bit_and_1: "drop_bit n (w :: 'a::len word) AND 1 = of_bool (bit w n)"
  by (simp add: word_and_1 bit_drop_bit_eq)

lemma unat_of_bool [simp]: "unat (of_bool b :: 'a::len word) = of_bool b"
  by (cases b) simp_all

lemma upt_32: "[0..<32] = [0,1,2,3,4,5,6,7,8,9,10,11,12,13,14,15,16,17,18,19,20,21,22,23,24,25,
    26,27,28,29,30,31]"
  by (simp add: upt_rec)

lemma and3_unat: "(w :: u32) AND 3 = 0 \<longleftrightarrow> unat w mod 4 = 0"
proof -
  have "w AND 3 = take_bit 2 w" by (simp add: take_bit_eq_mask mask_eq_exp_minus_1)
  moreover have "unat (take_bit 2 w) = unat w mod 4"
    by (simp add: take_bit_eq_mod unat_mod_distrib)
  ultimately show ?thesis by (metis unsigned_0 unsigned_eq_0_iff)
qed

section \<open>Numbers\<close>

lemma unat_u8_lt: "unat (w :: u8) < 256"
  by (rule unsigned_less [of w, simplified])

lemma unat_u16_lt: "unat (w :: u16) < 65536"
  by (rule unsigned_less [of w, simplified])

lemma unat_u32_lt: "unat (w :: u32) < 4294967296"
  by (rule unsigned_less [of w, simplified])

lemma unat_u64_lt: "unat (w :: u64) < 18446744073709551616"
  by (rule unsigned_less [of w, simplified])

lemmas unat_bounds = unat_u8_lt unat_u16_lt unat_u32_lt unat_u64_lt

lemma unat_ucast_up:
  fixes w :: "'a::len word"
  shows "LENGTH('a) \<le> LENGTH('b::len) \<Longrightarrow> unat (ucast w :: 'b word) = unat w"
  by (simp add: unsigned_ucast_eq take_bit_nat_eq_self order_less_le_trans [OF unsigned_less])

lemma unat_ucast_32_64 [simp]: "unat (ucast (w :: u32) :: u64) = unat w"
  by (simp add: unat_ucast_up)

lemma unat_ucast_16_64 [simp]: "unat (ucast (w :: u16) :: u64) = unat w"
  by (simp add: unat_ucast_up)

lemma unat_ucast_16_32 [simp]: "unat (ucast (w :: u16) :: u32) = unat w"
  by (simp add: unat_ucast_up)

text \<open>Widening a C integer and narrowing it again.\<close>

lemma down_of_int: "(ucast (of_int k :: u64) :: u32) = of_int k"
  by (rule ucast_down_wi) (simp add: is_down)

lemma down_add: "(ucast (a + b :: u64) :: u32) = ucast a + ucast b"
  using down_of_int [of "uint a + uint b"] by (metis of_int_add of_int_uint word_of_int_uint)

lemma down_diff: "(ucast (a - b :: u64) :: u32) = ucast a - ucast b"
  by (metis add_diff_cancel_right' diff_add_cancel down_add)

lemma ucast_8_32_8 [simp]: "ucast (ucast (b :: u8) :: u32) = b"
  by (rule bit_word_eqI) (auto simp: bit_simps dest: bit_imp_le_length)

lemma ucast_8_64_8 [simp]: "ucast (ucast (b :: u8) :: u64) = b"
  by (rule bit_word_eqI) (auto simp: bit_simps dest: bit_imp_le_length)

lemma ucast_32_64_32 [simp]: "ucast (ucast (b :: u32) :: u64) = b"
  by (rule bit_word_eqI) (auto simp: bit_simps dest: bit_imp_le_length)

text \<open>Adding a small natural number to an address that stays below the top of its type.\<close>

lemma unat_add_of_nat:
  fixes a :: "'a::len word"
  shows "unat a + n < 2 ^ LENGTH('a) \<Longrightarrow> unat (a + of_nat n) = unat a + n"
  by (simp add: unat_word_ariths unsigned_of_nat take_bit_nat_eq_self)

end
