(* ===== verification/Iomem.thy ===== *)
theory Iomem
  imports Emu_Prelude
begin

text \<open>
  The guest physical address map of \<open>emu/rv_iomem.c\<close> and \<open>emu/iomem.h\<close>: an array of at
  most 32 ranges searched in order. A host pointer into guest RAM is modelled by its offset
  from the start of the block the platform handed over; the three fields that name a
  device's callbacks (opaque, read_func, write_func) are one value of \<open>dev_id\<close>.
\<close>

definition DEVRAM_FLAG_DIRTY_BITS :: u32 where "DEVRAM_FLAG_DIRTY_BITS = 2"
definition DEVRAM_FLAG_DISABLED :: u32 where "DEVRAM_FLAG_DISABLED = 4"
definition DEVRAM_PAGE_SIZE :: u64 where "DEVRAM_PAGE_SIZE = 4096"
definition DEVIO_SIZE8 :: u32 where "DEVIO_SIZE8 = 1"
definition DEVIO_SIZE16 :: u32 where "DEVIO_SIZE16 = 2"
definition DEVIO_SIZE32 :: u32 where "DEVIO_SIZE32 = 4"
definition DEVIO_DISABLED :: u32 where "DEVIO_DISABLED = 16"
definition PHYS_MEM_RANGE_MAX :: nat where "PHYS_MEM_RANGE_MAX = 32"

lemmas iomem_consts =
  DEVRAM_FLAG_DIRTY_BITS_def DEVRAM_FLAG_DISABLED_def DEVRAM_PAGE_SIZE_def DEVIO_SIZE8_def
  DEVIO_SIZE16_def DEVIO_SIZE32_def DEVIO_DISABLED_def PHYS_MEM_RANGE_MAX_def

datatype dev_id = NoDev | DevUart | DevClint | DevSyscon | DevPv | DevPlic | DevBlk | DevNet

record phys_range =
  pr_addr :: u64
  pr_org_size :: u64
  pr_size :: u64
  pr_is_ram :: bool
  pr_devram_flags :: u32
  pr_phys_mem :: "nat option"
  pr_dev :: dev_id
  pr_devio_flags :: u32

type_synonym phys_map = "phys_range list"

section \<open>Operations\<close>

definition phys_mem_map_init :: phys_map where
  "phys_mem_map_init = []"

definition pr_covers :: "phys_range \<Rightarrow> u64 \<Rightarrow> bool" where
  "pr_covers pr paddr \<longleftrightarrow> pr_addr pr \<le> paddr \<and> paddr < pr_addr pr + pr_size pr"

fun get_phys_mem_range :: "phys_map \<Rightarrow> u64 \<Rightarrow> phys_range option" where
  "get_phys_mem_range [] paddr = None"
| "get_phys_mem_range (pr # prs) paddr =
     (if pr_covers pr paddr then Some pr else get_phys_mem_range prs paddr)"

definition register_ram_entry :: "phys_map \<Rightarrow> u64 \<Rightarrow> u64 \<Rightarrow> u32 \<Rightarrow> (phys_map \<times> nat) option" where
  "register_ram_entry s addr sz flags =
     (if PHYS_MEM_RANGE_MAX \<le> length s then None
      else if sz = 0 \<or> sz AND (DEVRAM_PAGE_SIZE - 1) \<noteq> 0 then None
      else Some (s @ [\<lparr>pr_addr = addr, pr_org_size = sz,
                       pr_size = (if flags AND DEVRAM_FLAG_DISABLED \<noteq> 0 then 0 else sz),
                       pr_is_ram = True, pr_devram_flags = flags AND NOT DEVRAM_FLAG_DISABLED,
                       pr_phys_mem = None, pr_dev = NoDev, pr_devio_flags = 0\<rparr>], length s))"

definition rv_register_ram_ptr ::
    "phys_map \<Rightarrow> u64 \<Rightarrow> u64 \<Rightarrow> nat option \<Rightarrow> u32 \<Rightarrow> (phys_map \<times> nat) option" where
  "rv_register_ram_ptr s addr sz host_ptr flags =
     (if host_ptr = None \<or> flags AND DEVRAM_FLAG_DIRTY_BITS \<noteq> 0 then None
      else case register_ram_entry s addr sz flags of
             None \<Rightarrow> None
           | Some (s', i) \<Rightarrow> Some (s'[i := (s' ! i)\<lparr>pr_phys_mem := host_ptr\<rparr>], i))"

text \<open>\<open>cpu_register_ram()\<close> routes here and always fails: there is no allocator.\<close>

definition rv_register_ram :: "phys_map \<Rightarrow> u64 \<Rightarrow> u64 \<Rightarrow> u32 \<Rightarrow> (phys_map \<times> nat) option" where
  "rv_register_ram s addr sz flags = None"

definition cpu_register_device ::
    "phys_map \<Rightarrow> u64 \<Rightarrow> u64 \<Rightarrow> dev_id \<Rightarrow> u32 \<Rightarrow> phys_map option" where
  "cpu_register_device s addr sz dev flags =
     (if PHYS_MEM_RANGE_MAX \<le> length s \<or> 0xffffffff < sz then None
      else Some (s @ [\<lparr>pr_addr = addr, pr_org_size = sz,
                       pr_size = (if flags AND DEVIO_DISABLED \<noteq> 0 then 0 else sz),
                       pr_is_ram = False, pr_devram_flags = 0, pr_phys_mem = None,
                       pr_dev = dev, pr_devio_flags = flags\<rparr>]))"

text \<open>
  Moving or disabling a range. The second component is the call of the map's
  \<open>flush_tlb_write_range\<close> hook, if the code makes one: the host pointer and the size.
\<close>

definition rv_set_addr ::
    "phys_range \<Rightarrow> u64 \<Rightarrow> bool \<Rightarrow> phys_range \<times> (nat option \<times> u64) option" where
  "rv_set_addr pr addr enabled =
     (let flush = (if pr_is_ram pr then Some (pr_phys_mem pr, pr_org_size pr) else None)
      in if enabled then
           (if pr_size pr = 0 \<or> pr_addr pr \<noteq> addr
            then (pr\<lparr>pr_addr := addr, pr_size := pr_org_size pr\<rparr>, flush)
            else (pr, None))
         else if pr_size pr \<noteq> 0 then (pr\<lparr>pr_addr := 0, pr_size := 0\<rparr>, flush)
         else (pr, None))"

definition phys_mem_set_addr ::
    "phys_map \<Rightarrow> nat \<Rightarrow> u64 \<Rightarrow> bool \<Rightarrow> phys_map \<times> (nat option \<times> u64) option" where
  "phys_mem_set_addr s i addr enabled =
     (let (pr, fl) = rv_set_addr (s ! i) addr enabled in (s[i := pr], fl))"

definition rv_free_ram :: "phys_range \<Rightarrow> phys_range" where
  "rv_free_ram pr = pr\<lparr>pr_phys_mem := None\<rparr>"

text \<open>The offset arithmetic of a pointer into the block; a range with no memory has no pointer.\<close>

definition phys_mem_get_ram_ptr :: "phys_map \<Rightarrow> u64 \<Rightarrow> nat option" where
  "phys_mem_get_ram_ptr s paddr =
     (case get_phys_mem_range s paddr of
        None \<Rightarrow> None
      | Some pr \<Rightarrow>
          if pr_is_ram pr
          then map_option (\<lambda>p. p + unat (paddr - pr_addr pr)) (pr_phys_mem pr) else None)"

section \<open>The decoding contract\<close>

text \<open>
  What the CPU's slow paths need from the map: a lookup names a region that covers the
  address, an address some region covers is always found, and in a map in good order at most
  one region covers an address. Then decoding is a function of the regions alone, whatever
  order they were registered in.
\<close>

locale phys_bus =
  fixes lookup :: "'m \<Rightarrow> u64 \<Rightarrow> 'r option"
    and covers :: "'r \<Rightarrow> u64 \<Rightarrow> bool"
    and regions :: "'m \<Rightarrow> 'r set"
    and good :: "'m \<Rightarrow> bool"
  assumes lookup_covers: "lookup m a = Some r \<Longrightarrow> r \<in> regions m \<and> covers r a"
    and lookup_total: "r \<in> regions m \<Longrightarrow> covers r a \<Longrightarrow> lookup m a \<noteq> None"
    and good_unique:
      "good m \<Longrightarrow> r \<in> regions m \<Longrightarrow> r' \<in> regions m \<Longrightarrow> covers r a \<Longrightarrow> covers r' a \<Longrightarrow> r = r'"
begin

lemma lookup_iff: "good m \<Longrightarrow> lookup m a = Some r \<longleftrightarrow> r \<in> regions m \<and> covers r a"
  using lookup_covers lookup_total good_unique by (metis not_Some_eq)

lemma lookup_None: "lookup m a = None \<longleftrightarrow> (\<forall>r \<in> regions m. \<not> covers r a)"
  using lookup_covers lookup_total by (metis not_None_eq)

lemma order_irrelevant:
  "good m \<Longrightarrow> good m' \<Longrightarrow> regions m = regions m' \<Longrightarrow> lookup m a = lookup m' a"
  using lookup_iff by (metis option.exhaust)

end

section \<open>Maps in good order\<close>

definition range_disjoint :: "phys_range \<Rightarrow> phys_range \<Rightarrow> bool" where
  "range_disjoint p q \<longleftrightarrow>
     unat (pr_addr p) + unat (pr_size p) \<le> unat (pr_addr q) \<or>
     unat (pr_addr q) + unat (pr_size q) \<le> unat (pr_addr p)"

fun map_disjoint :: "phys_map \<Rightarrow> bool" where
  "map_disjoint [] \<longleftrightarrow> True"
| "map_disjoint (p # ps) \<longleftrightarrow>
     unat (pr_addr p) + unat (pr_size p) < 2 ^ 64 \<and> list_all (range_disjoint p) ps \<and> map_disjoint ps"

lemma pr_covers_unat:
  assumes "unat (pr_addr p) + unat (pr_size p) < 2 ^ 64"
  shows "pr_covers p a \<longleftrightarrow>
    unat (pr_addr p) \<le> unat a \<and> unat a < unat (pr_addr p) + unat (pr_size p)"
  using assms by (simp add: pr_covers_def word_le_nat_alt word_less_nat_alt unat_word_ariths)

lemma get_range_covers:
  "get_phys_mem_range s a = Some r \<Longrightarrow> r \<in> set s \<and> pr_covers r a"
  by (induction s) (auto split: if_splits)

lemma get_range_total: "r \<in> set s \<Longrightarrow> pr_covers r a \<Longrightarrow> get_phys_mem_range s a \<noteq> None"
  by (induction s) auto

lemma map_disjoint_bound:
  "map_disjoint s \<Longrightarrow> r \<in> set s \<Longrightarrow> unat (pr_addr r) + unat (pr_size r) < 2 ^ 64"
  by (induction s) auto

lemma range_disjoint_covers:
  "range_disjoint p q \<Longrightarrow> unat (pr_addr p) + unat (pr_size p) < 2 ^ 64 \<Longrightarrow>
   unat (pr_addr q) + unat (pr_size q) < 2 ^ 64 \<Longrightarrow> pr_covers p a \<Longrightarrow> \<not> pr_covers q a"
  by (auto simp: range_disjoint_def pr_covers_unat)

lemma map_disjoint_unique:
  "map_disjoint s \<Longrightarrow> r \<in> set s \<Longrightarrow> r' \<in> set s \<Longrightarrow> pr_covers r a \<Longrightarrow> pr_covers r' a \<Longrightarrow> r = r'"
proof (induction s)
  case (Cons p ps)
  have "\<not> pr_covers q a" if "q \<in> set ps" "pr_covers p a" for q
    using that Cons.prems(1) range_disjoint_covers map_disjoint_bound by (auto simp: list_all_iff)
  with Cons show ?case by auto
qed simp

interpretation iobus: phys_bus get_phys_mem_range pr_covers set map_disjoint
  by unfold_locales
     (auto dest: get_range_covers get_range_total intro: map_disjoint_unique)

section \<open>Registration\<close>

lemma register_device_lookup:
  "cpu_register_device s addr sz dev flags = Some s' \<Longrightarrow>
   get_phys_mem_range s' a =
     (case get_phys_mem_range s a of
        Some r \<Rightarrow> Some r
      | None \<Rightarrow> if pr_covers (last s') a then Some (last s') else None)"
proof -
  assume "cpu_register_device s addr sz dev flags = Some s'"
  then obtain r where s': "s' = s @ [r]"
    by (auto simp: cpu_register_device_def split: if_splits)
  show ?thesis unfolding s'
    by (induction s) (auto split: option.splits)
qed

lemma register_length:
  "cpu_register_device s addr sz dev flags = Some s' \<Longrightarrow> length s' = Suc (length s)"
  "register_ram_entry s addr sz' flags = Some (s'', i) \<Longrightarrow> length s'' = Suc (length s)"
  by (auto simp: cpu_register_device_def register_ram_entry_def split: if_splits)

lemma register_ram_entry_nth:
  "register_ram_entry s addr sz flags = Some (s', i) \<Longrightarrow> i = length s"
  by (auto simp: register_ram_entry_def split: if_splits)

lemma map_disjoint_append:
  "map_disjoint (s @ [r]) \<longleftrightarrow> map_disjoint s \<and>
     unat (pr_addr r) + unat (pr_size r) < 2 ^ 64 \<and> (\<forall>p \<in> set s. range_disjoint p r)"
  by (induction s) (auto simp: list_all_iff)

end
