(* ===== verification/Cpu.thy ===== *)
theory Cpu
  imports Iomem
begin

text \<open>
  The hart's control state of \<open>emu/riscv_cpu.c\<close> and \<open>emu/riscv_cpu_priv.h\<close>, built as the port
  builds it: MAX_XLEN = 32, FLEN = 64, the C extension and the host SBI on. Registers and CSRs
  are a record; the TLBs are functions of the slot number (the code's arrays of 256). The
  instruction interpreter itself is not here. First the operations, in the order of the
  source, then what they keep and what a trap and its return do.
\<close>

section \<open>Constants\<close>

definition TLB_SIZE :: nat where "TLB_SIZE = 256"
definition PG_SHIFT :: nat where "PG_SHIFT = 12"
definition PG_MASK :: u32 where "PG_MASK = 0xfff"

definition CAUSE_FAULT_FETCH :: u32 where "CAUSE_FAULT_FETCH = 1"
definition CAUSE_ILLEGAL_INSTRUCTION :: u32 where "CAUSE_ILLEGAL_INSTRUCTION = 2"
definition CAUSE_SUPERVISOR_ECALL :: u32 where "CAUSE_SUPERVISOR_ECALL = 9"
definition CAUSE_FETCH_PAGE_FAULT :: u32 where "CAUSE_FETCH_PAGE_FAULT = 0xc"
definition CAUSE_LOAD_PAGE_FAULT :: u32 where "CAUSE_LOAD_PAGE_FAULT = 0xd"
definition CAUSE_STORE_PAGE_FAULT :: u32 where "CAUSE_STORE_PAGE_FAULT = 0xf"
definition CAUSE_INTERRUPT :: u32 where "CAUSE_INTERRUPT = 0x80000000"

definition PRV_U :: nat where "PRV_U = 0"
definition PRV_S :: nat where "PRV_S = 1"
definition PRV_M :: nat where "PRV_M = 3"

definition MSTATUS_UIE :: u32 where "MSTATUS_UIE = 0x1"
definition MSTATUS_SIE :: u32 where "MSTATUS_SIE = 0x2"
definition MSTATUS_MIE :: u32 where "MSTATUS_MIE = 0x8"
definition MSTATUS_UPIE :: u32 where "MSTATUS_UPIE = 0x10"
definition MSTATUS_SPIE :: u32 where "MSTATUS_SPIE = 0x20"
definition MSTATUS_MPIE :: u32 where "MSTATUS_MPIE = 0x80"
definition MSTATUS_SPP :: u32 where "MSTATUS_SPP = 0x100"
definition MSTATUS_MPP :: u32 where "MSTATUS_MPP = 0x1800"
definition MSTATUS_FS :: u32 where "MSTATUS_FS = 0x6000"
definition MSTATUS_XS :: u32 where "MSTATUS_XS = 0x18000"
definition MSTATUS_MPRV :: u32 where "MSTATUS_MPRV = 0x20000"
definition MSTATUS_SUM :: u32 where "MSTATUS_SUM = 0x40000"
definition MSTATUS_MXR :: u32 where "MSTATUS_MXR = 0x80000"

definition MIP_SSIP :: u32 where "MIP_SSIP = 0x2"
definition MIP_MSIP :: u32 where "MIP_MSIP = 0x8"
definition MIP_STIP :: u32 where "MIP_STIP = 0x20"
definition MIP_MTIP :: u32 where "MIP_MTIP = 0x80"
definition MIP_SEIP :: u32 where "MIP_SEIP = 0x200"

definition MCPUID_SUPER :: u32 where "MCPUID_SUPER = push_bit 18 1"
definition MCPUID_USER :: u32 where "MCPUID_USER = push_bit 20 1"
definition MCPUID_I :: u32 where "MCPUID_I = push_bit 8 1"
definition MCPUID_M :: u32 where "MCPUID_M = push_bit 12 1"
definition MCPUID_A :: u32 where "MCPUID_A = push_bit 0 1"
definition MCPUID_F :: u32 where "MCPUID_F = push_bit 5 1"
definition MCPUID_D :: u32 where "MCPUID_D = push_bit 3 1"
definition MCPUID_C :: u32 where "MCPUID_C = push_bit 2 1"

lemmas prv_defs = PRV_U_def PRV_S_def PRV_M_def

lemmas cause_defs =
  CAUSE_FAULT_FETCH_def CAUSE_ILLEGAL_INSTRUCTION_def CAUSE_SUPERVISOR_ECALL_def
  CAUSE_FETCH_PAGE_FAULT_def CAUSE_LOAD_PAGE_FAULT_def CAUSE_STORE_PAGE_FAULT_def CAUSE_INTERRUPT_def

lemmas mstatus_defs =
  MSTATUS_UIE_def MSTATUS_SIE_def MSTATUS_MIE_def MSTATUS_UPIE_def MSTATUS_SPIE_def
  MSTATUS_MPIE_def MSTATUS_SPP_def MSTATUS_MPP_def MSTATUS_FS_def MSTATUS_XS_def
  MSTATUS_MPRV_def MSTATUS_SUM_def MSTATUS_MXR_def

lemmas mip_defs = MIP_SSIP_def MIP_MSIP_def MIP_STIP_def MIP_MTIP_def MIP_SEIP_def

lemmas mcpuid_defs = MCPUID_SUPER_def MCPUID_USER_def MCPUID_I_def MCPUID_M_def MCPUID_A_def
  MCPUID_F_def MCPUID_D_def MCPUID_C_def

section \<open>State\<close>

record tlb_entry =
  tlb_vaddr :: u32
  tlb_addend :: int

record cpu =
  c_pc :: u32
  c_reg :: "nat \<Rightarrow> u32"
  c_fp_reg :: "nat \<Rightarrow> u64"
  c_fflags :: u32
  c_frm :: u32
  c_cur_xlen :: nat
  c_priv :: nat
  c_fs :: u32
  c_mxl :: u32
  c_n_cycles :: int
  c_insn_counter :: u64
  c_power_down_flag :: bool
  c_pending_exception :: u32
  c_pending_tval :: u32
  c_mstatus :: u32
  c_mtvec :: u32
  c_mscratch :: u32
  c_mepc :: u32
  c_mcause :: u32
  c_mtval :: u32
  c_mhartid :: u32
  c_misa :: u32
  c_mie :: u32
  c_mip :: u32
  c_medeleg :: u32
  c_mideleg :: u32
  c_mcounteren :: u32
  c_stvec :: u32
  c_sscratch :: u32
  c_sepc :: u32
  c_scause :: u32
  c_stval :: u32
  c_satp :: u32
  c_scounteren :: u32
  c_load_res :: u32
  c_tlb_read :: "nat \<Rightarrow> tlb_entry"
  c_tlb_write :: "nat \<Rightarrow> tlb_entry"
  c_tlb_code :: "nat \<Rightarrow> tlb_entry"

text \<open>What \<open>mallocz()\<close> returns: every field zero.\<close>

definition tlb_zero :: tlb_entry where
  "tlb_zero = \<lparr>tlb_vaddr = 0, tlb_addend = 0\<rparr>"

definition cpu_zero :: cpu where
  "cpu_zero = \<lparr>c_pc = 0, c_reg = (\<lambda>_. 0), c_fp_reg = (\<lambda>_. 0), c_fflags = 0, c_frm = 0,
     c_cur_xlen = 0, c_priv = 0, c_fs = 0, c_mxl = 0, c_n_cycles = 0, c_insn_counter = 0,
     c_power_down_flag = False, c_pending_exception = 0, c_pending_tval = 0,
     c_mstatus = 0, c_mtvec = 0, c_mscratch = 0, c_mepc = 0, c_mcause = 0, c_mtval = 0,
     c_mhartid = 0, c_misa = 0, c_mie = 0, c_mip = 0, c_medeleg = 0, c_mideleg = 0,
     c_mcounteren = 0, c_stvec = 0, c_sscratch = 0, c_sepc = 0, c_scause = 0, c_stval = 0,
     c_satp = 0, c_scounteren = 0, c_load_res = 0,
     c_tlb_read = (\<lambda>_. tlb_zero), c_tlb_write = (\<lambda>_. tlb_zero), c_tlb_code = (\<lambda>_. tlb_zero)\<rparr>"

section \<open>TLB maintenance\<close>

definition tlb_invalidate :: "(nat \<Rightarrow> tlb_entry) \<Rightarrow> nat \<Rightarrow> tlb_entry" where
  "tlb_invalidate t = (\<lambda>i. if i < TLB_SIZE then (t i)\<lparr>tlb_vaddr := -1\<rparr> else t i)"

definition tlb_init :: "cpu \<Rightarrow> cpu" where
  "tlb_init s = s\<lparr>c_tlb_read := tlb_invalidate (c_tlb_read s),
                 c_tlb_write := tlb_invalidate (c_tlb_write s),
                 c_tlb_code := tlb_invalidate (c_tlb_code s)\<rparr>"

definition tlb_flush_all :: "cpu \<Rightarrow> cpu" where
  "tlb_flush_all s = tlb_init s"

definition tlb_flush_vaddr :: "cpu \<Rightarrow> u32 \<Rightarrow> cpu" where
  "tlb_flush_vaddr s vaddr = tlb_flush_all s"

definition riscv_cpu_flush_tlb_write_range_ram :: "cpu \<Rightarrow> int \<Rightarrow> int \<Rightarrow> cpu" where
  "riscv_cpu_flush_tlb_write_range_ram s ram_ptr ram_size =
     s\<lparr>c_tlb_write := (\<lambda>i. let t = c_tlb_write s i;
                              ptr = tlb_addend t + uint (tlb_vaddr t)
                          in if i < TLB_SIZE \<and> tlb_vaddr t \<noteq> -1 \<and> ram_ptr \<le> ptr \<and> ptr < ram_ptr + ram_size
                             then t\<lparr>tlb_vaddr := -1\<rparr> else t)\<rparr>"

section \<open>mstatus\<close>

definition SSTATUS_MASK :: u32 where
  "SSTATUS_MASK = MSTATUS_UIE OR MSTATUS_SIE OR MSTATUS_UPIE OR MSTATUS_SPIE OR MSTATUS_SPP OR
     MSTATUS_FS OR MSTATUS_XS OR MSTATUS_SUM OR MSTATUS_MXR"

definition MSTATUS_MASK :: u32 where
  "MSTATUS_MASK = MSTATUS_UIE OR MSTATUS_SIE OR MSTATUS_MIE OR MSTATUS_UPIE OR MSTATUS_SPIE OR
     MSTATUS_MPIE OR MSTATUS_SPP OR MSTATUS_MPP OR MSTATUS_FS OR MSTATUS_MPRV OR MSTATUS_SUM OR
     MSTATUS_MXR"

definition COUNTEREN_MASK :: u32 where
  "COUNTEREN_MASK = 0x7"

definition get_mstatus :: "cpu \<Rightarrow> u32 \<Rightarrow> u32" where
  "get_mstatus s msk =
     (let val = (c_mstatus s OR push_bit 13 (c_fs s)) AND msk;
          sd = (val AND MSTATUS_FS = MSTATUS_FS \<or> val AND MSTATUS_XS = MSTATUS_XS)
      in if sd then val OR push_bit (c_cur_xlen s - 1) 1 else val)"

definition get_base_from_xlen :: "nat \<Rightarrow> u32" where
  "get_base_from_xlen xlen = (if xlen = 32 then 1 else if xlen = 64 then 2 else 3)"

definition set_mstatus :: "cpu \<Rightarrow> u32 \<Rightarrow> cpu" where
  "set_mstatus s val =
     (let md = c_mstatus s XOR val;
          s1 = (if md AND (MSTATUS_MPRV OR MSTATUS_SUM OR MSTATUS_MXR) \<noteq> 0 \<or>
                   c_mstatus s AND MSTATUS_MPRV \<noteq> 0 \<and> md AND MSTATUS_MPP \<noteq> 0
                then tlb_flush_all s else s);
          msk = MSTATUS_MASK AND NOT MSTATUS_FS
      in s1\<lparr>c_fs := drop_bit 13 val AND 3,
            c_mstatus := (c_mstatus s AND NOT msk) OR (val AND msk)\<rparr>)"

section \<open>CSR access\<close>

text \<open>
  \<open>csr_read()\<close> and \<open>csr_write()\<close>. A read returns None for an invalid CSR; the machine time is
  an argument because \<open>riscv_host_rdtime()\<close> reads it from the machine. A write returns the code's
  result (-1 invalid, 0 done, 2 TLBs flushed).
\<close>

definition counteren_ok :: "cpu \<Rightarrow> u32 \<Rightarrow> bool" where
  "counteren_ok s csr \<longleftrightarrow>
     (if c_priv s < PRV_M
      then bit (if c_priv s < PRV_S then c_scounteren s else c_mcounteren s) (unat (csr AND 0x1f))
      else True)"

definition csr_read :: "u64 \<Rightarrow> cpu \<Rightarrow> u32 \<Rightarrow> bool \<Rightarrow> u32 option" where
  "csr_read rdtime s csr will_write =
    (if csr AND 0xc00 = 0xc00 \<and> will_write then None
     else if c_priv s < unat (drop_bit 8 csr AND 3) then None
     else if csr = 0x001 then (if c_fs s = 0 then None else Some (c_fflags s))
     else if csr = 0x002 then (if c_fs s = 0 then None else Some (c_frm s))
     else if csr = 0x003 then (if c_fs s = 0 then None else Some (c_fflags s OR push_bit 5 (c_frm s)))
     else if csr = 0xc00 \<or> csr = 0xc02 then
       (if counteren_ok s csr then Some (ucast (c_insn_counter s)) else None)
     else if csr = 0xc01 \<or> csr = 0xc81 then
       (if csr = 0xc81 \<and> c_cur_xlen s \<noteq> 32 then None
        else if counteren_ok s csr then
          Some (if csr = 0xc81 then ucast (drop_bit 32 rdtime) else ucast rdtime)
        else None)
     else if csr = 0xc80 \<or> csr = 0xc82 then
       (if c_cur_xlen s \<noteq> 32 then None
        else if counteren_ok s csr then Some (ucast (drop_bit 32 (c_insn_counter s))) else None)
     else if csr = 0x100 then Some (get_mstatus s SSTATUS_MASK)
     else if csr = 0x104 then Some (c_mie s AND c_mideleg s)
     else if csr = 0x105 then Some (c_stvec s)
     else if csr = 0x106 then Some (c_scounteren s)
     else if csr = 0x140 then Some (c_sscratch s)
     else if csr = 0x141 then Some (c_sepc s)
     else if csr = 0x142 then Some (c_scause s)
     else if csr = 0x143 then Some (c_stval s)
     else if csr = 0x144 then Some (c_mip s AND c_mideleg s)
     else if csr = 0x180 then Some (c_satp s)
     else if csr = 0x300 then Some (get_mstatus s (-1))
     else if csr = 0x301 then Some (c_misa s OR push_bit (c_cur_xlen s - 2) (c_mxl s))
     else if csr = 0x302 then Some (c_medeleg s)
     else if csr = 0x303 then Some (c_mideleg s)
     else if csr = 0x304 then Some (c_mie s)
     else if csr = 0x305 then Some (c_mtvec s)
     else if csr = 0x306 then Some (c_mcounteren s)
     else if csr = 0x340 then Some (c_mscratch s)
     else if csr = 0x341 then Some (c_mepc s)
     else if csr = 0x342 then Some (c_mcause s)
     else if csr = 0x343 then Some (c_mtval s)
     else if csr = 0x344 then Some (c_mip s)
     else if csr = 0xb00 \<or> csr = 0xb02 then Some (ucast (c_insn_counter s))
     else if csr = 0xb80 \<or> csr = 0xb82 then
       (if c_cur_xlen s \<noteq> 32 then None else Some (ucast (drop_bit 32 (c_insn_counter s))))
     else if csr = 0xf14 then Some (c_mhartid s)
     else None)"

definition set_frm :: "cpu \<Rightarrow> u32 \<Rightarrow> cpu" where
  "set_frm s val = s\<lparr>c_frm := (if 5 \<le> val then 0 else val)\<rparr>"

definition get_insn_rm :: "cpu \<Rightarrow> u32 \<Rightarrow> u32 option" where
  "get_insn_rm s rm = (if rm = 7 then Some (c_frm s) else if 5 \<le> rm then None else Some rm)"

definition csr_mix :: "u32 \<Rightarrow> u32 \<Rightarrow> u32 \<Rightarrow> u32" where
  "csr_mix msk old val = (old AND NOT msk) OR (val AND msk)"

definition csr_write :: "cpu \<Rightarrow> u32 \<Rightarrow> u32 \<Rightarrow> cpu \<times> int" where
  "csr_write s csr val =
    (if csr = 0x001 then (s\<lparr>c_fflags := val AND 0x1f, c_fs := 3\<rparr>, 0)
     else if csr = 0x002 then ((set_frm s (val AND 7))\<lparr>c_fs := 3\<rparr>, 0)
     else if csr = 0x003 then
       ((set_frm s (drop_bit 5 val AND 7))\<lparr>c_fflags := val AND 0x1f, c_fs := 3\<rparr>, 0)
     else if csr = 0x100 then
       (set_mstatus s ((c_mstatus s AND NOT SSTATUS_MASK) OR (val AND SSTATUS_MASK)), 0)
     else if csr = 0x104 then (s\<lparr>c_mie := csr_mix (c_mideleg s) (c_mie s) val\<rparr>, 0)
     else if csr = 0x105 then (s\<lparr>c_stvec := val AND NOT 3\<rparr>, 0)
     else if csr = 0x106 then (s\<lparr>c_scounteren := val AND COUNTEREN_MASK\<rparr>, 0)
     else if csr = 0x140 then (s\<lparr>c_sscratch := val\<rparr>, 0)
     else if csr = 0x141 then (s\<lparr>c_sepc := val AND NOT 1\<rparr>, 0)
     else if csr = 0x142 then (s\<lparr>c_scause := val\<rparr>, 0)
     else if csr = 0x143 then (s\<lparr>c_stval := val\<rparr>, 0)
     else if csr = 0x144 then (s\<lparr>c_mip := csr_mix (c_mideleg s) (c_mip s) val\<rparr>, 0)
     else if csr = 0x180 then
       (tlb_flush_all (s\<lparr>c_satp := (val AND 0x3fffff) OR push_bit 31 (drop_bit 31 val AND 1)\<rparr>), 2)
     else if csr = 0x300 then (set_mstatus s val, 0)
     else if csr = 0x301 then (s, 0)
     else if csr = 0x302 then (s\<lparr>c_medeleg := csr_mix 0xffff (c_medeleg s) val\<rparr>, 0)
     else if csr = 0x303 then
       (s\<lparr>c_mideleg := csr_mix (MIP_SSIP OR MIP_STIP OR MIP_SEIP) (c_mideleg s) val\<rparr>, 0)
     else if csr = 0x304 then
       (s\<lparr>c_mie := csr_mix (MIP_MSIP OR MIP_MTIP OR MIP_SSIP OR MIP_STIP OR MIP_SEIP) (c_mie s) val\<rparr>, 0)
     else if csr = 0x305 then (s\<lparr>c_mtvec := val AND NOT 3\<rparr>, 0)
     else if csr = 0x306 then (s\<lparr>c_mcounteren := val AND COUNTEREN_MASK\<rparr>, 0)
     else if csr = 0x340 then (s\<lparr>c_mscratch := val\<rparr>, 0)
     else if csr = 0x341 then (s\<lparr>c_mepc := val AND NOT 1\<rparr>, 0)
     else if csr = 0x342 then (s\<lparr>c_mcause := val\<rparr>, 0)
     else if csr = 0x343 then (s\<lparr>c_mtval := val\<rparr>, 0)
     else if csr = 0x344 then (s\<lparr>c_mip := csr_mix (MIP_SSIP OR MIP_STIP) (c_mip s) val\<rparr>, 0)
     else (s, -1))"

section \<open>Traps\<close>

definition set_priv :: "cpu \<Rightarrow> nat \<Rightarrow> cpu" where
  "set_priv s priv = (if c_priv s \<noteq> priv then (tlb_flush_all s)\<lparr>c_priv := priv\<rparr> else s)"

text \<open>
  \<open>raise_exception2()\<close> from the delegation decision on. The part before it, which hands an
  S-mode ecall to the host, is \<open>raise_exception2\<close> of the theory Hostsbi.
\<close>

definition trap_delegated :: "cpu \<Rightarrow> u32 \<Rightarrow> bool" where
  "trap_delegated s cause \<longleftrightarrow> c_priv s \<le> PRV_S \<and>
     (if cause AND CAUSE_INTERRUPT \<noteq> 0 then bit (c_mideleg s) (unat (cause AND 31))
      else bit (c_medeleg s) (unat cause))"

definition deliver_trap :: "cpu \<Rightarrow> u32 \<Rightarrow> u32 \<Rightarrow> cpu" where
  "deliver_trap s cause tval =
     (let causel = (cause AND 0x7fffffff) OR
                   (if cause AND CAUSE_INTERRUPT \<noteq> 0 then push_bit (c_cur_xlen s - 1) 1 else 0);
          ie = drop_bit (c_priv s) (c_mstatus s) AND 1
      in if trap_delegated s cause then
           let ms1 = (c_mstatus s AND NOT MSTATUS_SPIE) OR push_bit 5 ie;
               ms2 = (ms1 AND NOT MSTATUS_SPP) OR push_bit 8 (of_nat (c_priv s));
               s1 = set_priv (s\<lparr>c_scause := causel, c_sepc := c_pc s, c_stval := tval,
                               c_mstatus := ms2 AND NOT MSTATUS_SIE\<rparr>) PRV_S
           in s1\<lparr>c_pc := c_stvec s\<rparr>
         else
           let ms1 = (c_mstatus s AND NOT MSTATUS_MPIE) OR push_bit 7 ie;
               ms2 = (ms1 AND NOT MSTATUS_MPP) OR push_bit 11 (of_nat (c_priv s));
               s1 = set_priv (s\<lparr>c_mcause := causel, c_mepc := c_pc s, c_mtval := tval,
                               c_mstatus := ms2 AND NOT MSTATUS_MIE\<rparr>) PRV_M
           in s1\<lparr>c_pc := c_mtvec s\<rparr>)"

definition handle_sret :: "cpu \<Rightarrow> cpu" where
  "handle_sret s =
     (let spp = unat (drop_bit 8 (c_mstatus s) AND 1);
          spie = drop_bit 5 (c_mstatus s) AND 1;
          ms1 = (c_mstatus s AND NOT (push_bit spp 1)) OR push_bit spp spie;
          ms2 = (ms1 OR MSTATUS_SPIE) AND NOT MSTATUS_SPP
      in (set_priv (s\<lparr>c_mstatus := ms2\<rparr>) spp)\<lparr>c_pc := c_sepc s\<rparr>)"

definition handle_mret :: "cpu \<Rightarrow> cpu" where
  "handle_mret s =
     (let mpp = unat (drop_bit 11 (c_mstatus s) AND 3);
          mpie = drop_bit 7 (c_mstatus s) AND 1;
          ms1 = (c_mstatus s AND NOT (push_bit mpp 1)) OR push_bit mpp mpie;
          ms2 = (ms1 OR MSTATUS_MPIE) AND NOT MSTATUS_MPP
      in (set_priv (s\<lparr>c_mstatus := ms2\<rparr>) mpp)\<lparr>c_pc := c_mepc s\<rparr>)"

section \<open>Interrupts\<close>

definition get_pending_irq_mask :: "cpu \<Rightarrow> u32" where
  "get_pending_irq_mask s =
     (let pending = c_mip s AND c_mie s
      in if pending = 0 then 0
         else if c_priv s = PRV_M then
           pending AND (if c_mstatus s AND MSTATUS_MIE \<noteq> 0 then NOT (c_mideleg s) else 0)
         else if c_priv s = PRV_S then
           pending AND (NOT (c_mideleg s) OR (if c_mstatus s AND MSTATUS_SIE \<noteq> 0 then c_mideleg s else 0))
         else pending)"

definition ctz32 :: "u32 \<Rightarrow> nat" where
  "ctz32 a = (case find (\<lambda>i. bit a i) [0..<32] of Some i \<Rightarrow> i | None \<Rightarrow> 32)"

text \<open>The interrupt the hart takes next, if any: the cause \<open>raise_interrupt()\<close> raises.\<close>

definition raise_interrupt :: "cpu \<Rightarrow> cpu \<times> int" where
  "raise_interrupt s =
     (let msk = get_pending_irq_mask s
      in if msk = 0 then (s, 0)
         else (deliver_trap s (of_nat (ctz32 msk) OR CAUSE_INTERRUPT) 0, -1))"

definition riscv_cpu_set_mip :: "cpu \<Rightarrow> u32 \<Rightarrow> cpu" where
  "riscv_cpu_set_mip s msk =
     (let mip = c_mip s OR msk
      in s\<lparr>c_mip := mip,
           c_power_down_flag := (c_power_down_flag s \<and> mip AND c_mie s = 0)\<rparr>)"

definition riscv_cpu_reset_mip :: "cpu \<Rightarrow> u32 \<Rightarrow> cpu" where
  "riscv_cpu_reset_mip s msk = s\<lparr>c_mip := c_mip s AND NOT msk\<rparr>"

definition riscv_cpu_init :: cpu where
  "riscv_cpu_init =
     tlb_init (cpu_zero\<lparr>c_pc := 0x1000, c_priv := PRV_M, c_cur_xlen := 32,
       c_mxl := get_base_from_xlen 32,
       c_mstatus := ucast (push_bit 32 (ucast (get_base_from_xlen 32)) OR
                           push_bit 34 (ucast (get_base_from_xlen 32)) :: u64),
       c_misa := MCPUID_SUPER OR MCPUID_USER OR MCPUID_I OR MCPUID_M OR MCPUID_A OR
                 MCPUID_F OR MCPUID_D OR MCPUID_C\<rparr>)"

text \<open>\<open>riscv_cpu_boot_smode()\<close> of \<open>emu/rv_hostsbi.c\<close>: a fresh hart enters the kernel in S-mode.\<close>

definition riscv_cpu_boot_smode :: "cpu \<Rightarrow> u32 \<Rightarrow> u32 \<Rightarrow> u32 \<Rightarrow> cpu" where
  "riscv_cpu_boot_smode s pc hartid dtb_paddr =
     s\<lparr>c_priv := PRV_S, c_pc := pc,
       c_medeleg := 0xffff AND NOT (push_bit 9 1 OR push_bit 10 1 OR push_bit 11 1),
       c_mideleg := MIP_SSIP OR MIP_STIP OR MIP_SEIP,
       c_mcounteren := 0x7,
       c_mstatus := c_mstatus s AND NOT (MSTATUS_SIE OR MSTATUS_MIE),
       c_satp := 0,
       c_reg := (\<lambda>_. 0)(10 := hartid, 11 := dtb_paddr),
       c_mhartid := hartid\<rparr>"

section \<open>What each operation leaves alone\<close>

named_theorems cpu_frame

lemma tlb_flush_frame [cpu_frame, simp]:
  "c_priv (tlb_flush_all s) = c_priv s" "c_mstatus (tlb_flush_all s) = c_mstatus s"
  "c_pc (tlb_flush_all s) = c_pc s" "c_sepc (tlb_flush_all s) = c_sepc s"
  "c_medeleg (tlb_flush_all s) = c_medeleg s" "c_mideleg (tlb_flush_all s) = c_mideleg s"
  "c_mie (tlb_flush_all s) = c_mie s" "c_mip (tlb_flush_all s) = c_mip s"
  "c_cur_xlen (tlb_flush_all s) = c_cur_xlen s" "c_reg (tlb_flush_all s) = c_reg s"
  "c_scause (tlb_flush_all s) = c_scause s" "c_stval (tlb_flush_all s) = c_stval s"
  "c_stvec (tlb_flush_all s) = c_stvec s" "c_satp (tlb_flush_all s) = c_satp s"
  by (simp_all add: tlb_flush_all_def tlb_init_def)

lemma set_priv_frame [cpu_frame, simp]:
  "c_priv (set_priv s p) = p" "c_mstatus (set_priv s p) = c_mstatus s"
  "c_pc (set_priv s p) = c_pc s" "c_sepc (set_priv s p) = c_sepc s"
  "c_medeleg (set_priv s p) = c_medeleg s" "c_mideleg (set_priv s p) = c_mideleg s"
  "c_mie (set_priv s p) = c_mie s" "c_mip (set_priv s p) = c_mip s"
  "c_cur_xlen (set_priv s p) = c_cur_xlen s" "c_reg (set_priv s p) = c_reg s"
  "c_scause (set_priv s p) = c_scause s" "c_stval (set_priv s p) = c_stval s"
  by (auto simp: set_priv_def)

lemma set_mstatus_frame [cpu_frame, simp]:
  "c_priv (set_mstatus s v) = c_priv s" "c_medeleg (set_mstatus s v) = c_medeleg s"
  "c_mideleg (set_mstatus s v) = c_mideleg s" "c_mie (set_mstatus s v) = c_mie s"
  "c_cur_xlen (set_mstatus s v) = c_cur_xlen s" "c_mip (set_mstatus s v) = c_mip s"
  by (auto simp: set_mstatus_def Let_def)

lemma deliver_trap_frame [cpu_frame, simp]:
  "c_medeleg (deliver_trap s c t) = c_medeleg s" "c_mideleg (deliver_trap s c t) = c_mideleg s"
  "c_mie (deliver_trap s c t) = c_mie s" "c_cur_xlen (deliver_trap s c t) = c_cur_xlen s"
  "c_reg (deliver_trap s c t) = c_reg s" "c_mip (deliver_trap s c t) = c_mip s"
  by (auto simp: deliver_trap_def Let_def)

lemma handle_sret_frame [cpu_frame, simp]:
  "c_medeleg (handle_sret s) = c_medeleg s" "c_mideleg (handle_sret s) = c_mideleg s"
  "c_mie (handle_sret s) = c_mie s" "c_cur_xlen (handle_sret s) = c_cur_xlen s"
  "c_pc (handle_sret s) = c_sepc s" "c_reg (handle_sret s) = c_reg s"
  by (auto simp: handle_sret_def Let_def)

lemma tlb_flush_all_empty: "i < TLB_SIZE \<Longrightarrow>
   tlb_vaddr (c_tlb_read (tlb_flush_all s) i) = -1 \<and>
   tlb_vaddr (c_tlb_write (tlb_flush_all s) i) = -1 \<and>
   tlb_vaddr (c_tlb_code (tlb_flush_all s) i) = -1"
  by (simp add: tlb_flush_all_def tlb_init_def tlb_invalidate_def)

section \<open>Traps and their return\<close>

lemma trap_state_deleg:
  assumes "trap_delegated s c"
  shows "c_pc (deliver_trap s c t) = c_stvec s" "c_priv (deliver_trap s c t) = PRV_S"
    "c_sepc (deliver_trap s c t) = c_pc s" "c_stval (deliver_trap s c t) = t"
    "c_scause (deliver_trap s c t) = (c AND 0x7fffffff) OR
       (if c AND CAUSE_INTERRUPT \<noteq> 0 then push_bit (c_cur_xlen s - 1) 1 else 0)"
  using assms by (simp_all add: deliver_trap_def Let_def)

lemma trap_mstatus_S:
  "trap_delegated s c \<Longrightarrow> c_priv s = PRV_S \<Longrightarrow> c_mstatus (deliver_trap s c t) =
     ((c_mstatus s AND NOT (MSTATUS_SPIE OR MSTATUS_SIE)) OR MSTATUS_SPP) OR
     (if bit (c_mstatus s) 1 then MSTATUS_SPIE else 0)"
  apply (simp add: deliver_trap_def Let_def drop_bit_and_1 prv_defs mstatus_defs)
  apply (intro conjI impI u32_bitsI; simp add: upt_32 bit_simps)
  done

lemma trap_mstatus_U:
  "trap_delegated s c \<Longrightarrow> c_priv s = PRV_U \<Longrightarrow> c_mstatus (deliver_trap s c t) =
     (c_mstatus s AND NOT (MSTATUS_SPIE OR MSTATUS_SIE OR MSTATUS_SPP)) OR
     (if bit (c_mstatus s) 0 then MSTATUS_SPIE else 0)"
  apply (simp add: deliver_trap_def Let_def drop_bit_and_1 prv_defs mstatus_defs)
  apply (intro conjI impI u32_bitsI; simp add: upt_32 bit_simps)
  done

lemma sret_mstatus_1:
  "bit (c_mstatus s) 8 \<Longrightarrow> c_mstatus (handle_sret s) =
     ((c_mstatus s AND NOT (MSTATUS_SIE OR MSTATUS_SPP)) OR MSTATUS_SPIE) OR
     (if bit (c_mstatus s) 5 then MSTATUS_SIE else 0)"
  apply (simp add: handle_sret_def Let_def drop_bit_and_1 mstatus_defs)
  apply (intro conjI impI u32_bitsI; simp add: upt_32 bit_simps)
  done

lemma sret_mstatus_0:
  "\<not> bit (c_mstatus s) 8 \<Longrightarrow> c_mstatus (handle_sret s) =
     ((c_mstatus s AND NOT (MSTATUS_UIE OR MSTATUS_SPP)) OR MSTATUS_SPIE) OR
     (if bit (c_mstatus s) 5 then MSTATUS_UIE else 0)"
  apply (simp add: handle_sret_def Let_def drop_bit_and_1 mstatus_defs)
  apply (intro conjI impI u32_bitsI; simp add: upt_32 bit_simps)
  done

lemma sret_priv: "c_priv (handle_sret s) = (if bit (c_mstatus s) 8 then PRV_S else PRV_U)"
  by (simp add: handle_sret_def Let_def drop_bit_and_1 prv_defs)

lemma trap_sret_S:
  assumes "c_priv s = PRV_S" "trap_delegated s c"
  shows "c_mstatus (handle_sret (deliver_trap s c t)) =
    (c_mstatus s OR MSTATUS_SPIE) AND NOT MSTATUS_SPP"
    and "c_priv (handle_sret (deliver_trap s c t)) = PRV_S"
  using assms
   apply (subst sret_mstatus_1; simp add: trap_mstatus_S mstatus_defs bit_simps)
   apply (intro conjI impI u32_bitsI; simp add: upt_32 bit_simps)
  apply (use assms in \<open>simp add: sret_priv trap_mstatus_S mstatus_defs bit_simps\<close>)
  done

lemma trap_sret_U:
  assumes "c_priv s = PRV_U" "trap_delegated s c"
  shows "c_mstatus (handle_sret (deliver_trap s c t)) =
    (c_mstatus s OR MSTATUS_SPIE) AND NOT (MSTATUS_SPP OR MSTATUS_SIE)"
    and "c_priv (handle_sret (deliver_trap s c t)) = PRV_U"
  using assms
   apply (subst sret_mstatus_0; simp add: trap_mstatus_U mstatus_defs bit_simps)
   apply (intro conjI impI u32_bitsI; simp add: upt_32 bit_simps)
  apply (use assms in \<open>simp add: sret_priv trap_mstatus_U mstatus_defs bit_simps\<close>)
  done

section \<open>The lowest pending interrupt\<close>

lemma ctz32_spec:
  assumes "a \<noteq> 0"
  shows "ctz32 a < 32" "bit a (ctz32 a)" "\<forall>j < ctz32 a. \<not> bit a j"
proof -
  have "\<exists>j. bit a j"
    using assms by (metis bit_0_eq bit_word_eqI bot_apply bot_bool_def)
  then obtain j where "bit a j" by blast
  with bit_imp_le_length [of a j] have "j < 32" "bit a j" by simp_all
  then have "find (bit a) [0..<32] \<noteq> None"
    by (auto simp: find_None_iff)
  then obtain i where i: "find (bit a) [0..<32] = Some i" by auto
  then have "i < 32 \<and> bit a i \<and> (\<forall>j < i. \<not> bit a j)"
    by (auto simp: find_Some_iff)
  with i show "ctz32 a < 32" "bit a (ctz32 a)" "\<forall>j < ctz32 a. \<not> bit a j"
    by (simp_all add: ctz32_def)
qed

section \<open>CSR access rights\<close>

lemma csr_read_low_priv: "c_priv s < unat (drop_bit 8 csr AND 3) \<Longrightarrow> csr_read t s csr w = None"
  by (simp add: csr_read_def)

lemma csr_read_level:
  "csr_read t s csr w = Some v \<Longrightarrow> unat (drop_bit 8 csr AND 3) \<le> c_priv s"
  using csr_read_low_priv by (metis not_le option.distinct(1))

lemma csr_read_readonly: "csr AND 0xc00 = 0xc00 \<Longrightarrow> csr_read t s csr True = None"
  by (simp add: csr_read_def)

lemma set_mstatus_outside:
  "c_mstatus (set_mstatus s ((c_mstatus s AND NOT m) OR (v AND m))) AND NOT m = c_mstatus s AND NOT m"
  by (rule bit_word_eqI) (auto simp: set_mstatus_def Let_def bit_simps)

section \<open>A guest confined to S and U mode\<close>

text \<open>
  What holds of the hart from the moment \<open>riscv_cpu_boot_smode()\<close> hands it to the kernel: it
  is below M-mode, every trap that can arise there is delegated, only supervisor interrupts can
  be enabled, and the M-mode fields of mstatus (MPRV above all) are clear.
\<close>

definition guest_inv :: "cpu \<Rightarrow> bool" where
  "guest_inv s \<longleftrightarrow> c_priv s \<le> PRV_S \<and> c_cur_xlen s = 32 \<and> c_medeleg s = 0xf1ff \<and>
     c_mideleg s = 0x222 \<and> c_mie s AND NOT 0x222 = 0 \<and>
     c_mstatus s AND (MSTATUS_MPRV OR MSTATUS_MPP OR MSTATUS_MIE OR MSTATUS_MPIE) = 0"

text \<open>
  One step the interpreter takes on the hart's control state for code below M-mode: a CSR
  write after the read check, a synchronous exception other than an ecall from S or M, an
  interrupt, a return from S-mode, an interrupt line of the machine, a TLB flush, and any
  change of the program counter, the registers (integer and floating-point) or the counters.
\<close>

inductive guest_step :: "cpu \<Rightarrow> cpu \<Rightarrow> bool" where
  gs_csr: "csr_read t s csr True = Some v \<Longrightarrow> guest_step s (fst (csr_write s csr val))"
| gs_trap: "unat cause < 16 \<Longrightarrow> cause \<notin> {9, 10, 11} \<Longrightarrow> guest_step s (deliver_trap s cause tval)"
| gs_irq: "guest_step s (fst (raise_interrupt s))"
| gs_sret: "PRV_S \<le> c_priv s \<Longrightarrow> guest_step s (handle_sret s)"
| gs_set_mip: "guest_step s (riscv_cpu_set_mip s m)"
| gs_reset_mip: "guest_step s (riscv_cpu_reset_mip s m)"
| gs_sfence: "guest_step s (tlb_flush_vaddr s a)"
| gs_regs: "guest_step s (s\<lparr>c_pc := p, c_reg := r, c_insn_counter := n, c_load_res := l,
                           c_fp_reg := f, c_fflags := ff, c_fs := fs, c_power_down_flag := w\<rparr>)"

inductive guest_reach :: "cpu \<Rightarrow> cpu \<Rightarrow> bool" where
  gr_refl: "guest_reach s s"
| gr_step: "guest_reach s t \<Longrightarrow> guest_step t u \<Longrightarrow> guest_reach s u"

lemma guest_inv_boot:
  assumes "c_cur_xlen s = 32" "c_mie s = 0"
    "c_mstatus s AND (MSTATUS_MPRV OR MSTATUS_MPP OR MSTATUS_MIE OR MSTATUS_MPIE) = 0"
  shows "guest_inv (riscv_cpu_boot_smode s pc h d)"
proof -
  have "(c_mstatus s AND NOT (MSTATUS_SIE OR MSTATUS_MIE)) AND
      (MSTATUS_MPRV OR MSTATUS_MPP OR MSTATUS_MIE OR MSTATUS_MPIE) = 0"
    using assms(3) by (metis and.assoc and.commute and_zero_eq)
  with assms show ?thesis
    by (simp add: guest_inv_def riscv_cpu_boot_smode_def prv_defs mip_defs)
qed

lemma and_zero_sub: "(a :: u32) AND m = 0 \<Longrightarrow> b AND m = a AND m \<Longrightarrow> b AND m = 0"
  by simp

lemma sret_M_bits:
  "c_mstatus (handle_sret s) AND (MSTATUS_MPRV OR MSTATUS_MPP OR MSTATUS_MIE OR MSTATUS_MPIE) =
   c_mstatus s AND (MSTATUS_MPRV OR MSTATUS_MPP OR MSTATUS_MIE OR MSTATUS_MPIE)"
  by (cases "bit (c_mstatus s) 8"; rule u32_bitsI)
     (simp_all add: sret_mstatus_1 sret_mstatus_0 upt_32 bit_simps mstatus_defs)

lemma trap_M_bits:
  "trap_delegated s c \<Longrightarrow>
   c_mstatus (deliver_trap s c t) AND (MSTATUS_MPRV OR MSTATUS_MPP OR MSTATUS_MIE OR MSTATUS_MPIE) =
   c_mstatus s AND (MSTATUS_MPRV OR MSTATUS_MPP OR MSTATUS_MIE OR MSTATUS_MPIE)"
proof -
  assume d: "trap_delegated s c"
  then have "c_priv s = PRV_S \<or> c_priv s = PRV_U"
    by (auto simp: trap_delegated_def prv_defs)
  then show ?thesis
    using d by (elim disjE; intro u32_bitsI) (simp_all add: trap_mstatus_S trap_mstatus_U upt_32 bit_simps mstatus_defs)
qed

lemma guest_inv_trap: "guest_inv s \<Longrightarrow> trap_delegated s c \<Longrightarrow> guest_inv (deliver_trap s c t)"
  by (simp add: guest_inv_def trap_M_bits trap_state_deleg)

lemma guest_sync_delegated:
  assumes "guest_inv s" "unat cause < 16" "cause \<notin> {9, 10, 11}"
  shows "trap_delegated s cause"
proof -
  have "cause = of_nat (unat cause)" by simp
  with assms(2) have "cause \<in> set (map of_nat [0..<16])"
    by (metis atLeast0LessThan atLeastLessThan_upt imageI lessThan_iff list.set_map)
  then have "cause \<in> {0, 1, 2, 3, 4, 5, 6, 7, 8, 12, 13, 14, 15}"
    using assms(3) by (auto simp: upt_rec)
  with assms(1) show ?thesis
    by (auto simp: trap_delegated_def guest_inv_def CAUSE_INTERRUPT_def)
qed

lemma pending_mask_sub: "bit (get_pending_irq_mask s) i \<Longrightarrow> bit (c_mie s) i \<and> bit (c_mip s) i"
  by (auto simp: get_pending_irq_mask_def Let_def bit_simps split: if_splits)

lemma guest_pending_supervisor:
  assumes "guest_inv s" "bit (get_pending_irq_mask s) i"
  shows "i \<in> {1, 5, 9}"
proof -
  have mie: "bit (c_mie s) i" using pending_mask_sub assms(2) by blast
  then have i: "i < 32" using bit_imp_le_length [of "c_mie s" i] by simp
  have "\<not> bit (c_mie s AND NOT 0x222) i" using assms(1) by (simp add: guest_inv_def)
  with mie i have "bit (0x222 :: u32) i" by (simp add: bit_simps)
  moreover have "list_all (\<lambda>i. bit (0x222 :: u32) i \<longrightarrow> i \<in> {1, 5, 9}) [0..<32]"
    by (simp add: upt_32)
  ultimately show ?thesis using i by (simp add: list_all_iff)
qed

lemma guest_irq_delegated:
  assumes "guest_inv s" "get_pending_irq_mask s \<noteq> 0"
  shows "ctz32 (get_pending_irq_mask s) \<in> {1, 5, 9}"
    and "trap_delegated s (of_nat (ctz32 (get_pending_irq_mask s)) OR CAUSE_INTERRUPT)"
proof -
  show n: "ctz32 (get_pending_irq_mask s) \<in> {1, 5, 9}"
    using guest_pending_supervisor assms ctz32_spec(2) by blast
  with assms(1) show "trap_delegated s (of_nat (ctz32 (get_pending_irq_mask s)) OR CAUSE_INTERRUPT)"
    by (auto simp: trap_delegated_def guest_inv_def CAUSE_INTERRUPT_def)
qed

lemma guest_inv_mie: "m AND NOT 0x222 = 0 \<Longrightarrow> csr_mix 0x222 m v AND NOT 0x222 = 0"
proof -
  have "csr_mix 0x222 m v AND NOT 0x222 = m AND NOT 0x222"
    by (rule u32_bitsI) (simp add: csr_mix_def upt_32 bit_simps)
  then show "m AND NOT 0x222 = 0 \<Longrightarrow> csr_mix 0x222 m v AND NOT 0x222 = 0"
    by (simp only:)
qed

lemma guest_inv_sstatus:
  assumes "guest_inv s"
  shows "guest_inv (set_mstatus s ((c_mstatus s AND NOT SSTATUS_MASK) OR (v AND SSTATUS_MASK)))"
    (is "guest_inv ?s")
proof -
  let ?m = "MSTATUS_MPRV OR MSTATUS_MPP OR MSTATUS_MIE OR MSTATUS_MPIE"
  have m: "x AND ?m = (x AND NOT SSTATUS_MASK) AND ?m" for x
    by (simp add: mstatus_defs SSTATUS_MASK_def and.assoc)
  have "c_mstatus ?s AND ?m = c_mstatus s AND ?m"
    by (subst (1 2) m) (simp only: set_mstatus_outside)
  with assms show ?thesis
    by (simp add: guest_inv_def)
qed

lemma guest_inv_csr_write:
  assumes inv: "guest_inv s" and lvl: "unat (drop_bit 8 csr AND 3) \<le> 1"
  shows "guest_inv (fst (csr_write s csr val))"
proof -
  have m: "csr \<notin> {0x300, 0x301, 0x302, 0x303, 0x304, 0x305, 0x306, 0x340, 0x341, 0x342, 0x343, 0x344}"
    using lvl by auto
  have mie: "guest_inv (s\<lparr>c_mie := csr_mix (c_mideleg s) (c_mie s) val\<rparr>)"
    using inv guest_inv_mie [of "c_mie s" val] by (simp add: guest_inv_def)
  show ?thesis
    using inv mie m guest_inv_sstatus [OF inv, of val]
    by (simp add: csr_write_def) (simp add: guest_inv_def set_frm_def)
qed

lemma guest_inv_step: "guest_step s s' \<Longrightarrow> guest_inv s \<Longrightarrow> guest_inv s'"
proof (induction rule: guest_step.induct)
  case (gs_csr t s csr v val)
  then show ?case
    using csr_read_level [OF gs_csr.hyps] by (intro guest_inv_csr_write) (simp_all add: guest_inv_def prv_defs)
next
  case (gs_trap cause s tval)
  then show ?case using guest_sync_delegated guest_inv_trap by blast
next
  case (gs_irq s)
  then show ?case
    using guest_irq_delegated(2) guest_inv_trap by (auto simp: raise_interrupt_def Let_def)
next
  case (gs_sret s)
  then show ?case by (simp add: guest_inv_def sret_M_bits sret_priv prv_defs)
qed (auto simp: guest_inv_def riscv_cpu_set_mip_def riscv_cpu_reset_mip_def tlb_flush_vaddr_def Let_def)

lemma guest_inv_reach: "guest_reach s s' \<Longrightarrow> guest_inv s \<Longrightarrow> guest_inv s'"
  by (induction rule: guest_reach.induct) (auto dest: guest_inv_step)

lemma guest_inv_start: "guest_inv (riscv_cpu_boot_smode riscv_cpu_init pc h d)"
  by (rule guest_inv_boot)
     (simp_all add: riscv_cpu_init_def tlb_init_def cpu_zero_def get_base_from_xlen_def mstatus_defs)

section \<open>Properties\<close>

text \<open>
  C34. A delegated trap followed by \<open>sret\<close> resumes the interrupted code: same pc, same privilege,
  same registers, and in mstatus only SPIE (set), SPP (cleared) and, for a trap from U-mode,
  SIE (cleared) can differ.
\<close>

theorem trap_sret_roundtrip:
  assumes "trap_delegated s cause"
  shows "c_pc (handle_sret (deliver_trap s cause tval)) = c_pc s \<and>
    c_priv (handle_sret (deliver_trap s cause tval)) = c_priv s \<and>
    c_reg (handle_sret (deliver_trap s cause tval)) = c_reg s \<and>
    c_mstatus (handle_sret (deliver_trap s cause tval)) =
      (c_mstatus s OR MSTATUS_SPIE) AND
      NOT (MSTATUS_SPP OR (if c_priv s = PRV_U then MSTATUS_SIE else 0))"
proof -
  have "c_priv s = PRV_S \<or> c_priv s = PRV_U"
    using assms by (auto simp: trap_delegated_def prv_defs)
  then show ?thesis
    using assms by (elim disjE) (simp_all add: trap_sret_S trap_sret_U trap_state_deleg prv_defs)
qed

theorem trap_sret_roundtrip_witness:
  "let s = (riscv_cpu_boot_smode riscv_cpu_init 0x80000000 0 0)\<lparr>c_mstatus := 0x2\<rparr>;
       s' = handle_sret (deliver_trap s 13 0x1234)
   in c_pc s' = 0x80000000 \<and> c_priv s' = 1 \<and> c_mstatus s' = 0x22"
proof -
  let ?s = "(riscv_cpu_boot_smode riscv_cpu_init 0x80000000 0 0)\<lparr>c_mstatus := 0x2\<rparr>"
  have "trap_delegated ?s 13"
    by (simp add: trap_delegated_def riscv_cpu_boot_smode_def prv_defs CAUSE_INTERRUPT_def)
  from trap_sret_roundtrip [where tval = "0x1234", OF this] show ?thesis
    by (simp add: Let_def riscv_cpu_boot_smode_def prv_defs mstatus_defs)
qed



text \<open>
  The sstatus view: writing it changes no bit of mstatus outside the view, keeps the
  privilege and the delegation, and reading it back gives the writable bits written, with SD
  set exactly when the FP state was written as dirty.
\<close>

lemma sstatus_roundtrip:
  assumes "PRV_S \<le> c_priv s" "c_cur_xlen s = 32" "c_mstatus s AND (MSTATUS_FS OR MSTATUS_XS) = 0"
  shows "c_mstatus (fst (csr_write s 0x100 val)) AND NOT SSTATUS_MASK = c_mstatus s AND NOT SSTATUS_MASK \<and>
    c_priv (fst (csr_write s 0x100 val)) = c_priv s \<and>
    c_mideleg (fst (csr_write s 0x100 val)) = c_mideleg s \<and>
    csr_read t (fst (csr_write s 0x100 val)) 0x100 w =
      Some ((val AND SSTATUS_MASK AND NOT MSTATUS_XS) OR
            (if val AND MSTATUS_FS = MSTATUS_FS then 0x80000000 else 0))"
proof (intro conjI)
  let ?v = "(c_mstatus s AND NOT SSTATUS_MASK) OR (val AND SSTATUS_MASK)"
  let ?s = "set_mstatus s ?v"
  have w: "fst (csr_write s 0x100 val) = ?s" by (simp add: csr_write_def)
  show "c_mstatus (fst (csr_write s 0x100 val)) AND NOT SSTATUS_MASK = c_mstatus s AND NOT SSTATUS_MASK"
    unfolding w by (rule set_mstatus_outside)
  show "c_priv (fst (csr_write s 0x100 val)) = c_priv s"
    "c_mideleg (fst (csr_write s 0x100 val)) = c_mideleg s"
    unfolding w by simp_all
  have z: "\<not> bit (c_mstatus s) n" if "n \<in> {13, 14, 15, 16}" for n
  proof -
    have "\<not> bit (c_mstatus s AND (MSTATUS_FS OR MSTATUS_XS)) n" using assms(3) by simp
    with that show ?thesis by (auto simp: mstatus_defs bit_simps)
  qed
  have val: "(c_mstatus ?s OR push_bit 13 (c_fs ?s)) AND SSTATUS_MASK =
      val AND SSTATUS_MASK AND NOT MSTATUS_XS"
    by (rule u32_bitsI)
       (simp add: set_mstatus_def Let_def mstatus_defs SSTATUS_MASK_def MSTATUS_MASK_def upt_32 bit_simps z)
  have xs: "(val AND SSTATUS_MASK AND NOT MSTATUS_XS) AND MSTATUS_XS \<noteq> MSTATUS_XS"
    by (simp add: and.assoc mstatus_defs)
  have fs: "(val AND SSTATUS_MASK AND NOT MSTATUS_XS) AND MSTATUS_FS = val AND MSTATUS_FS"
    by (simp add: and.assoc mstatus_defs SSTATUS_MASK_def)
  have "get_mstatus ?s SSTATUS_MASK = (val AND SSTATUS_MASK AND NOT MSTATUS_XS) OR
            (if val AND MSTATUS_FS = MSTATUS_FS then 0x80000000 else 0)"
    unfolding get_mstatus_def Let_def val fs using xs assms(2) by simp
  then show "csr_read t (fst (csr_write s 0x100 val)) 0x100 w =
      Some ((val AND SSTATUS_MASK AND NOT MSTATUS_XS) OR
            (if val AND MSTATUS_FS = MSTATUS_FS then 0x80000000 else 0))"
    using assms(1) unfolding w by (simp add: csr_read_def prv_defs)
qed

end
