(* ===== verification/Platform.thy ===== *)
theory Platform
  imports Cpu
begin

text \<open>
  The boundary of \<open>emu/rv_platform.h\<close> and the state the emulator keeps. The platform (console,
  clock, NIC, I2C and GPIO of the board) is a record of functions: each answer may depend on
  everything the emulator has asked and told it before, the history \<open>e_ev\<close> (latest first).
  Every call of a platform function appends its event, so the order and the contents of all
  output are part of the state. The machine's single static instance \<open>rvm\<close> is the record
  \<open>rvmachine\<close>; the hart, the guest's RAM and the address map it points to are separate fields
  of \<open>emu\<close>.
\<close>

section \<open>The platform\<close>

datatype plat_event =
    EvNow u64
  | EvPutc u8
  | EvGetc int
  | EvCaps
  | EvI2cWrite u8 u8 "u8 list"
  | EvI2cRead u8 u8 nat
  | EvI2cWriteRead u8 u8 "u8 list" nat
  | EvGpioConfig u8 u32
  | EvGpioSet u8 u32
  | EvGpioGet u8
  | EvGpioToggle u8
  | EvNetSend "u8 list"
  | EvNetRecv int

type_synonym history = "plat_event list"

record plat =
  po_now :: "history \<Rightarrow> u64"
  po_getc :: "history \<Rightarrow> int"
  po_caps :: "history \<Rightarrow> u8 \<times> u8"
  po_i2c_write :: "history \<Rightarrow> u8 \<Rightarrow> u8 \<Rightarrow> u8 list \<Rightarrow> int"
  po_i2c_read :: "history \<Rightarrow> u8 \<Rightarrow> u8 \<Rightarrow> nat \<Rightarrow> int \<times> u8 list"
  po_i2c_write_read :: "history \<Rightarrow> u8 \<Rightarrow> u8 \<Rightarrow> u8 list \<Rightarrow> nat \<Rightarrow> int \<times> u8 list"
  po_gpio_config :: "history \<Rightarrow> u8 \<Rightarrow> u32 \<Rightarrow> int"
  po_gpio_set :: "history \<Rightarrow> u8 \<Rightarrow> u32 \<Rightarrow> int"
  po_gpio_get :: "history \<Rightarrow> u8 \<Rightarrow> int \<times> u32 option"
  po_gpio_toggle :: "history \<Rightarrow> u8 \<Rightarrow> int"
  po_net_mac :: "u8 list option"
  po_net_recv :: "history \<Rightarrow> nat \<Rightarrow> int \<times> u8 list"

section \<open>The machine's state\<close>

definition RV_SLICE_INSNS :: nat where "RV_SLICE_INSNS = 10000"
definition RV_RX_RING :: nat where "RV_RX_RING = 64"
definition PV_DATA_BYTES :: nat where "PV_DATA_BYTES = 256"

record rvmachine =
  m_ier :: u8
  m_lcr :: u8
  m_mcr :: u8
  m_scr :: u8
  m_fcr :: u8
  m_divisor :: u16
  m_rx :: "nat \<Rightarrow> u8"
  m_rx_head :: u8
  m_rx_tail :: u8
  m_timecmp :: u64
  m_msip :: u32
  m_plic_pending :: u32
  m_plic_served :: u32
  m_pv_status :: u32
  m_pv_result :: u32
  m_pv_i2c_bus :: u32
  m_pv_i2c_addr :: u32
  m_pv_i2c_wlen :: u32
  m_pv_i2c_rlen :: u32
  m_pv_gpio_pin :: u32
  m_pv_gpio_val :: u32
  m_pv_gpio_flags :: u32
  m_pv_data :: block
  m_ram_size :: u32
  m_stop :: nat
  m_dropped_rx :: u32
  m_fdt_addr :: u32
  m_fdt_size :: u32
  m_has_rootfs :: bool
  m_has_net :: bool

record emu =
  e_cpu :: cpu
  e_m :: rvmachine
  e_ram :: block
  e_map :: phys_map
  e_ev :: history

text \<open>The machine after the \<open>memset\<close> of \<open>rv_machine_init()\<close>.\<close>

definition rvm_zero :: rvmachine where
  "rvm_zero = \<lparr>m_ier = 0, m_lcr = 0, m_mcr = 0, m_scr = 0, m_fcr = 0, m_divisor = 0,
     m_rx = (\<lambda>_. 0), m_rx_head = 0, m_rx_tail = 0, m_timecmp = 0, m_msip = 0,
     m_plic_pending = 0, m_plic_served = 0, m_pv_status = 0, m_pv_result = 0,
     m_pv_i2c_bus = 0, m_pv_i2c_addr = 0, m_pv_i2c_wlen = 0, m_pv_i2c_rlen = 0,
     m_pv_gpio_pin = 0, m_pv_gpio_val = 0, m_pv_gpio_flags = 0, m_pv_data = (\<lambda>_. 0),
     m_ram_size = 0, m_stop = 0, m_dropped_rx = 0, m_fdt_addr = 0, m_fdt_size = 0,
     m_has_rootfs = False, m_has_net = False\<rparr>"

section \<open>Platform calls\<close>

definition plat_now_us :: "plat \<Rightarrow> emu \<Rightarrow> u64 \<times> emu" where
  "plat_now_us P s = (let t = po_now P (e_ev s) in (t, s\<lparr>e_ev := EvNow t # e_ev s\<rparr>))"

definition plat_putc :: "emu \<Rightarrow> u8 \<Rightarrow> emu" where
  "plat_putc s c = s\<lparr>e_ev := EvPutc c # e_ev s\<rparr>"

definition plat_getc :: "plat \<Rightarrow> emu \<Rightarrow> int \<times> emu" where
  "plat_getc P s = (let c = po_getc P (e_ev s) in (c, s\<lparr>e_ev := EvGetc c # e_ev s\<rparr>))"

definition plat_net_send :: "emu \<Rightarrow> u8 list \<Rightarrow> emu" where
  "plat_net_send s frame = s\<lparr>e_ev := EvNetSend frame # e_ev s\<rparr>"

definition plat_net_recv :: "plat \<Rightarrow> emu \<Rightarrow> nat \<Rightarrow> int \<times> u8 list \<times> emu" where
  "plat_net_recv P s cap =
     (let (n, bs) = po_net_recv P (e_ev s) cap in (n, bs, s\<lparr>e_ev := EvNetRecv n # e_ev s\<rparr>))"

text \<open>What has been written to the console so far, oldest byte first.\<close>

definition console_out :: "emu \<Rightarrow> u8 list" where
  "console_out s = rev (List.map_filter (\<lambda>e. case e of EvPutc c \<Rightarrow> Some c | _ \<Rightarrow> None) (e_ev s))"

text \<open>The platform accesses of the I2C and GPIO bridge, latest first.\<close>

definition bus_events :: "history \<Rightarrow> history" where
  "bus_events h = filter (\<lambda>e. case e of EvI2cWrite _ _ _ \<Rightarrow> True | EvI2cRead _ _ _ \<Rightarrow> True |
     EvI2cWriteRead _ _ _ _ \<Rightarrow> True | EvGpioConfig _ _ \<Rightarrow> True | EvGpioSet _ _ \<Rightarrow> True |
     EvGpioGet _ \<Rightarrow> True | EvGpioToggle _ \<Rightarrow> True | _ \<Rightarrow> False) h"

named_theorems emu_frame

lemma plat_putc_frame [emu_frame, simp]:
  "e_cpu (plat_putc s c) = e_cpu s" "e_m (plat_putc s c) = e_m s"
  "e_ram (plat_putc s c) = e_ram s" "e_map (plat_putc s c) = e_map s"
  by (simp_all add: plat_putc_def)

lemma plat_now_us_frame [emu_frame, simp]:
  "e_cpu (snd (plat_now_us P s)) = e_cpu s" "e_m (snd (plat_now_us P s)) = e_m s"
  "e_ram (snd (plat_now_us P s)) = e_ram s" "e_map (snd (plat_now_us P s)) = e_map s"
  by (simp_all add: plat_now_us_def Let_def)

lemma console_out_putc [simp]: "console_out (plat_putc s c) = console_out s @ [c]"
  by (simp add: console_out_def plat_putc_def List.map_filter_simps)

section \<open>A concrete platform and a concrete machine\<close>

text \<open>
  Instances on which the properties with hypotheses are evaluated: a platform whose clock reads
  100, whose console sends \<open>A\<close> once and is then empty and whose buses and NIC answer with
  ENODEV, and a machine with 2 MiB of RAM that has just entered its kernel.
\<close>

definition quiet_plat :: plat where
  "quiet_plat = \<lparr>po_now = (\<lambda>_. 100), po_getc = (\<lambda>h. if h = [] then 65 else -1), po_caps = (\<lambda>_. (2, 4)),
     po_i2c_write = (\<lambda>_ _ _ _. - ENODEV), po_i2c_read = (\<lambda>_ _ _ _. (- ENODEV, [])),
     po_i2c_write_read = (\<lambda>_ _ _ _ _. (- ENODEV, [])), po_gpio_config = (\<lambda>_ _ _. - ENODEV),
     po_gpio_set = (\<lambda>_ _ _. - ENODEV), po_gpio_get = (\<lambda>_ _. (- ENODEV, None)),
     po_gpio_toggle = (\<lambda>_ _. - ENODEV), po_net_mac = None, po_net_recv = (\<lambda>_ _. (-1, []))\<rparr>"

definition emu_start :: emu where
  "emu_start = \<lparr>e_cpu = riscv_cpu_boot_smode riscv_cpu_init 0x80000000 0 0x80100000,
     e_m = rvm_zero\<lparr>m_ram_size := 0x200000, m_timecmp := 50\<rparr>,
     e_ram = (\<lambda>_. 0), e_map = [], e_ev = []\<rparr>"

lemma emu_start_sel [simp]:
  "e_m emu_start = rvm_zero\<lparr>m_ram_size := 0x200000, m_timecmp := 50\<rparr>" "e_ram emu_start = (\<lambda>_. 0)"
  "e_ev emu_start = []" "e_cpu emu_start = riscv_cpu_boot_smode riscv_cpu_init 0x80000000 0 0x80100000"
  by (simp_all add: emu_start_def)

lemma rvm_zero_sel [simp]:
  "m_ier rvm_zero = 0" "m_lcr rvm_zero = 0" "m_rx_head rvm_zero = 0" "m_rx_tail rvm_zero = 0"
  "m_plic_pending rvm_zero = 0" "m_plic_served rvm_zero = 0" "m_pv_i2c_wlen rvm_zero = 0"
  "m_pv_i2c_rlen rvm_zero = 0" "m_pv_data rvm_zero = (\<lambda>_. 0)" "m_stop rvm_zero = 0"
  "m_dropped_rx rvm_zero = 0" "m_timecmp rvm_zero = 0" "m_ram_size rvm_zero = 0"
  by (simp_all add: rvm_zero_def)

end
