(* ===== verification/Mmu.thy ===== *)
theory Mmu
  imports Platform
begin

text \<open>
  Address translation (\<open>emu/riscv_cpu.c\<close>, \<open>phys_read_u32\<close> to \<open>get_phys_addr\<close>): the Sv32 page-table
  walk over guest RAM, with its permission checks and its update of the accessed and dirty bits.
  The declarative reading of the privileged architecture's Sv32, \<open>sv32_leaf\<close> and \<open>pte_allows\<close>, is
  what the walk is proved to refine.
\<close>

section \<open>Constants\<close>

definition PTE_V_MASK :: u32 where "PTE_V_MASK = push_bit 0 1"
definition PTE_U_MASK :: u32 where "PTE_U_MASK = push_bit 4 1"
definition PTE_A_MASK :: u32 where "PTE_A_MASK = push_bit 6 1"
definition PTE_D_MASK :: u32 where "PTE_D_MASK = push_bit 7 1"
definition ACCESS_READ :: nat where "ACCESS_READ = 0"
definition ACCESS_WRITE :: nat where "ACCESS_WRITE = 1"
definition ACCESS_CODE :: nat where "ACCESS_CODE = 2"

lemmas mmu_consts = PTE_V_MASK_def PTE_U_MASK_def PTE_A_MASK_def PTE_D_MASK_def
  ACCESS_READ_def ACCESS_WRITE_def ACCESS_CODE_def

section \<open>Physical accesses of the walker\<close>

text \<open>
  The index in \<open>e_ram\<close> behind a physical address: \<open>pr->phys_mem + (addr - pr->addr)\<close>. Host
  pointers into guest RAM are indices of the block; NULL is 0.
\<close>

definition ram_index :: "phys_range \<Rightarrow> u32 \<Rightarrow> nat" where
  "ram_index pr addr = (case pr_phys_mem pr of Some p \<Rightarrow> p | None \<Rightarrow> 0) + unat (ucast addr - pr_addr pr)"

definition phys_read_u32 :: "emu \<Rightarrow> u32 \<Rightarrow> u32" where
  "phys_read_u32 s addr =
     (case get_phys_mem_range (e_map s) (ucast addr) of
        None \<Rightarrow> 0
      | Some pr \<Rightarrow> if pr_is_ram pr then of_le (mem_read (e_ram s) (ram_index pr addr) 4) else 0)"

definition phys_write_u32 :: "emu \<Rightarrow> u32 \<Rightarrow> u32 \<Rightarrow> emu" where
  "phys_write_u32 s addr val =
     (case get_phys_mem_range (e_map s) (ucast addr) of
        None \<Rightarrow> s
      | Some pr \<Rightarrow>
          if pr_is_ram pr then s\<lparr>e_ram := mem_write (e_ram s) (ram_index pr addr) (le_bytes 4 val)\<rparr> else s)"

section \<open>The walk\<close>

text \<open>The checks on a leaf entry, in the order of the code.\<close>

definition pte_check :: "cpu \<Rightarrow> nat \<Rightarrow> nat \<Rightarrow> u32 \<Rightarrow> bool" where
  "pte_check c priv access pte =
     (let xwr = drop_bit 1 pte AND 7
      in if xwr = 2 \<or> xwr = 6 then False
         else if (if priv = PRV_S then pte AND PTE_U_MASK \<noteq> 0 \<and> c_mstatus c AND MSTATUS_SUM = 0
                  else pte AND PTE_U_MASK = 0) then False
         else let xwr' = (if c_mstatus c AND MSTATUS_MXR \<noteq> 0 then xwr OR drop_bit 2 xwr else xwr)
              in drop_bit access xwr' AND 1 \<noteq> 0)"

text \<open>
  The loop over the two levels; \<open>rem\<close> is \<open>levels - 1 - i\<close> plus one. The result is the physical
  address, or None for the code's -1.
\<close>

fun sv32_walk :: "nat \<Rightarrow> emu \<Rightarrow> nat \<Rightarrow> u32 \<Rightarrow> nat \<Rightarrow> u32 \<Rightarrow> u32 option \<times> emu" where
  "sv32_walk 0 s priv vaddr access table = (None, s)"
| "sv32_walk (Suc rem) s priv vaddr access table =
     (let vaddr_shift = PG_SHIFT + 10 * rem;
          pte_addr = table + push_bit 2 (drop_bit vaddr_shift vaddr AND 0x3ff);
          pte = phys_read_u32 s pte_addr;
          paddr = push_bit PG_SHIFT (drop_bit 10 pte)
      in if pte AND PTE_V_MASK = 0 then (None, s)
         else if drop_bit 1 pte AND 7 \<noteq> 0 then
           (if \<not> pte_check (e_cpu s) priv access pte then (None, s)
            else
              let need_write = (pte AND PTE_A_MASK = 0 \<or> pte AND PTE_D_MASK = 0 \<and> access = ACCESS_WRITE);
                  pte' = pte OR PTE_A_MASK OR (if access = ACCESS_WRITE then PTE_D_MASK else 0);
                  s' = (if need_write then phys_write_u32 s pte_addr pte' else s);
                  vaddr_mask = push_bit vaddr_shift 1 - 1
              in (Some ((vaddr AND vaddr_mask) OR (paddr AND NOT vaddr_mask)), s'))
         else sv32_walk rem s priv vaddr access paddr)"

definition access_priv :: "cpu \<Rightarrow> nat \<Rightarrow> nat" where
  "access_priv c access =
     (if c_mstatus c AND MSTATUS_MPRV \<noteq> 0 \<and> access \<noteq> ACCESS_CODE
      then unat (drop_bit 11 (c_mstatus c) AND 3) else c_priv c)"

definition get_phys_addr :: "emu \<Rightarrow> u32 \<Rightarrow> nat \<Rightarrow> u32 option \<times> emu" where
  "get_phys_addr s vaddr access =
     (let c = e_cpu s; priv = access_priv c access
      in if priv = PRV_M
         then (Some (if c_cur_xlen c < 32 then vaddr AND (push_bit (c_cur_xlen c) 1 - 1) else vaddr), s)
         else if drop_bit 31 (c_satp c) = 0 then (Some vaddr, s)
         else sv32_walk 2 s priv vaddr access (push_bit PG_SHIFT (c_satp c AND (push_bit 22 1 - 1))))"

section \<open>Frames\<close>

lemma phys_write_u32_frame [simp]:
  "e_cpu (phys_write_u32 s a v) = e_cpu s" "e_m (phys_write_u32 s a v) = e_m s"
  "e_map (phys_write_u32 s a v) = e_map s" "e_ev (phys_write_u32 s a v) = e_ev s"
  by (simp_all add: phys_write_u32_def split: option.split)

lemma sv32_walk_frame:
  "e_cpu (snd (sv32_walk n s p v acc t)) = e_cpu s \<and> e_m (snd (sv32_walk n s p v acc t)) = e_m s \<and>
   e_map (snd (sv32_walk n s p v acc t)) = e_map s \<and> e_ev (snd (sv32_walk n s p v acc t)) = e_ev s"
  by (induction n arbitrary: t) (simp_all add: Let_def)

lemma get_phys_addr_frame [simp]:
  "e_cpu (snd (get_phys_addr s v acc)) = e_cpu s" "e_m (snd (get_phys_addr s v acc)) = e_m s"
  "e_map (snd (get_phys_addr s v acc)) = e_map s" "e_ev (snd (get_phys_addr s v acc)) = e_ev s"
  by (simp_all add: get_phys_addr_def Let_def sv32_walk_frame)

section \<open>Sv32 as the architecture states it\<close>

text \<open>
  The leaf entry that maps a virtual address: found in the root table (a 4 MiB superpage) or in
  the table the root entry points to (a 4 KiB page).
\<close>

definition sv32_root :: "cpu \<Rightarrow> u32" where
  "sv32_root c = push_bit 12 (c_satp c)"

definition pte_points :: "u32 \<Rightarrow> u32" where
  "pte_points pte = push_bit 12 (drop_bit 10 pte)"

definition pte_is_leaf :: "u32 \<Rightarrow> bool" where
  "pte_is_leaf pte \<longleftrightarrow> bit pte 1 \<or> bit pte 2 \<or> bit pte 3"

inductive sv32_leaf :: "emu \<Rightarrow> u32 \<Rightarrow> nat \<Rightarrow> u32 \<Rightarrow> bool" for s v where
  superpage: "sv32_leaf s v 22 (sv32_root (e_cpu s) + 4 * drop_bit 22 v)"
    if "bit (phys_read_u32 s (sv32_root (e_cpu s) + 4 * drop_bit 22 v)) 0"
       "pte_is_leaf (phys_read_u32 s (sv32_root (e_cpu s) + 4 * drop_bit 22 v))"
| page: "sv32_leaf s v 12 a"
    if "bit (phys_read_u32 s (sv32_root (e_cpu s) + 4 * drop_bit 22 v)) 0"
       "\<not> pte_is_leaf (phys_read_u32 s (sv32_root (e_cpu s) + 4 * drop_bit 22 v))"
       "a = pte_points (phys_read_u32 s (sv32_root (e_cpu s) + 4 * drop_bit 22 v)) + 4 * (drop_bit 12 v AND 0x3ff)"
       "bit (phys_read_u32 s a) 0" "pte_is_leaf (phys_read_u32 s a)"

text \<open>The access an entry grants: bits 1, 2, 3 are R, W, X and bit 4 is U.\<close>

definition pte_allows :: "cpu \<Rightarrow> nat \<Rightarrow> nat \<Rightarrow> u32 \<Rightarrow> bool" where
  "pte_allows c priv access pte \<longleftrightarrow>
     (bit pte 2 \<longrightarrow> bit pte 1) \<and>
     (if priv = PRV_S then bit pte 4 \<longrightarrow> bit (c_mstatus c) 18 else bit pte 4) \<and>
     (access = ACCESS_READ \<longrightarrow> bit pte 1 \<or> bit (c_mstatus c) 19 \<and> bit pte 3) \<and>
     (access = ACCESS_WRITE \<longrightarrow> bit pte 2) \<and> (access = ACCESS_CODE \<longrightarrow> bit pte 3)"

text \<open>The entry with its accessed bit, and for a store its dirty bit, set.\<close>

definition pte_touched :: "nat \<Rightarrow> u32 \<Rightarrow> u32" where
  "pte_touched access pte = pte OR PTE_A_MASK OR (if access = ACCESS_WRITE then PTE_D_MASK else 0)"

definition page_compose :: "nat \<Rightarrow> u32 \<Rightarrow> u32 \<Rightarrow> u32" where
  "page_compose sh v pte = take_bit sh v OR push_bit sh (drop_bit sh (pte_points pte))"

section \<open>The walk refines the architecture\<close>

lemma and_bit_eq_0: "(w :: 'a::len word) AND push_bit n 1 = 0 \<longleftrightarrow> \<not> bit w n"
proof -
  have "w AND push_bit n 1 = push_bit n (of_bool (bit w n))"
    by (rule bit_word_eqI) (auto simp: bit_simps)
  then show ?thesis
    by (cases "n < LENGTH('a)") (auto simp: push_bit_eq_mult dest: bit_imp_le_length)
qed

lemma xwr_bits: "drop_bit (Suc 0) (pte :: u32) AND 7 =
    of_bool (bit pte 1) OR (of_bool (bit pte 2) * 2) OR (of_bool (bit pte 3) * 4)"
  by (cases "bit pte 1"; cases "bit pte 2"; cases "bit pte 3")
     (auto intro!: u32_bitsI simp: upt_32 bit_simps numeral_2_eq_2 [symmetric])

lemma xwr_leaf: "drop_bit 1 (pte :: u32) AND 7 \<noteq> 0 \<longleftrightarrow> pte_is_leaf pte"
  by (cases "bit pte 1"; cases "bit pte 2"; cases "bit pte 3") (simp_all add: xwr_bits pte_is_leaf_def)

lemma mstatus_bits:
  "m AND MSTATUS_SUM = 0 \<longleftrightarrow> \<not> bit m 18" "m AND MSTATUS_MXR = 0 \<longleftrightarrow> \<not> bit m 19"
  "m AND PTE_U_MASK = 0 \<longleftrightarrow> \<not> bit m 4" "m AND PTE_V_MASK = 0 \<longleftrightarrow> \<not> bit m 0"
  "m AND PTE_A_MASK = 0 \<longleftrightarrow> \<not> bit m 6" "m AND PTE_D_MASK = 0 \<longleftrightarrow> \<not> bit m 7"
proof -
  have c: "MSTATUS_SUM = push_bit 18 1" "MSTATUS_MXR = push_bit 19 1"
    by (simp_all add: MSTATUS_SUM_def MSTATUS_MXR_def)
  show "m AND MSTATUS_SUM = 0 \<longleftrightarrow> \<not> bit m 18" unfolding c by (rule and_bit_eq_0)
  show "m AND MSTATUS_MXR = 0 \<longleftrightarrow> \<not> bit m 19" unfolding c by (rule and_bit_eq_0)
qed (simp_all only: mmu_consts and_bit_eq_0)

lemma pte_check_iff:
  assumes "access \<le> 2"
  shows "pte_check c priv access pte \<longleftrightarrow> pte_allows c priv access pte"
proof -
  have "access = 0 \<or> access = 1 \<or> access = 2" using assms by auto
  then show ?thesis
    by (cases "bit pte 1"; cases "bit pte 2"; cases "bit pte 3")
       (auto simp: pte_check_def pte_allows_def xwr_bits mstatus_bits Let_def ACCESS_READ_def
          ACCESS_WRITE_def ACCESS_CODE_def)
qed

lemma need_write_iff:
  "(pte AND PTE_A_MASK = 0 \<or> pte AND PTE_D_MASK = 0 \<and> access = ACCESS_WRITE) \<longleftrightarrow>
   pte_touched access pte \<noteq> pte"
proof -
  have a: "bit PTE_A_MASK n \<longleftrightarrow> n = 6" "bit PTE_D_MASK n \<longleftrightarrow> n = 7" for n
    by (auto simp: mmu_consts bit_simps simp del: push_bit_of_1)
  show ?thesis
  proof
    assume "pte AND PTE_A_MASK = 0 \<or> pte AND PTE_D_MASK = 0 \<and> access = ACCESS_WRITE"
    then have "bit (pte_touched access pte) 6 \<noteq> bit pte 6 \<or> bit (pte_touched access pte) 7 \<noteq> bit pte 7"
      by (auto simp: mstatus_bits pte_touched_def a bit_simps)
    then show "pte_touched access pte \<noteq> pte" by auto
  next
    assume ne: "pte_touched access pte \<noteq> pte"
    show "pte AND PTE_A_MASK = 0 \<or> pte AND PTE_D_MASK = 0 \<and> access = ACCESS_WRITE"
    proof (rule ccontr)
      assume "\<not> ?thesis"
      then have "bit pte 6" "access = ACCESS_WRITE \<Longrightarrow> bit pte 7" by (auto simp: mstatus_bits)
      then have "pte_touched access pte = pte"
        unfolding pte_touched_def by (intro bit_word_eqI) (auto simp: a bit_simps)
      with ne show False ..
    qed
  qed
qed

lemma page_mask: "(v AND (push_bit sh 1 - 1)) OR (p AND NOT (push_bit sh 1 - 1)) =
    take_bit sh v OR push_bit sh (drop_bit sh (p :: u32))"
proof -
  have "push_bit sh 1 - 1 = (mask sh :: u32)" by (simp add: mask_eq_exp_minus_1)
  then show ?thesis by (intro bit_word_eqI) (auto simp: bit_simps)
qed

text \<open>One level of the walk, in the terms of the specification.\<close>

lemma sv32_walk_step:
  assumes "access \<le> 2"
  shows "sv32_walk (Suc rem) s priv v access t =
    (let a = t + 4 * (drop_bit (12 + 10 * rem) v AND 0x3ff); pte = phys_read_u32 s a
     in if \<not> bit pte 0 then (None, s)
        else if \<not> pte_is_leaf pte then sv32_walk rem s priv v access (pte_points pte)
        else if pte_allows (e_cpu s) priv access pte
        then (Some (page_compose (12 + 10 * rem) v pte),
              if pte_touched access pte = pte then s else phys_write_u32 s a (pte_touched access pte))
        else (None, s))"
proof -
  have e: "push_bit 2 x = 4 * x" for x :: u32 by (simp add: push_bit_eq_mult mult.commute)
  have sh: "PG_SHIFT = 12" by (simp add: PG_SHIFT_def)
  show ?thesis
    unfolding sv32_walk.simps Let_def need_write_iff page_mask xwr_leaf pte_check_iff [OF assms]
      pte_touched_def [symmetric] e sh page_compose_def pte_points_def mstatus_bits(4)
    by simp
qed

lemma sv32_root_eq: "push_bit PG_SHIFT (c_satp c AND (push_bit 22 1 - 1)) = sv32_root c"
  unfolding sv32_root_def PG_SHIFT_def by (rule u32_bitsI) (simp add: upt_32 bit_simps)

lemma vpn1: "drop_bit 22 (v :: u32) AND 0x3ff = drop_bit 22 v"
proof -
  have "take_bit 10 (drop_bit 22 v) = drop_bit 22 v"
    by (rule bit_word_eqI) (auto simp: bit_simps dest: bit_imp_le_length)
  then show ?thesis by (simp add: take_bit_eq_mask mask_eq_exp_minus_1)
qed

lemma satp_mode: "drop_bit 31 (w :: u32) = 0 \<longleftrightarrow> \<not> bit w 31"
proof -
  have "drop_bit 31 w = of_bool (bit w 31)"
    by (rule u32_bitsI) (auto simp: upt_32 bit_simps dest: bit_imp_le_length)
  then show ?thesis by simp
qed

lemma get_phys_addr_sv32:
  assumes "access \<le> 2" "access_priv (e_cpu s) access \<noteq> PRV_M" "bit (c_satp (e_cpu s)) 31"
  shows "get_phys_addr s v access = (Some p, s') \<longleftrightarrow>
    (\<exists>sh a. sv32_leaf s v sh a \<and> pte_allows (e_cpu s) (access_priv (e_cpu s) access) access (phys_read_u32 s a) \<and>
       p = page_compose sh v (phys_read_u32 s a) \<and>
       s' = (if pte_touched access (phys_read_u32 s a) = phys_read_u32 s a then s
             else phys_write_u32 s a (pte_touched access (phys_read_u32 s a))))"
proof -
  let ?r = "sv32_root (e_cpu s)" and ?pr = "access_priv (e_cpu s) access"
  let ?a1 = "?r + 4 * drop_bit 22 v"
  let ?p1 = "phys_read_u32 s ?a1"
  let ?a0 = "pte_points ?p1 + 4 * (drop_bit 12 v AND 0x3ff)"
  have two: "(2 :: nat) = Suc (Suc 0)" by simp
  have g: "get_phys_addr s v access = sv32_walk 2 s ?pr v access ?r"
    unfolding get_phys_addr_def Let_def satp_mode sv32_root_eq using assms by simp
  have l: "sv32_leaf s v sh a \<longleftrightarrow>
      bit ?p1 0 \<and> (if pte_is_leaf ?p1 then sh = 22 \<and> a = ?a1
                   else sh = 12 \<and> a = ?a0 \<and> bit (phys_read_u32 s ?a0) 0 \<and> pte_is_leaf (phys_read_u32 s ?a0))" for sh a
    by (auto simp: sv32_leaf.simps)
  show ?thesis
    unfolding g l two sv32_walk_step [OF assms(1)]
    by (simp add: vpn1 Let_def) (auto split: if_splits)
qed

section \<open>A concrete page table\<close>

text \<open>
  A root table at 0x80001000 whose entry 512 maps 0x80000000 to itself as a 4 MiB superpage for S-mode,
  readable and writable, not yet accessed; and a hart in S-mode that uses it.
\<close>

definition mmu_demo :: emu where
  "mmu_demo = emu_start\<lparr>e_cpu := riscv_cpu_init\<lparr>c_priv := PRV_S, c_mstatus := 0, c_satp := 0x80080001\<rparr>,
     e_ram := (\<lambda>_. 0)(0x1800 := 0x07, 0x1803 := 0x20),
     e_map := [\<lparr>pr_addr = 0x80000000, pr_org_size = 0x200000, pr_size = 0x200000, pr_is_ram = True,
       pr_devram_flags = 0, pr_phys_mem = Some 0, pr_dev = NoDev, pr_devio_flags = 0\<rparr>]\<rparr>"

section \<open>Properties\<close>



end
