(* ===== verification/Fifo.thy ===== *)
theory Fifo
  imports Emu_Prelude
begin

text \<open>
  Byte queues. The program has several rings with a head, a tail and one slot kept empty (the
  UART receiver, the telnet session's rings). \<open>ring_list\<close> reads such a ring as the list of bytes
  it holds, oldest first, and the locale \<open>byte_fifo\<close> is the contract their users rely on; it is
  interpreted on each ring in the ring's own theory.
\<close>

definition ring_count :: "nat \<Rightarrow> nat \<Rightarrow> nat \<Rightarrow> nat" where
  "ring_count N h t = (h + N - t) mod N"

definition ring_list :: "nat \<Rightarrow> (nat \<Rightarrow> 'a) \<Rightarrow> nat \<Rightarrow> nat \<Rightarrow> 'a list" where
  "ring_list N buf h t = map (\<lambda>i. buf ((t + i) mod N)) [0..<ring_count N h t]"

named_theorems ring_simps

lemma length_ring_list [simp]: "length (ring_list N buf h t) = ring_count N h t"
  by (simp add: ring_list_def)

lemma ring_count_cases:
  "h < N \<Longrightarrow> t < N \<Longrightarrow> ring_count N h t = (if t \<le> h then h - t else h + N - t)"
  by (auto simp: ring_count_def mod_if)

lemma ring_next_cases: "(h :: nat) < N \<Longrightarrow> Suc h mod N = (if Suc h = N then 0 else Suc h)"
  by (auto simp: mod_if)

lemma ring_count_less: "0 < N \<Longrightarrow> ring_count N h t < N"
  by (simp add: ring_count_def)

lemma ring_count_0 [simp]: "h < N \<Longrightarrow> t < N \<Longrightarrow> ring_count N h t = 0 \<longleftrightarrow> h = t"
  by (auto simp: ring_count_cases)

lemma ring_list_empty [simp]: "h < N \<Longrightarrow> t < N \<Longrightarrow> ring_list N buf h t = [] \<longleftrightarrow> h = t"
  by (metis length_0_conv length_ring_list ring_count_0)

lemma ring_full_iff:
  "h < N \<Longrightarrow> t < N \<Longrightarrow> Suc h mod N = t \<longleftrightarrow> ring_count N h t = N - 1"
  by (auto simp: ring_count_cases ring_next_cases split: if_splits)

lemma ring_count_put:
  "h < N \<Longrightarrow> t < N \<Longrightarrow> Suc h mod N \<noteq> t \<Longrightarrow> ring_count N (Suc h mod N) t = Suc (ring_count N h t)"
  by (auto simp: ring_count_cases ring_next_cases split: if_splits)

lemma ring_count_get:
  assumes "h < N" "t < N" "h \<noteq> t"
  shows "ring_count N h t = Suc (ring_count N h (Suc t mod N))"
proof (cases "Suc t = N")
  case True
  with assms show ?thesis by (simp add: ring_count_cases)
next
  case False
  with assms have "Suc t < N" by simp
  with assms show ?thesis by (auto simp: ring_count_cases)
qed

lemma ring_slot: "(t :: nat) < N \<Longrightarrow> i < N \<Longrightarrow> (t + i) mod N = (if t + i < N then t + i else t + i - N)"
  by (auto simp: le_mod_geq)

lemma ring_slot_ne:
  assumes "h < N" "t < N" "i < ring_count N h t"
  shows "(t + i) mod N \<noteq> h"
proof -
  have "i < N" using assms ring_count_less [of N h t] by simp
  with assms show ?thesis
    by (simp only: ring_slot ring_count_cases) (simp split: if_splits; linarith)
qed

lemma ring_head_slot:
  assumes "h < N" "t < N"
  shows "(t + ring_count N h t) mod N = h"
  using assms ring_count_less [of N h t]
  by (simp only: ring_slot ring_count_cases) (simp split: if_splits)

lemma ring_list_put [ring_simps]:
  assumes "h < N" "t < N" "Suc h mod N \<noteq> t"
  shows "ring_list N (buf(h := b)) (Suc h mod N) t = ring_list N buf h t @ [b]"
  using assms ring_slot_ne [OF assms(1,2)] ring_head_slot [OF assms(1,2)]
  by (simp add: ring_list_def ring_count_put)

lemma ring_list_get [ring_simps]:
  assumes "h < N" "t < N" "h \<noteq> t"
  shows "ring_list N buf h t = buf t # ring_list N buf h (Suc t mod N)"
proof (rule nth_equalityI)
  show "length (ring_list N buf h t) = length (buf t # ring_list N buf h (Suc t mod N))"
    using ring_count_get [OF assms] by simp
  fix i assume "i < length (ring_list N buf h t)"
  then have i: "i < ring_count N h t" by simp
  show "ring_list N buf h t ! i = (buf t # ring_list N buf h (Suc t mod N)) ! i"
  proof (cases i)
    case 0
    with i assms show ?thesis by (simp add: ring_list_def)
  next
    case (Suc j)
    with i have "j < ring_count N h (Suc t mod N)" using ring_count_get [OF assms] by simp
    with i Suc show ?thesis by (simp add: ring_list_def mod_simps)
  qed
qed

section \<open>The contract\<close>

locale byte_fifo =
  fixes put :: "'s \<Rightarrow> 'b \<Rightarrow> 's"
    and get :: "'s \<Rightarrow> 'b option \<times> 's"
    and contents :: "'s \<Rightarrow> 'b list"
    and ok :: "'s \<Rightarrow> bool"
    and cap :: nat
  assumes put_ok: "ok s \<Longrightarrow> ok (put s b)"
    and get_ok: "ok s \<Longrightarrow> ok (snd (get s))"
    and put_contents: "ok s \<Longrightarrow> contents (put s b) =
          (if length (contents s) < cap then contents s @ [b] else contents s)"
    and get_empty: "ok s \<Longrightarrow> contents s = [] \<Longrightarrow> fst (get s) = None \<and> contents (snd (get s)) = []"
    and get_cons: "ok s \<Longrightarrow> contents s = b # bs \<Longrightarrow> fst (get s) = Some b \<and> contents (snd (get s)) = bs"
begin

fun put_all :: "'s \<Rightarrow> 'b list \<Rightarrow> 's" where
  "put_all s [] = s"
| "put_all s (b # bs) = put_all (put s b) bs"

fun get_all :: "nat \<Rightarrow> 's \<Rightarrow> 'b list \<times> 's" where
  "get_all 0 s = ([], s)"
| "get_all (Suc n) s =
     (case get s of (None, s') \<Rightarrow> ([], s') | (Some b, s') \<Rightarrow> (let (bs, s'') = get_all n s' in (b # bs, s'')))"

lemma put_all_ok: "ok s \<Longrightarrow> ok (put_all s bs)"
  by (induction bs arbitrary: s) (auto simp: put_ok)

lemma put_all_fits:
  "ok s \<Longrightarrow> length (contents s) + length bs \<le> cap \<Longrightarrow> contents (put_all s bs) = contents s @ bs"
  by (induction bs arbitrary: s) (auto simp: put_ok put_contents)

lemma get_all_contents:
  "ok s \<Longrightarrow> fst (get_all n s) = take n (contents s) \<and> contents (snd (get_all n s)) = drop n (contents s)"
proof (induction n arbitrary: s)
  case (Suc n)
  show ?case
  proof (cases "contents s")
    case Nil
    with get_empty [OF Suc.prems] show ?thesis by (cases "get s") auto
  next
    case (Cons b bs)
    from get_cons [OF Suc.prems Cons] obtain s' where g: "get s = (Some b, s')" "contents s' = bs"
      by (cases "get s") auto
    moreover have "ok s'" using get_ok [OF Suc.prems] g by simp
    ultimately show ?thesis using Suc.IH [of s'] Cons by (auto simp: Let_def split: prod.splits)
  qed
qed simp

text \<open>What goes in comes out, in order and nothing else, when it fits.\<close>

lemma fifo_order:
  assumes "ok s" "contents s = []" "length bs \<le> cap"
  shows "fst (get_all (length bs) (put_all s bs)) = bs \<and>
    contents (snd (get_all (length bs) (put_all s bs))) = []"
  using assms put_all_fits [of s bs] get_all_contents [OF put_all_ok, of s "length bs" bs] by simp

end

end
