(* ===== verification/Machine.thy ===== *)
theory Machine
  imports Platform Fifo
begin

text \<open>
  The emulated board of \<open>emu/rv_machine.c\<close>: CLINT, PLIC, 8250 UART, syscon and the paravirtual
  I2C/GPIO bridge, each with the read and write callbacks the address map holds, and the two
  services other parts use, the PLIC line and the pointer into guest RAM. Building the machine
  and the run loop are in the theory Boot.
\<close>

section \<open>Memory map and interrupt numbers\<close>

definition RV_UART_BASE :: u64 where "RV_UART_BASE = 0x10000000"
definition RV_UART_SIZE :: u64 where "RV_UART_SIZE = 0x100"
definition RV_CLINT_BASE :: u64 where "RV_CLINT_BASE = 0x11000000"
definition RV_CLINT_SIZE :: u64 where "RV_CLINT_SIZE = 0x10000"
definition RV_SYSCON_BASE :: u64 where "RV_SYSCON_BASE = 0x11100000"
definition RV_SYSCON_SIZE :: u64 where "RV_SYSCON_SIZE = 0x1000"
definition RV_PVIO_BASE :: u64 where "RV_PVIO_BASE = 0x11200000"
definition RV_PVIO_SIZE :: u64 where "RV_PVIO_SIZE = 0x1000"
definition RV_VIRTIO_BASE :: u64 where "RV_VIRTIO_BASE = 0x10001000"
definition RV_VIRTIO_SIZE :: u64 where "RV_VIRTIO_SIZE = 0x1000"
definition RV_VIRTIO_NET_BASE :: u64 where "RV_VIRTIO_NET_BASE = 0x10002000"
definition RV_VIRTIO_NET_SIZE :: u64 where "RV_VIRTIO_NET_SIZE = 0x1000"
definition RV_PLIC_BASE :: u64 where "RV_PLIC_BASE = 0x40100000"
definition RV_PLIC_SIZE :: u64 where "RV_PLIC_SIZE = 0x400000"
definition RV_RAM_BASE :: u64 where "RV_RAM_BASE = 0x80000000"
definition RV_UART_IRQ :: nat where "RV_UART_IRQ = 1"
definition RV_VIRTIO_IRQ :: nat where "RV_VIRTIO_IRQ = 2"
definition RV_VIRTIO_NET_IRQ :: nat where "RV_VIRTIO_NET_IRQ = 3"

lemmas map_defs =
  RV_UART_BASE_def RV_UART_SIZE_def RV_CLINT_BASE_def RV_CLINT_SIZE_def RV_SYSCON_BASE_def
  RV_SYSCON_SIZE_def RV_PVIO_BASE_def RV_PVIO_SIZE_def RV_VIRTIO_BASE_def RV_VIRTIO_SIZE_def
  RV_VIRTIO_NET_BASE_def RV_VIRTIO_NET_SIZE_def RV_PLIC_BASE_def RV_PLIC_SIZE_def RV_RAM_BASE_def

definition upd_cpu :: "(cpu \<Rightarrow> cpu) \<Rightarrow> emu \<Rightarrow> emu" where
  "upd_cpu f s = s\<lparr>e_cpu := f (e_cpu s)\<rparr>"

definition upd_m :: "(rvmachine \<Rightarrow> rvmachine) \<Rightarrow> emu \<Rightarrow> emu" where
  "upd_m f s = s\<lparr>e_m := f (e_m s)\<rparr>"

lemma upd_cpu_sel [emu_frame, simp]:
  "e_cpu (upd_cpu f s) = f (e_cpu s)" "e_m (upd_cpu f s) = e_m s" "e_ram (upd_cpu f s) = e_ram s"
  "e_map (upd_cpu f s) = e_map s" "e_ev (upd_cpu f s) = e_ev s"
  by (simp_all add: upd_cpu_def)

lemma upd_m_sel [emu_frame, simp]:
  "e_cpu (upd_m f s) = e_cpu s" "e_m (upd_m f s) = f (e_m s)" "e_ram (upd_m f s) = e_ram s"
  "e_map (upd_m f s) = e_map s" "e_ev (upd_m f s) = e_ev s"
  by (simp_all add: upd_m_def)

section \<open>CLINT and time\<close>

definition UINT64_MAX :: u64 where "UINT64_MAX = 0xffffffffffffffff"

definition rv_mtime :: "plat \<Rightarrow> emu \<Rightarrow> u64 \<times> emu" where
  "rv_mtime P s = plat_now_us P s"

definition rv_set_timer :: "emu \<Rightarrow> u64 \<Rightarrow> emu" where
  "rv_set_timer s nxt =
     upd_cpu (\<lambda>c. riscv_cpu_reset_mip c MIP_STIP) (upd_m (\<lambda>m. m\<lparr>m_timecmp := nxt\<rparr>) s)"

definition rv_set_ipi :: "emu \<Rightarrow> bool \<Rightarrow> emu" where
  "rv_set_ipi s level =
     (if level then upd_cpu (\<lambda>c. riscv_cpu_set_mip c MIP_SSIP) s
      else upd_cpu (\<lambda>c. riscv_cpu_reset_mip c MIP_SSIP) s)"

definition timer_update :: "plat \<Rightarrow> emu \<Rightarrow> emu" where
  "timer_update P s =
     (if m_timecmp (e_m s) \<noteq> UINT64_MAX then
        let (t, s1) = rv_mtime P s
        in if m_timecmp (e_m s1) \<le> t
           then upd_m (\<lambda>m. m\<lparr>m_timecmp := UINT64_MAX\<rparr>)
                  (upd_cpu (\<lambda>c. riscv_cpu_set_mip c MIP_STIP) s1)
           else s1
      else s)"

definition clint_read :: "plat \<Rightarrow> emu \<Rightarrow> u32 \<Rightarrow> nat \<Rightarrow> u32 \<times> emu" where
  "clint_read P s offset size_log2 =
     (if offset = 0x0000 then (m_msip (e_m s), s)
      else if offset = 0x4000 then (ucast (m_timecmp (e_m s)), s)
      else if offset = 0x4004 then (ucast (drop_bit 32 (m_timecmp (e_m s))), s)
      else if offset = 0xbff8 then (let (t, s1) = rv_mtime P s in (ucast t, s1))
      else if offset = 0xbffc then (let (t, s1) = rv_mtime P s in (ucast (drop_bit 32 t), s1))
      else (0, s))"

definition clint_write :: "emu \<Rightarrow> u32 \<Rightarrow> u32 \<Rightarrow> nat \<Rightarrow> emu" where
  "clint_write s offset val size_log2 =
     (if offset = 0x0000 then
        rv_set_ipi (upd_m (\<lambda>m. m\<lparr>m_msip := val AND 1\<rparr>) s) (val AND 1 \<noteq> 0)
      else if offset = 0x4000 then
        upd_cpu (\<lambda>c. riscv_cpu_reset_mip c MIP_STIP)
          (upd_m (\<lambda>m. m\<lparr>m_timecmp := (m_timecmp m AND 0xffffffff00000000) OR ucast val\<rparr>) s)
      else if offset = 0x4004 then
        upd_cpu (\<lambda>c. riscv_cpu_reset_mip c MIP_STIP)
          (upd_m (\<lambda>m. m\<lparr>m_timecmp := (m_timecmp m AND 0xffffffff) OR push_bit 32 (ucast val)\<rparr>) s)
      else s)"

section \<open>PLIC\<close>

definition PLIC_HART_BASE :: u32 where "PLIC_HART_BASE = 0x200000"
definition PLIC_CLAIM :: u32 where "PLIC_CLAIM = PLIC_HART_BASE + 4"

definition plic_update :: "emu \<Rightarrow> emu" where
  "plic_update s =
     (if m_plic_pending (e_m s) AND NOT (m_plic_served (e_m s)) \<noteq> 0
      then upd_cpu (\<lambda>c. riscv_cpu_set_mip c MIP_SEIP) s
      else upd_cpu (\<lambda>c. riscv_cpu_reset_mip c MIP_SEIP) s)"

definition plic_set_irq :: "emu \<Rightarrow> nat \<Rightarrow> bool \<Rightarrow> emu" where
  "plic_set_irq s irq level =
     (let msk = push_bit (irq - 1) 1
      in plic_update (upd_m (\<lambda>m. m\<lparr>m_plic_pending :=
           (if level then m_plic_pending m OR msk else m_plic_pending m AND NOT msk)\<rparr>) s))"

definition rv_plic_set_irq :: "emu \<Rightarrow> nat \<Rightarrow> bool \<Rightarrow> emu" where
  "rv_plic_set_irq s irq level = (if 1 \<le> irq \<and> irq \<le> 32 then plic_set_irq s irq level else s)"

definition plic_read :: "emu \<Rightarrow> u32 \<Rightarrow> nat \<Rightarrow> u32 \<times> emu" where
  "plic_read s offset size_log2 =
     (if offset = PLIC_CLAIM then
        let msk = m_plic_pending (e_m s) AND NOT (m_plic_served (e_m s))
        in if msk = 0 then (0, s)
           else let i = ctz32 msk
                in (of_nat i + 1,
                    plic_update (upd_m (\<lambda>m. m\<lparr>m_plic_served := m_plic_served m OR push_bit i 1\<rparr>) s))
      else (0, s))"

definition plic_write :: "emu \<Rightarrow> u32 \<Rightarrow> u32 \<Rightarrow> nat \<Rightarrow> emu" where
  "plic_write s offset val size_log2 =
     (if offset = PLIC_CLAIM \<and> 1 \<le> val \<and> val \<le> 32 then
        plic_update (upd_m (\<lambda>m. m\<lparr>m_plic_served :=
          m_plic_served m AND NOT (push_bit (unat (val - 1)) 1)\<rparr>) s)
      else s)"

section \<open>8250 UART\<close>

definition UART_LCR_DLAB :: u8 where "UART_LCR_DLAB = 0x80"
definition UART_IER_RDI :: u8 where "UART_IER_RDI = 0x01"
definition UART_IER_THRI :: u8 where "UART_IER_THRI = 0x02"
definition UART_LSR_DR :: u32 where "UART_LSR_DR = 0x01"
definition UART_LSR_THRE :: u32 where "UART_LSR_THRE = 0x20"
definition UART_LSR_TEMT :: u32 where "UART_LSR_TEMT = 0x40"

lemmas uart_consts = UART_LCR_DLAB_def UART_IER_RDI_def UART_IER_THRI_def
  UART_LSR_DR_def UART_LSR_THRE_def UART_LSR_TEMT_def

definition ring_next :: "u8 \<Rightarrow> u8" where
  "ring_next i = of_nat ((unat i + 1) mod RV_RX_RING)"

definition uart_rx_avail :: "rvmachine \<Rightarrow> bool" where
  "uart_rx_avail m \<longleftrightarrow> m_rx_head m \<noteq> m_rx_tail m"

definition uart_irq_active :: "rvmachine \<Rightarrow> bool" where
  "uart_irq_active m \<longleftrightarrow>
     m_ier m AND UART_IER_RDI \<noteq> 0 \<and> uart_rx_avail m \<or> m_ier m AND UART_IER_THRI \<noteq> 0"

definition uart_update_irq :: "emu \<Rightarrow> emu" where
  "uart_update_irq s = plic_set_irq s RV_UART_IRQ (uart_irq_active (e_m s))"

definition uart_push_rx :: "emu \<Rightarrow> u8 \<Rightarrow> emu" where
  "uart_push_rx s c =
     (let nxt = ring_next (m_rx_head (e_m s))
      in if nxt = m_rx_tail (e_m s) then upd_m (\<lambda>m. m\<lparr>m_dropped_rx := m_dropped_rx m + 1\<rparr>) s
         else uart_update_irq
                (upd_m (\<lambda>m. m\<lparr>m_rx := (m_rx m)(unat (m_rx_head m) := c), m_rx_head := nxt\<rparr>) s))"

definition uart_read :: "emu \<Rightarrow> u32 \<Rightarrow> nat \<Rightarrow> u32 \<times> emu" where
  "uart_read s offset size_log2 =
     (let m = e_m s; r = offset AND 7
      in if r = 0 then
           (if m_lcr m AND UART_LCR_DLAB \<noteq> 0 then (ucast (m_divisor m AND 0xff), s)
            else if \<not> uart_rx_avail m then (0, s)
            else (ucast (m_rx m (unat (m_rx_tail m))),
                  uart_update_irq (upd_m (\<lambda>m. m\<lparr>m_rx_tail := ring_next (m_rx_tail m)\<rparr>) s)))
         else if r = 1 then
           (if m_lcr m AND UART_LCR_DLAB \<noteq> 0 then (ucast (drop_bit 8 (m_divisor m)), s)
            else (ucast (m_ier m), s))
         else if r = 2 then
           ((if m_ier m AND UART_IER_RDI \<noteq> 0 \<and> uart_rx_avail m then 0x04
             else if m_ier m AND UART_IER_THRI \<noteq> 0 then 0x02 else 0x01) OR
            (if m_fcr m AND 1 \<noteq> 0 then 0xc0 else 0), s)
         else if r = 3 then (ucast (m_lcr m), s)
         else if r = 4 then (ucast (m_mcr m), s)
         else if r = 5 then
           ((if uart_rx_avail m then UART_LSR_DR else 0) OR UART_LSR_THRE OR UART_LSR_TEMT, s)
         else if r = 6 then (0xb0, s)
         else (ucast (m_scr m), s))"

definition uart_write :: "emu \<Rightarrow> u32 \<Rightarrow> u32 \<Rightarrow> nat \<Rightarrow> emu" where
  "uart_write s offset val0 size_log2 =
     (let m = e_m s; r = offset AND 7; val = val0 AND 0xff
      in if r = 0 then
           (if m_lcr m AND UART_LCR_DLAB \<noteq> 0
            then upd_m (\<lambda>m. m\<lparr>m_divisor := (m_divisor m AND 0xff00) OR ucast val\<rparr>) s
            else uart_update_irq (plat_putc s (ucast val)))
         else if r = 1 then
           (if m_lcr m AND UART_LCR_DLAB \<noteq> 0
            then upd_m (\<lambda>m. m\<lparr>m_divisor := (m_divisor m AND 0x00ff) OR ucast (push_bit 8 val)\<rparr>) s
            else uart_update_irq (upd_m (\<lambda>m. m\<lparr>m_ier := ucast val\<rparr>) s))
         else if r = 2 then upd_m (\<lambda>m. m\<lparr>m_fcr := ucast val\<rparr>) s
         else if r = 3 then upd_m (\<lambda>m. m\<lparr>m_lcr := ucast val\<rparr>) s
         else if r = 4 then upd_m (\<lambda>m. m\<lparr>m_mcr := ucast val\<rparr>) s
         else if r = 7 then upd_m (\<lambda>m. m\<lparr>m_scr := ucast val\<rparr>) s
         else s)"

text \<open>
  The drain loop of \<open>uart_poll_input()\<close>, with fuel: None means the loop did not end in time.
  Theorem \<open>uart_poll_returns\<close> shows that 64 rounds always suffice.
\<close>

fun uart_poll_loop :: "plat \<Rightarrow> nat \<Rightarrow> emu \<Rightarrow> emu option" where
  "uart_poll_loop P 0 s = None"
| "uart_poll_loop P (Suc n) s =
     (if (unat (m_rx_head (e_m s)) + 1) mod RV_RX_RING \<noteq> unat (m_rx_tail (e_m s)) then
        let (c, s1) = plat_getc P s
        in if c < 0 then Some s1 else uart_poll_loop P n (uart_push_rx s1 (word_of_int c))
      else Some s)"

definition uart_poll_input :: "plat \<Rightarrow> emu \<Rightarrow> emu option" where
  "uart_poll_input P s = uart_poll_loop P 64 s"

section \<open>syscon\<close>

definition syscon_read :: "emu \<Rightarrow> u32 \<Rightarrow> nat \<Rightarrow> u32 \<times> emu" where
  "syscon_read s offset size_log2 = (0, s)"

definition syscon_write :: "emu \<Rightarrow> u32 \<Rightarrow> u32 \<Rightarrow> nat \<Rightarrow> emu" where
  "syscon_write s offset val size_log2 =
     (if offset \<noteq> 0 then s
      else if val = 0x5555 then upd_m (\<lambda>m. m\<lparr>m_stop := 1\<rparr>) s
      else if val = 0x7777 then upd_m (\<lambda>m. m\<lparr>m_stop := 2\<rparr>) s
      else s)"

section \<open>Paravirtual I/O bridge\<close>

definition PV_REG_ID :: u32 where "PV_REG_ID = 0x000"
definition PV_REG_VERSION :: u32 where "PV_REG_VERSION = 0x004"
definition PV_REG_CAPS :: u32 where "PV_REG_CAPS = 0x008"
definition PV_REG_CMD :: u32 where "PV_REG_CMD = 0x00c"
definition PV_REG_STATUS :: u32 where "PV_REG_STATUS = 0x010"
definition PV_REG_RESULT :: u32 where "PV_REG_RESULT = 0x014"
definition PV_REG_I2C_BUS :: u32 where "PV_REG_I2C_BUS = 0x018"
definition PV_REG_I2C_ADDR :: u32 where "PV_REG_I2C_ADDR = 0x01c"
definition PV_REG_I2C_WLEN :: u32 where "PV_REG_I2C_WLEN = 0x020"
definition PV_REG_I2C_RLEN :: u32 where "PV_REG_I2C_RLEN = 0x024"
definition PV_REG_GPIO_PIN :: u32 where "PV_REG_GPIO_PIN = 0x028"
definition PV_REG_GPIO_VAL :: u32 where "PV_REG_GPIO_VAL = 0x02c"
definition PV_REG_GPIO_FLAGS :: u32 where "PV_REG_GPIO_FLAGS = 0x030"
definition PV_REG_DATA :: u32 where "PV_REG_DATA = 0x200"

definition PV_ID :: u32 where "PV_ID = 0x50564930"
definition PV_VERSION :: u32 where "PV_VERSION = 1"

definition PV_CMD_NOP :: u32 where "PV_CMD_NOP = 0x00"
definition PV_CMD_I2C_WRITE :: u32 where "PV_CMD_I2C_WRITE = 0x01"
definition PV_CMD_I2C_READ :: u32 where "PV_CMD_I2C_READ = 0x02"
definition PV_CMD_I2C_WRITE_READ :: u32 where "PV_CMD_I2C_WRITE_READ = 0x03"
definition PV_CMD_I2C_PROBE :: u32 where "PV_CMD_I2C_PROBE = 0x04"
definition PV_CMD_GPIO_CONFIG :: u32 where "PV_CMD_GPIO_CONFIG = 0x10"
definition PV_CMD_GPIO_SET :: u32 where "PV_CMD_GPIO_SET = 0x11"
definition PV_CMD_GPIO_GET :: u32 where "PV_CMD_GPIO_GET = 0x12"
definition PV_CMD_GPIO_TOGGLE :: u32 where "PV_CMD_GPIO_TOGGLE = 0x13"

lemmas pv_reg_defs =
  PV_REG_ID_def PV_REG_VERSION_def PV_REG_CAPS_def PV_REG_CMD_def PV_REG_STATUS_def
  PV_REG_RESULT_def PV_REG_I2C_BUS_def PV_REG_I2C_ADDR_def PV_REG_I2C_WLEN_def
  PV_REG_I2C_RLEN_def PV_REG_GPIO_PIN_def PV_REG_GPIO_VAL_def PV_REG_GPIO_FLAGS_def PV_REG_DATA_def

lemmas pv_cmd_defs =
  PV_CMD_NOP_def PV_CMD_I2C_WRITE_def PV_CMD_I2C_READ_def PV_CMD_I2C_WRITE_READ_def
  PV_CMD_I2C_PROBE_def PV_CMD_GPIO_CONFIG_def PV_CMD_GPIO_SET_def PV_CMD_GPIO_GET_def
  PV_CMD_GPIO_TOGGLE_def

definition add_ev :: "plat_event \<Rightarrow> emu \<Rightarrow> emu" where
  "add_ev e s = s\<lparr>e_ev := e # e_ev s\<rparr>"

text \<open>
  A read fills at most the requested number of bytes of the caller's buffer; what the platform
  left there stands even when it reports failure. PROBE reads one byte into a local.
\<close>

definition pv_status :: "int \<Rightarrow> emu \<Rightarrow> emu" where
  "pv_status r = upd_m (\<lambda>m. m\<lparr>m_pv_status := word_of_int r\<rparr>)"

definition pv_bus :: "emu \<Rightarrow> u8" where "pv_bus s = ucast (m_pv_i2c_bus (e_m s))"
definition pv_addr :: "emu \<Rightarrow> u8" where "pv_addr s = ucast (m_pv_i2c_addr (e_m s))"
definition pv_pin :: "emu \<Rightarrow> u8" where "pv_pin s = ucast (m_pv_gpio_pin (e_m s))"

definition pv_do_write :: "plat \<Rightarrow> emu \<Rightarrow> nat \<Rightarrow> emu" where
  "pv_do_write P s wlen =
     (let w = mem_read (m_pv_data (e_m s)) 0 wlen
      in pv_status (po_i2c_write P (e_ev s) (pv_bus s) (pv_addr s) w)
           (add_ev (EvI2cWrite (pv_bus s) (pv_addr s) w) s))"

definition pv_reply :: "nat \<Rightarrow> int \<times> u8 list \<Rightarrow> emu \<Rightarrow> emu" where
  "pv_reply rlen res s =
     (let s1 = upd_m (\<lambda>m. m\<lparr>m_pv_data := mem_write (m_pv_data m) 0 (take rlen (snd res))\<rparr>)
                 (pv_status (fst res) s)
      in if m_pv_status (e_m s1) = 0 then upd_m (\<lambda>m. m\<lparr>m_pv_result := of_nat rlen\<rparr>) s1 else s1)"

definition pv_do_read :: "plat \<Rightarrow> emu \<Rightarrow> nat \<Rightarrow> emu" where
  "pv_do_read P s rlen =
     pv_reply rlen (po_i2c_read P (e_ev s) (pv_bus s) (pv_addr s) rlen)
       (add_ev (EvI2cRead (pv_bus s) (pv_addr s) rlen) s)"

definition pv_do_write_read :: "plat \<Rightarrow> emu \<Rightarrow> nat \<Rightarrow> nat \<Rightarrow> emu" where
  "pv_do_write_read P s wlen rlen =
     (let w = mem_read (m_pv_data (e_m s)) 0 wlen
      in pv_reply rlen (po_i2c_write_read P (e_ev s) (pv_bus s) (pv_addr s) w rlen)
           (add_ev (EvI2cWriteRead (pv_bus s) (pv_addr s) w rlen) s))"

definition pv_do_probe :: "plat \<Rightarrow> emu \<Rightarrow> emu" where
  "pv_do_probe P s = pv_status (fst (po_i2c_read P (e_ev s) (pv_bus s) (pv_addr s) 1))
     (add_ev (EvI2cRead (pv_bus s) (pv_addr s) 1) s)"

definition pv_do_gpio_get :: "plat \<Rightarrow> emu \<Rightarrow> emu" where
  "pv_do_gpio_get P s =
     (let res = po_gpio_get P (e_ev s) (pv_pin s)
      in pv_status (fst res)
           (upd_m (\<lambda>m. m\<lparr>m_pv_gpio_val := (case snd res of Some x \<Rightarrow> x | None \<Rightarrow> m_pv_gpio_val m)\<rparr>)
             (add_ev (EvGpioGet (pv_pin s)) s)))"

definition pv_exec :: "plat \<Rightarrow> emu \<Rightarrow> u32 \<Rightarrow> emu" where
  "pv_exec P s0 cmd =
     (let wlen = unat (m_pv_i2c_wlen (e_m s0)); rlen = unat (m_pv_i2c_rlen (e_m s0));
          s = upd_m (\<lambda>m. m\<lparr>m_pv_result := 0\<rparr>) s0
      in if PV_DATA_BYTES < wlen \<or> PV_DATA_BYTES < rlen then pv_status (- EINVAL) s
         else if cmd = PV_CMD_I2C_WRITE \<and> wlen = 0 \<or> cmd = PV_CMD_I2C_READ \<and> rlen = 0 \<or>
                 cmd = PV_CMD_I2C_WRITE_READ \<and> (wlen = 0 \<or> rlen = 0) then pv_status (- EINVAL) s
         else if cmd = PV_CMD_NOP then pv_status 0 s
         else if cmd = PV_CMD_I2C_WRITE then pv_do_write P s wlen
         else if cmd = PV_CMD_I2C_READ then pv_do_read P s rlen
         else if cmd = PV_CMD_I2C_WRITE_READ then pv_do_write_read P s wlen rlen
         else if cmd = PV_CMD_I2C_PROBE then pv_do_probe P s
         else if cmd = PV_CMD_GPIO_CONFIG then
           pv_status (po_gpio_config P (e_ev s) (pv_pin s) (m_pv_gpio_flags (e_m s)))
             (add_ev (EvGpioConfig (pv_pin s) (m_pv_gpio_flags (e_m s))) s)
         else if cmd = PV_CMD_GPIO_SET then
           pv_status (po_gpio_set P (e_ev s) (pv_pin s) (m_pv_gpio_val (e_m s)))
             (add_ev (EvGpioSet (pv_pin s) (m_pv_gpio_val (e_m s))) s)
         else if cmd = PV_CMD_GPIO_GET then pv_do_gpio_get P s
         else if cmd = PV_CMD_GPIO_TOGGLE then
           pv_status (po_gpio_toggle P (e_ev s) (pv_pin s)) (add_ev (EvGpioToggle (pv_pin s)) s)
         else pv_status (- ENOTSUP) s)"

definition pv_in_data :: "u32 \<Rightarrow> bool" where
  "pv_in_data offset \<longleftrightarrow> PV_REG_DATA \<le> offset \<and> offset < PV_REG_DATA + of_nat PV_DATA_BYTES"

definition pv_read :: "plat \<Rightarrow> emu \<Rightarrow> u32 \<Rightarrow> nat \<Rightarrow> u32 \<times> emu" where
  "pv_read P s offset size_log2 =
     (let m = e_m s
      in if size_log2 \<noteq> 2 \<or> offset AND 3 \<noteq> 0 then (0, s)
         else if pv_in_data offset then
           (of_le (mem_read (m_pv_data m) (unat (offset - PV_REG_DATA)) 4), s)
         else if offset = PV_REG_ID then (PV_ID, s)
         else if offset = PV_REG_VERSION then (PV_VERSION, s)
         else if offset = PV_REG_CAPS then
           let (n_i2c, n_gpio) = po_caps P (e_ev s)
           in (ucast n_i2c OR push_bit 8 (ucast n_gpio) OR push_bit 16 (of_nat PV_DATA_BYTES),
               add_ev EvCaps s)
         else if offset = PV_REG_STATUS then (m_pv_status m, s)
         else if offset = PV_REG_RESULT then (m_pv_result m, s)
         else if offset = PV_REG_I2C_BUS then (m_pv_i2c_bus m, s)
         else if offset = PV_REG_I2C_ADDR then (m_pv_i2c_addr m, s)
         else if offset = PV_REG_I2C_WLEN then (m_pv_i2c_wlen m, s)
         else if offset = PV_REG_I2C_RLEN then (m_pv_i2c_rlen m, s)
         else if offset = PV_REG_GPIO_PIN then (m_pv_gpio_pin m, s)
         else if offset = PV_REG_GPIO_VAL then (m_pv_gpio_val m, s)
         else if offset = PV_REG_GPIO_FLAGS then (m_pv_gpio_flags m, s)
         else (0, s))"

definition pv_write :: "plat \<Rightarrow> emu \<Rightarrow> u32 \<Rightarrow> u32 \<Rightarrow> nat \<Rightarrow> emu" where
  "pv_write P s offset val size_log2 =
     (if size_log2 \<noteq> 2 \<or> offset AND 3 \<noteq> 0 then s
      else if pv_in_data offset then
        upd_m (\<lambda>m. m\<lparr>m_pv_data := mem_write (m_pv_data m) (unat (offset - PV_REG_DATA)) (le_bytes 4 val)\<rparr>) s
      else if offset = PV_REG_CMD then pv_exec P s val
      else if offset = PV_REG_I2C_BUS then upd_m (\<lambda>m. m\<lparr>m_pv_i2c_bus := val\<rparr>) s
      else if offset = PV_REG_I2C_ADDR then upd_m (\<lambda>m. m\<lparr>m_pv_i2c_addr := val\<rparr>) s
      else if offset = PV_REG_I2C_WLEN then upd_m (\<lambda>m. m\<lparr>m_pv_i2c_wlen := val\<rparr>) s
      else if offset = PV_REG_I2C_RLEN then upd_m (\<lambda>m. m\<lparr>m_pv_i2c_rlen := val\<rparr>) s
      else if offset = PV_REG_GPIO_PIN then upd_m (\<lambda>m. m\<lparr>m_pv_gpio_pin := val\<rparr>) s
      else if offset = PV_REG_GPIO_VAL then upd_m (\<lambda>m. m\<lparr>m_pv_gpio_val := val\<rparr>) s
      else if offset = PV_REG_GPIO_FLAGS then upd_m (\<lambda>m. m\<lparr>m_pv_gpio_flags := val\<rparr>) s
      else s)"

section \<open>Services of the machine\<close>

definition machine_flush_tlb_write_range :: "emu \<Rightarrow> int \<Rightarrow> int \<Rightarrow> emu" where
  "machine_flush_tlb_write_range s ram_addr ram_size =
     upd_cpu (\<lambda>c. riscv_cpu_flush_tlb_write_range_ram c ram_addr ram_size) s"

text \<open>The pointer is its offset into the RAM block. The test is the code's, in 64-bit words.\<close>

definition rv_guest_phys_ptr :: "emu \<Rightarrow> u64 \<Rightarrow> u32 \<Rightarrow> nat option" where
  "rv_guest_phys_ptr s paddr len =
     (if paddr < RV_RAM_BASE \<or> m_ram_size (e_m s) < len then None
      else if ucast (m_ram_size (e_m s)) - ucast len < paddr - RV_RAM_BASE then None
      else Some (unat (paddr - RV_RAM_BASE)))"

definition rv_request_poweroff :: "emu \<Rightarrow> emu" where
  "rv_request_poweroff s = upd_m (\<lambda>m. m\<lparr>m_stop := 1\<rparr>) s"

definition rv_request_reboot :: "emu \<Rightarrow> emu" where
  "rv_request_reboot s = upd_m (\<lambda>m. m\<lparr>m_stop := 2\<rparr>) s"

definition rv_machine_insns :: "emu \<Rightarrow> u64" where
  "rv_machine_insns s = c_insn_counter (e_cpu s)"

definition rv_machine_fdt :: "emu \<Rightarrow> u32 \<times> u32" where
  "rv_machine_fdt s = (m_fdt_addr (e_m s), m_fdt_size (e_m s))"

lemma guest_phys_ptr_iff:
  "rv_guest_phys_ptr s paddr len = Some p \<longleftrightarrow>
     unat RV_RAM_BASE \<le> unat paddr \<and>
     unat paddr + unat len \<le> unat RV_RAM_BASE + unat (m_ram_size (e_m s)) \<and>
     p = unat paddr - unat RV_RAM_BASE"
proof -
  have r: "unat (m_ram_size (e_m s)) < 2 ^ 32" "unat len < 2 ^ 32"
    using unat_u32_lt by simp_all
  show ?thesis
    using r unat_u64_lt [of paddr]
    by (auto simp: rv_guest_phys_ptr_def word_less_nat_alt word_le_nat_alt unat_sub_if_size
        RV_RAM_BASE_def word_size split: if_splits)
qed

section \<open>What the interrupt lines touch\<close>

lemma plic_update_frame [emu_frame, simp]:
  "e_m (plic_update s) = e_m s" "e_ram (plic_update s) = e_ram s"
  "e_map (plic_update s) = e_map s" "e_ev (plic_update s) = e_ev s"
  by (simp_all add: plic_update_def)

lemma plic_set_irq_frame [emu_frame, simp]:
  "e_ram (plic_set_irq s i l) = e_ram s" "e_map (plic_set_irq s i l) = e_map s"
  "e_ev (plic_set_irq s i l) = e_ev s"
  by (simp_all add: plic_set_irq_def Let_def)

lemma plic_set_irq_m:
  "e_m (plic_set_irq s i l) = (e_m s)\<lparr>m_plic_pending :=
     (if l then m_plic_pending (e_m s) OR push_bit (i - 1) 1
      else m_plic_pending (e_m s) AND NOT (push_bit (i - 1) 1))\<rparr>"
  by (simp add: plic_set_irq_def Let_def)

lemma rv_plic_set_irq_frame [emu_frame, simp]:
  "e_ram (rv_plic_set_irq s i l) = e_ram s" "e_map (rv_plic_set_irq s i l) = e_map s"
  "e_ev (rv_plic_set_irq s i l) = e_ev s" "m_ram_size (e_m (rv_plic_set_irq s i l)) = m_ram_size (e_m s)"
  by (simp_all add: rv_plic_set_irq_def plic_set_irq_m)

section \<open>The interrupt controller's contract\<close>

text \<open>
  Sources are levels. A claim takes the lowest source that is pending and not already being
  served, and hides it until it is completed; the line to the hart is high exactly while some
  source is pending and not being served.
\<close>

locale irq_controller =
  fixes drive :: "'s \<Rightarrow> nat \<Rightarrow> bool \<Rightarrow> 's"
    and claim :: "'s \<Rightarrow> nat \<times> 's"
    and complete :: "'s \<Rightarrow> nat \<Rightarrow> 's"
    and pend :: "'s \<Rightarrow> nat set"
    and serving :: "'s \<Rightarrow> nat set"
    and line :: "'s \<Rightarrow> bool"
    and sources :: "nat set"
  assumes pend_sources: "pend s \<subseteq> sources"
    and fin_sources: "finite sources"
    and drive_spec: "i \<in> sources \<Longrightarrow>
          pend (drive s i l) = (if l then insert i (pend s) else pend s - {i}) \<and>
          serving (drive s i l) = serving s \<and>
          (line (drive s i l) \<longleftrightarrow> pend (drive s i l) - serving s \<noteq> {})"
    and claim_none: "pend s - serving s = {} \<Longrightarrow> claim s = (0, s)"
    and claim_some: "pend s - serving s \<noteq> {} \<Longrightarrow>
          fst (claim s) = Min (pend s - serving s) \<and>
          pend (snd (claim s)) = pend s \<and>
          serving (snd (claim s)) = insert (fst (claim s)) (serving s) \<and>
          (line (snd (claim s)) \<longleftrightarrow> pend s - serving (snd (claim s)) \<noteq> {})"
    and complete_spec: "i \<in> sources \<Longrightarrow>
          pend (complete s i) = pend s \<and> serving (complete s i) = serving s - {i} \<and>
          (line (complete s i) \<longleftrightarrow> pend s - (serving s - {i}) \<noteq> {})"
begin

lemma ready_finite: "finite (pend s - serving s)"
  using pend_sources fin_sources by (metis finite_Diff finite_subset)

lemma claim_mem: "pend s - serving s \<noteq> {} \<Longrightarrow> fst (claim s) \<in> pend s - serving s"
  using claim_some Min_in ready_finite by metis

text \<open>A source being served is not handed out a second time.\<close>

lemma claim_not_serving: "i \<in> serving s \<Longrightarrow> 0 < i \<Longrightarrow> fst (claim s) \<noteq> i"
  using claim_none claim_mem by (metis DiffE fst_conv less_irrefl)

lemma claim_twice:
  "pend s - serving s \<noteq> {} \<Longrightarrow> 0 < fst (claim s) \<Longrightarrow> fst (claim (snd (claim s))) \<noteq> fst (claim s)"
  using claim_some claim_not_serving by (metis insertI1)

text \<open>A level source that is still high when it is completed is presented again.\<close>

lemma complete_represents:
  assumes "i \<in> sources" "i \<in> pend s" "i \<in> serving s"
  shows "line (complete s i)" "i \<in> pend (complete s i) - serving (complete s i)"
  using assms complete_spec by auto

lemma claim_complete_idle:
  assumes "pend s = {i}" "serving s = {}" "i \<in> sources"
  shows "fst (claim s) = i \<and> \<not> line (snd (claim s)) \<and>
    line (complete (snd (claim s)) i) \<and> \<not> line (drive (snd (claim s)) i False)"
proof -
  have c: "fst (claim s) = i" "pend (snd (claim s)) = {i}" "serving (snd (claim s)) = {i}"
    using claim_some [of s] assms by auto
  show ?thesis
    using c claim_some [of s] complete_spec [OF assms(3), of "snd (claim s)"]
      drive_spec [OF assms(3), of "snd (claim s)" False] assms by auto
qed

end

definition irq_set :: "u32 \<Rightarrow> nat set" where
  "irq_set w = {i. 1 \<le> i \<and> i \<le> 32 \<and> bit w (i - 1)}"

definition plic_pend :: "emu \<Rightarrow> nat set" where
  "plic_pend s = irq_set (m_plic_pending (e_m s))"

definition plic_serving :: "emu \<Rightarrow> nat set" where
  "plic_serving s = irq_set (m_plic_served (e_m s))"

definition seip :: "emu \<Rightarrow> bool" where
  "seip s \<longleftrightarrow> bit (c_mip (e_cpu s)) 9"

definition plic_claim :: "emu \<Rightarrow> nat \<times> emu" where
  "plic_claim s = (let (v, s') = plic_read s PLIC_CLAIM 2 in (unat v, s'))"

definition plic_complete :: "emu \<Rightarrow> nat \<Rightarrow> emu" where
  "plic_complete s i = plic_write s PLIC_CLAIM (of_nat i) 2"

lemma irq_set_diff: "irq_set (a AND NOT b) = irq_set a - irq_set b"
  by (auto simp: irq_set_def bit_simps)

lemma irq_set_or_bit: "1 \<le> i \<Longrightarrow> i \<le> 32 \<Longrightarrow> irq_set (a OR push_bit (i - 1) 1) = insert i (irq_set a)"
  by (auto simp: irq_set_def bit_simps)

lemma irq_set_clear_bit: "1 \<le> i \<Longrightarrow> i \<le> 32 \<Longrightarrow> irq_set (a AND NOT (push_bit (i - 1) 1)) = irq_set a - {i}"
  by (auto simp: irq_set_def bit_simps)

lemma irq_set_empty: "irq_set a = {} \<longleftrightarrow> a = 0"
proof
  assume e: "irq_set a = {}"
  show "a = 0"
  proof (rule ccontr)
    assume "a \<noteq> 0"
    from ctz32_spec [OF this] have "Suc (ctz32 a) \<in> irq_set a" by (simp add: irq_set_def)
    with e show False by simp
  qed
qed (simp add: irq_set_def)

lemma irq_set_Min: "a \<noteq> 0 \<Longrightarrow> Min (irq_set a) = Suc (ctz32 a)"
proof (rule Min_eqI)
  assume "a \<noteq> 0"
  note c = ctz32_spec [OF this]
  show "finite (irq_set a)" by (rule finite_subset [of _ "{1..32}"]) (auto simp: irq_set_def)
  show "Suc (ctz32 a) \<in> irq_set a" using c by (simp add: irq_set_def)
  show "Suc (ctz32 a) \<le> y" if "y \<in> irq_set a" for y
    using that c(3) by (cases y) (auto simp: irq_set_def not_less [symmetric])
qed

lemma seip_plic_update:
  "seip (plic_update s) \<longleftrightarrow> m_plic_pending (e_m s) AND NOT (m_plic_served (e_m s)) \<noteq> 0"
  by (auto simp: seip_def plic_update_def riscv_cpu_set_mip_def riscv_cpu_reset_mip_def Let_def
      MIP_SEIP_def bit_simps)

lemma plic_ready: "plic_pend s - plic_serving s = irq_set (m_plic_pending (e_m s) AND NOT (m_plic_served (e_m s)))"
  by (simp add: plic_pend_def plic_serving_def irq_set_diff)

lemma seip_ready: "seip (plic_update s) \<longleftrightarrow> plic_pend s - plic_serving s \<noteq> {}"
  by (simp only: seip_plic_update plic_ready irq_set_empty)

lemma plic_sets_frame [simp]:
  "plic_pend (plic_update s) = plic_pend s" "plic_serving (plic_update s) = plic_serving s"
  by (simp_all add: plic_pend_def plic_serving_def)

lemma plic_claim_some:
  assumes "m_plic_pending (e_m s) AND NOT (m_plic_served (e_m s)) \<noteq> 0" (is "?w \<noteq> 0")
  shows "plic_claim s = (Suc (ctz32 ?w),
    plic_update (upd_m (\<lambda>m. m\<lparr>m_plic_served := m_plic_served m OR push_bit (ctz32 ?w) 1\<rparr>) s))"
proof -
  have "ctz32 ?w < 32" by (rule ctz32_spec(1) [OF assms])
  then have "unat (of_nat (ctz32 ?w) + 1 :: u32) = Suc (ctz32 ?w)"
    by (simp add: unat_word_ariths unsigned_of_nat take_bit_nat_eq_self)
  with assms show ?thesis by (simp add: plic_claim_def plic_read_def Let_def)
qed

interpretation plic: irq_controller rv_plic_set_irq plic_claim plic_complete
  plic_pend plic_serving seip "{1..32}"
proof
  fix s :: emu and i :: nat and l :: bool
  show "plic_pend s \<subseteq> {1..32}" by (auto simp: plic_pend_def irq_set_def)
  show "finite {1..32 :: nat}" by simp
  assume i: "i \<in> {1..32}"
  show "plic_pend (rv_plic_set_irq s i l) = (if l then insert i (plic_pend s) else plic_pend s - {i}) \<and>
      plic_serving (rv_plic_set_irq s i l) = plic_serving s \<and>
      (seip (rv_plic_set_irq s i l) \<longleftrightarrow> plic_pend (rv_plic_set_irq s i l) - plic_serving s \<noteq> {})"
    using i irq_set_or_bit [of i "m_plic_pending (e_m s)"] irq_set_clear_bit [of i "m_plic_pending (e_m s)"]
    by (simp add: rv_plic_set_irq_def plic_set_irq_def Let_def seip_ready)
       (simp add: plic_pend_def plic_serving_def)
  have u: "unat (of_nat i :: u32) = i" "(of_nat i :: u32) \<noteq> 0 \<and> of_nat i \<le> (32 :: u32)"
    using i by (auto simp: unsigned_of_nat take_bit_nat_eq_self word_le_nat_alt simp flip: unat_eq_0)
  have u1: "unat (of_nat i - 1 :: u32) = i - 1"
    using i u by (simp add: unat_sub_if_size)
  have "plic_complete s i = plic_update (upd_m (\<lambda>m. m\<lparr>m_plic_served :=
          m_plic_served m AND NOT (push_bit (i - 1) 1)\<rparr>) s)"
    using i u u1 by (simp add: plic_complete_def plic_write_def word_le_nat_alt)
  then show "plic_pend (plic_complete s i) = plic_pend s \<and>
      plic_serving (plic_complete s i) = plic_serving s - {i} \<and>
      (seip (plic_complete s i) \<longleftrightarrow> plic_pend s - (plic_serving s - {i}) \<noteq> {})"
    using i irq_set_clear_bit [of i "m_plic_served (e_m s)"]
    by (simp add: seip_ready) (simp add: plic_pend_def plic_serving_def)
next
  fix s :: emu
  show "plic_pend s - plic_serving s = {} \<Longrightarrow> plic_claim s = (0, s)"
    by (simp add: plic_ready irq_set_empty plic_claim_def plic_read_def)
  assume ne: "plic_pend s - plic_serving s \<noteq> {}"
  then have w: "m_plic_pending (e_m s) AND NOT (m_plic_served (e_m s)) \<noteq> 0" (is "?w \<noteq> 0")
    by (simp add: plic_ready irq_set_empty)
  have lt: "Suc (ctz32 ?w) \<le> 32" using ctz32_spec(1) [OF w] by simp
  have m: "Min (plic_pend s - plic_serving s) = Suc (ctz32 ?w)"
    by (simp only: plic_ready irq_set_Min [OF w])
  show "fst (plic_claim s) = Min (plic_pend s - plic_serving s) \<and>
      plic_pend (snd (plic_claim s)) = plic_pend s \<and>
      plic_serving (snd (plic_claim s)) = insert (fst (plic_claim s)) (plic_serving s) \<and>
      (seip (snd (plic_claim s)) \<longleftrightarrow> plic_pend s - plic_serving (snd (plic_claim s)) \<noteq> {})"
    unfolding m plic_claim_some [OF w]
    using irq_set_or_bit [of "Suc (ctz32 ?w)" "m_plic_served (e_m s)"] lt
    by (simp add: seip_ready) (simp add: plic_pend_def plic_serving_def)
qed

section \<open>The UART's receive ring is a queue\<close>

definition uart_contents :: "emu \<Rightarrow> u8 list" where
  "uart_contents s = ring_list RV_RX_RING (m_rx (e_m s)) (unat (m_rx_head (e_m s))) (unat (m_rx_tail (e_m s)))"

definition uart_ring_ok :: "emu \<Rightarrow> bool" where
  "uart_ring_ok s \<longleftrightarrow> unat (m_rx_head (e_m s)) < RV_RX_RING \<and> unat (m_rx_tail (e_m s)) < RV_RX_RING"

definition uart_rx_ok :: "emu \<Rightarrow> bool" where
  "uart_rx_ok s \<longleftrightarrow> uart_ring_ok s \<and> m_lcr (e_m s) AND UART_LCR_DLAB = 0"

text \<open>The guest's side of the ring: a read of RBR, with what LSR says about it.\<close>

definition uart_rx_get :: "emu \<Rightarrow> u8 option \<times> emu" where
  "uart_rx_get s =
     (let (v, s') = uart_read s 0 0
      in (if uart_rx_avail (e_m s) then Some (ucast v) else None, s'))"

lemma unat_ring_next: "unat (ring_next i) = Suc (unat i) mod RV_RX_RING"
proof -
  have "Suc (unat i) mod 64 < 256" by (rule less_trans [of _ 64]) simp_all
  then show ?thesis
    by (simp add: ring_next_def RV_RX_RING_def unsigned_of_nat take_bit_nat_eq_self)
qed

lemma uart_update_irq_frame [emu_frame, simp]:
  "e_ram (uart_update_irq s) = e_ram s" "e_ev (uart_update_irq s) = e_ev s"
  "e_map (uart_update_irq s) = e_map s"
  "m_rx (e_m (uart_update_irq s)) = m_rx (e_m s)"
  "m_rx_head (e_m (uart_update_irq s)) = m_rx_head (e_m s)"
  "m_rx_tail (e_m (uart_update_irq s)) = m_rx_tail (e_m s)"
  "m_lcr (e_m (uart_update_irq s)) = m_lcr (e_m s)" "m_ier (e_m (uart_update_irq s)) = m_ier (e_m s)"
  "m_dropped_rx (e_m (uart_update_irq s)) = m_dropped_rx (e_m s)"
  by (simp_all add: uart_update_irq_def plic_set_irq_m)

lemma uart_push_ring:
  assumes "uart_ring_ok s"
  shows "uart_ring_ok (uart_push_rx s c)"
    and "uart_contents (uart_push_rx s c) =
      (if length (uart_contents s) < RV_RX_RING - 1 then uart_contents s @ [c] else uart_contents s)"
    and "m_dropped_rx (e_m (uart_push_rx s c)) =
      (if length (uart_contents s) < RV_RX_RING - 1 then m_dropped_rx (e_m s) else m_dropped_rx (e_m s) + 1)"
proof -
  let ?h = "unat (m_rx_head (e_m s))" and ?t = "unat (m_rx_tail (e_m s))"
  have ht: "?h < RV_RX_RING" "?t < RV_RX_RING" using assms by (simp_all add: uart_ring_ok_def)
  have full: "ring_next (m_rx_head (e_m s)) = m_rx_tail (e_m s) \<longleftrightarrow> \<not> length (uart_contents s) < RV_RX_RING - 1"
    using ring_full_iff [OF ht] ring_count_less [of RV_RX_RING ?h ?t]
    by (auto simp: uart_contents_def unat_ring_next RV_RX_RING_def word_unat_eq_iff)
  have lt: "Suc ?h mod RV_RX_RING < RV_RX_RING" by (simp add: RV_RX_RING_def)
  show "uart_ring_ok (uart_push_rx s c)"
    using ht lt by (simp add: uart_push_rx_def uart_ring_ok_def Let_def unat_ring_next)
  show "uart_contents (uart_push_rx s c) =
      (if length (uart_contents s) < RV_RX_RING - 1 then uart_contents s @ [c] else uart_contents s)"
  proof (cases "ring_next (m_rx_head (e_m s)) = m_rx_tail (e_m s)")
    case True
    with full show ?thesis by (simp add: uart_push_rx_def uart_contents_def Let_def)
  next
    case False
    then have "Suc ?h mod RV_RX_RING \<noteq> ?t" by (simp add: word_unat_eq_iff unat_ring_next)
    from ring_list_put [OF ht this] False full show ?thesis
      by (simp add: uart_push_rx_def uart_contents_def Let_def unat_ring_next)
  qed
  show "m_dropped_rx (e_m (uart_push_rx s c)) =
      (if length (uart_contents s) < RV_RX_RING - 1 then m_dropped_rx (e_m s) else m_dropped_rx (e_m s) + 1)"
    using full by (auto simp: uart_push_rx_def Let_def)
qed

lemma uart_push_frame [emu_frame, simp]:
  "e_ev (uart_push_rx s c) = e_ev s" "m_lcr (e_m (uart_push_rx s c)) = m_lcr (e_m s)"
  "e_ram (uart_push_rx s c) = e_ram s" "e_map (uart_push_rx s c) = e_map s"
  "m_ier (e_m (uart_push_rx s c)) = m_ier (e_m s)"
  by (simp_all add: uart_push_rx_def Let_def)

lemma uart_get_ring:
  assumes "uart_rx_ok s"
  shows "uart_rx_ok (snd (uart_rx_get s))"
    and "uart_contents s = [] \<Longrightarrow> uart_rx_get s = (None, s)"
    and "uart_contents s = b # bs \<Longrightarrow> fst (uart_rx_get s) = Some b \<and> uart_contents (snd (uart_rx_get s)) = bs"
proof -
  let ?h = "unat (m_rx_head (e_m s))" and ?t = "unat (m_rx_tail (e_m s))"
  have ht: "?h < RV_RX_RING" "?t < RV_RX_RING" and lcr: "m_lcr (e_m s) AND UART_LCR_DLAB = 0"
    using assms by (simp_all add: uart_rx_ok_def uart_ring_ok_def)
  have av: "uart_rx_avail (e_m s) \<longleftrightarrow> ?h \<noteq> ?t" by (simp add: uart_rx_avail_def word_unat_eq_iff)
  have lt: "Suc ?t mod RV_RX_RING < RV_RX_RING" by (simp add: RV_RX_RING_def)
  show "uart_rx_ok (snd (uart_rx_get s))"
    using assms lcr lt by (auto simp: uart_rx_get_def uart_read_def Let_def uart_rx_ok_def uart_ring_ok_def unat_ring_next)
  show "uart_contents s = [] \<Longrightarrow> uart_rx_get s = (None, s)"
    using lcr av ht by (simp add: uart_rx_get_def uart_read_def Let_def uart_contents_def)
  assume c: "uart_contents s = b # bs"
  then have ne: "?h \<noteq> ?t"
    using ring_list_empty [OF ht, of "m_rx (e_m s)"] by (metis list.distinct(1) uart_contents_def)
  from ring_list_get [OF ht ne, of "m_rx (e_m s)"] c
  have "m_rx (e_m s) ?t = b" "ring_list RV_RX_RING (m_rx (e_m s)) ?h (Suc ?t mod RV_RX_RING) = bs"
    by (simp_all add: uart_contents_def)
  then show "fst (uart_rx_get s) = Some b \<and> uart_contents (snd (uart_rx_get s)) = bs"
    using ne lcr av by (simp add: uart_rx_get_def uart_read_def Let_def uart_contents_def unat_ring_next)
qed

interpretation uart: byte_fifo uart_push_rx uart_rx_get uart_contents uart_rx_ok 63
proof
  fix s :: emu and b :: u8 and bs
  assume ok: "uart_rx_ok s"
  then have r: "uart_ring_ok s" by (simp add: uart_rx_ok_def)
  show "uart_rx_ok (uart_push_rx s b)" using ok uart_push_ring(1) [OF r] by (simp add: uart_rx_ok_def)
  show "uart_rx_ok (snd (uart_rx_get s))" by (rule uart_get_ring(1) [OF ok])
  show "uart_contents (uart_push_rx s b) =
      (if length (uart_contents s) < 63 then uart_contents s @ [b] else uart_contents s)"
    using uart_push_ring(2) [OF r] by (simp add: RV_RX_RING_def)
  show "uart_contents s = [] \<Longrightarrow> fst (uart_rx_get s) = None \<and> uart_contents (snd (uart_rx_get s)) = []"
    using uart_get_ring(2) [OF ok] by simp
  show "uart_contents s = b # bs \<Longrightarrow> fst (uart_rx_get s) = Some b \<and> uart_contents (snd (uart_rx_get s)) = bs"
    by (rule uart_get_ring(3) [OF ok])
qed

section \<open>The UART's interrupt\<close>

text \<open>The PLIC sees the UART's line exactly as \<open>uart_update_irq()\<close> computes it.\<close>

definition uart_irq_inv :: "emu \<Rightarrow> bool" where
  "uart_irq_inv s \<longleftrightarrow> (RV_UART_IRQ \<in> plic_pend s \<longleftrightarrow> uart_irq_active (e_m s))"

lemma uart_irq_inv_update [simp]: "uart_irq_inv (uart_update_irq s)"
proof -
  have a: "uart_irq_active (e_m (uart_update_irq s)) = uart_irq_active (e_m s)"
    by (simp add: uart_irq_active_def uart_rx_avail_def)
  have "uart_update_irq s = rv_plic_set_irq s RV_UART_IRQ (uart_irq_active (e_m s))"
    by (simp add: uart_update_irq_def rv_plic_set_irq_def RV_UART_IRQ_def)
  then have "plic_pend (uart_update_irq s) = (if uart_irq_active (e_m s)
      then insert RV_UART_IRQ (plic_pend s) else plic_pend s - {RV_UART_IRQ})"
    using plic.drive_spec [of RV_UART_IRQ s] by (simp add: RV_UART_IRQ_def)
  with a show ?thesis by (simp add: uart_irq_inv_def)
qed

lemma uart_irq_inv_m:
  "uart_irq_inv s \<Longrightarrow> m_plic_pending (f (e_m s)) = m_plic_pending (e_m s) \<Longrightarrow>
   uart_irq_active (f (e_m s)) = uart_irq_active (e_m s) \<Longrightarrow> uart_irq_inv (upd_m f s)"
  by (simp add: uart_irq_inv_def plic_pend_def)

lemma uart_irq_inv_push: "uart_irq_inv s \<Longrightarrow> uart_irq_inv (uart_push_rx s c)"
  by (auto simp: uart_push_rx_def Let_def uart_irq_active_def uart_rx_avail_def intro: uart_irq_inv_m)

lemma uart_irq_inv_read: "uart_irq_inv s \<Longrightarrow> uart_irq_inv (snd (uart_read s off sz))"
  by (auto simp: uart_read_def Let_def)

lemma uart_irq_inv_write: "uart_irq_inv s \<Longrightarrow> uart_irq_inv (uart_write s off val sz)"
  by (auto simp: uart_write_def Let_def uart_irq_active_def uart_rx_avail_def intro: uart_irq_inv_m)

lemma uart_irq_inv_other_line:
  "uart_irq_inv s \<Longrightarrow> i \<noteq> RV_UART_IRQ \<Longrightarrow> uart_irq_inv (rv_plic_set_irq s i l)"
proof (cases "1 \<le> i \<and> i \<le> 32")
  case True
  assume "uart_irq_inv s" "i \<noteq> RV_UART_IRQ"
  moreover have "uart_irq_active (e_m (rv_plic_set_irq s i l)) = uart_irq_active (e_m s)"
    by (simp add: rv_plic_set_irq_def plic_set_irq_m uart_irq_active_def uart_rx_avail_def)
  ultimately show ?thesis
    using plic.drive_spec [of i s l] True by (auto simp: uart_irq_inv_def)
qed (auto simp: rv_plic_set_irq_def)

section \<open>Draining the console into the ring\<close>

definition received :: "history \<Rightarrow> u8 list" where
  "received h = rev (List.map_filter
     (\<lambda>e. case e of EvGetc c \<Rightarrow> if c < 0 then None else Some (word_of_int c) | _ \<Rightarrow> None) h)"

lemma received_Nil [simp]: "received [] = []"
  by (simp add: received_def List.map_filter_simps)

lemma received_append: "received (h1 @ h2) = received h2 @ received h1"
  by (simp add: received_def List.map_filter_def)

lemma received_Cons:
  "received (EvGetc c # h) = (if c < 0 then received h else received h @ [word_of_int c])"
  by (simp add: received_def List.map_filter_simps)

lemma plat_getc_frame [emu_frame, simp]:
  "e_cpu (snd (plat_getc P s)) = e_cpu s" "e_m (snd (plat_getc P s)) = e_m s"
  "e_ram (snd (plat_getc P s)) = e_ram s" "e_map (snd (plat_getc P s)) = e_map s"
  by (simp_all add: plat_getc_def Let_def)

lemma uart_contents_getc [simp]:
  "uart_contents (snd (plat_getc P s)) = uart_contents s"
  "uart_ring_ok (snd (plat_getc P s)) = uart_ring_ok s"
  "uart_irq_inv (snd (plat_getc P s)) = uart_irq_inv s"
  by (simp_all add: uart_contents_def uart_ring_ok_def uart_irq_inv_def plic_pend_def)

lemma uart_poll_loop_spec:
  assumes "uart_ring_ok s" "RV_RX_RING - length (uart_contents s) \<le> n" "uart_irq_inv s"
  shows "\<exists>s' evs. uart_poll_loop P n s = Some s' \<and> uart_ring_ok s' \<and> uart_irq_inv s' \<and>
    e_ev s' = evs @ e_ev s \<and> (\<forall>e \<in> set evs. \<exists>c. e = EvGetc c) \<and>
    uart_contents s' = uart_contents s @ received evs \<and>
    m_dropped_rx (e_m s') = m_dropped_rx (e_m s) \<and>
    (length (uart_contents s') = RV_RX_RING - 1 \<or> (\<exists>c evs'. evs = EvGetc c # evs' \<and> c < 0))"
  using assms
proof (induction n arbitrary: s)
  case 0
  then have "ring_count RV_RX_RING (unat (m_rx_head (e_m s))) (unat (m_rx_tail (e_m s))) < RV_RX_RING"
    by (intro ring_count_less) (simp add: RV_RX_RING_def)
  with "0.prems"(2) show ?case by (simp add: uart_contents_def)
next
  case (Suc n)
  let ?h = "unat (m_rx_head (e_m s))" and ?t = "unat (m_rx_tail (e_m s))"
  have ht: "?h < RV_RX_RING" "?t < RV_RX_RING" using Suc.prems by (simp_all add: uart_ring_ok_def)
  have len: "length (uart_contents s) \<le> RV_RX_RING - 1"
    using ring_count_less [of RV_RX_RING ?h ?t] by (simp add: uart_contents_def RV_RX_RING_def)
  show ?case
  proof (cases "Suc ?h mod RV_RX_RING = ?t")
    case True
    then have "length (uart_contents s) = RV_RX_RING - 1"
      using ring_full_iff [OF ht] by (simp add: uart_contents_def)
    with True Suc.prems show ?thesis
      by (intro exI [of _ s] exI [of _ "[]"]) simp
  next
    case False
    define c where "c = fst (plat_getc P s)"
    define s1 where "s1 = snd (plat_getc P s)"
    have g: "plat_getc P s = (c, s1)" "e_ev s1 = EvGetc c # e_ev s"
      by (simp_all add: c_def s1_def plat_getc_def Let_def)
    have m1: "uart_contents s1 = uart_contents s" "uart_ring_ok s1" "uart_irq_inv s1" "e_m s1 = e_m s"
      using Suc.prems by (simp_all add: s1_def)
    show ?thesis
    proof (cases "c < 0")
      case True
      with False g m1 show ?thesis
        by (intro exI [of _ s1] exI [of _ "[EvGetc c]"]) (simp add: received_Cons)
    next
      case pos: False
      have lt: "length (uart_contents s1) < RV_RX_RING - 1"
        using False ring_full_iff [OF ht] len m1 by (auto simp: uart_contents_def)
      let ?s2 = "uart_push_rx s1 (word_of_int c)"
      note p = uart_push_ring [OF m1(2), of "word_of_int c"]
      have "\<exists>s' evs. uart_poll_loop P n ?s2 = Some s' \<and> uart_ring_ok s' \<and> uart_irq_inv s' \<and>
          e_ev s' = evs @ e_ev ?s2 \<and> (\<forall>e \<in> set evs. \<exists>c. e = EvGetc c) \<and>
          uart_contents s' = uart_contents ?s2 @ received evs \<and>
          m_dropped_rx (e_m s') = m_dropped_rx (e_m ?s2) \<and>
          (length (uart_contents s') = RV_RX_RING - 1 \<or> (\<exists>c evs'. evs = EvGetc c # evs' \<and> c < 0))"
        using p lt m1 Suc.prems(2) by (intro Suc.IH) (simp_all add: uart_irq_inv_push)
      then obtain s' evs where IH: "uart_poll_loop P n ?s2 = Some s'" "uart_ring_ok s'" "uart_irq_inv s'"
          "e_ev s' = evs @ e_ev ?s2" "\<forall>e \<in> set evs. \<exists>c. e = EvGetc c"
          "uart_contents s' = uart_contents ?s2 @ received evs"
          "m_dropped_rx (e_m s') = m_dropped_rx (e_m ?s2)"
          "length (uart_contents s') = RV_RX_RING - 1 \<or> (\<exists>c evs'. evs = EvGetc c # evs' \<and> c < 0)"
        by blast
      show ?thesis
        using IH p lt m1 g False pos
        by (intro exI [of _ s'] exI [of _ "evs @ [EvGetc c]"])
           (auto simp: received_append received_Cons)
    qed
  qed
qed

section \<open>Timer facts\<close>

definition stip :: "emu \<Rightarrow> bool" where
  "stip s \<longleftrightarrow> bit (c_mip (e_cpu s)) 5"

lemma stip_reset: "\<not> stip (upd_cpu (\<lambda>c. riscv_cpu_reset_mip c MIP_STIP) s)"
  by (simp add: stip_def riscv_cpu_reset_mip_def MIP_STIP_def bit_simps)

lemma stip_set: "stip (upd_cpu (\<lambda>c. riscv_cpu_set_mip c MIP_STIP) s)"
  by (simp add: stip_def riscv_cpu_set_mip_def MIP_STIP_def bit_simps Let_def)

lemma stip_upd_m [simp]: "stip (upd_m f s) = stip s"
  by (simp add: stip_def)

lemma timecmp_halves:
  "((t AND 0xffffffff00000000) OR ucast (lo :: u32)) AND 0xffffffff OR push_bit 32 (ucast (hi :: u32)) =
     push_bit 32 (ucast hi) OR (ucast lo :: u64)"
  "((t AND 0xffffffff) OR push_bit 32 (ucast (hi :: u32))) AND 0xffffffff00000000 OR ucast (lo :: u32) =
     push_bit 32 (ucast hi) OR (ucast lo :: u64)"
proof -
  have m: "(0xffffffff :: u64) = mask 32" "(0xffffffff00000000 :: u64) = NOT (mask 32)"
    by (simp_all add: mask_eq_exp_minus_1)
  show "((t AND 0xffffffff00000000) OR ucast (lo :: u32)) AND 0xffffffff OR push_bit 32 (ucast (hi :: u32)) =
     push_bit 32 (ucast hi) OR (ucast lo :: u64)"
    unfolding m by (rule bit_word_eqI) (auto simp: bit_simps dest: bit_imp_le_length)
  show "((t AND 0xffffffff) OR push_bit 32 (ucast (hi :: u32))) AND 0xffffffff00000000 OR ucast (lo :: u32) =
     push_bit 32 (ucast hi) OR (ucast lo :: u64)"
    unfolding m by (rule bit_word_eqI) (auto simp: bit_simps dest: bit_imp_le_length)
qed

lemma word64_halves:
  "ucast (push_bit 32 (ucast (hi :: u32)) OR (ucast (lo :: u32) :: u64)) = lo"
  "ucast (drop_bit 32 (push_bit 32 (ucast (hi :: u32)) OR (ucast (lo :: u32) :: u64))) = hi"
  by (rule bit_word_eqI, auto simp: bit_simps dest: bit_imp_le_length)+

section \<open>The bridge's register file\<close>

lemma add_ev_sel [emu_frame, simp]:
  "e_cpu (add_ev e s) = e_cpu s" "e_m (add_ev e s) = e_m s" "e_ram (add_ev e s) = e_ram s"
  "e_map (add_ev e s) = e_map s" "e_ev (add_ev e s) = e # e_ev s"
  by (simp_all add: add_ev_def)

lemma pv_status_sel [emu_frame, simp]:
  "e_cpu (pv_status r s) = e_cpu s" "e_ram (pv_status r s) = e_ram s" "e_map (pv_status r s) = e_map s"
  "e_ev (pv_status r s) = e_ev s" "m_pv_status (e_m (pv_status r s)) = word_of_int r"
  by (simp_all add: pv_status_def)

lemma pv_reply_sel [emu_frame, simp]:
  "e_cpu (pv_reply n r s) = e_cpu s" "e_ram (pv_reply n r s) = e_ram s" "e_map (pv_reply n r s) = e_map s"
  "e_ev (pv_reply n r s) = e_ev s"
  by (simp_all add: pv_reply_def Let_def)

lemmas pv_command_defs = pv_do_write_def pv_do_read_def pv_do_write_read_def pv_do_probe_def
  pv_do_gpio_get_def

lemma pv_exec_frame [emu_frame]:
  "e_ram (pv_exec P s c) = e_ram s" "e_cpu (pv_exec P s c) = e_cpu s" "e_map (pv_exec P s c) = e_map s"
  by (simp_all add: pv_exec_def pv_command_defs Let_def)

lemma pv_data_offsets:
  assumes "pv_in_data off" "off AND 3 = 0"
  shows "unat (off - PV_REG_DATA) = unat off - 0x200" "0x200 \<le> unat off" "unat off + 4 \<le> 0x300"
    "unat off mod 4 = 0"
proof -
  have b: "(0x200 :: u32) \<le> off" "off < 0x300"
    using assms(1) by (simp_all add: pv_in_data_def PV_REG_DATA_def PV_DATA_BYTES_def)
  then show "unat (off - PV_REG_DATA) = unat off - 0x200" "0x200 \<le> unat off"
    by (simp_all add: PV_REG_DATA_def unat_sub_if_size word_le_nat_alt)
  show m: "unat off mod 4 = 0" using assms(2) by (simp add: and3_unat)
  have "unat off < 0x300" using b(2) by (simp add: word_less_nat_alt)
  with m show "unat off + 4 \<le> 0x300" by presburger
qed

lemma pv_write_data:
  "pv_in_data off \<Longrightarrow> off AND 3 = 0 \<Longrightarrow> pv_write P s off val 2 =
     upd_m (\<lambda>m. m\<lparr>m_pv_data := mem_write (m_pv_data m) (unat off - 0x200) (le_bytes 4 val)\<rparr>) s"
  by (simp add: pv_write_def pv_data_offsets)

lemma pv_read_data:
  "pv_in_data off \<Longrightarrow> off AND 3 = 0 \<Longrightarrow>
     pv_read P s off 2 = (of_le (mem_read (m_pv_data (e_m s)) (unat off - 0x200) 4), s)"
  by (simp add: pv_read_def pv_data_offsets)

section \<open>Properties\<close>

text \<open>
  C26. The interrupt controller: with some source ready, a claim returns the lowest one, a second
  claim does not return it again, SEIP then stays up exactly while another source is ready, and
  completing a source whose line is still high raises SEIP again. With no source ready a claim
  returns 0 and changes nothing.
\<close>

theorem plic_claim_protocol:
  "if plic_pend s - plic_serving s = {} then plic_claim s = (0, s)
   else fst (plic_claim s) = Min (plic_pend s - plic_serving s) \<and>
     fst (plic_claim (snd (plic_claim s))) \<noteq> fst (plic_claim s) \<and>
     seip (snd (plic_claim s)) = (plic_pend s - plic_serving s - {fst (plic_claim s)} \<noteq> {}) \<and>
     seip (plic_complete (snd (plic_claim s)) (fst (plic_claim s)))"
proof (cases "plic_pend s - plic_serving s = {}")
  case True
  then show ?thesis using plic.claim_none by simp
next
  case ne: False
  note c = plic.claim_some [OF ne]
  have mem: "fst (plic_claim s) \<in> plic_pend s - plic_serving s" by (rule plic.claim_mem [OF ne])
  have src: "fst (plic_claim s) \<in> {1..32}" using mem plic.pend_sources by blast
  then have pos: "0 < fst (plic_claim s)" by simp
  show ?thesis
    using ne c mem plic.claim_twice [OF ne pos] plic.complete_represents(1) [OF src, of "snd (plic_claim s)"]
    by auto
qed

text \<open>
  C33. The UART's receive ring is a queue of 63 bytes: a burst that fits is delivered to a guest
  reading RBR in order, complete and with nothing added.
\<close>

theorem uart_fifo_order:
  assumes "uart_rx_ok s" "uart_contents s = []" "length bs \<le> 63"
  shows "fst (uart.get_all (length bs) (uart.put_all s bs)) = bs \<and>
    uart_contents (snd (uart.get_all (length bs) (uart.put_all s bs))) = []"
  using assms by (rule uart.fifo_order)

theorem uart_fifo_order_witness:
  "fst (uart.get_all 3 (uart.put_all emu_start [72, 105, 10])) = [72, 105, 10]"
proof -
  have "uart_rx_ok emu_start" "uart_contents emu_start = []"
    by (simp_all add: uart_rx_ok_def uart_ring_ok_def uart_contents_def RV_RX_RING_def)
  from uart_fifo_order [OF this, of "[72, 105, 10]"] show ?thesis
    by (simp add: eval_nat_numeral)
qed


text \<open>
  Draining the console into the UART ends within its fuel and loses nothing: the ring holds
  what it held, then every byte received, in order; no byte is dropped; the loop stops only
  because the ring is full or the console is empty; and the interrupt line matches the ring.
\<close>

lemma uart_poll_returns:
  assumes "uart_ring_ok s" "uart_irq_inv s"
  shows "\<exists>s' evs. uart_poll_input P s = Some s' \<and> uart_ring_ok s' \<and> uart_irq_inv s' \<and>
    e_ev s' = evs @ e_ev s \<and> uart_contents s' = uart_contents s @ received evs \<and>
    m_dropped_rx (e_m s') = m_dropped_rx (e_m s) \<and>
    (length (uart_contents s') = 63 \<or> (\<exists>c evs'. evs = EvGetc c # evs' \<and> c < 0))"
  using uart_poll_loop_spec [OF assms(1) _ assms(2), of 64 P]
  unfolding uart_poll_input_def by (auto simp: RV_RX_RING_def)

text \<open>
  The timer: when the deadline has passed, one update raises STIP and disarms the comparator,
  so that a further update does nothing until the guest arms it again; arming through SBI clears
  STIP. Before the deadline an update leaves STIP and the comparator alone.
\<close>

lemma timer_one_shot:
  assumes "m_timecmp (e_m s) \<noteq> UINT64_MAX"
  shows "(m_timecmp (e_m s) \<le> po_now P (e_ev s) \<longrightarrow>
      stip (timer_update P s) \<and> m_timecmp (e_m (timer_update P s)) = UINT64_MAX \<and>
      timer_update P (timer_update P s) = timer_update P s \<and>
      \<not> stip (rv_set_timer (timer_update P s) t) \<and>
      m_timecmp (e_m (rv_set_timer (timer_update P s) t)) = t) \<and>
    (po_now P (e_ev s) < m_timecmp (e_m s) \<longrightarrow>
      stip (timer_update P s) = stip s \<and> e_m (timer_update P s) = e_m s)"
proof (intro conjI impI)
  assume due: "m_timecmp (e_m s) \<le> po_now P (e_ev s)"
  have u: "timer_update P s = upd_m (\<lambda>m. m\<lparr>m_timecmp := UINT64_MAX\<rparr>)
      (upd_cpu (\<lambda>c. riscv_cpu_set_mip c MIP_STIP) (snd (plat_now_us P s)))"
    using assms due by (simp add: timer_update_def rv_mtime_def plat_now_us_def Let_def)
  show "stip (timer_update P s)" "m_timecmp (e_m (timer_update P s)) = UINT64_MAX"
    unfolding u by (simp_all add: stip_set)
  then show "timer_update P (timer_update P s) = timer_update P s"
    by (simp add: timer_update_def [of P "timer_update P s"])
  show "\<not> stip (rv_set_timer (timer_update P s) t)"
    "m_timecmp (e_m (rv_set_timer (timer_update P s) t)) = t"
    by (simp_all add: rv_set_timer_def stip_reset)
next
  assume "po_now P (e_ev s) < m_timecmp (e_m s)"
  then show "stip (timer_update P s) = stip s" "e_m (timer_update P s) = e_m s"
    using assms by (simp_all add: timer_update_def rv_mtime_def plat_now_us_def Let_def stip_def linorder_not_le [symmetric])
qed

text \<open>
  Arming the comparator through the CLINT in two 32-bit halves, in either order, gives the
  same 64-bit deadline, reads back as written and clears STIP.
\<close>

lemma clint_timecmp_halves:
  "m_timecmp (e_m (clint_write (clint_write s 0x4000 lo 2) 0x4004 hi 2)) = push_bit 32 (ucast hi) OR ucast lo \<and>
   m_timecmp (e_m (clint_write (clint_write s 0x4004 hi 2) 0x4000 lo 2)) = push_bit 32 (ucast hi) OR ucast lo \<and>
   fst (clint_read P (clint_write (clint_write s 0x4000 lo 2) 0x4004 hi 2) 0x4000 2) = lo \<and>
   fst (clint_read P (clint_write (clint_write s 0x4000 lo 2) 0x4004 hi 2) 0x4004 2) = hi \<and>
   \<not> stip (clint_write (clint_write s 0x4000 lo 2) 0x4004 hi 2)"
  by (simp add: clint_write_def clint_read_def timecmp_halves word64_halves stip_reset
      del: drop_bit_or)

text \<open>
  The bridge's registers: an access that is not an aligned 32-bit one reads 0 and changes
  nothing; writes to the read-only registers change nothing; a word written to the data window
  reads back and leaves every other word of the window as it was.
\<close>

lemma pv_register_file:
  "(sz \<noteq> 2 \<or> off AND 3 \<noteq> 0 \<longrightarrow> pv_read P s off sz = (0, s) \<and> pv_write P s off val sz = s) \<and>
   (off \<in> {PV_REG_ID, PV_REG_VERSION, PV_REG_CAPS, PV_REG_STATUS, PV_REG_RESULT} \<longrightarrow>
      pv_write P s off val sz = s) \<and>
   (pv_in_data off \<and> pv_in_data off' \<and> off AND 3 = 0 \<and> off' AND 3 = 0 \<longrightarrow>
      fst (pv_read P (pv_write P s off val 2) off' 2) =
        (if off' = off then val else fst (pv_read P s off' 2)))"
proof (intro conjI impI)
  show "pv_read P s off sz = (0, s)" "pv_write P s off val sz = s" if "sz \<noteq> 2 \<or> off AND 3 \<noteq> 0"
    using that by (simp_all only: pv_read_def pv_write_def Let_def if_True)
  show "pv_write P s off val sz = s"
    if "off \<in> {PV_REG_ID, PV_REG_VERSION, PV_REG_CAPS, PV_REG_STATUS, PV_REG_RESULT}"
    using that by (elim insertE emptyE; simp add: pv_write_def pv_in_data_def pv_reg_defs PV_DATA_BYTES_def)
  assume "pv_in_data off \<and> pv_in_data off' \<and> off AND 3 = 0 \<and> off' AND 3 = 0"
  then have i: "pv_in_data off" "pv_in_data off'" "off AND 3 = 0" "off' AND 3 = 0" by simp_all
  note o = pv_data_offsets [OF i(1,3)] and o' = pv_data_offsets [OF i(2,4)]
  show "fst (pv_read P (pv_write P s off val 2) off' 2) =
        (if off' = off then val else fst (pv_read P s off' 2))"
  proof (cases "off' = off")
    case True
    with i show ?thesis by (simp add: pv_write_data pv_read_data mem_simps)
  next
    case False
    then have "unat off \<noteq> unat off'" by (simp add: word_unat_eq_iff)
    then have "unat off' + 4 \<le> unat off \<or> unat off + 4 \<le> unat off'"
      using o(4) o'(4) by presburger
    then have "unat off' - 0x200 + 4 \<le> unat off - 0x200 \<or> unat off - 0x200 + 4 \<le> unat off' - 0x200"
      using o(2) o'(2) by linarith
    with False i show ?thesis by (simp add: pv_write_data pv_read_data mem_read_write_disjoint)
  qed
qed

text \<open>
  No zero-length or oversize transfer reaches a bus: executing a bridge command makes at
  most one access of the board, and an I2C access carries between 1 and 256 bytes each way; a
  request the guest got wrong is answered with EINVAL.
\<close>

lemma pv_bus_lengths:
  "\<exists>evs. e_ev (pv_exec P s cmd) = evs @ e_ev s \<and> length evs \<le> 1 \<and>
    (\<forall>b a w. EvI2cWrite b a w \<in> set evs \<longrightarrow> 0 < length w \<and> length w \<le> 256) \<and>
    (\<forall>b a n. EvI2cRead b a n \<in> set evs \<longrightarrow> 0 < n \<and> n \<le> 256) \<and>
    (\<forall>b a w n. EvI2cWriteRead b a w n \<in> set evs \<longrightarrow>
       0 < length w \<and> length w \<le> 256 \<and> 0 < n \<and> n \<le> 256) \<and>
    (256 < unat (m_pv_i2c_wlen (e_m s)) \<or> 256 < unat (m_pv_i2c_rlen (e_m s)) \<longrightarrow>
       evs = [] \<and> m_pv_status (e_m (pv_exec P s cmd)) = word_of_int (- EINVAL))"
  by (simp add: pv_exec_def pv_command_defs pv_cmd_defs Let_def PV_DATA_BYTES_def)

text \<open>
  C31. A pointer into guest RAM is given out exactly for a range that lies inside it, without
  wrapping at either end, and it is the range's offset.
\<close>

theorem guest_phys_ptr_bounds:
  "(rv_guest_phys_ptr s paddr len = Some p) =
     (0x80000000 \<le> unat paddr \<and> unat paddr + unat len \<le> 0x80000000 + unat (m_ram_size (e_m s)) \<and>
      p = unat paddr - 0x80000000 \<and> p + unat len \<le> unat (m_ram_size (e_m s)))"
  unfolding guest_phys_ptr_iff by (auto simp: RV_RAM_BASE_def)


end
