(* ===== verification/Hostsbi.thy ===== *)
theory Hostsbi
  imports Machine
begin

text \<open>
  The host-implemented SBI of \<open>emu/rv_hostsbi.c\<close> and the hook in \<open>raise_exception2()\<close> of
  \<open>emu/riscv_cpu.c\<close> that hands an S-mode ecall to it. The two static counters are the record
  \<open>sbi_stats\<close>. Error codes are the C \<open>long\<close>s, converted to a register as the code converts them.
\<close>

section \<open>Numbers\<close>

definition SBI_SUCCESS :: int where "SBI_SUCCESS = 0"
definition SBI_ERR_NOT_SUPPORTED :: int where "SBI_ERR_NOT_SUPPORTED = -2"
definition SBI_ERR_INVALID_PARAM :: int where "SBI_ERR_INVALID_PARAM = -3"
definition SBI_ERR_INVALID_ADDRESS :: int where "SBI_ERR_INVALID_ADDRESS = -5"

definition SBI_EXT_0_1_SET_TIMER :: u32 where "SBI_EXT_0_1_SET_TIMER = 0x00"
definition SBI_EXT_0_1_CONSOLE_PUTCHAR :: u32 where "SBI_EXT_0_1_CONSOLE_PUTCHAR = 0x01"
definition SBI_EXT_0_1_CONSOLE_GETCHAR :: u32 where "SBI_EXT_0_1_CONSOLE_GETCHAR = 0x02"
definition SBI_EXT_0_1_CLEAR_IPI :: u32 where "SBI_EXT_0_1_CLEAR_IPI = 0x03"
definition SBI_EXT_0_1_SEND_IPI :: u32 where "SBI_EXT_0_1_SEND_IPI = 0x04"
definition SBI_EXT_0_1_REMOTE_FENCE_I :: u32 where "SBI_EXT_0_1_REMOTE_FENCE_I = 0x05"
definition SBI_EXT_0_1_REMOTE_SFENCE_VMA :: u32 where "SBI_EXT_0_1_REMOTE_SFENCE_VMA = 0x06"
definition SBI_EXT_0_1_REMOTE_SFENCE_VMA_ASID :: u32 where "SBI_EXT_0_1_REMOTE_SFENCE_VMA_ASID = 0x07"
definition SBI_EXT_0_1_SHUTDOWN :: u32 where "SBI_EXT_0_1_SHUTDOWN = 0x08"
definition SBI_EXT_BASE :: u32 where "SBI_EXT_BASE = 0x10"
definition SBI_EXT_TIME :: u32 where "SBI_EXT_TIME = 0x54494D45"
definition SBI_EXT_IPI :: u32 where "SBI_EXT_IPI = 0x00735049"
definition SBI_EXT_RFNC :: u32 where "SBI_EXT_RFNC = 0x52464E43"
definition SBI_EXT_SRST :: u32 where "SBI_EXT_SRST = 0x53525354"
definition SBI_EXT_DBCN :: u32 where "SBI_EXT_DBCN = 0x4442434E"

definition SBI_SPEC_VERSION :: u32 where "SBI_SPEC_VERSION = push_bit 24 1"
definition SBI_IMPL_ID :: u32 where "SBI_IMPL_ID = 0x52413844"
definition SBI_IMPL_VERSION :: u32 where "SBI_IMPL_VERSION = 1"

lemmas sbi_ext_defs =
  SBI_EXT_0_1_SET_TIMER_def SBI_EXT_0_1_CONSOLE_PUTCHAR_def SBI_EXT_0_1_CONSOLE_GETCHAR_def
  SBI_EXT_0_1_CLEAR_IPI_def SBI_EXT_0_1_SEND_IPI_def SBI_EXT_0_1_REMOTE_FENCE_I_def
  SBI_EXT_0_1_REMOTE_SFENCE_VMA_def SBI_EXT_0_1_REMOTE_SFENCE_VMA_ASID_def SBI_EXT_0_1_SHUTDOWN_def
  SBI_EXT_BASE_def SBI_EXT_TIME_def SBI_EXT_IPI_def SBI_EXT_RFNC_def SBI_EXT_SRST_def SBI_EXT_DBCN_def

lemmas sbi_err_defs = SBI_SUCCESS_def SBI_ERR_NOT_SUPPORTED_def SBI_ERR_INVALID_PARAM_def
  SBI_ERR_INVALID_ADDRESS_def

definition A0 :: nat where "A0 = 10"
definition A1 :: nat where "A1 = 11"
definition A2 :: nat where "A2 = 12"
definition A6 :: nat where "A6 = 16"
definition A7 :: nat where "A7 = 17"

lemmas areg_defs = A0_def A1_def A2_def A6_def A7_def

record sbi_stats =
  sbi_n_calls :: u32
  sbi_n_unsupported :: u32

section \<open>Operations\<close>

definition xreg :: "emu \<Rightarrow> nat \<Rightarrow> u32" where
  "xreg s r = c_reg (e_cpu s) r"

definition set_xreg :: "emu \<Rightarrow> nat \<Rightarrow> u32 \<Rightarrow> emu" where
  "set_xreg s r v = upd_cpu (\<lambda>c. c\<lparr>c_reg := (c_reg c)(r := v)\<rparr>) s"

definition sbi_arg64 :: "emu \<Rightarrow> nat \<Rightarrow> nat \<Rightarrow> u64" where
  "sbi_arg64 s lo_reg hi_reg = ucast (xreg s lo_reg) OR push_bit 32 (ucast (xreg s hi_reg))"

definition sbi_ext_supported :: "u32 \<Rightarrow> bool" where
  "sbi_ext_supported ext \<longleftrightarrow>
     ext \<in> {SBI_EXT_0_1_SET_TIMER, SBI_EXT_0_1_CONSOLE_PUTCHAR, SBI_EXT_0_1_CONSOLE_GETCHAR,
            SBI_EXT_0_1_CLEAR_IPI, SBI_EXT_0_1_SEND_IPI, SBI_EXT_0_1_REMOTE_FENCE_I,
            SBI_EXT_0_1_REMOTE_SFENCE_VMA, SBI_EXT_0_1_REMOTE_SFENCE_VMA_ASID,
            SBI_EXT_0_1_SHUTDOWN, SBI_EXT_BASE, SBI_EXT_TIME, SBI_EXT_IPI, SBI_EXT_RFNC,
            SBI_EXT_SRST, SBI_EXT_DBCN}"

text \<open>The pair is the returned error and what \<open>*val\<close> holds afterwards (0 when never assigned).\<close>

definition sbi_base :: "emu \<Rightarrow> u32 \<Rightarrow> int \<times> u32" where
  "sbi_base s fid =
     (if fid = 0 then (SBI_SUCCESS, SBI_SPEC_VERSION)
      else if fid = 1 then (SBI_SUCCESS, SBI_IMPL_ID)
      else if fid = 2 then (SBI_SUCCESS, SBI_IMPL_VERSION)
      else if fid = 3 then (SBI_SUCCESS, if sbi_ext_supported (xreg s A0) then 1 else 0)
      else if fid = 4 \<or> fid = 5 \<or> fid = 6 then (SBI_SUCCESS, 0)
      else (SBI_ERR_NOT_SUPPORTED, 0))"

definition put_bytes :: "emu \<Rightarrow> u8 list \<Rightarrow> emu" where
  "put_bytes s bs = fold (\<lambda>b s. plat_putc s b) bs s"

text \<open>
  The read loop of DBCN: \<open>n\<close> rounds are left and \<open>i\<close> bytes have been stored from \<open>p\<close> on. The
  result is the final \<open>i\<close>.
\<close>

fun dbcn_read_loop :: "plat \<Rightarrow> nat \<Rightarrow> nat \<Rightarrow> nat \<Rightarrow> emu \<Rightarrow> nat \<times> emu" where
  "dbcn_read_loop P 0 i p s = (i, s)"
| "dbcn_read_loop P (Suc n) i p s =
     (let (c, s1) = plat_getc P s
      in if c < 0 then (i, s1)
         else dbcn_read_loop P n (Suc i) p (s1\<lparr>e_ram := (e_ram s1)(p + i := word_of_int c)\<rparr>))"

definition sbi_dbcn :: "plat \<Rightarrow> emu \<Rightarrow> u32 \<Rightarrow> int \<times> u32 \<times> emu" where
  "sbi_dbcn P s fid =
     (let len = xreg s A0; base = sbi_arg64 s A1 A2
      in if fid = 0 then
           if len = 0 then (SBI_SUCCESS, 0, s)
           else (case rv_guest_phys_ptr s base len of
                   None \<Rightarrow> (SBI_ERR_INVALID_ADDRESS, 0, s)
                 | Some p \<Rightarrow> (SBI_SUCCESS, len, put_bytes s (mem_read (e_ram s) p (unat len))))
         else if fid = 1 then
           if len = 0 then (SBI_SUCCESS, 0, s)
           else (case rv_guest_phys_ptr s base len of
                   None \<Rightarrow> (SBI_ERR_INVALID_ADDRESS, 0, s)
                 | Some p \<Rightarrow> let (i, s1) = dbcn_read_loop P (unat len) 0 p s
                             in (SBI_SUCCESS, of_nat i, s1))
         else if fid = 2 then (SBI_SUCCESS, 0, plat_putc s (ucast (xreg s A0 AND 0xff)))
         else (SBI_ERR_NOT_SUPPORTED, 0, s))"

text \<open>The v0.2 and later extensions: error, value and the state after the call.\<close>

definition sbi_srst :: "emu \<Rightarrow> u32 \<Rightarrow> int \<times> emu" where
  "sbi_srst s fid =
     (if fid \<noteq> 0 then (SBI_ERR_NOT_SUPPORTED, s)
      else if xreg s A0 = 0 then (SBI_SUCCESS, rv_request_poweroff s)
      else if xreg s A0 \<le> 2 then (SBI_SUCCESS, rv_request_reboot s)
      else (SBI_ERR_INVALID_PARAM, s))"

definition sbi_ret :: "int \<Rightarrow> u32 \<Rightarrow> emu \<Rightarrow> emu" where
  "sbi_ret err val s = set_xreg (set_xreg s A0 (word_of_int err)) A1 val"

definition riscv_host_sbi :: "plat \<Rightarrow> sbi_stats \<Rightarrow> emu \<Rightarrow> bool \<times> sbi_stats \<times> emu" where
  "riscv_host_sbi P st0 s =
     (let ext = xreg s A7; fid = xreg s A6;
          st = st0\<lparr>sbi_n_calls := sbi_n_calls st0 + 1\<rparr>
      in if ext = SBI_EXT_0_1_SET_TIMER then
           (True, st, set_xreg (rv_set_timer s (sbi_arg64 s A0 A1)) A0 0)
         else if ext = SBI_EXT_0_1_CONSOLE_PUTCHAR then
           (True, st, set_xreg (plat_putc s (ucast (xreg s A0 AND 0xff))) A0 0)
         else if ext = SBI_EXT_0_1_CONSOLE_GETCHAR then
           (let (c, s1) = plat_getc P s in (True, st, set_xreg s1 A0 (word_of_int c)))
         else if ext = SBI_EXT_0_1_CLEAR_IPI then (True, st, set_xreg (rv_set_ipi s False) A0 0)
         else if ext = SBI_EXT_0_1_SEND_IPI then (True, st, set_xreg (rv_set_ipi s True) A0 0)
         else if ext = SBI_EXT_0_1_REMOTE_FENCE_I \<or> ext = SBI_EXT_0_1_REMOTE_SFENCE_VMA \<or>
                 ext = SBI_EXT_0_1_REMOTE_SFENCE_VMA_ASID then (True, st, set_xreg s A0 0)
         else if ext = SBI_EXT_0_1_SHUTDOWN then (True, st, set_xreg (rv_request_poweroff s) A0 0)
         else if ext = SBI_EXT_BASE then
           (let (err, val) = sbi_base s fid in (True, st, sbi_ret err val s))
         else if ext = SBI_EXT_TIME then
           (if fid = 0 then (True, st, sbi_ret SBI_SUCCESS 0 (rv_set_timer s (sbi_arg64 s A0 A1)))
            else (True, st, sbi_ret SBI_ERR_NOT_SUPPORTED 0 s))
         else if ext = SBI_EXT_IPI then
           (if fid = 0 then (True, st, sbi_ret SBI_SUCCESS 0 (rv_set_ipi s True))
            else (True, st, sbi_ret SBI_ERR_NOT_SUPPORTED 0 s))
         else if ext = SBI_EXT_RFNC then
           (True, st, sbi_ret (if 6 < fid then SBI_ERR_NOT_SUPPORTED else SBI_SUCCESS) 0 s)
         else if ext = SBI_EXT_SRST then
           (let (err, s1) = sbi_srst s fid in (True, st, sbi_ret err 0 s1))
         else if ext = SBI_EXT_DBCN then
           (let (err, val, s1) = sbi_dbcn P s fid in (True, st, sbi_ret err val s1))
         else (True, st\<lparr>sbi_n_unsupported := sbi_n_unsupported st + 1\<rparr>,
               sbi_ret SBI_ERR_NOT_SUPPORTED 0 s))"

definition riscv_host_rdtime :: "plat \<Rightarrow> emu \<Rightarrow> u64 \<times> emu" where
  "riscv_host_rdtime P s = rv_mtime P s"

definition riscv_host_sbi_stats :: "sbi_stats \<Rightarrow> u32 \<times> u32" where
  "riscv_host_sbi_stats st = (sbi_n_calls st, sbi_n_unsupported st)"

text \<open>\<open>raise_exception2()\<close> with its hook; \<open>deliver_trap\<close> is the rest of its body.\<close>

definition raise_exception2 :: "plat \<Rightarrow> sbi_stats \<Rightarrow> emu \<Rightarrow> u32 \<Rightarrow> u32 \<Rightarrow> sbi_stats \<times> emu" where
  "raise_exception2 P st s cause tval =
     (if cause = CAUSE_SUPERVISOR_ECALL \<and> c_priv (e_cpu s) = PRV_S then
        let (served, st1, s1) = riscv_host_sbi P st s
        in if served then (st1, upd_cpu (\<lambda>c. c\<lparr>c_pc := c_pc c + 4\<rparr>) s1)
           else (st1, upd_cpu (\<lambda>c. deliver_trap c cause tval) s1)
      else (st, upd_cpu (\<lambda>c. deliver_trap c cause tval) s))"

section \<open>What a call may touch\<close>

text \<open>
  Outside a0 and a1 a call leaves the hart's registers alone, and of the rest of the hart it
  touches only mip and the power-down flag (through the timer and the software interrupt).
\<close>

definition sbi_frame :: "emu \<Rightarrow> emu \<Rightarrow> bool" where
  "sbi_frame s s' \<longleftrightarrow> e_map s' = e_map s \<and>
     (\<exists>r m w. e_cpu s' = (e_cpu s)\<lparr>c_reg := r, c_mip := m, c_power_down_flag := w\<rparr> \<and>
        (\<forall>x. x \<notin> {A0, A1} \<longrightarrow> r x = c_reg (e_cpu s) x))"

lemma sbi_frameI:
  "e_map s' = e_map s \<Longrightarrow> e_cpu s' = (e_cpu s)\<lparr>c_reg := r, c_mip := m, c_power_down_flag := w\<rparr> \<Longrightarrow>
   (\<And>x. x \<notin> {A0, A1} \<Longrightarrow> r x = c_reg (e_cpu s) x) \<Longrightarrow> sbi_frame s s'"
  by (auto simp: sbi_frame_def)

lemma sbi_frame_trans: "sbi_frame s s' \<Longrightarrow> sbi_frame s' s'' \<Longrightarrow> sbi_frame s s''"
proof -
  assume "sbi_frame s s'" "sbi_frame s' s''"
  then obtain r m w r' m' w' where
    1: "e_map s' = e_map s" "e_cpu s' = (e_cpu s)\<lparr>c_reg := r, c_mip := m, c_power_down_flag := w\<rparr>"
       "\<And>x. x \<notin> {A0, A1} \<Longrightarrow> r x = c_reg (e_cpu s) x" and
    2: "e_map s'' = e_map s'" "e_cpu s'' = (e_cpu s')\<lparr>c_reg := r', c_mip := m', c_power_down_flag := w'\<rparr>"
       "\<And>x. x \<notin> {A0, A1} \<Longrightarrow> r' x = c_reg (e_cpu s') x"
    by (auto simp: sbi_frame_def)
  show ?thesis by (rule sbi_frameI [where r = r' and m = m' and w = w']) (use 1 2 in auto)
qed

lemma sbi_frame_cpu_same: "e_map s' = e_map s \<Longrightarrow> e_cpu s' = e_cpu s \<Longrightarrow> sbi_frame s s'"
  by (rule sbi_frameI [where r = "c_reg (e_cpu s)" and m = "c_mip (e_cpu s)" and w = "c_power_down_flag (e_cpu s)"]) simp_all

lemma sbi_frame_refl: "sbi_frame s s"
  by (rule sbi_frame_cpu_same) simp_all

lemma sbi_frame_set_xreg: "r = A0 \<or> r = A1 \<Longrightarrow> sbi_frame s (set_xreg s r v)"
  by (rule sbi_frameI [where r = "(c_reg (e_cpu s))(r := v)" and m = "c_mip (e_cpu s)" and w = "c_power_down_flag (e_cpu s)"])
     (auto simp: set_xreg_def)

lemma sbi_frame_ipi: "sbi_frame s (rv_set_ipi s l)"
  by (rule sbi_frameI [where r = "c_reg (e_cpu s)" and m = "c_mip (e_cpu (rv_set_ipi s l))" and w = "c_power_down_flag (e_cpu (rv_set_ipi s l))"])
     (auto simp: rv_set_ipi_def riscv_cpu_set_mip_def riscv_cpu_reset_mip_def Let_def)

lemma sbi_frame_timer: "sbi_frame s (rv_set_timer s t)"
  by (rule sbi_frameI [where r = "c_reg (e_cpu s)" and m = "c_mip (e_cpu (rv_set_timer s t))" and w = "c_power_down_flag (e_cpu s)"])
     (auto simp: rv_set_timer_def riscv_cpu_reset_mip_def)

lemma put_bytes_frame [emu_frame, simp]:
  "e_cpu (put_bytes s bs) = e_cpu s" "e_m (put_bytes s bs) = e_m s"
  "e_ram (put_bytes s bs) = e_ram s" "e_map (put_bytes s bs) = e_map s"
  by (induction bs arbitrary: s) (simp_all add: put_bytes_def)

lemma console_put_bytes: "console_out (put_bytes s bs) = console_out s @ bs"
  by (induction bs arbitrary: s) (simp_all add: put_bytes_def)

lemma dbcn_read_loop_spec:
  "dbcn_read_loop P n i p s = (j, s') \<Longrightarrow>
     i \<le> j \<and> j \<le> i + n \<and> e_cpu s' = e_cpu s \<and> e_map s' = e_map s \<and> e_m s' = e_m s \<and>
     (\<forall>a. a < p + i \<or> p + j \<le> a \<longrightarrow> e_ram s' a = e_ram s a)"
proof (induction n arbitrary: i s j s')
  case (Suc n)
  define c where "c = fst (plat_getc P s)"
  define s1 where "s1 = snd (plat_getc P s)"
  have g: "plat_getc P s = (c, s1)" by (simp add: c_def s1_def)
  have f: "e_cpu s1 = e_cpu s" "e_m s1 = e_m s" "e_ram s1 = e_ram s" "e_map s1 = e_map s"
    by (simp_all add: s1_def)
  show ?case
  proof (cases "c < 0")
    case True
    with Suc.prems g f show ?thesis by simp
  next
    case False
    with Suc.prems g have "dbcn_read_loop P n (Suc i) p (s1\<lparr>e_ram := (e_ram s1)(p + i := word_of_int c)\<rparr>) = (j, s')"
      by simp
    from Suc.IH [OF this] f show ?thesis by auto
  qed
qed simp

lemma sbi_dbcn_frame:
  "sbi_dbcn P s fid = (err, val, s') \<Longrightarrow> e_cpu s' = e_cpu s \<and> e_map s' = e_map s \<and> e_m s' = e_m s"
  by (auto simp: sbi_dbcn_def Let_def split: if_splits option.splits prod.splits dest: dbcn_read_loop_spec)

lemmas sbi_frames = sbi_frame_set_xreg sbi_frame_ipi sbi_frame_timer sbi_frame_refl

lemma sbi_frame_ret: "sbi_frame s s' \<Longrightarrow> sbi_frame s (sbi_ret err val s')"
  unfolding sbi_ret_def by (meson sbi_frame_set_xreg sbi_frame_trans)

lemma sbi_frame_ret0: "sbi_frame s s' \<Longrightarrow> sbi_frame s (set_xreg s' A0 v)"
  by (meson sbi_frame_set_xreg sbi_frame_trans)

lemma sbi_frame_call:
  assumes "riscv_host_sbi P st s = (served, st', s')"
  shows "served \<and> sbi_frame s s' \<and> sbi_n_calls st' = sbi_n_calls st + 1"
proof -
  have pg: "sbi_frame s (snd (plat_getc P s))" "sbi_frame s (plat_putc s b)"
    "sbi_frame s (rv_request_poweroff s)" "sbi_frame s (rv_request_reboot s)" for b
    by (simp_all add: sbi_frame_cpu_same rv_request_poweroff_def rv_request_reboot_def)
  have sr: "sbi_frame s (snd (sbi_srst s fid))" for fid
    by (simp add: sbi_srst_def pg sbi_frame_refl)
  have db: "sbi_frame s (snd (snd (sbi_dbcn P s fid)))" for fid
    using sbi_dbcn_frame [of P s fid] by (metis prod.collapse sbi_frame_cpu_same)
  have "fst (riscv_host_sbi P st s) \<and> sbi_frame s (snd (snd (riscv_host_sbi P st s))) \<and>
      sbi_n_calls (fst (snd (riscv_host_sbi P st s))) = sbi_n_calls st + 1"
    using pg sr db by (simp add: riscv_host_sbi_def Let_def case_prod_beta sbi_frame_ret sbi_frame_ret0 sbi_frames)
  with assms show ?thesis by simp
qed

lemma mem_read_Cons: "0 < n \<Longrightarrow> mem_read m p n = m p # mem_read m (Suc p) (n - 1)"
  by (cases n) (simp_all add: mem_read_def upt_conv_Cons del: upt_Suc)

lemma dbcn_read_loop_bytes:
  "dbcn_read_loop P n i p s = (j, s') \<Longrightarrow>
     \<exists>evs. e_ev s' = evs @ e_ev s \<and> mem_read (e_ram s') (p + i) (j - i) = received evs"
proof (induction n arbitrary: i s j s')
  case 0
  then show ?case by (intro exI [of _ "[]"]) simp
next
  case (Suc n)
  define c where "c = fst (plat_getc P s)"
  define s1 where "s1 = snd (plat_getc P s)"
  have g: "plat_getc P s = (c, s1)" "e_ev s1 = EvGetc c # e_ev s"
    by (simp_all add: c_def s1_def plat_getc_def Let_def)
  show ?case
  proof (cases "c < 0")
    case True
    with Suc.prems g show ?thesis by (intro exI [of _ "[EvGetc c]"]) (simp add: received_Cons)
  next
    case False
    let ?s2 = "s1\<lparr>e_ram := (e_ram s1)(p + i := word_of_int c)\<rparr>"
    have l: "dbcn_read_loop P n (Suc i) p ?s2 = (j, s')" using Suc.prems g False by simp
    from Suc.IH [OF l] obtain evs where
      e: "e_ev s' = evs @ e_ev s1" "mem_read (e_ram s') (p + Suc i) (j - Suc i) = received evs" by auto
    have b: "e_ram s' (p + i) = word_of_int c" "Suc i \<le> j" using dbcn_read_loop_spec [OF l] by auto
    have "mem_read (e_ram s') (p + i) (j - i) = word_of_int c # received evs"
      using b e(2) by (simp add: mem_read_Cons)
    with e(1) g(2) False show ?thesis
      by (intro exI [of _ "evs @ [EvGetc c]"]) (simp add: received_append received_Cons)
  qed
qed

section \<open>Properties\<close>

text \<open>
  Every supervisor ecall is serviced and resumes after the instruction: the hart stays in
  S-mode, no trap is delivered, and the kernel finds everything it had in the hart except a0, a1,
  the pending bits and the power-down flag unchanged; the call is counted.
\<close>

lemma sbi_call_resumes:
  assumes "c_priv (e_cpu s) = PRV_S"
  shows "\<exists>r m w. e_cpu (snd (raise_exception2 P st s CAUSE_SUPERVISOR_ECALL tval)) =
      (e_cpu s)\<lparr>c_pc := c_pc (e_cpu s) + 4, c_reg := r, c_mip := m, c_power_down_flag := w\<rparr> \<and>
    (\<forall>x. x \<notin> {10, 11} \<longrightarrow> r x = c_reg (e_cpu s) x) \<and>
    sbi_n_calls (fst (raise_exception2 P st s CAUSE_SUPERVISOR_ECALL tval)) = sbi_n_calls st + 1"
proof -
  obtain served st1 s1 where h: "riscv_host_sbi P st s = (served, st1, s1)"
    using prod_cases3 by blast
  note f = sbi_frame_call [OF h]
  then obtain r m w where r:
    "e_cpu s1 = (e_cpu s)\<lparr>c_reg := r, c_mip := m, c_power_down_flag := w\<rparr>"
    "\<forall>x. x \<notin> {A0, A1} \<longrightarrow> r x = c_reg (e_cpu s) x"
    by (auto simp: sbi_frame_def)
  have "raise_exception2 P st s CAUSE_SUPERVISOR_ECALL tval = (st1, upd_cpu (\<lambda>c. c\<lparr>c_pc := c_pc c + 4\<rparr>) s1)"
    using assms h f by (simp add: raise_exception2_def)
  with r f show ?thesis
    by (intro exI [of _ r] exI [of _ m] exI [of _ w]) (simp add: areg_defs)
qed

text \<open>
  Probing and dispatch agree: an extension is reported by BASE probe exactly when a call to
  it is not counted as unsupported; and a call to any other extension answers NOT_SUPPORTED in a0
  and 0 in a1 and has no other effect on the machine, its memory or the platform.
\<close>

lemma sbi_probe_agrees:
  "(snd (sbi_base (set_xreg s A0 (xreg t A7)) 3) = 1) =
     (sbi_n_unsupported (fst (snd (riscv_host_sbi P st t))) = sbi_n_unsupported st) \<and>
   (if sbi_ext_supported (xreg t A7) then True
    else riscv_host_sbi P st t =
      (True, \<lparr>sbi_n_calls = sbi_n_calls st + 1, sbi_n_unsupported = sbi_n_unsupported st + 1\<rparr>,
       t\<lparr>e_cpu := (e_cpu t)\<lparr>c_reg := (c_reg (e_cpu t))(10 := - 2, 11 := 0)\<rparr>\<rparr>))"
proof (cases "sbi_ext_supported (xreg t A7)")
  case True
  then have "sbi_n_unsupported (fst (snd (riscv_host_sbi P st t))) = sbi_n_unsupported st"
    unfolding sbi_ext_supported_def
    by (elim insertE emptyE; simp add: riscv_host_sbi_def Let_def case_prod_beta sbi_ext_defs)
  with True show ?thesis by (simp add: sbi_base_def xreg_def set_xreg_def)
next
  case False
  then have u: "riscv_host_sbi P st t =
      (True, st\<lparr>sbi_n_calls := sbi_n_calls st + 1, sbi_n_unsupported := sbi_n_unsupported st + 1\<rparr>,
       sbi_ret SBI_ERR_NOT_SUPPORTED 0 t)"
    by (simp add: sbi_ext_supported_def riscv_host_sbi_def Let_def)
  have "xreg (set_xreg s A0 (xreg t A7)) A0 = xreg t A7" by (simp add: xreg_def set_xreg_def)
  with False u show ?thesis
    by (simp add: sbi_base_def sbi_ret_def set_xreg_def upd_cpu_def SBI_ERR_NOT_SUPPORTED_def areg_defs)
qed


text \<open>
  The debug console's read stays inside the buffer the guest named: it reports how many
  bytes it stored, stores exactly the bytes the console delivered, in order from the start of the
  buffer, never more than were asked for, and leaves the rest of RAM alone.
\<close>

lemma sbi_dbcn_read_bounded:
  assumes "xreg s A0 \<noteq> 0" "rv_guest_phys_ptr s (sbi_arg64 s A1 A2) (xreg s A0) = Some p"
  shows "\<exists>n s' evs. sbi_dbcn P s 1 = (0, of_nat n, s') \<and> n \<le> unat (xreg s A0) \<and>
    p + n \<le> unat (m_ram_size (e_m s)) \<and> e_ev s' = evs @ e_ev s \<and>
    mem_read (e_ram s') p n = received evs \<and>
    (\<forall>a. a < p \<or> p + n \<le> a \<longrightarrow> e_ram s' a = e_ram s a)"
proof -
  obtain n s' where l: "dbcn_read_loop P (unat (xreg s A0)) 0 p s = (n, s')"
    using prod.exhaust by blast
  note sp = dbcn_read_loop_spec [OF l]
  from dbcn_read_loop_bytes [OF l] obtain evs where
    e: "e_ev s' = evs @ e_ev s" "mem_read (e_ram s') p n = received evs" by auto
  have "p + unat (xreg s A0) \<le> unat (m_ram_size (e_m s))"
    using assms(2) by (auto simp: guest_phys_ptr_iff)
  then show ?thesis
    using assms l sp e
    by (intro exI [of _ n] exI [of _ s'] exI [of _ evs]) (simp add: sbi_dbcn_def sbi_err_defs)
qed

end
