(* ===== verification/Virtq.thy ===== *)
theory Virtq
  imports Machine
begin

text \<open>
  What the two virtio-mmio devices share: the guest memory accessors, the split virtqueue's
  descriptors, the walk along a descriptor chain and the publication of a used element. Both
  \<open>emu/rv_virtio.c\<close> and \<open>emu/rv_virtio_net.c\<close> hold the same text of these functions; here they
  take the queue as a record, the block device's queue fields being viewed as one by \<open>blk_q\<close>.
  The locale \<open>guest_memory\<close> is the contract of the accessors.
\<close>

definition VRING_DESC_F_NEXT :: u16 where "VRING_DESC_F_NEXT = 1"
definition VRING_DESC_F_WRITE :: u16 where "VRING_DESC_F_WRITE = 2"
definition VRING_DESC_F_INDIRECT :: u16 where "VRING_DESC_F_INDIRECT = 4"
definition VRING_AVAIL_F_NO_INTERRUPT :: u16 where "VRING_AVAIL_F_NO_INTERRUPT = 1"
definition VIRTIO_QUEUE_NUM_MAX :: u32 where "VIRTIO_QUEUE_NUM_MAX = 128"

definition VIRTIO_MMIO_MAGIC :: u32 where "VIRTIO_MMIO_MAGIC = 0x000"
definition VIRTIO_MMIO_VERSION :: u32 where "VIRTIO_MMIO_VERSION = 0x004"
definition VIRTIO_MMIO_DEVICE_ID :: u32 where "VIRTIO_MMIO_DEVICE_ID = 0x008"
definition VIRTIO_MMIO_VENDOR_ID :: u32 where "VIRTIO_MMIO_VENDOR_ID = 0x00c"
definition VIRTIO_MMIO_DEV_FEAT :: u32 where "VIRTIO_MMIO_DEV_FEAT = 0x010"
definition VIRTIO_MMIO_DEV_FEAT_SEL :: u32 where "VIRTIO_MMIO_DEV_FEAT_SEL = 0x014"
definition VIRTIO_MMIO_DRV_FEAT :: u32 where "VIRTIO_MMIO_DRV_FEAT = 0x020"
definition VIRTIO_MMIO_DRV_FEAT_SEL :: u32 where "VIRTIO_MMIO_DRV_FEAT_SEL = 0x024"
definition VIRTIO_MMIO_QUEUE_SEL :: u32 where "VIRTIO_MMIO_QUEUE_SEL = 0x030"
definition VIRTIO_MMIO_QUEUE_NUM_MAX :: u32 where "VIRTIO_MMIO_QUEUE_NUM_MAX = 0x034"
definition VIRTIO_MMIO_QUEUE_NUM :: u32 where "VIRTIO_MMIO_QUEUE_NUM = 0x038"
definition VIRTIO_MMIO_QUEUE_READY :: u32 where "VIRTIO_MMIO_QUEUE_READY = 0x044"
definition VIRTIO_MMIO_QUEUE_NOTIFY :: u32 where "VIRTIO_MMIO_QUEUE_NOTIFY = 0x050"
definition VIRTIO_MMIO_INT_STATUS :: u32 where "VIRTIO_MMIO_INT_STATUS = 0x060"
definition VIRTIO_MMIO_INT_ACK :: u32 where "VIRTIO_MMIO_INT_ACK = 0x064"
definition VIRTIO_MMIO_STATUS :: u32 where "VIRTIO_MMIO_STATUS = 0x070"
definition VIRTIO_MMIO_QUEUE_DESC_LO :: u32 where "VIRTIO_MMIO_QUEUE_DESC_LO = 0x080"
definition VIRTIO_MMIO_QUEUE_DESC_HI :: u32 where "VIRTIO_MMIO_QUEUE_DESC_HI = 0x084"
definition VIRTIO_MMIO_QUEUE_AVAIL_LO :: u32 where "VIRTIO_MMIO_QUEUE_AVAIL_LO = 0x090"
definition VIRTIO_MMIO_QUEUE_AVAIL_HI :: u32 where "VIRTIO_MMIO_QUEUE_AVAIL_HI = 0x094"
definition VIRTIO_MMIO_QUEUE_USED_LO :: u32 where "VIRTIO_MMIO_QUEUE_USED_LO = 0x0a0"
definition VIRTIO_MMIO_QUEUE_USED_HI :: u32 where "VIRTIO_MMIO_QUEUE_USED_HI = 0x0a4"
definition VIRTIO_MMIO_CONFIG_GEN :: u32 where "VIRTIO_MMIO_CONFIG_GEN = 0x0fc"
definition VIRTIO_MMIO_CONFIG :: u32 where "VIRTIO_MMIO_CONFIG = 0x100"
definition VIRTIO_MMIO_MAGIC_VALUE :: u32 where "VIRTIO_MMIO_MAGIC_VALUE = 0x74726976"
definition VIRTIO_MMIO_VERSION_2 :: u32 where "VIRTIO_MMIO_VERSION_2 = 2"
definition VIRTIO_VENDOR_ID :: u32 where "VIRTIO_VENDOR_ID = 0x52413844"
definition VIRTIO_F_VERSION_1_HI :: u32 where "VIRTIO_F_VERSION_1_HI = 1"
definition VIRTIO_STATUS_DRIVER_OK :: u32 where "VIRTIO_STATUS_DRIVER_OK = 4"

lemmas vring_defs = VRING_DESC_F_NEXT_def VRING_DESC_F_WRITE_def VRING_DESC_F_INDIRECT_def
  VRING_AVAIL_F_NO_INTERRUPT_def VIRTIO_QUEUE_NUM_MAX_def

lemmas vmmio_defs =
  VIRTIO_MMIO_MAGIC_def VIRTIO_MMIO_VERSION_def VIRTIO_MMIO_DEVICE_ID_def VIRTIO_MMIO_VENDOR_ID_def
  VIRTIO_MMIO_DEV_FEAT_def VIRTIO_MMIO_DEV_FEAT_SEL_def VIRTIO_MMIO_DRV_FEAT_def
  VIRTIO_MMIO_DRV_FEAT_SEL_def VIRTIO_MMIO_QUEUE_SEL_def VIRTIO_MMIO_QUEUE_NUM_MAX_def
  VIRTIO_MMIO_QUEUE_NUM_def VIRTIO_MMIO_QUEUE_READY_def VIRTIO_MMIO_QUEUE_NOTIFY_def
  VIRTIO_MMIO_INT_STATUS_def VIRTIO_MMIO_INT_ACK_def VIRTIO_MMIO_STATUS_def
  VIRTIO_MMIO_QUEUE_DESC_LO_def VIRTIO_MMIO_QUEUE_DESC_HI_def VIRTIO_MMIO_QUEUE_AVAIL_LO_def
  VIRTIO_MMIO_QUEUE_AVAIL_HI_def VIRTIO_MMIO_QUEUE_USED_LO_def VIRTIO_MMIO_QUEUE_USED_HI_def
  VIRTIO_MMIO_CONFIG_GEN_def VIRTIO_MMIO_CONFIG_def

section \<open>Guest memory accessors\<close>

definition gread :: "emu \<Rightarrow> u64 \<Rightarrow> u32 \<Rightarrow> u8 list option" where
  "gread s addr len =
     (case rv_guest_phys_ptr s addr len of
        None \<Rightarrow> None
      | Some p \<Rightarrow> Some (mem_read (e_ram s) p (unat len)))"

definition gwrite :: "emu \<Rightarrow> u64 \<Rightarrow> u8 list \<Rightarrow> emu option" where
  "gwrite s addr src =
     (case rv_guest_phys_ptr s addr (of_nat (length src)) of
        None \<Rightarrow> None
      | Some p \<Rightarrow> Some (s\<lparr>e_ram := mem_write (e_ram s) p src\<rparr>))"

definition gread16 :: "emu \<Rightarrow> u64 \<Rightarrow> u16 option" where
  "gread16 s addr = map_option of_le (gread s addr 2)"

section \<open>The queue\<close>

record vring_desc =
  d_addr :: u64
  d_len :: u32
  d_flags :: u16
  d_next :: u16

record vq =
  q_num :: u32
  q_ready :: u32
  q_desc_addr :: u64
  q_avail_addr :: u64
  q_used_addr :: u64
  q_last_avail_idx :: u16

definition vq_zero :: vq where
  "vq_zero = \<lparr>q_num = 0, q_ready = 0, q_desc_addr = 0, q_avail_addr = 0, q_used_addr = 0,
             q_last_avail_idx = 0\<rparr>"

definition desc_of_bytes :: "u8 list \<Rightarrow> vring_desc" where
  "desc_of_bytes raw = \<lparr>d_addr = of_le (take 8 raw), d_len = of_le (take 4 (drop 8 raw)),
     d_flags = of_le (take 2 (drop 12 raw)), d_next = of_le (take 2 (drop 14 raw))\<rparr>"

definition desc_read :: "emu \<Rightarrow> vq \<Rightarrow> u16 \<Rightarrow> vring_desc option" where
  "desc_read s q idx =
     (if q_num q \<le> ucast idx then None
      else map_option desc_of_bytes (gread s (q_desc_addr q + ucast idx * 16) 16))"

text \<open>
  The walk along \<open>next\<close>: \<open>n\<close> more descriptors may be taken. None is every way the code gives the
  chain up: too long, a descriptor that cannot be read, or an indirect one.
\<close>

fun chain_walk :: "nat \<Rightarrow> emu \<Rightarrow> vq \<Rightarrow> u16 \<Rightarrow> vring_desc list option" where
  "chain_walk 0 s q idx = None"
| "chain_walk (Suc n) s q idx =
     (case desc_read s q idx of
        None \<Rightarrow> None
      | Some d \<Rightarrow>
          if d_flags d AND VRING_DESC_F_INDIRECT \<noteq> 0 then None
          else if d_flags d AND VRING_DESC_F_NEXT = 0 then Some [d]
          else map_option (Cons d) (chain_walk n s q (d_next d)))"

definition d_writable :: "vring_desc \<Rightarrow> bool" where
  "d_writable d \<longleftrightarrow> d_flags d AND VRING_DESC_F_WRITE \<noteq> 0"

text \<open>The used element, the used index and whether the driver wants an interrupt.\<close>

definition used_slot :: "vq \<Rightarrow> u16 \<Rightarrow> u64" where
  "used_slot q used_idx = q_used_addr q + 4 + of_nat (unat used_idx mod unat (q_num q)) * 8"

definition vq_complete :: "emu \<Rightarrow> vq \<Rightarrow> u16 \<Rightarrow> u32 \<Rightarrow> bool \<times> emu" where
  "vq_complete s q head written =
     (case gread16 s (q_used_addr q + 2) of
        None \<Rightarrow> (False, s)
      | Some used_idx \<Rightarrow>
        (case gwrite s (used_slot q used_idx) (le_bytes 4 (ucast head :: u32) @ le_bytes 4 written) of
           None \<Rightarrow> (False, s)
         | Some s1 \<Rightarrow>
           (case gwrite s1 (q_used_addr q + 2) (le_bytes 2 (used_idx + 1)) of
              None \<Rightarrow> (False, s1)
            | Some s2 \<Rightarrow>
              (case gread16 s2 (q_avail_addr q) of
                 Some fl \<Rightarrow> (fl AND VRING_AVAIL_F_NO_INTERRUPT = 0, s2)
               | None \<Rightarrow> (True, s2)))))"

definition avail_slot :: "vq \<Rightarrow> u64" where
  "avail_slot q = q_avail_addr q + 4 + of_nat (unat (q_last_avail_idx q) mod unat (q_num q)) * 2"

definition set_lo :: "u64 \<Rightarrow> u32 \<Rightarrow> u64" where
  "set_lo a v = (a AND NOT 0xffffffff) OR ucast v"

definition set_hi :: "u64 \<Rightarrow> u32 \<Rightarrow> u64" where
  "set_hi a v = (a AND 0xffffffff) OR push_bit 32 (ucast v)"

section \<open>The contract of the accessors\<close>

text \<open>
  A range is either good for reading and writing or for neither; what is written is read back,
  and a write leaves every disjoint good range, and every range's goodness, as it was.
\<close>

locale guest_memory =
  fixes rd :: "'s \<Rightarrow> u64 \<Rightarrow> u32 \<Rightarrow> u8 list option"
    and wr :: "'s \<Rightarrow> u64 \<Rightarrow> u8 list \<Rightarrow> 's option"
    and good :: "'s \<Rightarrow> u64 \<Rightarrow> nat \<Rightarrow> bool"
  assumes rd_good: "(rd s a n \<noteq> None) = good s a (unat n)"
    and rd_length: "rd s a n = Some bs \<Longrightarrow> length bs = unat n"
    and wr_good: "length bs < 2 ^ 32 \<Longrightarrow> (wr s a bs \<noteq> None) = good s a (length bs)"
    and wr_keeps_good: "wr s a bs = Some s' \<Longrightarrow> good s' b k = good s b k"
    and rd_wr_same: "wr s a bs = Some s' \<Longrightarrow> unat n = length bs \<Longrightarrow> rd s' a n = Some bs"
    and rd_wr_other: "wr s a bs = Some s' \<Longrightarrow> length bs < 2 ^ 32 \<Longrightarrow> good s b (unat n) \<Longrightarrow>
          unat b + unat n \<le> unat a \<or> unat a + length bs \<le> unat b \<Longrightarrow> rd s' b n = rd s b n"
begin

text \<open>A sequence of writes, stopping at the first that fails.\<close>

fun wr_all :: "'s \<Rightarrow> (u64 \<times> u8 list) list \<Rightarrow> 's option" where
  "wr_all s [] = Some s"
| "wr_all s ((a, bs) # ws) = (case wr s a bs of None \<Rightarrow> None | Some s' \<Rightarrow> wr_all s' ws)"

lemma wr_all_good: "wr_all s ws = Some s' \<Longrightarrow> good s' b k = good s b k"
proof (induction ws arbitrary: s)
  case (Cons w ws)
  then show ?case by (cases w) (auto split: option.splits dest: wr_keeps_good)
qed simp

lemma wr_all_other:
  "wr_all s ws = Some s' \<Longrightarrow> good s b (unat n) \<Longrightarrow>
   \<forall>(a, bs) \<in> set ws. length bs < 2 ^ 32 \<and> (unat b + unat n \<le> unat a \<or> unat a + length bs \<le> unat b) \<Longrightarrow>
   rd s' b n = rd s b n"
proof (induction ws arbitrary: s)
  case (Cons w ws)
  obtain a bs where w: "w = (a, bs)" by fastforce
  with Cons.prems obtain s1 where s1: "wr s a bs = Some s1" "wr_all s1 ws = Some s'"
    by (auto split: option.splits)
  have "rd s' b n = rd s1 b n"
    using Cons.IH [OF s1(2)] Cons.prems wr_keeps_good [OF s1(1)] by simp
  also have "\<dots> = rd s b n"
    using rd_wr_other [OF s1(1)] Cons.prems w by simp
  finally show ?case .
qed simp

lemma wr_all_total:
  "\<forall>(a, bs) \<in> set ws. length bs < 2 ^ 32 \<and> good s a (length bs) \<Longrightarrow> \<exists>s'. wr_all s ws = Some s'"
proof (induction ws arbitrary: s)
  case (Cons w ws)
  obtain a bs where w: "w = (a, bs)" by fastforce
  with Cons.prems wr_good obtain s1 where s1: "wr s a bs = Some s1" by fastforce
  have "\<exists>s'. wr_all s1 ws = Some s'"
    using Cons.prems wr_keeps_good [OF s1] by (intro Cons.IH) auto
  with w s1 show ?case by simp
qed simp

lemma wr_all_read:
  assumes "wr_all s (ws @ (a, bs) # ws') = Some s'" "unat n = length bs" "length bs < 2 ^ 32"
    "\<forall>(b, cs) \<in> set ws'. length cs < 2 ^ 32 \<and> (unat a + length bs \<le> unat b \<or> unat b + length cs \<le> unat a)"
  shows "rd s' a n = Some bs"
  using assms(1)
proof (induction ws arbitrary: s)
  case Nil
  then obtain s1 where s1: "wr s a bs = Some s1" "wr_all s1 ws' = Some s'"
    by (auto split: option.splits)
  have "good s1 a (unat n)" using wr_good [OF assms(3)] wr_keeps_good [OF s1(1)] s1(1) assms(2) by auto
  with assms(2,4) wr_all_other [OF s1(2)] rd_wr_same [OF s1(1) assms(2)] show ?case by simp
next
  case (Cons w ws)
  then show ?case by (cases w) (auto split: option.splits)
qed

end

definition ram_good :: "emu \<Rightarrow> u64 \<Rightarrow> nat \<Rightarrow> bool" where
  "ram_good s a n \<longleftrightarrow> unat RV_RAM_BASE \<le> unat a \<and> unat a + n \<le> unat RV_RAM_BASE + unat (m_ram_size (e_m s))"

lemma phys_ptr_eq:
  "rv_guest_phys_ptr s a n = (if ram_good s a (unat n) then Some (unat a - unat RV_RAM_BASE) else None)"
proof (cases "rv_guest_phys_ptr s a n")
  case None
  then have "\<not> ram_good s a (unat n)"
    using guest_phys_ptr_iff [of s a n "unat a - unat RV_RAM_BASE"] by (auto simp: ram_good_def)
  with None show ?thesis by simp
next
  case (Some p)
  then show ?thesis using guest_phys_ptr_iff [of s a n p] by (auto simp: ram_good_def)
qed

lemma gread_eq:
  "gread s a n = (if ram_good s a (unat n)
     then Some (mem_read (e_ram s) (unat a - unat RV_RAM_BASE) (unat n)) else None)"
  by (simp add: gread_def phys_ptr_eq)

lemma gwrite_eq:
  "length bs < 2 ^ 32 \<Longrightarrow> gwrite s a bs = (if ram_good s a (length bs)
     then Some (s\<lparr>e_ram := mem_write (e_ram s) (unat a - unat RV_RAM_BASE) bs\<rparr>) else None)"
  by (simp add: gwrite_def phys_ptr_eq unsigned_of_nat take_bit_nat_eq_self)

lemma gwrite_ram:
  "gwrite s a bs = Some s' \<Longrightarrow> \<exists>p. s' = s\<lparr>e_ram := mem_write (e_ram s) p bs\<rparr> \<and>
     rv_guest_phys_ptr s a (of_nat (length bs)) = Some p"
  by (auto simp: gwrite_def split: option.splits)

lemma ram_good_upd [simp]: "ram_good (s\<lparr>e_ram := r\<rparr>) a n = ram_good s a n"
  by (simp add: ram_good_def)

lemma gwrite_keeps: "gwrite s a bs = Some s' \<Longrightarrow>
    e_cpu s' = e_cpu s \<and> e_m s' = e_m s \<and> e_map s' = e_map s \<and> e_ev s' = e_ev s \<and>
    (\<forall>b n. ram_good s' b n = ram_good s b n)"
  by (auto dest!: gwrite_ram simp: ram_good_def)

interpretation gmem: guest_memory gread gwrite ram_good
proof
  fix s s' :: emu and a b :: u64 and n :: u32 and k :: nat and bs :: "u8 list"
  show "(gread s a n \<noteq> None) = ram_good s a (unat n)" by (simp add: gread_eq)
  show "gread s a n = Some bs \<Longrightarrow> length bs = unat n" by (auto simp: gread_eq split: if_splits)
  show "length bs < 2 ^ 32 \<Longrightarrow> (gwrite s a bs \<noteq> None) = ram_good s a (length bs)"
    by (simp add: gwrite_eq)
  show "gwrite s a bs = Some s' \<Longrightarrow> ram_good s' b k = ram_good s b k"
    using gwrite_keeps by blast
  assume w: "gwrite s a bs = Some s'"
  show "gread s' a n = Some bs" if "unat n = length bs"
  proof -
    have l: "length bs < 2 ^ 32" using that unat_u32_lt [of n] by simp
    with w that show ?thesis by (auto simp: gwrite_eq gread_eq split: if_splits)
  qed
  assume l: "length bs < 2 ^ 32" and g: "ram_good s b (unat n)"
    and d: "unat b + unat n \<le> unat a \<or> unat a + length bs \<le> unat b"
  from w l have ga: "ram_good s a (length bs)"
    and s': "s' = s\<lparr>e_ram := mem_write (e_ram s) (unat a - unat RV_RAM_BASE) bs\<rparr>"
    by (auto simp: gwrite_eq split: if_splits)
  have "unat b - unat RV_RAM_BASE + unat n \<le> unat a - unat RV_RAM_BASE \<or>
      unat a - unat RV_RAM_BASE + length bs \<le> unat b - unat RV_RAM_BASE"
    using d g ga by (auto simp: ram_good_def)
  with g show "gread s' b n = gread s b n"
    unfolding s' by (simp add: gread_eq mem_read_write_disjoint)
qed

section \<open>What a device may touch\<close>

text \<open>
  A device reaches the guest only through these accessors and the interrupt line: no byte outside
  RAM, nothing of the hart but mip and the power-down flag, nothing of the machine but the PLIC's
  pending word; and the history of platform events only grows.
\<close>

definition dma_confined :: "emu \<Rightarrow> emu \<Rightarrow> bool" where
  "dma_confined s s' \<longleftrightarrow> e_map s' = e_map s \<and>
     (\<forall>a. unat (m_ram_size (e_m s)) \<le> a \<longrightarrow> e_ram s' a = e_ram s a) \<and>
     (\<exists>m w. e_cpu s' = (e_cpu s)\<lparr>c_mip := m, c_power_down_flag := w\<rparr>) \<and>
     (\<exists>p. e_m s' = (e_m s)\<lparr>m_plic_pending := p\<rparr>) \<and> (\<exists>h. e_ev s' = h @ e_ev s)"

lemma dma_confinedI:
  "e_map s' = e_map s \<Longrightarrow> (\<And>a. unat (m_ram_size (e_m s)) \<le> a \<Longrightarrow> e_ram s' a = e_ram s a) \<Longrightarrow>
   e_cpu s' = (e_cpu s)\<lparr>c_mip := m, c_power_down_flag := w\<rparr> \<Longrightarrow>
   e_m s' = (e_m s)\<lparr>m_plic_pending := p\<rparr> \<Longrightarrow> e_ev s' = h @ e_ev s \<Longrightarrow> dma_confined s s'"
  by (auto simp: dma_confined_def)

lemma dma_same:
  "e_map s' = e_map s \<Longrightarrow> e_ram s' = e_ram s \<Longrightarrow> e_cpu s' = e_cpu s \<Longrightarrow> e_m s' = e_m s \<Longrightarrow> e_ev s' = h @ e_ev s \<Longrightarrow>
   dma_confined s s'"
  by (rule dma_confinedI [where m = "c_mip (e_cpu s)" and w = "c_power_down_flag (e_cpu s)"
        and p = "m_plic_pending (e_m s)"]) simp_all

lemma dma_refl [simp]: "dma_confined s s"
  by (rule dma_same [where h = "[]"]) simp_all

lemma dma_trans: "dma_confined s s' \<Longrightarrow> dma_confined s' s'' \<Longrightarrow> dma_confined s s''"
proof -
  assume "dma_confined s s'" "dma_confined s' s''"
  then obtain m w p h m' w' p' h' where
    1: "e_map s' = e_map s" "e_cpu s' = (e_cpu s)\<lparr>c_mip := m, c_power_down_flag := w\<rparr>"
       "e_m s' = (e_m s)\<lparr>m_plic_pending := p\<rparr>"
       "\<And>a. unat (m_ram_size (e_m s)) \<le> a \<Longrightarrow> e_ram s' a = e_ram s a" and
    2: "e_map s'' = e_map s'" "e_cpu s'' = (e_cpu s')\<lparr>c_mip := m', c_power_down_flag := w'\<rparr>"
       "e_m s'' = (e_m s')\<lparr>m_plic_pending := p'\<rparr>"
       "\<And>a. unat (m_ram_size (e_m s')) \<le> a \<Longrightarrow> e_ram s'' a = e_ram s' a" and
    3: "e_ev s' = h @ e_ev s" "e_ev s'' = h' @ e_ev s'"
    unfolding dma_confined_def by blast
  show ?thesis by (rule dma_confinedI [where m = m' and w = w' and p = p' and h = "h' @ h"]) (use 1 2 3 in auto)
qed

lemma dma_gwrite: "gwrite s a bs = Some s' \<Longrightarrow> length bs < 2 ^ 32 \<Longrightarrow> dma_confined s s'"
  by (rule dma_confinedI [where m = "c_mip (e_cpu s)" and w = "c_power_down_flag (e_cpu s)"
        and p = "m_plic_pending (e_m s)" and h = "[]"])
     (auto simp: gwrite_eq ram_good_def mem_write_def split: if_splits)

lemma dma_irq: "dma_confined s (rv_plic_set_irq s i l)"
  by (rule dma_confinedI [where m = "c_mip (e_cpu (rv_plic_set_irq s i l))"
        and w = "c_power_down_flag (e_cpu (rv_plic_set_irq s i l))"
        and p = "m_plic_pending (e_m (rv_plic_set_irq s i l))" and h = "[]"])
     (simp_all add: rv_plic_set_irq_def plic_set_irq_m plic_set_irq_def plic_update_def Let_def
        riscv_cpu_set_mip_def riscv_cpu_reset_mip_def)

lemma dma_complete: "vq_complete s q h w = (b, s') \<Longrightarrow> dma_confined s s'"
  by (auto simp: vq_complete_def split: option.splits prod.splits
      dest!: dma_gwrite intro: dma_trans)

lemma chain_walk_length: "chain_walk n s q i = Some ds \<Longrightarrow> 0 < length ds \<and> length ds \<le> n"
proof (induction n arbitrary: i ds)
  case (Suc n)
  then show ?case by (fastforce split: option.splits if_splits)
qed simp

lemma chain_walk_flags:
  "chain_walk n s q i = Some ds \<Longrightarrow> \<forall>d \<in> set ds. d_flags d AND VRING_DESC_F_INDIRECT = 0"
proof (induction n arbitrary: i ds)
  case (Suc n)
  then show ?case by (fastforce split: option.splits if_splits)
qed simp

end
