(* ===== verification/Virtio_Blk.thy ===== *)
theory Virtio_Blk
  imports Virtq
begin

text \<open>
  The read-only block device of \<open>emu/rv_virtio.c\<close>. The static \<open>vblk\<close> is the record \<open>vblk\<close>; the
  handlers take and return it together with the emulator's state. The backing store is a function
  of the byte offset. The static functions of this file that share their name with the network
  device's have the prefix \<open>blk_\<close>.
\<close>

definition VIRTIO_ID_BLOCK :: u32 where "VIRTIO_ID_BLOCK = 2"
definition VIRTIO_BLK_F_RO :: u32 where "VIRTIO_BLK_F_RO = push_bit 5 1"
definition VIRTIO_MAX_CHAIN :: nat where "VIRTIO_MAX_CHAIN = 260"
definition VIRTIO_BLK_T_IN :: u32 where "VIRTIO_BLK_T_IN = 0"
definition VIRTIO_BLK_T_OUT :: u32 where "VIRTIO_BLK_T_OUT = 1"
definition VIRTIO_BLK_T_FLUSH :: u32 where "VIRTIO_BLK_T_FLUSH = 4"
definition VIRTIO_BLK_S_OK :: u8 where "VIRTIO_BLK_S_OK = 0"
definition VIRTIO_BLK_S_IOERR :: u8 where "VIRTIO_BLK_S_IOERR = 1"
definition VIRTIO_BLK_S_UNSUPP :: u8 where "VIRTIO_BLK_S_UNSUPP = 2"
definition SECTOR_SIZE :: u64 where "SECTOR_SIZE = 512"

lemmas blk_consts = VIRTIO_ID_BLOCK_def VIRTIO_BLK_F_RO_def VIRTIO_MAX_CHAIN_def VIRTIO_BLK_T_IN_def
  VIRTIO_BLK_T_OUT_def VIRTIO_BLK_T_FLUSH_def VIRTIO_BLK_S_OK_def VIRTIO_BLK_S_IOERR_def
  VIRTIO_BLK_S_UNSUPP_def SECTOR_SIZE_def

record blk_req_header =
  h_type :: u32
  h_ioprio :: u32
  h_sector :: u64

record vblk =
  vb_data :: block
  vb_nb_sectors :: u64
  vb_irq :: nat
  vb_status :: u32
  vb_dev_feat_sel :: u32
  vb_drv_feat_sel :: u32
  vb_drv_feat :: "nat \<Rightarrow> u32"
  vb_int_status :: u32
  vb_queue_num :: u32
  vb_queue_ready :: u32
  vb_desc_addr :: u64
  vb_avail_addr :: u64
  vb_used_addr :: u64
  vb_last_avail_idx :: u16
  vb_n_requests :: u32
  vb_inited :: bool

definition vblk_zero :: vblk where
  "vblk_zero = \<lparr>vb_data = (\<lambda>_. 0), vb_nb_sectors = 0, vb_irq = 0, vb_status = 0,
     vb_dev_feat_sel = 0, vb_drv_feat_sel = 0, vb_drv_feat = (\<lambda>_. 0), vb_int_status = 0,
     vb_queue_num = 0, vb_queue_ready = 0, vb_desc_addr = 0, vb_avail_addr = 0, vb_used_addr = 0,
     vb_last_avail_idx = 0, vb_n_requests = 0, vb_inited = False\<rparr>"

type_synonym blk_state = "vblk \<times> emu"

definition blk_q :: "vblk \<Rightarrow> vq" where
  "blk_q v = \<lparr>q_num = vb_queue_num v, q_ready = vb_queue_ready v, q_desc_addr = vb_desc_addr v,
     q_avail_addr = vb_avail_addr v, q_used_addr = vb_used_addr v,
     q_last_avail_idx = vb_last_avail_idx v\<rparr>"

section \<open>One request\<close>

definition blk_set_irq :: "blk_state \<Rightarrow> bool \<Rightarrow> blk_state" where
  "blk_set_irq vs level = (case vs of (v, s) \<Rightarrow> (v, rv_plic_set_irq s (vb_irq v) level))"

definition blk_queue_complete :: "blk_state \<Rightarrow> u16 \<Rightarrow> u32 \<Rightarrow> blk_state" where
  "blk_queue_complete vs head written =
     (case vs of (v, s) \<Rightarrow>
        let (irq, s1) = vq_complete s (blk_q v) head written
        in if irq then blk_set_irq (v\<lparr>vb_int_status := vb_int_status v OR 1\<rparr>, s1) True
           else (v, s1))"

text \<open>The header gathered from the leading readable descriptors; None is a failed read.\<close>

fun blk_header :: "emu \<Rightarrow> vring_desc list \<Rightarrow> u8 list \<Rightarrow> u8 list option" where
  "blk_header s [] hdr = Some hdr"
| "blk_header s (d # ds) hdr =
     (if 16 \<le> length hdr \<or> d_writable d then Some hdr
      else let tk = min (unat (d_len d)) (16 - length hdr)
           in case gread s (d_addr d) (of_nat tk) of
                None \<Rightarrow> None
              | Some bs \<Rightarrow> blk_header s ds (hdr @ bs))"

definition blk_parse_header :: "u8 list \<Rightarrow> blk_req_header" where
  "blk_parse_header hdr = \<lparr>h_type = of_le (take 4 hdr), h_ioprio = of_le (take 4 (drop 4 hdr)),
     h_sector = of_le (take 8 (drop 8 hdr))\<rparr>"

definition blk_status_desc :: "vring_desc list \<Rightarrow> nat option" where
  "blk_status_desc chain = find (\<lambda>i. d_writable (chain ! i)) (rev [0..<length chain])"

text \<open>The data phase over the descriptors before the status one.\<close>

fun blk_read_loop :: "vblk \<Rightarrow> vring_desc list \<Rightarrow> u64 \<Rightarrow> u32 \<Rightarrow> emu \<Rightarrow> u8 \<times> u32 \<times> emu" where
  "blk_read_loop v [] offset written s = (VIRTIO_BLK_S_OK, written, s)"
| "blk_read_loop v (d # ds) offset written s =
     (if \<not> d_writable d then blk_read_loop v ds offset written s
      else let len = ucast (d_len d) :: u64
           in if vb_nb_sectors v * SECTOR_SIZE < offset + len \<or> offset + len < offset
              then (VIRTIO_BLK_S_IOERR, written, s)
              else case gwrite s (d_addr d) (mem_read (vb_data v) (unat offset) (unat (d_len d))) of
                     None \<Rightarrow> (VIRTIO_BLK_S_IOERR, written, s)
                   | Some s1 \<Rightarrow> blk_read_loop v ds (offset + len) (written + d_len d) s1)"

definition blk_execute :: "vblk \<Rightarrow> blk_req_header \<Rightarrow> vring_desc list \<Rightarrow> emu \<Rightarrow> u8 \<times> u32 \<times> emu" where
  "blk_execute v h ds s =
     (if h_type h = VIRTIO_BLK_T_IN then blk_read_loop v ds (h_sector h * SECTOR_SIZE) 0 s
      else if h_type h = VIRTIO_BLK_T_FLUSH then (VIRTIO_BLK_S_OK, 0, s)
      else if h_type h = VIRTIO_BLK_T_OUT then (VIRTIO_BLK_S_IOERR, 0, s)
      else (VIRTIO_BLK_S_UNSUPP, 0, s))"

definition blk_finish :: "vblk \<Rightarrow> u16 \<Rightarrow> vring_desc \<Rightarrow> u8 \<times> u32 \<times> emu \<Rightarrow> blk_state" where
  "blk_finish v head sd res =
     (case res of (status, written0, s) \<Rightarrow>
        let written = (if status \<noteq> VIRTIO_BLK_S_OK then 0 else written0)
        in case gwrite s (d_addr sd) [status] of
             None \<Rightarrow> blk_queue_complete (v, s) head 0
           | Some s1 \<Rightarrow> blk_queue_complete (v\<lparr>vb_n_requests := vb_n_requests v + 1\<rparr>, s1) head (written + 1))"

definition handle_chain :: "blk_state \<Rightarrow> u16 \<Rightarrow> blk_state" where
  "handle_chain vs head =
     (case vs of (v, s) \<Rightarrow>
      (case chain_walk VIRTIO_MAX_CHAIN s (blk_q v) head of
         None \<Rightarrow> blk_queue_complete (v, s) head 0
       | Some chain \<Rightarrow>
        (case blk_header s chain [] of
           None \<Rightarrow> blk_queue_complete (v, s) head 0
         | Some hdr \<Rightarrow>
           if length hdr < 16 then blk_queue_complete (v, s) head 0
           else (case blk_status_desc chain of
                   None \<Rightarrow> blk_queue_complete (v, s) head 0
                 | Some sd \<Rightarrow>
                   if d_len (chain ! sd) < 1 then blk_queue_complete (v, s) head 0
                   else blk_finish v head (chain ! sd)
                          (blk_execute v (blk_parse_header hdr) (take sd chain) s)))))"

section \<open>What a request keeps\<close>

text \<open>The queue's configuration, its position and the disk do not change while a chain is handled.\<close>

definition blk_keeps :: "vblk \<Rightarrow> vblk \<Rightarrow> bool" where
  "blk_keeps v v' \<longleftrightarrow>
     (\<exists>i n. v' = v\<lparr>vb_int_status := i, vb_n_requests := n\<rparr>)"

lemma blk_keeps_refl [simp]: "blk_keeps v v"
  unfolding blk_keeps_def by (intro exI [of _ "vb_int_status v"] exI [of _ "vb_n_requests v"]) simp

lemma blk_keeps_n [simp]: "blk_keeps v (v\<lparr>vb_n_requests := n\<rparr>)"
  unfolding blk_keeps_def by (intro exI [of _ "vb_int_status v"] exI [of _ n]) simp

lemma blk_keeps_trans: "blk_keeps v v' \<Longrightarrow> blk_keeps v' v'' \<Longrightarrow> blk_keeps v v''"
  unfolding blk_keeps_def by fastforce

lemma blk_keeps_int [simp]: "blk_keeps v (v\<lparr>vb_int_status := i\<rparr>)"
  unfolding blk_keeps_def by (intro exI [of _ i] exI [of _ "vb_n_requests v"]) simp

lemma blk_keeps_complete: "blk_keeps v (fst (blk_queue_complete (v, s) h w))"
  by (auto simp: blk_queue_complete_def blk_set_irq_def Let_def split: prod.split)

lemma blk_keeps_finish: "blk_keeps v (fst (blk_finish v h d r))"
  by (auto simp: blk_finish_def Let_def blk_keeps_complete split: prod.split option.split
      intro: blk_keeps_trans [OF blk_keeps_n blk_keeps_complete])

lemma blk_keeps_handle: "blk_keeps v (fst (handle_chain (v, s) head))"
  by (auto simp: handle_chain_def blk_keeps_complete blk_keeps_finish split: option.split)

lemma blk_keeps_last: "blk_keeps v v' \<Longrightarrow> vb_last_avail_idx v' = vb_last_avail_idx v"
  by (auto simp: blk_keeps_def)

lemma blk_keeps_disk: "blk_keeps (v\<lparr>vb_last_avail_idx := i\<rparr>) v' \<Longrightarrow>
    vb_data v' = vb_data v \<and> vb_nb_sectors v' = vb_nb_sectors v"
  by (auto simp: blk_keeps_def)

lemma handle_chain_last: "vb_last_avail_idx (fst (handle_chain vs head)) = vb_last_avail_idx (fst vs)"
  by (cases vs) (simp add: blk_keeps_last [OF blk_keeps_handle])

section \<open>Draining the queue\<close>

lemma u16_distance_less: "a \<noteq> b \<Longrightarrow> unat (a - (b + 1)) < unat (a - b :: u16)"
proof -
  assume "a \<noteq> b"
  then have "a - b \<noteq> 0" by simp
  from measure_unat [OF this] show ?thesis by (simp add: diff_diff_eq)
qed

text \<open>
  The loop of \<open>queue_notify()\<close>: it ends because every round moves the device's index one step
  towards the index it read at the start, and handling a chain does not move it.
\<close>

function blk_drain :: "u16 \<Rightarrow> blk_state \<Rightarrow> blk_state" where
  "blk_drain avail_idx (v, s) =
     (if vb_last_avail_idx v = avail_idx then (v, s)
      else case gread16 s (avail_slot (blk_q v)) of
             None \<Rightarrow> (v, s)
           | Some head \<Rightarrow>
               blk_drain avail_idx
                 (handle_chain (v\<lparr>vb_last_avail_idx := vb_last_avail_idx v + 1\<rparr>, s) head))"
  by pat_completeness auto

termination
proof (relation "measure (\<lambda>(a, vs). unat (a - vb_last_avail_idx (fst vs)))", goal_cases)
  case (2 avail_idx v s head)
  then show ?case using u16_distance_less [of avail_idx "vb_last_avail_idx v"]
    by (simp add: handle_chain_last)
qed simp

declare blk_drain.simps [simp del]

definition queue_notify :: "blk_state \<Rightarrow> blk_state" where
  "queue_notify vs =
     (case vs of (v, s) \<Rightarrow>
        if vb_queue_ready v = 0 \<or> vb_queue_num v = 0 then (v, s)
        else case gread16 s (vb_avail_addr v + 2) of
               None \<Rightarrow> (v, s)
             | Some avail_idx \<Rightarrow> blk_drain avail_idx (v, s))"

section \<open>Registers\<close>

definition virtio_read :: "blk_state \<Rightarrow> u32 \<Rightarrow> nat \<Rightarrow> u32" where
  "virtio_read vs offset size_log2 =
     (let v = fst vs
      in if size_log2 \<noteq> 2 then 0
         else if VIRTIO_MMIO_CONFIG \<le> offset then
           (if offset - VIRTIO_MMIO_CONFIG = 0 then ucast (vb_nb_sectors v)
            else if offset - VIRTIO_MMIO_CONFIG = 4 then ucast (drop_bit 32 (vb_nb_sectors v))
            else 0)
         else if offset = VIRTIO_MMIO_MAGIC then VIRTIO_MMIO_MAGIC_VALUE
         else if offset = VIRTIO_MMIO_VERSION then VIRTIO_MMIO_VERSION_2
         else if offset = VIRTIO_MMIO_DEVICE_ID then VIRTIO_ID_BLOCK
         else if offset = VIRTIO_MMIO_VENDOR_ID then VIRTIO_VENDOR_ID
         else if offset = VIRTIO_MMIO_DEV_FEAT then
           (if vb_dev_feat_sel v = 0 then VIRTIO_BLK_F_RO
            else if vb_dev_feat_sel v = 1 then VIRTIO_F_VERSION_1_HI else 0)
         else if offset = VIRTIO_MMIO_QUEUE_NUM_MAX then VIRTIO_QUEUE_NUM_MAX
         else if offset = VIRTIO_MMIO_QUEUE_READY then vb_queue_ready v
         else if offset = VIRTIO_MMIO_INT_STATUS then vb_int_status v
         else if offset = VIRTIO_MMIO_STATUS then vb_status v
         else 0)"

definition virtio_write :: "blk_state \<Rightarrow> u32 \<Rightarrow> u32 \<Rightarrow> nat \<Rightarrow> blk_state" where
  "virtio_write vs offset val size_log2 =
     (case vs of (v, s) \<Rightarrow>
      if size_log2 \<noteq> 2 \<or> VIRTIO_MMIO_CONFIG \<le> offset then (v, s)
      else if offset = VIRTIO_MMIO_DEV_FEAT_SEL then (v\<lparr>vb_dev_feat_sel := val\<rparr>, s)
      else if offset = VIRTIO_MMIO_DRV_FEAT_SEL then (v\<lparr>vb_drv_feat_sel := val\<rparr>, s)
      else if offset = VIRTIO_MMIO_DRV_FEAT then
        (if vb_drv_feat_sel v < 2
         then (v\<lparr>vb_drv_feat := (vb_drv_feat v)(unat (vb_drv_feat_sel v) := val)\<rparr>, s) else (v, s))
      else if offset = VIRTIO_MMIO_QUEUE_SEL then (v, s)
      else if offset = VIRTIO_MMIO_QUEUE_NUM then
        (if 0 < val \<and> val \<le> VIRTIO_QUEUE_NUM_MAX then (v\<lparr>vb_queue_num := val\<rparr>, s) else (v, s))
      else if offset = VIRTIO_MMIO_QUEUE_READY then
        (if val AND 1 \<noteq> 0 then (v\<lparr>vb_queue_ready := val AND 1, vb_last_avail_idx := 0\<rparr>, s)
         else (v\<lparr>vb_queue_ready := val AND 1\<rparr>, s))
      else if offset = VIRTIO_MMIO_QUEUE_DESC_LO then (v\<lparr>vb_desc_addr := set_lo (vb_desc_addr v) val\<rparr>, s)
      else if offset = VIRTIO_MMIO_QUEUE_DESC_HI then (v\<lparr>vb_desc_addr := set_hi (vb_desc_addr v) val\<rparr>, s)
      else if offset = VIRTIO_MMIO_QUEUE_AVAIL_LO then (v\<lparr>vb_avail_addr := set_lo (vb_avail_addr v) val\<rparr>, s)
      else if offset = VIRTIO_MMIO_QUEUE_AVAIL_HI then (v\<lparr>vb_avail_addr := set_hi (vb_avail_addr v) val\<rparr>, s)
      else if offset = VIRTIO_MMIO_QUEUE_USED_LO then (v\<lparr>vb_used_addr := set_lo (vb_used_addr v) val\<rparr>, s)
      else if offset = VIRTIO_MMIO_QUEUE_USED_HI then (v\<lparr>vb_used_addr := set_hi (vb_used_addr v) val\<rparr>, s)
      else if offset = VIRTIO_MMIO_QUEUE_NOTIFY then queue_notify (v, s)
      else if offset = VIRTIO_MMIO_INT_ACK then
        (let v1 = v\<lparr>vb_int_status := vb_int_status v AND NOT val\<rparr>
         in if vb_int_status v1 = 0 then blk_set_irq (v1, s) False else (v1, s))
      else if offset = VIRTIO_MMIO_STATUS then
        (if val = 0
         then blk_set_irq (v\<lparr>vb_status := val, vb_queue_ready := 0, vb_queue_num := 0,
                             vb_last_avail_idx := 0, vb_int_status := 0\<rparr>, s) False
         else (v\<lparr>vb_status := val\<rparr>, s))
      else (v, s))"

text \<open>A null data pointer is None; the result is the errno and, on success, device and map.\<close>

definition rv_virtio_blk_init ::
    "vblk \<Rightarrow> phys_map \<Rightarrow> u64 \<Rightarrow> nat \<Rightarrow> block option \<Rightarrow> u64 \<Rightarrow> int \<times> vblk \<times> phys_map" where
  "rv_virtio_blk_init v0 mem_map base irq data sz =
     (case data of
        None \<Rightarrow> (- EINVAL, v0, mem_map)
      | Some d \<Rightarrow>
        if sz < SECTOR_SIZE then (- EINVAL, v0, mem_map)
        else let v = vblk_zero\<lparr>vb_data := d, vb_nb_sectors := sz div SECTOR_SIZE, vb_irq := irq,
                               vb_inited := True\<rparr>
             in case cpu_register_device mem_map base 0x1000 DevBlk DEVIO_SIZE32 of
                  None \<Rightarrow> (- ENOMEM, v, mem_map)
                | Some mm \<Rightarrow> (0, v, mm))"

definition rv_virtio_blk_sectors :: "vblk \<Rightarrow> u64" where
  "rv_virtio_blk_sectors v = (if vb_inited v then vb_nb_sectors v else 0)"

definition rv_virtio_blk_requests :: "vblk \<Rightarrow> u32" where
  "rv_virtio_blk_requests v = vb_n_requests v"

section \<open>Confinement\<close>

lemma dma_blk_complete: "dma_confined s (snd (blk_queue_complete (v, s) h w))"
  by (auto simp: blk_queue_complete_def blk_set_irq_def Let_def split: prod.split
      intro: dma_trans [OF _ dma_irq] dest: dma_complete)

lemma dma_blk_read_loop: "blk_read_loop v ds off w s = (st, w', s') \<Longrightarrow> dma_confined s s'"
proof (induction ds arbitrary: off w s)
  case (Cons d ds)
  show ?case
  proof (cases "d_writable d")
    case True
    have l: "length (mem_read (vb_data v) (unat off) (unat (d_len d))) < 2 ^ 32"
      using unat_u32_lt [of "d_len d"] by simp
    from True Cons.prems show ?thesis
      by (auto simp: Let_def split: if_splits option.splits
          intro: dma_trans [OF dma_gwrite [OF _ l]] Cons.IH)
  next
    case False
    with Cons show ?thesis by simp
  qed
qed simp

lemma dma_blk_execute: "blk_execute v h ds s = (st, w, s') \<Longrightarrow> dma_confined s s'"
  by (auto simp: blk_execute_def split: if_splits dest: dma_blk_read_loop)

lemma dma_blk_finish: "dma_confined s (snd (snd r)) \<Longrightarrow> dma_confined s (snd (blk_finish v h d r))"
proof -
  assume r: "dma_confined s (snd (snd r))"
  obtain st w s1 where [simp]: "r = (st, w, s1)" by (cases r) auto
  show ?thesis
  proof (cases "gwrite s1 (d_addr d) [st]")
    case None
    with r show ?thesis by (simp add: blk_finish_def Let_def dma_trans [OF _ dma_blk_complete])
  next
    case (Some s2)
    then have "dma_confined s s2" using r dma_trans [OF _ dma_gwrite [OF Some]] by simp
    with Some show ?thesis by (simp add: blk_finish_def Let_def dma_trans [OF _ dma_blk_complete])
  qed
qed

lemma dma_handle_chain: "dma_confined s (snd (handle_chain (v, s) head))"
proof -
  have "dma_confined s (snd (snd (blk_execute v h ds s)))" for h ds
    using dma_blk_execute [of v h ds s] by (cases "blk_execute v h ds s") auto
  then show ?thesis
    by (auto simp: handle_chain_def dma_blk_complete split: option.split intro: dma_blk_finish)
qed

lemma dma_blk_drain: "dma_confined (snd vs) (snd (blk_drain a vs))"
proof (induction a vs rule: blk_drain.induct)
  case (1 avail_idx v s)
  show ?case
  proof (cases "vb_last_avail_idx v = avail_idx \<or> gread16 s (avail_slot (blk_q v)) = None")
    case True
    then show ?thesis by (auto simp: blk_drain.simps [of avail_idx v s])
  next
    case False
    then obtain h where h: "vb_last_avail_idx v \<noteq> avail_idx" "gread16 s (avail_slot (blk_q v)) = Some h"
      by auto
    have "dma_confined s (snd (handle_chain (v\<lparr>vb_last_avail_idx := vb_last_avail_idx v + 1\<rparr>, s) h))"
      by (rule dma_handle_chain)
    with h 1 [OF h] show ?thesis
      by (simp add: blk_drain.simps [of avail_idx v s]) (blast intro: dma_trans)
  qed
qed

lemma dma_queue_notify: "dma_confined s (snd (queue_notify (v, s)))"
  using dma_blk_drain [of "(v, s)"] by (auto simp: queue_notify_def split: option.split)

lemma dma_virtio_write: "dma_confined s (snd (virtio_write (v, s) off val sz))"
  by (simp add: virtio_write_def blk_set_irq_def Let_def dma_irq dma_queue_notify)

lemma blk_disk_drain:
  "vb_data (fst (blk_drain a vs)) = vb_data (fst vs) \<and>
   vb_nb_sectors (fst (blk_drain a vs)) = vb_nb_sectors (fst vs)"
proof (induction a vs rule: blk_drain.induct)
  case (1 avail_idx v s)
  have k: "vb_data (fst (handle_chain (v\<lparr>vb_last_avail_idx := i\<rparr>, s) h)) = vb_data v \<and>
      vb_nb_sectors (fst (handle_chain (v\<lparr>vb_last_avail_idx := i\<rparr>, s) h)) = vb_nb_sectors v" for i h
    by (rule blk_keeps_disk [OF blk_keeps_handle])
  then show ?case
    using 1 by (auto simp: blk_drain.simps [of avail_idx v s] split: option.split)
qed

lemma blk_disk_virtio_write:
  "vb_data (fst (virtio_write (v, s) off val sz)) = vb_data v \<and>
   vb_nb_sectors (fst (virtio_write (v, s) off val sz)) = vb_nb_sectors v"
proof -
  have "vb_data (fst (queue_notify (v, s))) = vb_data v \<and>
      vb_nb_sectors (fst (queue_notify (v, s))) = vb_nb_sectors v"
    using blk_disk_drain [of _ "(v, s)"] by (auto simp: queue_notify_def split: option.split)
  then show ?thesis by (simp add: virtio_write_def blk_set_irq_def Let_def)
qed

section \<open>Publishing a used element\<close>

lemma ram_good_bound: "ram_good s a n \<Longrightarrow> unat a + n < 2 ^ 33"
  using unat_u32_lt [of "m_ram_size (e_m s)"] by (simp add: ram_good_def RV_RAM_BASE_def)

lemma addr_plus:
  assumes "ram_good s a n" "k \<le> n"
  shows "unat (a + of_nat k) = unat a + k"
  using ram_good_bound [OF assms(1)] assms(2) by (intro unat_add_of_nat) simp

lemma unat_used_slot:
  assumes "ram_good s (q_used_addr q) (4 + 8 * unat (q_num q))" "q_num q \<noteq> 0"
  shows "unat (used_slot q u) = unat (q_used_addr q) + 4 + 8 * (unat u mod unat (q_num q))"
    and "unat (q_used_addr q + 2) = unat (q_used_addr q) + 2"
    and "unat u mod unat (q_num q) < unat (q_num q)"
proof -
  have "0 < unat (q_num q)" using assms(2) by (simp add: unat_gt_0)
  then show m: "unat u mod unat (q_num q) < unat (q_num q)" by simp
  have "used_slot q u = q_used_addr q + of_nat (4 + 8 * (unat u mod unat (q_num q)))"
    by (simp add: used_slot_def add.assoc mult.commute)
  then show "unat (used_slot q u) = unat (q_used_addr q) + 4 + 8 * (unat u mod unat (q_num q))"
    using addr_plus [OF assms(1), of "4 + 8 * (unat u mod unat (q_num q))"] m by simp
  show "unat (q_used_addr q + 2) = unat (q_used_addr q) + 2"
    using addr_plus [OF assms(1), of 2] by simp
qed

lemma gread16_gread: "gread16 s a = Some u \<Longrightarrow> gread s a 2 = Some (le_bytes 2 u)"
proof -
  assume "gread16 s a = Some u"
  then obtain z where z: "gread s a 2 = Some z" "u = of_le z" by (auto simp: gread16_def)
  from gmem.rd_length [OF z(1)] have "le_bytes 2 (of_le z :: u16) = z" by (intro le_bytes_of_le) simp_all
  with z show ?thesis by simp
qed

lemma vq_complete_writes:
  assumes "gread16 s (q_used_addr q + 2) = Some u"
    and "gmem.wr_all s [(used_slot q u, le_bytes 4 (ucast head :: u32) @ le_bytes 4 written),
                        (q_used_addr q + 2, le_bytes 2 (u + 1))] = Some s2"
  shows "snd (vq_complete s q head written) = s2"
    and "fst (vq_complete s q head written) =
      (case gread16 s2 (q_avail_addr q) of Some fl \<Rightarrow> fl AND VRING_AVAIL_F_NO_INTERRUPT = 0 | None \<Rightarrow> True)"
  using assms by (auto simp: vq_complete_def split: option.splits)

lemma unat_avail_slot:
  assumes "ram_good s (q_avail_addr q) (4 + 2 * unat (q_num q))" "q_num q \<noteq> 0"
  shows "unat (avail_slot q) = unat (q_avail_addr q) + (4 + 2 * (unat (q_last_avail_idx q) mod unat (q_num q)))"
    and "ram_good s (avail_slot q) 2"
proof -
  let ?k = "4 + 2 * (unat (q_last_avail_idx q) mod unat (q_num q))"
  have "0 < unat (q_num q)" using assms(2) by (simp add: unat_gt_0)
  then have m: "unat (q_last_avail_idx q) mod unat (q_num q) < unat (q_num q)" by simp
  have "avail_slot q = q_avail_addr q + of_nat ?k"
    by (simp add: avail_slot_def add.assoc mult.commute)
  then show u: "unat (avail_slot q) = unat (q_avail_addr q) + ?k"
    using addr_plus [OF assms(1), of ?k] m by simp
  show "ram_good s (avail_slot q) 2" using assms(1) m unfolding ram_good_def u by simp
qed

lemma dma_ram_good: "dma_confined s s' \<Longrightarrow> ram_good s' a n = ram_good s a n"
  by (auto simp: dma_confined_def ram_good_def)

lemma blk_keeps_queue: "blk_keeps v v' \<Longrightarrow> vb_avail_addr v' = vb_avail_addr v \<and>
    vb_queue_num v' = vb_queue_num v"
  by (auto simp: blk_keeps_def)

lemma blk_drain_end:
  "vb_queue_num (fst vs) \<noteq> 0 \<Longrightarrow>
   ram_good (snd vs) (vb_avail_addr (fst vs)) (4 + 2 * unat (vb_queue_num (fst vs))) \<Longrightarrow>
   vb_last_avail_idx (fst (blk_drain a vs)) = a"
proof (induction a vs rule: blk_drain.induct)
  case (1 avail_idx v s)
  show ?case
  proof (cases "vb_last_avail_idx v = avail_idx")
    case True
    then show ?thesis by (simp add: blk_drain.simps [of avail_idx v s])
  next
    case False
    have "ram_good s (avail_slot (blk_q v)) 2"
      using unat_avail_slot(2) [of s "blk_q v"] 1(2,3) by (simp add: blk_q_def)
    then obtain h where h: "gread16 s (avail_slot (blk_q v)) = Some h"
      by (auto simp: gread16_def gread_eq)
    let ?v1 = "v\<lparr>vb_last_avail_idx := vb_last_avail_idx v + 1\<rparr>"
    have "blk_keeps ?v1 (fst (handle_chain (?v1, s) h))" "dma_confined s (snd (handle_chain (?v1, s) h))"
      by (rule blk_keeps_handle, rule dma_handle_chain)
    then have "vb_last_avail_idx (fst (blk_drain avail_idx (handle_chain (?v1, s) h))) = avail_idx"
      using 1(2,3) by (intro 1(1) [OF False h]) (simp_all add: blk_keeps_queue dma_ram_good)
    with False h show ?thesis by (simp add: blk_drain.simps [of avail_idx v s])
  qed
qed

section \<open>A read request\<close>

text \<open>
  A driver's read: a 16-byte readable header for a sector of the disk, one writable data buffer
  and one writable status descriptor, all inside RAM, with the data buffer, the status byte and
  the used ring pairwise apart, and the used ring itself inside RAM.
\<close>

definition apart :: "u64 \<Rightarrow> nat \<Rightarrow> u64 \<Rightarrow> nat \<Rightarrow> bool" where
  "apart a n b k \<longleftrightarrow> unat a + n \<le> unat b \<or> unat b + k \<le> unat a"

definition blk_read_request ::
    "blk_state \<Rightarrow> u16 \<Rightarrow> vring_desc \<Rightarrow> vring_desc \<Rightarrow> vring_desc \<Rightarrow> nat \<Rightarrow> bool" where
  "blk_read_request vs head d0 d1 d2 sector \<longleftrightarrow>
     (case vs of (v, s) \<Rightarrow>
        chain_walk VIRTIO_MAX_CHAIN s (blk_q v) head = Some [d0, d1, d2] \<and>
        \<not> d_writable d0 \<and> d_len d0 = 16 \<and> d_writable d1 \<and> d_writable d2 \<and> d_len d2 = 1 \<and>
        (\<exists>hdr. gread s (d_addr d0) 16 = Some hdr \<and>
           h_type (blk_parse_header hdr) = VIRTIO_BLK_T_IN \<and>
           unat (h_sector (blk_parse_header hdr)) = sector) \<and>
        sector * 512 + unat (d_len d1) \<le> unat (vb_nb_sectors v) * 512 \<and>
        unat (vb_nb_sectors v) * 512 < 2 ^ 64 \<and>
        vb_queue_num v \<noteq> 0 \<and>
        ram_good s (d_addr d1) (unat (d_len d1)) \<and> ram_good s (d_addr d2) 1 \<and>
        ram_good s (vb_used_addr v) (4 + 8 * unat (vb_queue_num v)) \<and>
        apart (d_addr d1) (unat (d_len d1)) (d_addr d2) 1 \<and>
        apart (d_addr d1) (unat (d_len d1)) (vb_used_addr v) (4 + 8 * unat (vb_queue_num v)) \<and>
        apart (d_addr d2) 1 (vb_used_addr v) (4 + 8 * unat (vb_queue_num v)))"

lemma blk_offset_arith:
  fixes sec nb :: u64
  assumes "unat sec * 512 + n \<le> unat nb * 512" "unat nb * 512 < 2 ^ 64" "n = unat (len :: u32)"
  shows "unat (sec * SECTOR_SIZE) = unat sec * 512"
    and "\<not> nb * SECTOR_SIZE < sec * SECTOR_SIZE + ucast len"
    and "\<not> sec * SECTOR_SIZE + ucast len < sec * SECTOR_SIZE"
proof -
  show o: "unat (sec * SECTOR_SIZE) = unat sec * 512"
    using assms by (simp add: SECTOR_SIZE_def unat_word_ariths)
  have e: "unat (nb * SECTOR_SIZE) = unat nb * 512"
    using assms by (simp add: SECTOR_SIZE_def unat_word_ariths)
  have a: "unat (sec * SECTOR_SIZE + ucast len) = unat sec * 512 + unat len"
    using assms o by (simp add: unat_word_ariths)
  show "\<not> nb * SECTOR_SIZE < sec * SECTOR_SIZE + ucast len"
    "\<not> sec * SECTOR_SIZE + ucast len < sec * SECTOR_SIZE"
    using o e a assms by (simp_all add: word_less_nat_alt)
qed

lemma blk_read_request_handle:
  assumes "blk_read_request (v, s) head d0 d1 d2 sector"
    and w1: "gwrite s (d_addr d1) (mem_read (vb_data v) (sector * 512) (unat (d_len d1))) = Some s1"
    and w2: "gwrite s1 (d_addr d2) [0] = Some s2"
  shows "handle_chain (v, s) head =
    blk_queue_complete (v\<lparr>vb_n_requests := vb_n_requests v + 1\<rparr>, s2) head (d_len d1 + 1)"
proof -
  from assms(1) obtain hdr where r:
    "chain_walk VIRTIO_MAX_CHAIN s (blk_q v) head = Some [d0, d1, d2]"
    "\<not> d_writable d0" "d_len d0 = 16" "d_writable d1" "d_writable d2" "d_len d2 = 1"
    "gread s (d_addr d0) 16 = Some hdr" "h_type (blk_parse_header hdr) = VIRTIO_BLK_T_IN"
    "unat (h_sector (blk_parse_header hdr)) = sector"
    "sector * 512 + unat (d_len d1) \<le> unat (vb_nb_sectors v) * 512" "unat (vb_nb_sectors v) * 512 < 2 ^ 64"
    by (auto simp: blk_read_request_def)
  have len: "length hdr = 16" using gmem.rd_length [OF r(7)] by simp
  have hd: "blk_header s [d0, d1, d2] [] = Some hdr"
    using r(2,3,4,7) len by simp
  have sd: "blk_status_desc [d0, d1, d2] = Some 2"
    using r(5) by (simp add: blk_status_desc_def)
  let ?off = "h_sector (blk_parse_header hdr) * SECTOR_SIZE"
  note o = blk_offset_arith [OF r(10) [folded r(9)] r(11) refl]
  have "blk_read_loop v [d0, d1] ?off 0 s = (VIRTIO_BLK_S_OK, d_len d1, s1)"
    using r(2,4) w1 o unfolding r(9) by simp
  then have ex: "blk_execute v (blk_parse_header hdr) [d0, d1] s = (VIRTIO_BLK_S_OK, d_len d1, s1)"
    using r(8) by (simp add: blk_execute_def)
  have tk: "take 2 [d0, d1, d2] = [d0, d1]" "[d0, d1, d2] ! 2 = d2" by simp_all
  have l1: "\<not> d_len d2 < 1" "\<not> length hdr < 16" using r(6) len by simp_all
  have "handle_chain (v, s) head = blk_finish v head d2 (VIRTIO_BLK_S_OK, d_len d1, s1)"
    unfolding handle_chain_def prod.case r(1) option.case hd sd tk ex using l1 by simp
  with w2 show ?thesis by (simp add: blk_finish_def VIRTIO_BLK_S_OK_def)
qed

text \<open>The four writes such a request makes, in the order they are made.\<close>

definition blk_read_writes ::
    "vblk \<Rightarrow> u16 \<Rightarrow> vring_desc \<Rightarrow> vring_desc \<Rightarrow> nat \<Rightarrow> u16 \<Rightarrow> (u64 \<times> u8 list) list" where
  "blk_read_writes v head d1 d2 sector u =
     [(d_addr d1, mem_read (vb_data v) (sector * 512) (unat (d_len d1))),
      (d_addr d2, [0]),
      (used_slot (blk_q v) u, le_bytes 4 (ucast head :: u32) @ le_bytes 4 (d_len d1 + 1)),
      (vb_used_addr v + 2, le_bytes 2 (u + 1))]"

lemma blk_q_sel [simp]:
  "q_num (blk_q v) = vb_queue_num v" "q_used_addr (blk_q v) = vb_used_addr v"
  "q_avail_addr (blk_q v) = vb_avail_addr v" "q_desc_addr (blk_q v) = vb_desc_addr v"
  "q_last_avail_idx (blk_q v) = vb_last_avail_idx v"
  by (simp_all add: blk_q_def)

lemma blk_q_n [simp]: "blk_q (v\<lparr>vb_n_requests := n\<rparr>) = blk_q v" "blk_q (v\<lparr>vb_int_status := i\<rparr>) = blk_q v"
  by (simp_all add: blk_q_def)

lemma ram_good_sub: "ram_good s a n \<Longrightarrow> unat b = unat a + k \<Longrightarrow> k + m \<le> n \<Longrightarrow> ram_good s b m"
  by (auto simp: ram_good_def)

lemma apart_sub: "apart a n b k \<Longrightarrow> unat b' = unat b + i \<Longrightarrow> i + m \<le> k \<Longrightarrow> apart a n b' m"
  by (auto simp: apart_def)

lemma blk_read_request_facts:
  assumes "blk_read_request (v, s) head d0 d1 d2 sector"
  shows "vb_queue_num v \<noteq> 0" "ram_good s (d_addr d1) (unat (d_len d1))" "ram_good s (d_addr d2) 1"
    "ram_good s (vb_used_addr v) (4 + 8 * unat (vb_queue_num v))"
    "apart (d_addr d1) (unat (d_len d1)) (d_addr d2) 1"
    "ram_good s (used_slot (blk_q v) u) 8" "ram_good s (vb_used_addr v + 2) 2"
    "apart (d_addr d1) (unat (d_len d1)) (used_slot (blk_q v) u) 8"
    "apart (d_addr d1) (unat (d_len d1)) (vb_used_addr v + 2) 2"
    "apart (d_addr d2) 1 (used_slot (blk_q v) u) 8" "apart (d_addr d2) 1 (vb_used_addr v + 2) 2"
    "apart (used_slot (blk_q v) u) 8 (vb_used_addr v + 2) 2"
proof -
  show f: "vb_queue_num v \<noteq> 0" "ram_good s (d_addr d1) (unat (d_len d1))" "ram_good s (d_addr d2) 1"
    "apart (d_addr d1) (unat (d_len d1)) (d_addr d2) 1"
    and u: "ram_good s (vb_used_addr v) (4 + 8 * unat (vb_queue_num v))"
    using assms by (auto simp: blk_read_request_def)
  have a: "apart (d_addr d1) (unat (d_len d1)) (vb_used_addr v) (4 + 8 * unat (vb_queue_num v))"
    "apart (d_addr d2) 1 (vb_used_addr v) (4 + 8 * unat (vb_queue_num v))"
    using assms by (auto simp: blk_read_request_def)
  note sl = unat_used_slot [of s "blk_q v", simplified, OF u f(1)]
  let ?k = "4 + 8 * (unat u mod unat (vb_queue_num v))"
  have k: "unat (used_slot (blk_q v) u) = unat (vb_used_addr v) + ?k"
    "?k + 8 \<le> 4 + 8 * unat (vb_queue_num v)"
    using sl(1) [of u] sl(3) [of u] by linarith+
  have k2: "unat (vb_used_addr v + 2) = unat (vb_used_addr v) + 2"
    "2 + 2 \<le> 4 + 8 * unat (vb_queue_num v)"
    using sl(2) by simp_all
  show "ram_good s (used_slot (blk_q v) u) 8" by (rule ram_good_sub [OF u k])
  show "ram_good s (vb_used_addr v + 2) 2" by (rule ram_good_sub [OF u k2])
  show "apart (d_addr d1) (unat (d_len d1)) (used_slot (blk_q v) u) 8"
    "apart (d_addr d2) 1 (used_slot (blk_q v) u) 8"
    by (rule apart_sub [OF a(1) k], rule apart_sub [OF a(2) k])
  show "apart (d_addr d1) (unat (d_len d1)) (vb_used_addr v + 2) 2"
    "apart (d_addr d2) 1 (vb_used_addr v + 2) 2"
    by (rule apart_sub [OF a(1) k2], rule apart_sub [OF a(2) k2])
  show "apart (used_slot (blk_q v) u) 8 (vb_used_addr v + 2) 2"
    using k k2 by (simp add: apart_def)
qed

lemma blk_read_request_writes:
  assumes rq: "blk_read_request (v, s) head d0 d1 d2 sector"
    and u: "gread16 s (vb_used_addr v + 2) = Some u"
  shows "\<exists>s4. gmem.wr_all s (blk_read_writes v head d1 d2 sector u) = Some s4 \<and>
    (let irq = (case gread16 s4 (vb_avail_addr v) of
                  Some fl \<Rightarrow> fl AND VRING_AVAIL_F_NO_INTERRUPT = 0 | None \<Rightarrow> True)
     in handle_chain (v, s) head =
       (if irq then (v\<lparr>vb_n_requests := vb_n_requests v + 1, vb_int_status := vb_int_status v OR 1\<rparr>,
                     rv_plic_set_irq s4 (vb_irq v) True)
        else (v\<lparr>vb_n_requests := vb_n_requests v + 1\<rparr>, s4)))"
proof -
  note f = blk_read_request_facts [OF rq]
  let ?ws = "blk_read_writes v head d1 d2 sector u"
  have "\<forall>(a, bs) \<in> set ?ws. length bs < 2 ^ 32 \<and> ram_good s a (length bs)"
    using f unat_u32_lt [of "d_len d1"] by (simp add: blk_read_writes_def)
  from gmem.wr_all_total [OF this] obtain s4 where s4: "gmem.wr_all s ?ws = Some s4" by auto
  let ?b1 = "mem_read (vb_data v) (sector * 512) (unat (d_len d1))"
  let ?tl = "[(used_slot (blk_q v) u, le_bytes 4 (ucast head :: u32) @ le_bytes 4 (d_len d1 + 1)),
      (q_used_addr (blk_q v) + 2, le_bytes 2 (u + 1))]"
  have ws: "?ws = (d_addr d1, ?b1) # (d_addr d2, [0]) # ?tl"
    by (simp only: blk_read_writes_def blk_q_sel)
  obtain s1 where w1: "gwrite s (d_addr d1) ?b1 = Some s1" "gmem.wr_all s1 ((d_addr d2, [0]) # ?tl) = Some s4"
    using s4 unfolding ws by (cases "gwrite s (d_addr d1) ?b1") simp_all
  obtain s2 where w2: "gwrite s1 (d_addr d2) [0] = Some s2" and w3: "gmem.wr_all s2 ?tl = Some s4"
    using w1(2) by (cases "gwrite s1 (d_addr d2) [0]") simp_all
  have t: "gmem.wr_all s [(d_addr d1, mem_read (vb_data v) (sector * 512) (unat (d_len d1))),
      (d_addr d2, [0])] = Some s2"
    using w1(1) w2 by simp
  have "gread s2 (vb_used_addr v + 2) 2 = gread s (vb_used_addr v + 2) 2"
  proof (rule gmem.wr_all_other [OF t])
    show "ram_good s (vb_used_addr v + 2) (unat (2 :: u32))" using f(7) by simp
    have "unat (d_len d1) < 2 ^ 32" using unat_u32_lt [of "d_len d1"] by simp
    then show "\<forall>(a, bs) \<in> set [(d_addr d1, mem_read (vb_data v) (sector * 512) (unat (d_len d1))),
        (d_addr d2, [0])]. length bs < 2 ^ 32 \<and>
        (unat (vb_used_addr v + 2) + unat (2 :: u32) \<le> unat a \<or>
         unat a + length bs \<le> unat (vb_used_addr v + 2))"
      using f(9,11) by (auto simp: apart_def)
  qed
  then have u2: "gread16 s2 (vb_used_addr v + 2) = Some u" using u by (simp add: gread16_def)
  define irq where "irq = (case gread16 s4 (vb_avail_addr v) of
      Some fl \<Rightarrow> fl AND VRING_AVAIL_F_NO_INTERRUPT = 0 | None \<Rightarrow> True)"
  have c: "vq_complete s2 (blk_q v) head (d_len d1 + 1) = (irq, s4)"
    using vq_complete_writes [OF _ w3] u2 unfolding irq_def prod_eq_iff by simp
  show ?thesis
    unfolding blk_read_request_handle [OF rq w1(1) w2]
    by (intro exI [of _ s4] conjI s4) (simp add: c irq_def [symmetric] blk_queue_complete_def blk_set_irq_def Let_def)
qed

lemma gread_irq [simp]: "gread (rv_plic_set_irq s i l) a n = gread s a n"
  by (simp add: gread_eq ram_good_def)

lemma gread16_irq [simp]: "gread16 (rv_plic_set_irq s i l) a = gread16 s a"
  by (simp add: gread16_def)

section \<open>Properties\<close>


text \<open>
  A queue in RAM holding one read request for sector 1: descriptors at 0x80001000, available ring
  at 0x80002000, used ring at 0x80003000, header, data buffer and status byte a page apart after
  them, and a disk of four sectors whose byte \<open>i\<close> is \<open>i div 512 + 7\<close>.
\<close>

definition blk_demo :: vblk where
  "blk_demo = vblk_zero\<lparr>vb_data := (\<lambda>i. of_nat (i div 512 + 7)), vb_nb_sectors := 4, vb_irq := RV_VIRTIO_IRQ,
     vb_queue_num := 8, vb_queue_ready := 1, vb_desc_addr := 0x80001000, vb_avail_addr := 0x80002000,
     vb_used_addr := 0x80003000, vb_inited := True\<rparr>"

definition blk_demo_ram :: block where
  "blk_demo_ram = (\<lambda>_. 0)(0x1001 := 0x40, 0x1003 := 0x80, 0x1008 := 16, 0x100c := 1, 0x100e := 1,
     0x1011 := 0x50, 0x1013 := 0x80, 0x1019 := 2, 0x101c := 3, 0x101e := 2,
     0x1021 := 0x60, 0x1023 := 0x80, 0x1028 := 1, 0x102c := 2, 0x4008 := 1, 0x2002 := 1)"

definition blk_demo_emu :: emu where
  "blk_demo_emu = emu_start\<lparr>e_ram := blk_demo_ram\<rparr>"

definition demo_d0 :: vring_desc where
  "demo_d0 = \<lparr>d_addr = 0x80004000, d_len = 16, d_flags = 1, d_next = 1\<rparr>"
definition demo_d1 :: vring_desc where
  "demo_d1 = \<lparr>d_addr = 0x80005000, d_len = 512, d_flags = 3, d_next = 2\<rparr>"
definition demo_d2 :: vring_desc where
  "demo_d2 = \<lparr>d_addr = 0x80006000, d_len = 1, d_flags = 2, d_next = 0\<rparr>"

lemma blk_demo_good: "ram_good blk_demo_emu a n \<longleftrightarrow> 0x80000000 \<le> unat a \<and> unat a + n \<le> 0x80200000"
  by (simp add: ram_good_def blk_demo_emu_def RV_RAM_BASE_def)

lemma blk_demo_read: "gread blk_demo_emu a n = (if 0x80000000 \<le> unat a \<and> unat a + unat n \<le> 0x80200000
    then Some (mem_read blk_demo_ram (unat a - 0x80000000) (unat n)) else None)"
  by (simp add: gread_eq blk_demo_good) (simp add: blk_demo_emu_def RV_RAM_BASE_def)

lemma blk_demo_walk: "chain_walk VIRTIO_MAX_CHAIN blk_demo_emu (blk_q blk_demo) 0 = Some [demo_d0, demo_d1, demo_d2]"
proof -
  have 0: "desc_read blk_demo_emu (blk_q blk_demo) 0 = Some demo_d0"
    by (simp add: desc_read_def blk_demo_read blk_demo_def mem_read_def blk_demo_ram_def desc_of_bytes_def demo_d0_def)
  have 1: "desc_read blk_demo_emu (blk_q blk_demo) 1 = Some demo_d1"
    by (simp add: word_le_nat_alt desc_read_def blk_demo_read blk_demo_def mem_read_def blk_demo_ram_def desc_of_bytes_def demo_d1_def)
  have 2: "desc_read blk_demo_emu (blk_q blk_demo) 2 = Some demo_d2"
    by (simp add: word_le_nat_alt desc_read_def blk_demo_read blk_demo_def mem_read_def blk_demo_ram_def desc_of_bytes_def demo_d2_def)
  have n: "VIRTIO_MAX_CHAIN = Suc (Suc (Suc 257))" by (simp add: VIRTIO_MAX_CHAIN_def)
  have f: "d_flags demo_d0 = 1" "d_next demo_d0 = 1" "d_flags demo_d1 = 3" "d_next demo_d1 = 2"
    "d_flags demo_d2 = 2" by (simp_all add: demo_d0_def demo_d1_def demo_d2_def)
  show ?thesis by (simp only: n chain_walk.simps 0 1 2 f option.case vring_defs) simp
qed

lemma blk_demo_sel:
  "vb_queue_num blk_demo = 8" "vb_used_addr blk_demo = 0x80003000" "vb_nb_sectors blk_demo = 4"
  "d_addr demo_d0 = 0x80004000" "d_len demo_d0 = 16" "d_flags demo_d0 = 1"
  "d_addr demo_d1 = 0x80005000" "d_len demo_d1 = 512" "d_flags demo_d1 = 3"
  "d_addr demo_d2 = 0x80006000" "d_len demo_d2 = 1" "d_flags demo_d2 = 2"
  by (simp_all add: blk_demo_def demo_d0_def demo_d1_def demo_d2_def)

lemma blk_demo_request: "blk_read_request (blk_demo, blk_demo_emu) 0 demo_d0 demo_d1 demo_d2 1"
proof -
  have h: "gread blk_demo_emu 0x80004000 16 = Some [0, 0, 0, 0, 0, 0, 0, 0, 1, 0, 0, 0, 0, 0, 0, 0]"
    by (simp add: blk_demo_read mem_read_def blk_demo_ram_def)
  have "h_type (blk_parse_header [0, 0, 0, 0, 0, 0, 0, 0, 1, 0, 0, 0, 0, 0, 0, 0]) = 0"
    "h_sector (blk_parse_header [0, 0, 0, 0, 0, 0, 0, 0, 1, 0, 0, 0, 0, 0, 0, 0]) = 1"
    by (simp_all add: blk_parse_header_def)
  with h show ?thesis
    by (simp add: blk_read_request_def blk_demo_walk blk_demo_good d_writable_def apart_def
        VIRTIO_BLK_T_IN_def vring_defs blk_demo_sel)
qed


text \<open>
  The block device is confined: whatever the guest writes to its registers and whatever its
  rings and descriptors hold, serving it changes no byte outside guest RAM, nothing of the disk,
  nothing of the hart but the pending bits, and nothing of the machine but its interrupt line.
\<close>

lemma blk_confined:
  "dma_confined s (snd (virtio_write (v, s) off val sz)) \<and>
   vb_data (fst (virtio_write (v, s) off val sz)) = vb_data v \<and>
   vb_nb_sectors (fst (virtio_write (v, s) off val sz)) = vb_nb_sectors v"
  using dma_virtio_write blk_disk_virtio_write by blast



text \<open>
  What is not a read never touches the guest's buffers: a write request is answered with
  IOERR, a flush with OK and any other type with UNSUPP, none of them transferring a byte.
\<close>

lemma blk_other_requests:
  "blk_execute v h ds s =
     (if h_type h = 0 then blk_read_loop v ds (h_sector h * 512) 0 s
      else (if h_type h = 4 then 0 else if h_type h = 1 then 1 else 2, 0, s))"
  by (simp add: blk_execute_def blk_consts)

text \<open>
  The byte offset of a request is computed modulo \<open>2 ^ 64\<close>, so a sector number \<open>2 ^ 55\<close>
  sectors past another one, far outside any disk, is served as that other sector instead of
  being refused with IOERR.
\<close>

lemma blk_sector_wraps:
  "blk_execute v \<lparr>h_type = VIRTIO_BLK_T_IN, h_ioprio = p, h_sector = sec + 2 ^ 55\<rparr> ds s =
   blk_execute v \<lparr>h_type = VIRTIO_BLK_T_IN, h_ioprio = p, h_sector = sec\<rparr> ds s"
proof -
  have "(sec + 2 ^ 55) * SECTOR_SIZE = sec * SECTOR_SIZE"
    by (simp add: SECTOR_SIZE_def distrib_right)
  then show ?thesis by (simp add: blk_execute_def)
qed

end
