(* ===== verification/Virtio_Net.thy ===== *)
theory Virtio_Net
  imports Virtio_Blk
begin

text \<open>
  The network device of \<open>emu/rv_virtio_net.c\<close>: two queues, receive and transmit, over the shared
  virtqueue of the theory Virtq. A transmitted frame is the event \<open>EvNetSend\<close> with its bytes; a
  received one comes from the platform, whose contract is to fill as many bytes of the frame
  buffer as it reports (the rest of that stack buffer, which it never reads back, is 0 here).
\<close>

definition VIRTIO_ID_NET :: u32 where "VIRTIO_ID_NET = 1"
definition VIRTIO_NET_F_MAC :: u32 where "VIRTIO_NET_F_MAC = push_bit 5 1"
definition VIRTIO_NET_MAX_CHAIN :: nat where "VIRTIO_NET_MAX_CHAIN = 20"
definition VIRTIO_NET_HDR_LEN :: u32 where "VIRTIO_NET_HDR_LEN = 12"
definition NET_FRAME_MAX :: u32 where "NET_FRAME_MAX = 1514"
definition QUEUE_RX :: nat where "QUEUE_RX = 0"
definition QUEUE_TX :: nat where "QUEUE_TX = 1"

lemmas net_consts = VIRTIO_ID_NET_def VIRTIO_NET_F_MAC_def VIRTIO_NET_MAX_CHAIN_def
  VIRTIO_NET_HDR_LEN_def NET_FRAME_MAX_def QUEUE_RX_def QUEUE_TX_def

record vnet =
  vn_irq :: nat
  vn_mac :: "nat \<Rightarrow> u8"
  vn_status :: u32
  vn_dev_feat_sel :: u32
  vn_drv_feat_sel :: u32
  vn_drv_feat :: "nat \<Rightarrow> u32"
  vn_int_status :: u32
  vn_queue_sel :: u32
  vn_q :: "nat \<Rightarrow> vq"
  vn_tx_frames :: u32
  vn_rx_frames :: u32
  vn_rx_dropped :: u32
  vn_inited :: bool

definition vnet_zero :: vnet where
  "vnet_zero = \<lparr>vn_irq = 0, vn_mac = (\<lambda>_. 0), vn_status = 0, vn_dev_feat_sel = 0, vn_drv_feat_sel = 0,
     vn_drv_feat = (\<lambda>_. 0), vn_int_status = 0, vn_queue_sel = 0, vn_q = (\<lambda>_. vq_zero),
     vn_tx_frames = 0, vn_rx_frames = 0, vn_rx_dropped = 0, vn_inited = False\<rparr>"

type_synonym net_state = "vnet \<times> emu"

definition net_set_irq :: "net_state \<Rightarrow> bool \<Rightarrow> net_state" where
  "net_set_irq vs level = (case vs of (v, s) \<Rightarrow> (v, rv_plic_set_irq s (vn_irq v) level))"

text \<open>Completion of a chain of queue \<open>i\<close>.\<close>

definition net_queue_complete :: "net_state \<Rightarrow> nat \<Rightarrow> u16 \<Rightarrow> u32 \<Rightarrow> net_state" where
  "net_queue_complete vs i head written =
     (case vs of (v, s) \<Rightarrow>
        let (irq, s1) = vq_complete s (vn_q v i) head written
        in if irq then net_set_irq (v\<lparr>vn_int_status := vn_int_status v OR 1\<rparr>, s1) True
           else (v, s1))"

definition chain_collect :: "emu \<Rightarrow> vq \<Rightarrow> u16 \<Rightarrow> vring_desc list option" where
  "chain_collect s q head = chain_walk VIRTIO_NET_MAX_CHAIN s q head"

definition bump_last :: "nat \<Rightarrow> vnet \<Rightarrow> vnet" where
  "bump_last i v = v\<lparr>vn_q := (vn_q v)(i := (vn_q v i)\<lparr>q_last_avail_idx := q_last_avail_idx (vn_q v i) + 1\<rparr>)\<rparr>"

section \<open>Transmit\<close>

text \<open>
  The gathering loop: \<open>skip\<close> bytes of the header are still to be passed over and \<open>frame\<close> holds
  the bytes copied so far. The sums are the code's, on 32 bits. None is a failed read.
\<close>

fun tx_gather :: "emu \<Rightarrow> vring_desc list \<Rightarrow> u32 \<Rightarrow> u8 list \<Rightarrow> u8 list option" where
  "tx_gather s [] skip frame = Some frame"
| "tx_gather s (d # ds) skip frame =
     (if d_writable d then tx_gather s ds skip frame
      else if d_len d \<le> skip then tx_gather s ds (skip - d_len d) frame
      else let addr = d_addr d + ucast skip; len = d_len d - skip; flen = of_nat (length frame);
               tk = (if NET_FRAME_MAX < flen + len then NET_FRAME_MAX - flen else len)
           in if 0 < tk
              then (case gread s addr tk of
                      None \<Rightarrow> None
                    | Some bs \<Rightarrow> tx_gather s ds 0 (frame @ bs))
              else tx_gather s ds 0 frame)"

definition tx_chain :: "net_state \<Rightarrow> u16 \<Rightarrow> net_state" where
  "tx_chain vs head =
     (case vs of (v, s) \<Rightarrow>
      (case chain_collect s (vn_q v QUEUE_TX) head of
         None \<Rightarrow> net_queue_complete (v, s) QUEUE_TX head 0
       | Some chain \<Rightarrow>
         (case tx_gather s chain VIRTIO_NET_HDR_LEN [] of
            None \<Rightarrow> net_queue_complete (v, s) QUEUE_TX head 0
          | Some frame \<Rightarrow>
            if 14 \<le> length frame
            then net_queue_complete (v\<lparr>vn_tx_frames := vn_tx_frames v + 1\<rparr>, plat_net_send s frame) QUEUE_TX head 0
            else net_queue_complete (v, s) QUEUE_TX head 0)))"

lemma net_complete_q [simp]: "vn_q (fst (net_queue_complete (v, s) i h w)) = vn_q v"
  by (auto simp: net_queue_complete_def net_set_irq_def Let_def split: prod.split)

lemma tx_chain_q [simp]: "vn_q (fst (tx_chain (v, s) head)) = vn_q v"
  by (auto simp: tx_chain_def split: option.split)

function tx_drain :: "u16 \<Rightarrow> net_state \<Rightarrow> net_state" where
  "tx_drain avail_idx (v, s) =
     (if q_last_avail_idx (vn_q v QUEUE_TX) = avail_idx then (v, s)
      else case gread16 s (avail_slot (vn_q v QUEUE_TX)) of
             None \<Rightarrow> (v, s)
           | Some head \<Rightarrow> tx_drain avail_idx (tx_chain (bump_last QUEUE_TX v, s) head))"
  by pat_completeness auto

termination
proof (relation "measure (\<lambda>(a, vs). unat (a - q_last_avail_idx (vn_q (fst vs) QUEUE_TX)))", goal_cases)
  case (2 avail_idx v s head)
  then show ?case using u16_distance_less [of avail_idx "q_last_avail_idx (vn_q v QUEUE_TX)"]
    by (simp add: bump_last_def)
qed simp

declare tx_drain.simps [simp del]

definition tx_notify :: "net_state \<Rightarrow> net_state" where
  "tx_notify vs =
     (case vs of (v, s) \<Rightarrow>
        let q = vn_q v QUEUE_TX
        in if q_ready q = 0 \<or> q_num q = 0 then (v, s)
           else case gread16 s (q_avail_addr q + 2) of
                  None \<Rightarrow> (v, s)
                | Some avail_idx \<Rightarrow> tx_drain avail_idx (v, s))"

section \<open>Receive\<close>

definition net_hdr :: block where
  "net_hdr = (\<lambda>_. 0)(10 := 1)"

text \<open>
  The scattering loop over the chain: bytes written and bytes of the frame consumed so far. The
  flag is False when a buffer turned out not to be RAM; what had been written before stays.
\<close>

fun rx_scatter :: "vring_desc list \<Rightarrow> block \<Rightarrow> u32 \<Rightarrow> u32 \<Rightarrow> u32 \<Rightarrow> emu \<Rightarrow> bool \<times> u32 \<times> u32 \<times> emu" where
  "rx_scatter [] frame flen written src_off s = (True, written, src_off, s)"
| "rx_scatter (d # ds) frame flen written src_off s =
     (if \<not> written < flen + VIRTIO_NET_HDR_LEN then (True, written, src_off, s)
      else if \<not> d_writable d then rx_scatter ds frame flen written src_off s
      else
        let tk = (if written < VIRTIO_NET_HDR_LEN then min (VIRTIO_NET_HDR_LEN - written) (d_len d) else 0);
            hw = (if written < VIRTIO_NET_HDR_LEN
                  then gwrite s (d_addr d) (mem_read net_hdr (unat written) (unat tk)) else Some s);
            cap = d_len d - tk
        in case hw of
             None \<Rightarrow> (False, written, src_off, s)
           | Some s1 \<Rightarrow>
             (if 0 < cap \<and> src_off < flen
              then let tk2 = min (flen - src_off) cap
                   in case gwrite s1 (d_addr d + ucast tk) (mem_read frame (unat src_off) (unat tk2)) of
                        None \<Rightarrow> (False, written + tk, src_off, s1)
                      | Some s2 \<Rightarrow> rx_scatter ds frame flen (written + tk + tk2) (src_off + tk2) s2
              else rx_scatter ds frame flen (written + tk) src_off s1))"

definition rx_deliver :: "net_state \<Rightarrow> block \<Rightarrow> u32 \<Rightarrow> bool \<times> net_state" where
  "rx_deliver vs frame flen =
     (case vs of (v, s) \<Rightarrow>
      let q = vn_q v QUEUE_RX
      in if q_ready q = 0 \<or> q_num q = 0 then (False, v, s)
         else case gread16 s (q_avail_addr q + 2) of
           None \<Rightarrow> (False, v, s)
         | Some avail_idx \<Rightarrow>
           if q_last_avail_idx q = avail_idx then (False, v, s)
           else case gread16 s (avail_slot q) of
             None \<Rightarrow> (False, v, s)
           | Some head \<Rightarrow>
             (case chain_collect s q head of
                None \<Rightarrow> (False, net_queue_complete (bump_last QUEUE_RX v, s) QUEUE_RX head 0)
              | Some chain \<Rightarrow>
                (case rx_scatter chain frame flen 0 0 s of (done, written, src_off, s1) \<Rightarrow>
                   if \<not> done then (False, v, s1)
                   else let v1 = (if src_off < flen then v\<lparr>vn_rx_dropped := vn_rx_dropped v + 1\<rparr>
                                  else v\<lparr>vn_rx_frames := vn_rx_frames v + 1\<rparr>)
                        in (True, net_queue_complete (bump_last QUEUE_RX v1, s1) QUEUE_RX head written))))"

definition frame_buf :: "u8 list \<Rightarrow> block" where
  "frame_buf bs = mem_write (\<lambda>_. 0) 0 bs"

fun net_poll_loop :: "plat \<Rightarrow> nat \<Rightarrow> net_state \<Rightarrow> net_state" where
  "net_poll_loop P 0 vs = vs"
| "net_poll_loop P (Suc budget) (v, s) =
     (case plat_net_recv P s (unat NET_FRAME_MAX) of (len, bs, s1) \<Rightarrow>
        if len \<le> 0 then (v, s1)
        else case rx_deliver (v, s1) (frame_buf bs) (word_of_int len) of (delivered, v2, s2) \<Rightarrow>
          if \<not> delivered then (v2\<lparr>vn_rx_dropped := vn_rx_dropped v2 + 1\<rparr>, s2)
          else net_poll_loop P budget (v2, s2))"

definition rv_virtio_net_poll :: "plat \<Rightarrow> net_state \<Rightarrow> net_state" where
  "rv_virtio_net_poll P vs =
     (if \<not> vn_inited (fst vs) \<or> vn_status (fst vs) AND VIRTIO_STATUS_DRIVER_OK = 0 then vs
      else net_poll_loop P 8 vs)"

section \<open>Registers\<close>

definition vnet_config :: "vnet \<Rightarrow> u32 \<Rightarrow> nat \<Rightarrow> u32" where
  "vnet_config v off size_log2 =
     fold (\<lambda>i w. if off + of_nat i < 6 then w OR push_bit (8 * i) (ucast (vn_mac v (unat (off + of_nat i)))) else w)
       [0..<2 ^ size_log2] 0"

definition vnet_read :: "net_state \<Rightarrow> u32 \<Rightarrow> nat \<Rightarrow> u32" where
  "vnet_read vs offset size_log2 =
     (let v = fst vs
      in if VIRTIO_MMIO_CONFIG \<le> offset then vnet_config v (offset - VIRTIO_MMIO_CONFIG) size_log2
         else if size_log2 \<noteq> 2 then 0
         else if offset = VIRTIO_MMIO_MAGIC then VIRTIO_MMIO_MAGIC_VALUE
         else if offset = VIRTIO_MMIO_VERSION then VIRTIO_MMIO_VERSION_2
         else if offset = VIRTIO_MMIO_DEVICE_ID then VIRTIO_ID_NET
         else if offset = VIRTIO_MMIO_VENDOR_ID then VIRTIO_VENDOR_ID
         else if offset = VIRTIO_MMIO_DEV_FEAT then
           (if vn_dev_feat_sel v = 0 then VIRTIO_NET_F_MAC
            else if vn_dev_feat_sel v = 1 then VIRTIO_F_VERSION_1_HI else 0)
         else if offset = VIRTIO_MMIO_QUEUE_NUM_MAX then VIRTIO_QUEUE_NUM_MAX
         else if offset = VIRTIO_MMIO_QUEUE_READY then
           (if vn_queue_sel v < 2 then q_ready (vn_q v (unat (vn_queue_sel v))) else 0)
         else if offset = VIRTIO_MMIO_INT_STATUS then vn_int_status v
         else if offset = VIRTIO_MMIO_STATUS then vn_status v
         else 0)"

definition upd_q :: "(vq \<Rightarrow> vq) \<Rightarrow> vnet \<Rightarrow> vnet" where
  "upd_q f v = (if vn_queue_sel v < 2
     then v\<lparr>vn_q := (vn_q v)(unat (vn_queue_sel v) := f (vn_q v (unat (vn_queue_sel v))))\<rparr> else v)"

definition vnet_write :: "net_state \<Rightarrow> u32 \<Rightarrow> u32 \<Rightarrow> nat \<Rightarrow> net_state" where
  "vnet_write vs offset val size_log2 =
     (case vs of (v, s) \<Rightarrow>
      if size_log2 \<noteq> 2 \<or> VIRTIO_MMIO_CONFIG \<le> offset then (v, s)
      else if offset = VIRTIO_MMIO_DEV_FEAT_SEL then (v\<lparr>vn_dev_feat_sel := val\<rparr>, s)
      else if offset = VIRTIO_MMIO_DRV_FEAT_SEL then (v\<lparr>vn_drv_feat_sel := val\<rparr>, s)
      else if offset = VIRTIO_MMIO_DRV_FEAT then
        (if vn_drv_feat_sel v < 2
         then (v\<lparr>vn_drv_feat := (vn_drv_feat v)(unat (vn_drv_feat_sel v) := val)\<rparr>, s) else (v, s))
      else if offset = VIRTIO_MMIO_QUEUE_SEL then
        (if val < 2 then (v\<lparr>vn_queue_sel := val\<rparr>, s) else (v, s))
      else if offset = VIRTIO_MMIO_QUEUE_NUM then
        (if 0 < val \<and> val \<le> VIRTIO_QUEUE_NUM_MAX then (upd_q (\<lambda>q. q\<lparr>q_num := val\<rparr>) v, s) else (v, s))
      else if offset = VIRTIO_MMIO_QUEUE_READY then
        (upd_q (\<lambda>q. if val AND 1 \<noteq> 0 then q\<lparr>q_ready := val AND 1, q_last_avail_idx := 0\<rparr>
                    else q\<lparr>q_ready := val AND 1\<rparr>) v, s)
      else if offset = VIRTIO_MMIO_QUEUE_DESC_LO then (upd_q (\<lambda>q. q\<lparr>q_desc_addr := set_lo (q_desc_addr q) val\<rparr>) v, s)
      else if offset = VIRTIO_MMIO_QUEUE_DESC_HI then (upd_q (\<lambda>q. q\<lparr>q_desc_addr := set_hi (q_desc_addr q) val\<rparr>) v, s)
      else if offset = VIRTIO_MMIO_QUEUE_AVAIL_LO then (upd_q (\<lambda>q. q\<lparr>q_avail_addr := set_lo (q_avail_addr q) val\<rparr>) v, s)
      else if offset = VIRTIO_MMIO_QUEUE_AVAIL_HI then (upd_q (\<lambda>q. q\<lparr>q_avail_addr := set_hi (q_avail_addr q) val\<rparr>) v, s)
      else if offset = VIRTIO_MMIO_QUEUE_USED_LO then (upd_q (\<lambda>q. q\<lparr>q_used_addr := set_lo (q_used_addr q) val\<rparr>) v, s)
      else if offset = VIRTIO_MMIO_QUEUE_USED_HI then (upd_q (\<lambda>q. q\<lparr>q_used_addr := set_hi (q_used_addr q) val\<rparr>) v, s)
      else if offset = VIRTIO_MMIO_QUEUE_NOTIFY then (if unat val = QUEUE_TX then tx_notify (v, s) else (v, s))
      else if offset = VIRTIO_MMIO_INT_ACK then
        (let v1 = v\<lparr>vn_int_status := vn_int_status v AND NOT val\<rparr>
         in if vn_int_status v1 = 0 then net_set_irq (v1, s) False else (v1, s))
      else if offset = VIRTIO_MMIO_STATUS then
        (if val = 0
         then net_set_irq (v\<lparr>vn_status := val, vn_q := (\<lambda>_. vq_zero), vn_queue_sel := 0,
                             vn_int_status := 0\<rparr>, s) False
         else (v\<lparr>vn_status := val\<rparr>, s))
      else (v, s))"

definition rv_virtio_net_init :: "phys_map \<Rightarrow> u64 \<Rightarrow> nat \<Rightarrow> u8 list \<Rightarrow> int \<times> vnet \<times> phys_map" where
  "rv_virtio_net_init mem_map base irq mac =
     (let v = vnet_zero\<lparr>vn_mac := (\<lambda>i. if i < 6 then mac ! i else 0), vn_irq := irq, vn_inited := True\<rparr>
      in case cpu_register_device mem_map base 0x1000 DevNet (DEVIO_SIZE8 OR DEVIO_SIZE16 OR DEVIO_SIZE32) of
           None \<Rightarrow> (- ENOMEM, v, mem_map)
         | Some mm \<Rightarrow> (0, v, mm))"

definition rv_virtio_net_stats :: "vnet \<Rightarrow> u32 \<times> u32 \<times> u32" where
  "rv_virtio_net_stats v = (vn_tx_frames v, vn_rx_frames v, vn_rx_dropped v)"

section \<open>Confinement\<close>

lemma dma_net_complete: "dma_confined s (snd (net_queue_complete (v, s) i h w))"
  by (auto simp: net_queue_complete_def net_set_irq_def Let_def split: prod.split
      intro: dma_trans [OF _ dma_irq] dest: dma_complete)

lemma dma_net_send: "dma_confined s (plat_net_send s f)"
  by (rule dma_same) (simp_all add: plat_net_send_def)

lemma dma_tx_chain: "dma_confined s (snd (tx_chain (v, s) head))"
  by (auto simp: tx_chain_def dma_net_complete split: option.split
      intro: dma_trans [OF dma_net_send dma_net_complete])

lemma dma_tx_drain: "dma_confined (snd vs) (snd (tx_drain a vs))"
proof (induction a vs rule: tx_drain.induct)
  case (1 avail_idx v s)
  show ?case
  proof (cases "q_last_avail_idx (vn_q v QUEUE_TX) = avail_idx \<or> gread16 s (avail_slot (vn_q v QUEUE_TX)) = None")
    case True
    then show ?thesis by (auto simp: tx_drain.simps [of avail_idx v s])
  next
    case False
    then obtain h where h: "q_last_avail_idx (vn_q v QUEUE_TX) \<noteq> avail_idx"
      "gread16 s (avail_slot (vn_q v QUEUE_TX)) = Some h" by auto
    have "dma_confined s (snd (tx_chain (bump_last QUEUE_TX v, s) h))" by (rule dma_tx_chain)
    with h 1 [OF h] show ?thesis
      by (simp add: tx_drain.simps [of avail_idx v s]) (blast intro: dma_trans)
  qed
qed

lemma dma_tx_notify: "dma_confined s (snd (tx_notify (v, s)))"
  using dma_tx_drain [of "(v, s)"] by (auto simp: tx_notify_def Let_def split: option.split)

lemma dma_vnet_write: "dma_confined s (snd (vnet_write (v, s) off val sz))"
  by (simp add: vnet_write_def net_set_irq_def Let_def dma_irq dma_tx_notify)

lemma dma_gwrite_read: "gwrite s a (mem_read m p (unat (n :: u32))) = Some s' \<Longrightarrow> dma_confined s s'"
  using unat_u32_lt [of n] dma_gwrite [of s a "mem_read m p (unat n)" s'] by simp

lemma dma_rx_scatter: "rx_scatter ds frame flen w so s = (b, w', so', s') \<Longrightarrow> dma_confined s s'"
proof (induction ds arbitrary: w so s)
  case (Cons d ds)
  let ?tk = "if w < VIRTIO_NET_HDR_LEN then min (VIRTIO_NET_HDR_LEN - w) (d_len d) else 0"
  let ?hw = "if w < VIRTIO_NET_HDR_LEN then gwrite s (d_addr d) (mem_read net_hdr (unat w) (unat ?tk)) else Some s"
  consider "\<not> w < flen + VIRTIO_NET_HDR_LEN" | "w < flen + VIRTIO_NET_HDR_LEN" "\<not> d_writable d"
    | "w < flen + VIRTIO_NET_HDR_LEN" "d_writable d" by blast
  then show ?case
  proof cases
    case 3
    show ?thesis
    proof (cases ?hw)
      case None
      with 3 Cons.prems show ?thesis by (simp add: Let_def)
    next
      case (Some s1)
      have 1: "dma_confined s s1"
        using Some by (cases "w < VIRTIO_NET_HDR_LEN") (auto dest: dma_gwrite_read)
      show ?thesis
      proof (cases "0 < d_len d - ?tk \<and> so < flen")
        case True
        let ?tk2 = "min (flen - so) (d_len d - ?tk)"
        let ?g2 = "gwrite s1 (d_addr d + ucast ?tk) (mem_read frame (unat so) (unat ?tk2))"
        from True 3 Some Cons.prems have e: "(case ?g2 of None \<Rightarrow> (False, w + ?tk, so, s1)
          | Some s2 \<Rightarrow> rx_scatter ds frame flen (w + ?tk + ?tk2) (so + ?tk2) s2) = (b, w', so', s')"
          by (simp add: Let_def)
        show ?thesis
        proof (cases ?g2)
          case None
          with e 1 show ?thesis by simp
        next
          case g2: (Some s2)
          with e have "rx_scatter ds frame flen (w + ?tk + ?tk2) (so + ?tk2) s2 = (b, w', so', s')"
            by (simp only: option.case)
          from Cons.IH [OF this] show ?thesis
            using 1 dma_gwrite_read [OF g2] dma_trans by blast
        qed
      next
        case False
        with 3 Some Cons.prems have "rx_scatter ds frame flen (w + ?tk) so s1 = (b, w', so', s')"
          by (simp add: Let_def)
        with 1 Cons.IH show ?thesis by (blast intro: dma_trans)
      qed
    qed
  qed (use Cons in \<open>auto simp: Let_def\<close>)
qed simp

lemma dma_rx_deliver: "dma_confined s (snd (snd (rx_deliver (v, s) frame flen)))"
proof -
  have "dma_confined s (snd (net_queue_complete (v', s1) i h w))" if "dma_confined s s1" for v' s1 i h w
    using that dma_net_complete dma_trans by blast
  then show ?thesis
    by (auto simp: rx_deliver_def Let_def dma_net_complete split: option.split prod.split
        dest: dma_rx_scatter)
qed

lemma dma_net_recv: "plat_net_recv P s n = (l, bs, s') \<Longrightarrow> dma_confined s s'"
  by (rule dma_same) (auto simp: plat_net_recv_def split: prod.splits)

lemma dma_net_poll_loop: "dma_confined (snd vs) (snd (net_poll_loop P n vs))"
proof (induction n arbitrary: vs)
  case (Suc n)
  obtain v s where vs: "vs = (v, s)" by fastforce
  obtain len bs s1 where r: "plat_net_recv P s (unat NET_FRAME_MAX) = (len, bs, s1)"
    using prod_cases3 by blast
  obtain dl v2 s2 where d: "rx_deliver (v, s1) (frame_buf bs) (word_of_int len) = (dl, v2, s2)"
    using prod_cases3 by blast
  have "dma_confined s s1" "dma_confined s1 s2"
    using dma_net_recv [OF r] dma_rx_deliver [of s1 v "frame_buf bs" "word_of_int len"] d by simp_all
  with Suc.IH [of "(v2, s2)"] show ?case
    by (auto simp: vs r d intro: dma_trans)
qed simp

lemma dma_net_poll: "dma_confined s (snd (rv_virtio_net_poll P (v, s)))"
  using dma_net_poll_loop [of "(v, s)"] by (simp add: rv_virtio_net_poll_def)

section \<open>What a transmitted frame is\<close>

text \<open>The reference: the readable buffers of the chain, one after the other.\<close>

definition desc_bytes :: "emu \<Rightarrow> vring_desc \<Rightarrow> u8 list" where
  "desc_bytes s d = mem_read (e_ram s) (unat (d_addr d) - unat RV_RAM_BASE) (unat (d_len d))"

definition tx_stream :: "emu \<Rightarrow> vring_desc list \<Rightarrow> u8 list" where
  "tx_stream s ds = concat (map (desc_bytes s) (filter (\<lambda>d. \<not> d_writable d) ds))"

lemma tx_take_nat:
  assumes "length frame \<le> 1514" "unat len \<le> 0x40000000"
  shows "unat (if NET_FRAME_MAX < of_nat (length frame) + len then NET_FRAME_MAX - of_nat (length frame) else len)
    = min (unat len) (1514 - length frame)"
proof -
  have f: "unat (of_nat (length frame) :: u32) = length frame"
    using assms(1) by (simp add: unsigned_of_nat take_bit_nat_eq_self)
  have a: "unat (of_nat (length frame) + len) = length frame + unat len"
    using f assms by (simp add: unat_word_ariths)
  have m: "unat (NET_FRAME_MAX - of_nat (length frame)) = 1514 - length frame"
    using f assms(1) by (simp add: NET_FRAME_MAX_def unat_sub_if_size)
  show ?thesis using a m assms(1) by (auto simp: word_less_nat_alt NET_FRAME_MAX_def)
qed

lemma gread_sub:
  assumes "ram_good s a n" "k + unat m \<le> n"
  shows "gread s (a + of_nat k) m = Some (take (unat m) (drop k (mem_read (e_ram s) (unat a - unat RV_RAM_BASE) n)))"
proof -
  have u: "unat (a + of_nat k) = unat a + k" using addr_plus [OF assms(1), of k] assms(2) by simp
  have g: "ram_good s (a + of_nat k) (unat m)" using assms u by (auto simp: ram_good_def)
  have "unat RV_RAM_BASE \<le> unat a" using assms(1) by (simp add: ram_good_def)
  then have "unat (a + of_nat k) - unat RV_RAM_BASE = (unat a - unat RV_RAM_BASE) + k" using u by simp
  with g assms(2) show ?thesis by (simp add: gread_eq mem_read_sub [of k "unat m" n])
qed

lemma tx_gather_reference:
  assumes ram: "unat (m_ram_size (e_m s)) \<le> 0x40000000"
    and "\<forall>d \<in> set ds. d_writable d \<or> ram_good s (d_addr d) (unat (d_len d))" "length frame \<le> 1514"
  shows "tx_gather s ds skip frame = Some (take 1514 (frame @ drop (unat skip) (tx_stream s ds)))"
  using assms(2,3)
proof (induction ds arbitrary: skip frame)
  case Nil
  then show ?case by (simp add: tx_stream_def)
next
  case (Cons d ds)
  show ?case
  proof (cases "d_writable d")
    case True
    with Cons show ?thesis by (simp add: tx_stream_def)
  next
    case False
    have good: "ram_good s (d_addr d) (unat (d_len d))" using Cons.prems False by simp
    have st: "tx_stream s (d # ds) = desc_bytes s d @ tx_stream s ds" using False by (simp add: tx_stream_def)
    have ld: "length (desc_bytes s d) = unat (d_len d)" by (simp add: desc_bytes_def)
    show ?thesis
    proof (cases "d_len d \<le> skip")
      case True
      then have "unat (skip - d_len d) = unat skip - unat (d_len d)" "unat (d_len d) \<le> unat skip"
        by (simp_all add: unat_sub_if_size word_le_nat_alt)
      with True False Cons ld st show ?thesis by simp
    next
      case lt: False
      define len where "len = d_len d - skip"
      have ul: "unat len = unat (d_len d) - unat skip" "unat skip < unat (d_len d)"
        using lt by (simp_all add: len_def unat_sub_if_size word_le_nat_alt)
      have "unat len \<le> 0x40000000" using good ram ul unfolding ram_good_def by linarith
      note tk = tx_take_nat [OF Cons.prems(2) this]
      define t where "t = (if NET_FRAME_MAX < of_nat (length frame) + len
        then NET_FRAME_MAX - of_nat (length frame) else len)"
      have ut: "unat t = min (unat len) (1514 - length frame)" using tk by (simp add: t_def)
      let ?bs = "take (unat t) (drop (unat skip) (desc_bytes s d))"
      have rd: "gread s (d_addr d + ucast skip) t = Some ?bs"
        using gread_sub [OF good, of "unat skip" t] ut ul by (simp add: desc_bytes_def)
      have lb: "length ?bs = unat t" using ld ul ut by simp
      have step: "tx_gather s (d # ds) skip frame = tx_gather s ds 0 (frame @ ?bs)"
      proof (cases "0 < t")
        case True
        with False lt rd show ?thesis by (simp add: Let_def t_def [symmetric] len_def [symmetric])
      next
        case t0: False
        then have "unat t = 0" by (simp add: word_neq_0_conv [symmetric])
        with t0 False lt show ?thesis by (simp add: Let_def t_def [symmetric] len_def [symmetric])
      qed
      have "length (frame @ ?bs) \<le> 1514" using lb ut Cons.prems(2) unfolding length_append by linarith
      moreover have "\<forall>d \<in> set ds. d_writable d \<or> ram_good s (d_addr d) (unat (d_len d))"
        using Cons.prems(1) by simp
      ultimately have "tx_gather s ds 0 (frame @ ?bs) = Some (take 1514 ((frame @ ?bs) @ tx_stream s ds))"
        using Cons.IH [where skip = 0 and frame = "frame @ ?bs"] by (simp only: unsigned_0 drop_0)
      also have "take 1514 ((frame @ ?bs) @ tx_stream s ds) =
          take 1514 (frame @ drop (unat skip) (tx_stream s (d # ds)))"
      proof (cases "unat t = unat len")
        case True
        then have "?bs = drop (unat skip) (desc_bytes s d)" using ld ul by simp
        with st ld ul show ?thesis by simp
      next
        case ne: False
        then have "length frame + unat t = 1514" "unat t \<le> unat len" using ut Cons.prems(2) by auto
        then show ?thesis using st ld ul lb by simp
      qed
      finally show ?thesis using step by simp
    qed
  qed
qed

lemma tx_gather_bounded:
  assumes ram: "unat (m_ram_size (e_m s)) \<le> 0x40000000"
  shows "tx_gather s ds skip frame = Some f \<Longrightarrow> length frame \<le> 1514 \<Longrightarrow> length f \<le> 1514"
proof (induction ds arbitrary: skip frame)
  case (Cons d ds)
  define len where "len = d_len d - skip"
  define t where "t = (if NET_FRAME_MAX < of_nat (length frame) + len
    then NET_FRAME_MAX - of_nat (length frame) else len)"
  consider "d_writable d" | "\<not> d_writable d" "d_len d \<le> skip" | "\<not> d_writable d" "\<not> d_len d \<le> skip" by blast
  then show ?case
  proof cases
    case 3
    show ?thesis
    proof (cases "0 < t")
      case True
      with 3 Cons.prems obtain bs where bs: "gread s (d_addr d + ucast skip) t = Some bs"
          "tx_gather s ds 0 (frame @ bs) = Some f"
        by (auto simp: Let_def t_def [symmetric] len_def [symmetric] split: option.splits)
      have lb: "length bs = unat t" by (rule gmem.rd_length [OF bs(1)])
      have "unat t \<le> unat (m_ram_size (e_m s))" using bs(1) by (auto simp: gread_eq ram_good_def split: if_splits)
      then have ut: "unat t \<le> 0x40000000" using ram by simp
      have "length frame + unat t \<le> 1514"
      proof (cases "NET_FRAME_MAX < of_nat (length frame) + len")
        case True
        then have "unat t = 1514 - length frame"
          using Cons.prems(2) by (simp add: t_def NET_FRAME_MAX_def unat_sub_if_size unsigned_of_nat take_bit_nat_eq_self)
        with Cons.prems(2) show ?thesis by simp
      next
        case False
        then have "t = len" by (simp add: t_def)
        with tx_take_nat [OF Cons.prems(2), of len] ut False show ?thesis
          using Cons.prems(2) by (auto simp: min_def split: if_splits)
      qed
      with Cons.IH [OF bs(2)] lb show ?thesis by simp
    next
      case False
      with 3 Cons.prems have "tx_gather s ds 0 frame = Some f"
        by (simp add: Let_def t_def [symmetric] len_def [symmetric])
      from Cons.IH [OF this Cons.prems(2)] show ?thesis .
    qed
  qed (use Cons in \<open>auto simp: Let_def\<close>)
qed simp

section \<open>Receiving into one buffer\<close>

lemma rx_scatter_one:
  assumes "d_writable d" "12 + unat flen \<le> unat (d_len d)" "0 < flen"
    and g: "ram_good s (d_addr d) (12 + unat flen)"
  shows "\<exists>s2. rx_scatter [d] frame flen 0 0 s = (True, 12 + flen, flen, s2) \<and>
    gmem.wr_all s [(d_addr d, mem_read net_hdr 0 12), (d_addr d + 12, mem_read frame 0 (unat flen))] = Some s2"
proof -
  have fl: "unat flen + 12 < 2 ^ 32" using assms(2) unat_u32_lt [of "d_len d"] by simp
  then have f12: "unat (flen + 12) = unat flen + 12" by (simp add: unat_word_ariths)
  have w: "(0 :: u32) < flen + VIRTIO_NET_HDR_LEN" "(0 :: u32) < VIRTIO_NET_HDR_LEN"
    using f12 by (simp_all add: word_less_nat_alt VIRTIO_NET_HDR_LEN_def)
  have tk: "min (VIRTIO_NET_HDR_LEN - 0) (d_len d) = 12"
    using assms(2) by (simp add: VIRTIO_NET_HDR_LEN_def min_def word_le_nat_alt)
  have d12: "unat (d_len d - 12) = unat (d_len d) - 12"
    using assms(2) by (simp add: unat_sub_if_size)
  have "unat flen \<le> unat (d_len d) - 12" "0 < unat flen" using assms(2,3) by (simp_all add: word_less_nat_alt)
  then have cap: "0 < d_len d - 12" "min flen (d_len d - 12) = flen"
    using d12 by (simp_all add: word_less_nat_alt word_le_nat_alt min_absorb1)
  have a12: "unat (d_addr d + 12) = unat (d_addr d) + 12" using addr_plus [OF g, of 12] by simp
  have "\<forall>(a, bs) \<in> set [(d_addr d, mem_read net_hdr 0 12), (d_addr d + 12, mem_read frame 0 (unat flen))].
      length bs < 2 ^ 32 \<and> ram_good s a (length bs)"
    using g a12 fl by (auto simp: ram_good_def)
  from gmem.wr_all_total [OF this] obtain s2 where
    s2: "gmem.wr_all s [(d_addr d, mem_read net_hdr 0 12), (d_addr d + 12, mem_read frame 0 (unat flen))] = Some s2"
    by blast
  then obtain s1 where s1: "gwrite s (d_addr d) (mem_read net_hdr 0 12) = Some s1"
      "gwrite s1 (d_addr d + 12) (mem_read frame 0 (unat flen)) = Some s2"
    by (auto split: option.splits)
  have "rx_scatter [d] frame flen 0 0 s = (True, 12 + flen, flen, s2)"
    using w tk cap s1 assms(1,3) by (simp add: Let_def)
  with s2 show ?thesis by blast
qed

section \<open>A concrete device\<close>

text \<open>
  Two queues over one descriptor table at 0x80001000: descriptors 0 and 1 are a transmit chain
  (a 12-byte header and a 20-byte frame of \<open>0xee\<close>), 2 is a 2048-byte receive buffer and 3 a
  receive buffer outside RAM. The available ring at 0x80002000 offers descriptor \<open>h\<close>.
\<close>

definition net_demo_q :: vq where
  "net_demo_q = \<lparr>q_num = 8, q_ready = 1, q_desc_addr = 0x80001000, q_avail_addr = 0x80002000,
     q_used_addr = 0x80003000, q_last_avail_idx = 0\<rparr>"

definition net_demo :: vnet where
  "net_demo = vnet_zero\<lparr>vn_irq := RV_VIRTIO_NET_IRQ, vn_q := (\<lambda>_. net_demo_q), vn_inited := True,
     vn_status := VIRTIO_STATUS_DRIVER_OK\<rparr>"

definition net_demo_ram :: "u8 \<Rightarrow> block" where
  "net_demo_ram h = mem_write ((\<lambda>_. 0)(0x1001 := 0x40, 0x1003 := 0x80, 0x1008 := 12, 0x100c := 1, 0x100e := 1,
     0x1011 := 0x50, 0x1013 := 0x80, 0x1018 := 20,
     0x1021 := 0x60, 0x1023 := 0x80, 0x1029 := 8, 0x102c := 2,
     0x1033 := 0x90, 0x1039 := 8, 0x103c := 2, 0x2002 := 1, 0x2004 := h)) 0x5000 (replicate 20 0xee)"

definition net_demo_emu :: "u8 \<Rightarrow> emu" where
  "net_demo_emu h = emu_start\<lparr>e_ram := net_demo_ram h\<rparr>"

definition demo_tx0 :: vring_desc where
  "demo_tx0 = \<lparr>d_addr = 0x80004000, d_len = 12, d_flags = 1, d_next = 1\<rparr>"
definition demo_tx1 :: vring_desc where
  "demo_tx1 = \<lparr>d_addr = 0x80005000, d_len = 20, d_flags = 0, d_next = 0\<rparr>"
definition demo_rx :: vring_desc where
  "demo_rx = \<lparr>d_addr = 0x80006000, d_len = 2048, d_flags = 2, d_next = 0\<rparr>"
definition demo_bad :: vring_desc where
  "demo_bad = \<lparr>d_addr = 0x90000000, d_len = 2048, d_flags = 2, d_next = 0\<rparr>"

lemma net_demo_good: "ram_good (net_demo_emu h) a n \<longleftrightarrow> 0x80000000 \<le> unat a \<and> unat a + n \<le> 0x80200000"
  by (simp add: ram_good_def net_demo_emu_def RV_RAM_BASE_def)

lemma net_demo_read: "gread (net_demo_emu h) a n = (if 0x80000000 \<le> unat a \<and> unat a + unat n \<le> 0x80200000
    then Some (mem_read (net_demo_ram h) (unat a - 0x80000000) (unat n)) else None)"
  by (simp add: gread_eq net_demo_good) (simp add: net_demo_emu_def RV_RAM_BASE_def)

lemmas net_demo_eval = desc_read_def net_demo_read net_demo_q_def mem_read_def net_demo_ram_def
  mem_write_def desc_of_bytes_def word_le_nat_alt

lemma net_demo_descs:
  "desc_read (net_demo_emu h) net_demo_q 0 = Some demo_tx0"
  "desc_read (net_demo_emu h) net_demo_q 1 = Some demo_tx1"
  "desc_read (net_demo_emu h) net_demo_q 2 = Some demo_rx"
  "desc_read (net_demo_emu h) net_demo_q 3 = Some demo_bad"
  by (simp_all add: net_demo_eval demo_tx0_def demo_tx1_def demo_rx_def demo_bad_def)

lemma net_demo_sel:
  "d_flags demo_tx0 = 1" "d_next demo_tx0 = 1" "d_flags demo_tx1 = 0" "d_flags demo_rx = 2" "d_flags demo_bad = 2"
  "d_addr demo_tx0 = 0x80004000" "d_addr demo_tx1 = 0x80005000" "d_addr demo_rx = 0x80006000"
  "d_addr demo_bad = 0x90000000" "d_len demo_tx0 = 12" "d_len demo_tx1 = 20" "d_len demo_rx = 2048"
  "d_len demo_bad = 2048" "vn_q net_demo i = net_demo_q"
  by (simp_all add: demo_tx0_def demo_tx1_def demo_rx_def demo_bad_def net_demo_def)

lemma net_demo_chains:
  "chain_collect (net_demo_emu h) net_demo_q 0 = Some [demo_tx0, demo_tx1]"
  "chain_collect (net_demo_emu h) net_demo_q 2 = Some [demo_rx]"
  "chain_collect (net_demo_emu h) net_demo_q 3 = Some [demo_bad]"
proof -
  have n: "VIRTIO_NET_MAX_CHAIN = Suc (Suc 18)" by (simp add: VIRTIO_NET_MAX_CHAIN_def)
  show "chain_collect (net_demo_emu h) net_demo_q 0 = Some [demo_tx0, demo_tx1]"
    "chain_collect (net_demo_emu h) net_demo_q 2 = Some [demo_rx]"
    "chain_collect (net_demo_emu h) net_demo_q 3 = Some [demo_bad]"
    by (simp_all only: chain_collect_def n chain_walk.simps net_demo_descs net_demo_sel option.case vring_defs) simp_all
qed

lemma net_demo_avail:
  "q_ready net_demo_q \<noteq> 0" "q_num net_demo_q \<noteq> 0" "q_last_avail_idx net_demo_q \<noteq> 1"
  "gread16 (net_demo_emu h) (q_avail_addr net_demo_q + 2) = Some 1"
  "gread16 (net_demo_emu h) (avail_slot net_demo_q) = Some (ucast h)"
  by (simp_all add: avail_slot_def gread16_def net_demo_eval)

section \<open>Properties\<close>

text \<open>
  C22. A transmitted frame is exactly what the guest queued: the readable buffers of the chain
  laid end to end, less the 12-byte virtio header, cut at the largest frame; it is sent once if
  it is at least an Ethernet header long, and otherwise nothing is sent.
\<close>

theorem net_tx_frame_exact:
  assumes "unat (m_ram_size (e_m s)) \<le> 0x40000000"
    and "chain_collect s (vn_q v QUEUE_TX) head = Some ds"
    and "\<forall>d \<in> set ds. d_writable d \<or> ram_good s (d_addr d) (unat (d_len d))"
  shows "tx_chain (v, s) head =
    (let frame = take 1514 (drop 12 (tx_stream s ds))
     in if 14 \<le> length frame
        then net_queue_complete (v\<lparr>vn_tx_frames := vn_tx_frames v + 1\<rparr>, s\<lparr>e_ev := EvNetSend frame # e_ev s\<rparr>)
               QUEUE_TX head 0
        else net_queue_complete (v, s) QUEUE_TX head 0)"
  using tx_gather_reference [OF assms(1,3), of "[]" 12] assms(2)
  by (simp add: tx_chain_def VIRTIO_NET_HDR_LEN_def plat_net_send_def Let_def)

theorem net_tx_frame_exact_witness:
  "tx_chain (net_demo, net_demo_emu 2) 0 =
     net_queue_complete (net_demo\<lparr>vn_tx_frames := 1\<rparr>, (net_demo_emu 2)\<lparr>e_ev := [EvNetSend (replicate 20 0xee)]\<rparr>)
       QUEUE_TX 0 0"
proof -
  have c: "unat (m_ram_size (e_m (net_demo_emu 2))) \<le> 0x40000000" by (simp add: net_demo_emu_def)
  have k: "chain_collect (net_demo_emu 2) (vn_q net_demo QUEUE_TX) 0 = Some [demo_tx0, demo_tx1]"
    by (simp add: net_demo_sel net_demo_chains)
  have g: "\<forall>d \<in> set [demo_tx0, demo_tx1]. d_writable d \<or> ram_good (net_demo_emu 2) (d_addr d) (unat (d_len d))"
    by (simp add: net_demo_good net_demo_sel)
  have b0: "mem_read (net_demo_ram 2) 0x4000 12 = replicate 12 0"
    by (rule nth_equalityI) (auto simp: net_demo_ram_def mem_write_def nth_mem_read)
  have b1: "mem_read (net_demo_ram 2) 0x5000 20 = replicate 20 0xee"
    by (rule nth_equalityI) (auto simp: net_demo_ram_def mem_write_def nth_mem_read)
  have st: "tx_stream (net_demo_emu 2) [demo_tx0, demo_tx1] = replicate 12 0 @ replicate 20 0xee"
    using b0 b1 by (simp add: tx_stream_def d_writable_def net_demo_sel vring_defs desc_bytes_def net_demo_emu_def
        RV_RAM_BASE_def)
  have z: "vn_tx_frames net_demo = 0" "e_ev (net_demo_emu 2) = []"
    by (simp_all add: net_demo_def vnet_zero_def net_demo_emu_def)
  show ?thesis using net_tx_frame_exact [OF c k g] by (simp add: st z)
qed


text \<open>
  The transmit path never overruns its 1514-byte frame buffer, whatever lengths and
  addresses the guest's descriptors hold and although the length check is done on 32 bits,
  because guest RAM is at most 1 GiB; and both directions of the device are confined to guest
  RAM, the pending bits and the device's interrupt line.
\<close>

lemma net_confined:
  assumes "unat (m_ram_size (e_m s)) \<le> 0x40000000"
  shows "(\<forall>ds skip frame. tx_gather s ds skip [] = Some frame \<longrightarrow> length frame \<le> 1514) \<and>
    dma_confined s (snd (vnet_write (v, s) off val sz)) \<and>
    dma_confined s (snd (rv_virtio_net_poll P (v, s)))"
  using tx_gather_bounded [OF assms] dma_vnet_write dma_net_poll by fastforce




text \<open>
  A receive buffer outside RAM blocks the queue: the frame is not delivered and, unlike for a
  malformed chain, the buffer is not consumed either, so the device and its memory stay as they
  were and every later frame meets the same buffer.
\<close>

lemma net_rx_bad_buffer_blocks:
  assumes q: "q = vn_q v QUEUE_RX" "q_ready q \<noteq> 0" "q_num q \<noteq> 0"
    and a: "gread16 s (q_avail_addr q + 2) = Some avail_idx" "q_last_avail_idx q \<noteq> avail_idx"
           "gread16 s (avail_slot q) = Some head" "chain_collect s q head = Some [d]"
    and d: "d_writable d" "12 \<le> unat (d_len d)" "\<not> ram_good s (d_addr d) 12" "unat flen \<le> 1514"
  shows "rx_deliver (v, s) frame flen = (False, v, s)"
proof -
  have f12: "unat (flen + 12) = unat flen + 12" using d(4) by (simp add: unat_word_ariths)
  have w: "(0 :: u32) < flen + VIRTIO_NET_HDR_LEN" "(0 :: u32) < VIRTIO_NET_HDR_LEN"
    using f12 by (simp_all add: word_less_nat_alt VIRTIO_NET_HDR_LEN_def)
  have tk: "min (VIRTIO_NET_HDR_LEN - 0) (d_len d) = 12"
    using d(2) by (simp add: VIRTIO_NET_HDR_LEN_def min_def word_le_nat_alt)
  have "gwrite s (d_addr d) (mem_read net_hdr 0 12) = None"
    using d(3) by (simp add: gwrite_eq)
  then have "rx_scatter [d] frame flen 0 0 s = (False, 0, 0, s)"
    using w tk d(1) by (simp add: Let_def)
  with q a show ?thesis by (simp add: rx_deliver_def Let_def)
qed

text \<open>
  The MAC in configuration space reads the same at every width: an 8, 16 or 32-bit read is
  the little-endian composition of the byte reads, and bytes past the MAC read as 0.
\<close>

lemma net_mac_coherent:
  "vnet_read (v, s) (0x100 + 0) 0 = ucast (vn_mac v 0) \<and> vnet_read (v, s) (0x100 + 5) 0 = ucast (vn_mac v 5) \<and>
   vnet_read (v, s) (0x100 + 6) 0 = 0 \<and>
   vnet_read (v, s) 0x100 2 = vnet_read (v, s) 0x100 1 OR push_bit 16 (vnet_read (v, s) 0x102 1) \<and>
   vnet_read (v, s) 0x104 2 = vnet_read (v, s) 0x104 1 \<and>
   vnet_read (v, s) 0x102 1 = vnet_read (v, s) 0x102 0 OR push_bit 8 (vnet_read (v, s) 0x103 0)"
  by (simp add: vnet_read_def Let_def vnet_config_def VIRTIO_MMIO_CONFIG_def upt_rec push_bit_or or.assoc)

end
