(* ===== verification/Bus.thy ===== *)
theory Bus
  imports Mmu Hostsbi Virtio_Net
begin

text \<open>
  The guest's memory accesses (\<open>emu/riscv_cpu.c\<close>, \<open>target_read_slow\<close> to \<open>target_read_insn_u16\<close>,
  and the inline fast paths of \<open>emu/riscv_cpu_priv.h\<close>): the software TLB, RAM, and the dispatch to
  the devices' handlers through the address map. \<open>sys\<close> is the whole emulator: the hart and the
  machine with the two virtio devices and the SBI counters.
\<close>

record sys =
  sy_emu :: emu
  sy_blk :: vblk
  sy_net :: vnet
  sy_sbi :: sbi_stats

abbreviation upd_emu :: "(emu \<Rightarrow> emu) \<Rightarrow> sys \<Rightarrow> sys" where
  "upd_emu f y \<equiv> y\<lparr>sy_emu := f (sy_emu y)\<rparr>"

section \<open>Device handlers\<close>

text \<open>\<open>pr->read_func(pr->opaque, offset, size_log2)\<close>.\<close>

definition dev_read :: "plat \<Rightarrow> sys \<Rightarrow> dev_id \<Rightarrow> u32 \<Rightarrow> nat \<Rightarrow> u32 \<times> sys" where
  "dev_read P y dev off sz =
     (let s = sy_emu y; put = (\<lambda>(v, s'). (v, y\<lparr>sy_emu := s'\<rparr>))
      in case dev of
           NoDev \<Rightarrow> (0, y)
         | DevUart \<Rightarrow> put (uart_read s off sz)
         | DevClint \<Rightarrow> put (clint_read P s off sz)
         | DevSyscon \<Rightarrow> put (syscon_read s off sz)
         | DevPv \<Rightarrow> put (pv_read P s off sz)
         | DevPlic \<Rightarrow> put (plic_read s off sz)
         | DevBlk \<Rightarrow> (virtio_read (sy_blk y, s) off sz, y)
         | DevNet \<Rightarrow> (vnet_read (sy_net y, s) off sz, y))"

text \<open>\<open>pr->write_func(pr->opaque, offset, val, size_log2)\<close>.\<close>

definition dev_write :: "plat \<Rightarrow> sys \<Rightarrow> dev_id \<Rightarrow> u32 \<Rightarrow> u32 \<Rightarrow> nat \<Rightarrow> sys" where
  "dev_write P y dev off val sz =
     (let s = sy_emu y; put = (\<lambda>s'. y\<lparr>sy_emu := s'\<rparr>)
      in case dev of
           NoDev \<Rightarrow> y
         | DevUart \<Rightarrow> put (uart_write s off val sz)
         | DevClint \<Rightarrow> put (clint_write s off val sz)
         | DevSyscon \<Rightarrow> put (syscon_write s off val sz)
         | DevPv \<Rightarrow> put (pv_write P s off val sz)
         | DevPlic \<Rightarrow> put (plic_write s off val sz)
         | DevBlk \<Rightarrow> (let (v, s') = virtio_write (sy_blk y, s) off val sz in y\<lparr>sy_blk := v, sy_emu := s'\<rparr>)
         | DevNet \<Rightarrow> (let (v, s') = vnet_write (sy_net y, s) off val sz in y\<lparr>sy_net := v, sy_emu := s'\<rparr>))"

section \<open>Loads\<close>

text \<open>
  The outcome of a load: \<open>return 0\<close> with \<open>*pval\<close> set, \<open>return 0\<close> without setting it (an address
  nothing is mapped at: the caller's value stays whatever it was), or an exception.
\<close>

datatype mem_res = MemOk u64 | MemUnset | MemFault

definition tlb_index :: "u32 \<Rightarrow> nat" where
  "tlb_index addr = unat (drop_bit PG_SHIFT addr AND (of_nat TLB_SIZE - 1))"

definition tlb_entry_for :: "u32 \<Rightarrow> nat \<Rightarrow> tlb_entry" where
  "tlb_entry_for addr ptr = \<lparr>tlb_vaddr = addr AND NOT PG_MASK, tlb_addend = int ptr - int (unat addr)\<rparr>"

definition set_pending :: "u32 \<Rightarrow> u32 \<Rightarrow> emu \<Rightarrow> emu" where
  "set_pending cause addr s = upd_cpu (\<lambda>c. c\<lparr>c_pending_tval := addr, c_pending_exception := cause\<rparr>) s"

definition read_device :: "plat \<Rightarrow> sys \<Rightarrow> phys_range \<Rightarrow> u32 \<Rightarrow> nat \<Rightarrow> mem_res \<times> sys" where
  "read_device P y pr offset size_log2 =
     (if bit (pr_devio_flags pr) size_log2 then
        let (v, y1) = dev_read P y (pr_dev pr) offset size_log2 in (MemOk (ucast v), y1)
      else if pr_devio_flags pr AND DEVIO_SIZE32 \<noteq> 0 \<and> size_log2 = 3 then
        let (lo, y1) = dev_read P y (pr_dev pr) offset 2;
            (hi, y2) = dev_read P y1 (pr_dev pr) (offset + 4) 2
        in (MemOk (ucast lo OR push_bit 32 (ucast hi)), y2)
      else (MemOk 0, y))"

text \<open>The aligned branch of \<open>target_read_slow()\<close>.\<close>

definition read_aligned :: "plat \<Rightarrow> sys \<Rightarrow> u32 \<Rightarrow> nat \<Rightarrow> mem_res \<times> sys" where
  "read_aligned P y addr size_log2 =
     (case get_phys_addr (sy_emu y) addr ACCESS_READ of
        (None, s) \<Rightarrow> (MemFault, y\<lparr>sy_emu := set_pending CAUSE_LOAD_PAGE_FAULT addr s\<rparr>)
      | (Some paddr, s) \<Rightarrow>
          (case get_phys_mem_range (e_map s) (ucast paddr) of
             None \<Rightarrow> (MemUnset, y\<lparr>sy_emu := s\<rparr>)
           | Some pr \<Rightarrow>
               if pr_is_ram pr then
                 let ptr = ram_index pr paddr
                 in (MemOk (of_le (mem_read (e_ram s) ptr (2 ^ size_log2))),
                     y\<lparr>sy_emu := upd_cpu (\<lambda>c. c\<lparr>c_tlb_read := (c_tlb_read c)(tlb_index addr := tlb_entry_for addr ptr)\<rparr>) s\<rparr>)
               else read_device P (y\<lparr>sy_emu := s\<rparr>) pr (ucast (ucast paddr - pr_addr pr)) size_log2))"

text \<open>The test of the fast paths: page and in-page alignment in one comparison.\<close>

definition tlb_hit :: "(nat \<Rightarrow> tlb_entry) \<Rightarrow> u32 \<Rightarrow> nat \<Rightarrow> bool" where
  "tlb_hit t addr size_log2 \<longleftrightarrow>
     tlb_vaddr (t (tlb_index addr)) = addr AND NOT (PG_MASK AND NOT (push_bit size_log2 1 - 1))"

definition tlb_ptr :: "(nat \<Rightarrow> tlb_entry) \<Rightarrow> u32 \<Rightarrow> nat" where
  "tlb_ptr t addr = nat (tlb_addend (t (tlb_index addr)) + int (unat addr))"

text \<open>
  \<open>target_read_u8/u32/u64\<close> at an aligned address, as the unaligned branch calls them: the fast
  path, else \<open>target_read_slow()\<close>, which takes its aligned branch.
\<close>

definition read_piece :: "plat \<Rightarrow> sys \<Rightarrow> u32 \<Rightarrow> nat \<Rightarrow> mem_res \<times> sys" where
  "read_piece P y addr size_log2 =
     (let t = c_tlb_read (e_cpu (sy_emu y))
      in if tlb_hit t addr size_log2
         then (MemOk (of_le (mem_read (e_ram (sy_emu y)) (tlb_ptr t addr) (2 ^ size_log2))), y)
         else read_aligned P y addr size_log2)"

text \<open>Two pieces, the second only read when the first did not fault, and their combination.\<close>

definition read_two :: "plat \<Rightarrow> sys \<Rightarrow> u32 \<Rightarrow> u32 \<Rightarrow> nat \<Rightarrow> (u64 \<Rightarrow> u64 \<Rightarrow> u64) \<Rightarrow> mem_res \<times> sys" where
  "read_two P y a0 a1 size_log2 comb =
     (case read_piece P y a0 size_log2 of
        (MemFault, y1) \<Rightarrow> (MemFault, y1)
      | (r0, y1) \<Rightarrow>
          (case read_piece P y1 a1 size_log2 of
             (MemOk v1, y2) \<Rightarrow> ((case r0 of MemOk v0 \<Rightarrow> MemOk (comb v0 v1) | _ \<Rightarrow> MemUnset), y2)
           | (r1, y2) \<Rightarrow> (r1, y2)))"

definition target_read_slow :: "plat \<Rightarrow> sys \<Rightarrow> u32 \<Rightarrow> nat \<Rightarrow> mem_res \<times> sys" where
  "target_read_slow P y addr size_log2 =
     (let al = addr AND (push_bit size_log2 1 - 1); sh = 8 * unat al
      in if al = 0 then read_aligned P y addr size_log2
         else if size_log2 = 1 then
           read_two P y addr (addr + 1) 0 (\<lambda>v0 v1. v0 OR push_bit 8 v1)
         else if size_log2 = 2 then
           read_two P y (addr - al) (addr - al + 4) 2
             (\<lambda>v0 v1. ucast (drop_bit sh (ucast v0 :: u32) OR push_bit (32 - sh) (ucast v1 :: u32)))
         else
           read_two P y (addr - al) (addr - al + 8) 3 (\<lambda>v0 v1. drop_bit sh v0 OR push_bit (64 - sh) v1))"

definition target_read :: "plat \<Rightarrow> sys \<Rightarrow> u32 \<Rightarrow> nat \<Rightarrow> mem_res \<times> sys" where
  "target_read P y addr size_log2 =
     (let t = c_tlb_read (e_cpu (sy_emu y))
      in if tlb_hit t addr size_log2
         then (MemOk (of_le (mem_read (e_ram (sy_emu y)) (tlb_ptr t addr) (2 ^ size_log2))), y)
         else target_read_slow P y addr size_log2)"

section \<open>Stores\<close>

definition write_device :: "plat \<Rightarrow> sys \<Rightarrow> phys_range \<Rightarrow> u32 \<Rightarrow> u64 \<Rightarrow> nat \<Rightarrow> sys" where
  "write_device P y pr offset val size_log2 =
     (if bit (pr_devio_flags pr) size_log2 then dev_write P y (pr_dev pr) offset (ucast val) size_log2
      else if pr_devio_flags pr AND DEVIO_SIZE32 \<noteq> 0 \<and> size_log2 = 3 then
        dev_write P (dev_write P y (pr_dev pr) offset (ucast (val AND 0xffffffff)) 2)
          (pr_dev pr) (offset + 4) (ucast (drop_bit 32 val AND 0xffffffff)) 2
      else y)"

text \<open>
  The aligned branch of \<open>target_write_slow()\<close>; the boolean is \<open>return 0\<close>.
  \<open>phys_mem_set_dirty_bit()\<close> does nothing here: registering RAM with dirty bits is refused.
\<close>

definition write_aligned :: "plat \<Rightarrow> sys \<Rightarrow> u32 \<Rightarrow> u64 \<Rightarrow> nat \<Rightarrow> bool \<times> sys" where
  "write_aligned P y addr val size_log2 =
     (case get_phys_addr (sy_emu y) addr ACCESS_WRITE of
        (None, s) \<Rightarrow> (False, y\<lparr>sy_emu := set_pending CAUSE_STORE_PAGE_FAULT addr s\<rparr>)
      | (Some paddr, s) \<Rightarrow>
          (case get_phys_mem_range (e_map s) (ucast paddr) of
             None \<Rightarrow> (True, y\<lparr>sy_emu := s\<rparr>)
           | Some pr \<Rightarrow>
               if pr_is_ram pr then
                 let ptr = ram_index pr paddr;
                     s1 = upd_cpu (\<lambda>c. c\<lparr>c_tlb_write := (c_tlb_write c)(tlb_index addr := tlb_entry_for addr ptr)\<rparr>) s
                 in (True, y\<lparr>sy_emu := s1\<lparr>e_ram := mem_write (e_ram s1) ptr (le_bytes (2 ^ size_log2) val)\<rparr>\<rparr>)
               else (True, write_device P (y\<lparr>sy_emu := s\<rparr>) pr (ucast (ucast paddr - pr_addr pr)) val size_log2)))"

definition write_piece :: "plat \<Rightarrow> sys \<Rightarrow> u32 \<Rightarrow> u64 \<Rightarrow> nat \<Rightarrow> bool \<times> sys" where
  "write_piece P y addr val size_log2 =
     (let t = c_tlb_write (e_cpu (sy_emu y))
      in if tlb_hit t addr size_log2
         then (True, upd_emu (\<lambda>s. s\<lparr>e_ram := mem_write (e_ram s) (tlb_ptr t addr) (le_bytes (2 ^ size_log2) val)\<rparr>) y)
         else write_aligned P y addr val size_log2)"

text \<open>The byte loop of the unaligned branch: it stops at the first byte that faults.\<close>

fun write_bytes :: "plat \<Rightarrow> sys \<Rightarrow> u32 \<Rightarrow> u8 list \<Rightarrow> bool \<times> sys" where
  "write_bytes P y addr [] = (True, y)"
| "write_bytes P y addr (b # bs) =
     (case write_piece P y addr (ucast b) 0 of
        (False, y1) \<Rightarrow> (False, y1)
      | (True, y1) \<Rightarrow> write_bytes P y1 (addr + 1) bs)"

definition target_write_slow :: "plat \<Rightarrow> sys \<Rightarrow> u32 \<Rightarrow> u64 \<Rightarrow> nat \<Rightarrow> bool \<times> sys" where
  "target_write_slow P y addr val size_log2 =
     (if addr AND (push_bit size_log2 1 - 1) \<noteq> 0 then write_bytes P y addr (le_bytes (2 ^ size_log2) val)
      else write_aligned P y addr val size_log2)"

definition target_write :: "plat \<Rightarrow> sys \<Rightarrow> u32 \<Rightarrow> u64 \<Rightarrow> nat \<Rightarrow> bool \<times> sys" where
  "target_write P y addr val size_log2 =
     (let t = c_tlb_write (e_cpu (sy_emu y))
      in if tlb_hit t addr size_log2
         then (True, upd_emu (\<lambda>s. s\<lparr>e_ram := mem_write (e_ram s) (tlb_ptr t addr) (le_bytes (2 ^ size_log2) val)\<rparr>) y)
         else target_write_slow P y addr val size_log2)"

section \<open>Instruction fetch\<close>

definition target_read_insn_slow :: "emu \<Rightarrow> u32 \<Rightarrow> nat option \<times> emu" where
  "target_read_insn_slow s0 addr =
     (case get_phys_addr s0 addr ACCESS_CODE of
        (None, s) \<Rightarrow> (None, set_pending CAUSE_FETCH_PAGE_FAULT addr s)
      | (Some paddr, s) \<Rightarrow>
          (case get_phys_mem_range (e_map s) (ucast paddr) of
             None \<Rightarrow> (None, set_pending CAUSE_FAULT_FETCH addr s)
           | Some pr \<Rightarrow>
               if \<not> pr_is_ram pr then (None, set_pending CAUSE_FAULT_FETCH addr s)
               else
                 let ptr = ram_index pr paddr
                 in (Some ptr, upd_cpu (\<lambda>c. c\<lparr>c_tlb_code := (c_tlb_code c)(tlb_index addr := tlb_entry_for addr ptr)\<rparr>) s)))"

definition target_read_insn_u16 :: "emu \<Rightarrow> u32 \<Rightarrow> u16 option \<times> emu" where
  "target_read_insn_u16 s addr =
     (let t = c_tlb_code (e_cpu s)
      in if tlb_vaddr (t (tlb_index addr)) = addr AND NOT PG_MASK
         then (Some (of_le (mem_read (e_ram s) (tlb_ptr t addr) 2)), s)
         else case target_read_insn_slow s addr of
                (None, s1) \<Rightarrow> (None, s1)
              | (Some ptr, s1) \<Rightarrow> (Some (of_le (mem_read (e_ram s1) ptr 2)), s1))"

section \<open>What the devices leave alone\<close>

text \<open>
  Everything a device handler must not touch: the address map, the size of RAM, the hart but for
  its interrupt-pending bits and its power-down flag, and the host's memory outside guest RAM.
\<close>

definition hart_core :: "cpu \<Rightarrow> cpu" where
  "hart_core c = c\<lparr>c_mip := 0, c_power_down_flag := False\<rparr>"

definition host_view :: "emu \<Rightarrow> phys_map \<times> u32 \<times> cpu \<times> block" where
  "host_view s = (e_map s, m_ram_size (e_m s), hart_core (e_cpu s),
     \<lambda>a. if a < unat (m_ram_size (e_m s)) then 0 else e_ram s a)"

lemma hart_core_mip [simp]:
  "hart_core (riscv_cpu_set_mip c m) = hart_core c" "hart_core (riscv_cpu_reset_mip c m) = hart_core c"
  by (simp_all add: hart_core_def riscv_cpu_set_mip_def riscv_cpu_reset_mip_def Let_def)

lemma host_view_upd_m [simp]: "m_ram_size (f (e_m s)) = m_ram_size (e_m s) \<Longrightarrow> host_view (upd_m f s) = host_view s"
  by (simp add: host_view_def cong: if_cong)

lemma host_view_upd_cpu [simp]: "hart_core (f (e_cpu s)) = hart_core (e_cpu s) \<Longrightarrow> host_view (upd_cpu f s) = host_view s"
  by (simp add: host_view_def cong: if_cong)

lemma host_view_ev [simp]: "host_view (s\<lparr>e_ev := x\<rparr>) = host_view s"
  by (simp add: host_view_def cong: if_cong)

lemma host_view_plic [simp]:
  "host_view (plic_update s) = host_view s" "host_view (plic_set_irq s i l) = host_view s"
  "host_view (uart_update_irq s) = host_view s"
  by (simp_all add: plic_update_def plic_set_irq_def uart_update_irq_def Let_def)

lemma host_view_plat [simp]:
  "host_view (plat_putc s c) = host_view s" "host_view (snd (plat_now_us P s)) = host_view s"
  "host_view (snd (plat_getc P s)) = host_view s" "host_view (add_ev e s) = host_view s"
  by (simp_all add: plat_putc_def plat_now_us_def plat_getc_def add_ev_def Let_def)

lemma host_view_dma: "dma_confined s s' \<Longrightarrow> host_view s' = host_view s"
  by (auto simp: dma_confined_def host_view_def hart_core_def)

lemma host_view_uart [simp]:
  "host_view (uart_push_rx s c) = host_view s" "host_view (snd (uart_read s off sz)) = host_view s"
  "host_view (uart_write s off v sz) = host_view s"
  by (simp_all add: uart_push_rx_def uart_read_def uart_write_def Let_def)

lemma host_view_timer [simp]:
  "host_view (rv_set_timer s t) = host_view s" "host_view (rv_set_ipi s l) = host_view s"
  "host_view (timer_update P s) = host_view s" "host_view (snd (clint_read P s off sz)) = host_view s"
  "host_view (clint_write s off v sz) = host_view s"
  by (simp_all add: rv_set_timer_def rv_set_ipi_def timer_update_def clint_read_def clint_write_def
      rv_mtime_def case_prod_beta Let_def)

lemma host_view_plic_regs [simp]:
  "host_view (snd (plic_read s off sz)) = host_view s" "host_view (plic_write s off v sz) = host_view s"
  "host_view (snd (syscon_read s off sz)) = host_view s" "host_view (syscon_write s off v sz) = host_view s"
  by (simp_all add: plic_read_def plic_write_def syscon_read_def syscon_write_def Let_def)

lemma host_view_pv [simp]:
  "host_view (pv_status r s) = host_view s" "host_view (pv_reply n res s) = host_view s"
  "host_view (pv_exec P s c) = host_view s" "host_view (snd (pv_read P s off sz)) = host_view s"
  "host_view (pv_write P s off v sz) = host_view s"
proof -
  show st: "host_view (pv_status r s) = host_view s" for r s by (simp add: pv_status_def)
  show rp: "host_view (pv_reply n res s) = host_view s" for n res s
    by (simp add: pv_reply_def Let_def st)
  show ex: "host_view (pv_exec P s c) = host_view s" for s c
    by (simp add: pv_exec_def pv_command_defs Let_def st rp)
  show "host_view (snd (pv_read P s off sz)) = host_view s"
    by (simp add: pv_read_def Let_def case_prod_beta)
  show "host_view (pv_write P s off v sz) = host_view s"
    by (simp add: pv_write_def ex)
qed

lemma host_view_dev_read [simp]: "host_view (sy_emu (snd (dev_read P y d off sz))) = host_view (sy_emu y)"
  by (cases d) (simp_all add: dev_read_def Let_def case_prod_beta)

lemma host_view_dev_write [simp]: "host_view (sy_emu (dev_write P y d off v sz)) = host_view (sy_emu y)"
  using host_view_dma [OF dma_virtio_write [of "sy_emu y" "sy_blk y" off v sz]]
    host_view_dma [OF dma_vnet_write [of "sy_emu y" "sy_net y" off v sz]]
  by (cases d) (simp_all add: dev_write_def Let_def case_prod_beta)

lemma host_view_devices:
  "host_view (sy_emu (snd (read_device P y pr off sz))) = host_view (sy_emu y)"
  "host_view (sy_emu (write_device P y pr off v sz)) = host_view (sy_emu y)"
  by (simp_all add: read_device_def write_device_def case_prod_beta Let_def)

section \<open>The memory invariant\<close>

text \<open>
  Every RAM range of the map is a page-aligned window onto the RAM block, and every valid entry of
  the three TLBs points at a whole page inside the block.
\<close>

definition ram_range_ok :: "u32 \<Rightarrow> phys_range \<Rightarrow> bool" where
  "ram_range_ok n pr \<longleftrightarrow>
     (case pr_phys_mem pr of None \<Rightarrow> False | Some p \<Rightarrow> p + unat (pr_size pr) \<le> unat n) \<and>
     unat (pr_addr pr) mod 4096 = 0 \<and> unat (pr_size pr) mod 4096 = 0 \<and>
     unat (pr_addr pr) + unat (pr_size pr) < 2 ^ 64"

definition ram_map_ok :: "phys_map \<Rightarrow> u32 \<Rightarrow> bool" where
  "ram_map_ok mp n \<longleftrightarrow> list_all (\<lambda>pr. pr_is_ram pr \<longrightarrow> ram_range_ok n pr) mp"

definition tlb_entry_ok :: "u32 \<Rightarrow> tlb_entry \<Rightarrow> bool" where
  "tlb_entry_ok n e \<longleftrightarrow> tlb_vaddr e = -1 \<or>
     unat (tlb_vaddr e) mod 4096 = 0 \<and> 0 \<le> tlb_addend e + int (unat (tlb_vaddr e)) \<and>
     tlb_addend e + int (unat (tlb_vaddr e)) + 4096 \<le> int (unat n)"

definition tlb_ok :: "u32 \<Rightarrow> cpu \<Rightarrow> bool" where
  "tlb_ok n c \<longleftrightarrow> (\<forall>i<TLB_SIZE. tlb_entry_ok n (c_tlb_read c i) \<and> tlb_entry_ok n (c_tlb_write c i) \<and>
     tlb_entry_ok n (c_tlb_code c i))"

definition mem_ok :: "emu \<Rightarrow> bool" where
  "mem_ok s \<longleftrightarrow> c_cur_xlen (e_cpu s) = 32 \<and> ram_map_ok (e_map s) (m_ram_size (e_m s)) \<and>
     tlb_ok (m_ram_size (e_m s)) (e_cpu s)"

text \<open>The part of the host's memory that is not the guest's, with the map and the size of RAM.\<close>

definition host_mem :: "emu \<Rightarrow> phys_map \<times> u32 \<times> block" where
  "host_mem s = (e_map s, m_ram_size (e_m s), \<lambda>a. if a < unat (m_ram_size (e_m s)) then 0 else e_ram s a)"

lemma hart_core_sel:
  "hart_core c' = hart_core c \<Longrightarrow> c_tlb_read c' = c_tlb_read c \<and> c_tlb_write c' = c_tlb_write c \<and>
   c_tlb_code c' = c_tlb_code c \<and> c_cur_xlen c' = c_cur_xlen c"
proof -
  have s: "c_tlb_read (hart_core c) = c_tlb_read c" "c_tlb_write (hart_core c) = c_tlb_write c"
    "c_tlb_code (hart_core c) = c_tlb_code c" "c_cur_xlen (hart_core c) = c_cur_xlen c" for c
    by (simp_all add: hart_core_def)
  assume "hart_core c' = hart_core c"
  then show ?thesis using s [of c] s [of c'] by simp
qed

lemma host_view_ok: "host_view s' = host_view s \<Longrightarrow> mem_ok s' = mem_ok s \<and> host_mem s' = host_mem s"
  using hart_core_sel [of "e_cpu s'" "e_cpu s"] by (auto simp: host_view_def mem_ok_def host_mem_def tlb_ok_def)

section \<open>A physical page is inside the block\<close>

lemma page_offset_nat:
  assumes "(b :: nat) \<le> a" "a < b + n" "b mod 4096 = 0" "n mod 4096 = 0"
  shows "a - b + 4096 \<le> n + a mod 4096" "a mod 4096 \<le> a - b" "(a - b) mod 4096 = a mod 4096"
proof -
  obtain k m where km: "b = 4096 * k" "n = 4096 * m" using assms by (auto simp: mod_eq_0_iff_dvd elim!: dvdE)
  define q r where "q = a div 4096" and "r = a mod 4096"
  then have a: "a = 4096 * q + r" "r < 4096" by simp_all
  have "k \<le> q" using div_le_mono [OF assms(1), of 4096] by (simp add: km q_def)
  moreover have "q < k + m" unfolding q_def
    using assms(2) by (intro less_mult_imp_div_less) (simp add: km)
  ultimately obtain d where d: "q = k + d" "d < m" by (metis le_Suc_ex nat_add_left_cancel_less)
  have ab: "a - b = 4096 * d + r" by (simp add: a(1) km d(1))
  show "a - b + 4096 \<le> n + a mod 4096" unfolding ab km(2) r_def [symmetric] using d(2) by simp
  show "a mod 4096 \<le> a - b" unfolding ab r_def [symmetric] by simp
  show "(a - b) mod 4096 = a mod 4096" unfolding ab r_def [symmetric] using a(2) by simp
qed

lemma ram_index_page:
  assumes "ram_map_ok mp n" "get_phys_mem_range mp (ucast paddr) = Some pr" "pr_is_ram pr"
  shows "unat paddr mod 4096 \<le> ram_index pr paddr"
    and "ram_index pr paddr + 4096 \<le> unat n + unat paddr mod 4096"
proof -
  have m: "pr \<in> set mp" "pr_covers pr (ucast paddr)"
    using assms(2) by (induction mp) (auto split: if_splits)
  then have "ram_range_ok n pr" using assms(1,3) by (auto simp: ram_map_ok_def list_all_iff)
  then obtain p where p: "pr_phys_mem pr = Some p" "p + unat (pr_size pr) \<le> unat n"
    "unat (pr_addr pr) mod 4096 = 0" "unat (pr_size pr) mod 4096 = 0"
    "unat (pr_addr pr) + unat (pr_size pr) < 2 ^ 64"
    by (auto simp: ram_range_ok_def split: option.splits)
  have c: "unat (pr_addr pr) \<le> unat paddr" "unat paddr < unat (pr_addr pr) + unat (pr_size pr)"
    using m(2) p(5) by (auto simp: pr_covers_def word_le_nat_alt word_less_nat_alt unat_word_ariths)
  have i: "ram_index pr paddr = p + (unat paddr - unat (pr_addr pr))"
    using c(1) by (simp add: ram_index_def p(1) unat_sub_if_size)
  show "unat paddr mod 4096 \<le> ram_index pr paddr" "ram_index pr paddr + 4096 \<le> unat n + unat paddr mod 4096"
    using page_offset_nat [OF c p(3,4)] p(2) i by linarith+
qed

lemma unat_mod_4096: "unat (w :: u32) mod 4096 = unat (take_bit 12 w)"
  by (simp add: take_bit_eq_mod unat_mod_distrib)

lemma page_compose_offset: "12 \<le> sh \<Longrightarrow> unat (page_compose sh v pte) mod 4096 = unat v mod 4096"
proof -
  assume "12 \<le> sh"
  then have "take_bit 12 (page_compose sh v pte) = take_bit 12 v"
    by (intro bit_word_eqI) (auto simp: page_compose_def bit_simps)
  then show ?thesis by (simp only: unat_mod_4096)
qed

lemma sv32_walk_offset:
  "acc \<le> 2 \<Longrightarrow> fst (sv32_walk n s pr v acc t) = Some p \<Longrightarrow> unat p mod 4096 = unat v mod 4096"
proof (induction n arbitrary: t)
  case (Suc n)
  then show ?case
    unfolding sv32_walk_step [OF Suc.prems(1)] by (auto simp: Let_def page_compose_offset split: if_splits)
qed simp

lemma get_phys_addr_offset:
  "acc \<le> 2 \<Longrightarrow> c_cur_xlen (e_cpu s) = 32 \<Longrightarrow> get_phys_addr s v acc = (Some p, s') \<Longrightarrow>
   unat p mod 4096 = unat v mod 4096"
  unfolding get_phys_addr_def Let_def sv32_root_eq
  by (auto split: if_splits intro!: sv32_walk_offset [of _ 2 s "access_priv (e_cpu s) acc" _ "sv32_root (e_cpu s)" p])

text \<open>The walker's write of an entry stays in RAM: tables are page-aligned.\<close>

lemma table_aligned: "unat (push_bit 12 (w :: u32)) mod 4096 = 0"
proof -
  have "take_bit 12 (push_bit 12 w) = (0 :: u32)" by (rule bit_word_eqI) (auto simp: bit_simps)
  then show ?thesis by (simp add: unat_mod_4096)
qed

lemma pte_slot_offset:
  assumes "unat (t :: u32) mod 4096 = 0"
  shows "unat (t + 4 * (x AND 0x3ff)) mod 4096 \<le> 4092"
proof -
  have x: "unat (x AND 0x3ff) < 1024"
  proof -
    have "x AND 0x3ff = take_bit 10 x" by (simp add: take_bit_eq_mask mask_eq_exp_minus_1)
    moreover have "unat (take_bit 10 x) = unat x mod 1024" by (simp add: take_bit_eq_mod unat_mod_distrib)
    ultimately show ?thesis by simp
  qed
  then have "unat (4 * (x AND 0x3ff)) = 4 * unat (x AND 0x3ff)" by (simp add: unat_word_ariths)
  moreover obtain k where "unat t = 4096 * k" using assms by (auto simp: mod_eq_0_iff_dvd elim!: dvdE)
  ultimately have "unat (t + 4 * (x AND 0x3ff)) = (4096 * k + 4 * unat (x AND 0x3ff)) mod 4294967296"
    by (simp add: unat_word_ariths)
  then have "unat (t + 4 * (x AND 0x3ff)) mod 4096 = (4096 * k + 4 * unat (x AND 0x3ff)) mod 4096"
    by (simp add: mod_mod_cancel)
  with x show ?thesis by simp
qed

section \<open>Every access keeps the invariant\<close>

lemma host_mem_write:
  "p + length bs \<le> unat (m_ram_size (e_m s)) \<Longrightarrow>
   host_view (s\<lparr>e_ram := mem_write (e_ram s) p bs\<rparr>) = host_view s"
  by (auto simp: host_view_def mem_write_def)

lemma host_view_phys_write:
  assumes "ram_map_ok (e_map s) (m_ram_size (e_m s))" "unat a mod 4096 \<le> 4092"
  shows "host_view (phys_write_u32 s a v) = host_view s"
proof (cases "get_phys_mem_range (e_map s) (ucast a)")
  case (Some pr)
  show ?thesis
  proof (cases "pr_is_ram pr")
    case True
    have "ram_index pr a + 4 \<le> unat (m_ram_size (e_m s))"
      using ram_index_page(2) [OF assms(1) Some True] assms(2) by linarith
    then show ?thesis using Some True by (simp add: phys_write_u32_def host_mem_write)
  qed (simp add: phys_write_u32_def Some)
qed (simp add: phys_write_u32_def)

lemma host_view_walk:
  "acc \<le> 2 \<Longrightarrow> ram_map_ok (e_map s) (m_ram_size (e_m s)) \<Longrightarrow> unat t mod 4096 = 0 \<Longrightarrow>
   host_view (snd (sv32_walk n s pr v acc t)) = host_view s"
proof (induction n arbitrary: t)
  case (Suc n)
  have "unat (pte_points x) mod 4096 = 0" for x by (simp add: pte_points_def table_aligned)
  with Suc show ?case
    unfolding sv32_walk_step [OF Suc.prems(1)]
    by (auto simp: Let_def host_view_phys_write pte_slot_offset)
qed simp

lemma host_view_get_phys_addr:
  "acc \<le> 2 \<Longrightarrow> mem_ok s \<Longrightarrow> host_view (snd (get_phys_addr s v acc)) = host_view s"
  unfolding get_phys_addr_def Let_def sv32_root_eq
  by (simp add: mem_ok_def host_view_walk sv32_root_def table_aligned)

text \<open>A translation that ends in RAM gives a valid TLB entry and room for the access.\<close>

lemma aligned_room:
  assumes "sz \<le> 3" "addr AND (push_bit sz 1 - 1) = (0 :: u32)"
  shows "unat addr mod 4096 + 2 ^ sz \<le> 4096"
proof -
  have m: "addr AND (push_bit sz 1 - 1) = take_bit sz addr"
    by (simp add: take_bit_eq_mask mask_eq_exp_minus_1)
  have "unat (take_bit sz addr) = unat addr mod 2 ^ sz"
    by (metis unsigned_take_bit_eq take_bit_eq_mod)
  then have "unat addr mod 2 ^ sz = 0" using assms(2) m by simp
  moreover have "(2 ^ sz :: nat) dvd 4096"
    using le_imp_power_dvd [of sz 12 "2 :: nat"] assms(1) by simp
  ultimately have "2 ^ sz dvd unat addr mod 4096" by (simp add: dvd_mod_iff mod_0_imp_dvd)
  then obtain k where k: "unat addr mod 4096 = 2 ^ sz * k" by (elim dvdE)
  obtain j where j: "(4096 :: nat) = 2 ^ sz * j" using \<open>2 ^ sz dvd 4096\<close> by (elim dvdE)
  have "2 ^ sz * k < 2 ^ sz * j" using k j by (metis mod_less_divisor zero_less_numeral)
  then have "k + 1 \<le> j" by simp
  then have "2 ^ sz * (k + 1) \<le> 2 ^ sz * j" by (rule mult_le_mono2)
  then show ?thesis by (simp add: k j [symmetric])
qed

lemma page_base: "(addr :: u32) AND NOT PG_MASK = push_bit 12 (drop_bit 12 addr)"
  by (rule u32_bitsI) (simp add: PG_MASK_def upt_32 bit_simps)

lemma unat_page_base: "unat (addr AND NOT PG_MASK) = unat addr - unat addr mod 4096"
proof -
  have "unat (drop_bit 12 addr) = unat addr div 4096"
    by (simp add: drop_bit_eq_div unat_div)
  moreover have "unat addr div 4096 * 4096 < 4294967296"
    using unat_u32_lt [of addr] div_times_less_eq_dividend [of "unat addr" 4096] by linarith
  ultimately show ?thesis
    by (simp add: page_base push_bit_eq_mult unat_word_ariths minus_mod_eq_div_mult [symmetric] del: push_bit_of_1)
qed

lemma ram_access_room:
  assumes "mem_ok s" "acc \<le> 2" "get_phys_addr s addr acc = (Some paddr, s')"
    "get_phys_mem_range (e_map s') (ucast paddr) = Some pr" "pr_is_ram pr"
  shows "tlb_entry_ok (m_ram_size (e_m s)) (tlb_entry_for addr (ram_index pr paddr))"
    and "unat addr mod 4096 + k \<le> 4096 \<Longrightarrow> ram_index pr paddr + k \<le> unat (m_ram_size (e_m s))"
proof -
  have mp: "e_map s' = e_map s" using get_phys_addr_frame(3) [of s addr acc] assms(3) by simp
  have off: "unat paddr mod 4096 = unat addr mod 4096"
    using assms(1,2,3) get_phys_addr_offset by (auto simp: mem_ok_def)
  have r: "unat paddr mod 4096 \<le> ram_index pr paddr"
    "ram_index pr paddr + 4096 \<le> unat (m_ram_size (e_m s)) + unat paddr mod 4096"
    using ram_index_page [of "e_map s"] assms(1,4,5) mp by (auto simp: mem_ok_def)
  then show "ram_index pr paddr + k \<le> unat (m_ram_size (e_m s))" if "unat addr mod 4096 + k \<le> 4096"
    using that off by linarith
  show "tlb_entry_ok (m_ram_size (e_m s)) (tlb_entry_for addr (ram_index pr paddr))"
    using r off unat_page_base [of addr] mod_less_eq_dividend [of "unat addr" 4096]
    unfolding tlb_entry_ok_def tlb_entry_for_def tlb_entry.select_convs
    by (intro disjI2 conjI) (simp add: page_base table_aligned, linarith+)
qed

text \<open>A hit of a fast path is an aligned address on a page inside the block.\<close>

lemma tlb_hit_aligned:
  assumes "tlb_hit t addr sz" "sz \<le> 3" "tlb_entry_ok n (t (tlb_index addr))"
  shows "addr AND (push_bit sz 1 - 1) = 0" "tlb_vaddr (t (tlb_index addr)) = addr AND NOT PG_MASK"
    "tlb_ptr t addr + 2 ^ sz \<le> unat n"
proof -
  let ?e = "t (tlb_index addr)" and ?m = "addr AND NOT (PG_MASK AND NOT (push_bit sz 1 - 1))"
  have sz: "sz = 0 \<or> sz = 1 \<or> sz = 2 \<or> sz = 3" using assms(2) by auto
  have v: "tlb_vaddr ?e = ?m" using assms(1) by (simp add: tlb_hit_def)
  have "\<not> bit ?m 4" using sz by (auto simp: PG_MASK_def bit_simps)
  then have "tlb_vaddr ?e \<noteq> -1" using v by auto
  then have ok: "unat (tlb_vaddr ?e) mod 4096 = 0" "0 \<le> tlb_addend ?e + int (unat (tlb_vaddr ?e))"
    "tlb_addend ?e + int (unat (tlb_vaddr ?e)) + 4096 \<le> int (unat n)"
    using assms(3) by (auto simp: tlb_entry_ok_def)
  have m: "?m = (addr AND NOT PG_MASK) OR take_bit sz addr"
    using sz by (elim disjE; intro u32_bitsI) (simp_all add: PG_MASK_def upt_32 bit_simps bit_0)
  have "take_bit 12 ?m = take_bit sz addr"
    unfolding m using sz by (elim disjE; intro u32_bitsI) (simp_all add: PG_MASK_def upt_32 bit_simps bit_0)
  moreover have "take_bit 12 ?m = 0"
    using ok(1) unfolding v unat_mod_4096 by (simp only: unsigned_eq_0_iff)
  ultimately have low: "take_bit sz addr = 0" by simp
  then show al: "addr AND (push_bit sz 1 - 1) = 0" by (simp add: take_bit_eq_mask mask_eq_exp_minus_1)
  have "?m = addr AND NOT PG_MASK" unfolding m low by simp
  then show b: "tlb_vaddr ?e = addr AND NOT PG_MASK" using v by simp
  have "unat addr = unat (tlb_vaddr ?e) + unat addr mod 4096"
    unfolding b unat_page_base by simp
  then show "tlb_ptr t addr + 2 ^ sz \<le> unat n"
    using aligned_room [OF assms(2) al] ok unfolding tlb_ptr_def by linarith
qed

lemma tlb_index_lt: "tlb_index addr < TLB_SIZE"
proof -
  have "drop_bit PG_SHIFT addr AND (of_nat TLB_SIZE - 1) = take_bit 8 (drop_bit PG_SHIFT addr)"
    by (simp add: TLB_SIZE_def take_bit_eq_mask mask_eq_exp_minus_1)
  moreover have "unat (take_bit 8 (drop_bit PG_SHIFT addr)) < 256"
    using take_bit_nat_less_exp [of 8 "unat (drop_bit PG_SHIFT addr)"] by (simp add: unsigned_take_bit_eq [symmetric])
  ultimately show ?thesis by (simp add: tlb_index_def TLB_SIZE_def)
qed

text \<open>The hart but for its TLBs, a pending exception, the interrupt bits and the power-down flag.\<close>

definition hart_ctl :: "cpu \<Rightarrow> cpu" where
  "hart_ctl c = (hart_core c)\<lparr>c_tlb_read := (\<lambda>_. tlb_zero), c_tlb_write := (\<lambda>_. tlb_zero),
     c_tlb_code := (\<lambda>_. tlb_zero), c_pending_exception := 0, c_pending_tval := 0\<rparr>"

definition keeps :: "emu \<Rightarrow> emu \<Rightarrow> bool" where
  "keeps s s' \<longleftrightarrow> mem_ok s' \<and> host_mem s' = host_mem s \<and> hart_ctl (e_cpu s') = hart_ctl (e_cpu s)"

lemma keeps_refl: "mem_ok s \<Longrightarrow> keeps s s"
  by (simp add: keeps_def)

lemma keeps_trans: "keeps s s' \<Longrightarrow> (mem_ok s' \<Longrightarrow> keeps s' s'') \<Longrightarrow> keeps s s''"
  by (simp add: keeps_def)

lemma keeps_view:
  assumes "mem_ok s" "host_view s' = host_view s"
  shows "keeps s s'"
proof -
  have "hart_core (e_cpu s') = hart_core (e_cpu s)" using assms(2) by (simp add: host_view_def)
  with host_view_ok [OF assms(2)] assms(1) show ?thesis by (simp add: keeps_def hart_ctl_def)
qed

lemma keeps_pending: "mem_ok s \<Longrightarrow> keeps s (set_pending c a s)"
  by (simp add: keeps_def mem_ok_def host_mem_def set_pending_def tlb_ok_def hart_ctl_def hart_core_def cong: if_cong)

lemma keeps_fill:
  assumes "mem_ok s" "tlb_entry_ok (m_ram_size (e_m s)) e"
  shows "keeps s (upd_cpu (\<lambda>c. c\<lparr>c_tlb_read := (c_tlb_read c)(i := e)\<rparr>) s)"
    "keeps s (upd_cpu (\<lambda>c. c\<lparr>c_tlb_write := (c_tlb_write c)(i := e)\<rparr>) s)"
    "keeps s (upd_cpu (\<lambda>c. c\<lparr>c_tlb_code := (c_tlb_code c)(i := e)\<rparr>) s)"
  using assms by (simp_all add: keeps_def mem_ok_def host_mem_def tlb_ok_def hart_ctl_def hart_core_def cong: if_cong)

lemma keeps_ram: "mem_ok s \<Longrightarrow> p + length bs \<le> unat (m_ram_size (e_m s)) \<Longrightarrow>
    keeps s (s\<lparr>e_ram := mem_write (e_ram s) p bs\<rparr>)"
  by (rule keeps_view) (simp_all add: host_mem_write)

lemma keeps_phys_addr:
  "acc \<le> 2 \<Longrightarrow> mem_ok s \<Longrightarrow> get_phys_addr s v acc = (r, s') \<Longrightarrow> keeps s s' \<and> m_ram_size (e_m s') = m_ram_size (e_m s)"
  using host_view_get_phys_addr [of acc s v] get_phys_addr_frame(2) [of s v acc] keeps_view [of s s'] by auto

lemma acc_le [simp]: "ACCESS_READ \<le> 2" "ACCESS_WRITE \<le> 2" "ACCESS_CODE \<le> 2"
  by (simp_all add: mmu_consts)

lemma keeps_read_aligned:
  assumes "mem_ok (sy_emu y)"
  shows "keeps (sy_emu y) (sy_emu (snd (read_aligned P y addr sz)))"
proof -
  obtain r s where g: "get_phys_addr (sy_emu y) addr ACCESS_READ = (r, s)" by fastforce
  note k = keeps_phys_addr [OF acc_le(1) assms g]
  have ok: "mem_ok s" using k by (simp add: keeps_def)
  have dev: "keeps s (sy_emu (snd (read_device P (y\<lparr>sy_emu := s\<rparr>) pr off sz)))" for pr off
    by (rule keeps_view [OF ok]) (simp add: host_view_devices)
  have fill: "keeps s (upd_cpu (\<lambda>c. c\<lparr>c_tlb_read := (c_tlb_read c)(i := tlb_entry_for addr (ram_index pr a))\<rparr>) s)"
    if "r = Some a" "get_phys_mem_range (e_map s) (ucast a) = Some pr" "pr_is_ram pr" for i a pr
    using ram_access_room(1) [OF assms acc_le(1)] g that k by (intro keeps_fill [OF ok]) auto
  show ?thesis
    unfolding read_aligned_def g
    using k ok dev fill keeps_pending [OF ok]
    by (auto simp: Let_def split: option.split intro: keeps_trans)
qed

lemma keeps_write_aligned:
  assumes "mem_ok (sy_emu y)" "sz \<le> 3" "addr AND (push_bit sz 1 - 1) = 0"
  shows "keeps (sy_emu y) (sy_emu (snd (write_aligned P y addr v sz)))"
proof -
  obtain r s where g: "get_phys_addr (sy_emu y) addr ACCESS_WRITE = (r, s)" by fastforce
  note k = keeps_phys_addr [OF acc_le(2) assms(1) g]
  have ok: "mem_ok s" using k by (simp add: keeps_def)
  have dev: "keeps s (sy_emu (write_device P (y\<lparr>sy_emu := s\<rparr>) pr off v sz))" for pr off
    by (rule keeps_view [OF ok]) (simp add: host_view_devices)
  have fill: "keeps s (s1\<lparr>e_ram := mem_write (e_ram s1) (ram_index pr a) (le_bytes (2 ^ sz) v)\<rparr>)"
    if h: "r = Some a" "get_phys_mem_range (e_map s) (ucast a) = Some pr" "pr_is_ram pr"
      "s1 = upd_cpu (\<lambda>c. c\<lparr>c_tlb_write := (c_tlb_write c)(i := tlb_entry_for addr (ram_index pr a))\<rparr>) s" for i a pr s1
  proof -
    note room = ram_access_room [OF assms(1) acc_le(2) g [unfolded h(1)] h(2,3)]
    have n: "m_ram_size (e_m s1) = m_ram_size (e_m (sy_emu y))" using k h(4) by simp
    have "tlb_entry_ok (m_ram_size (e_m s)) (tlb_entry_for addr (ram_index pr a))" using room(1) k by simp
    from keeps_fill(2) [OF ok this] have "keeps s s1" unfolding h(4) .
    moreover have "ram_index pr a + length (le_bytes (2 ^ sz) v) \<le> unat (m_ram_size (e_m s1))"
      using room(2) [OF aligned_room [OF assms(2,3)]] n by simp
    ultimately show ?thesis using keeps_ram [of s1] keeps_trans [of s s1] by blast
  qed
  show ?thesis
  proof (cases r)
    case None
    with keeps_trans [OF k [THEN conjunct1] keeps_pending] show ?thesis by (simp add: write_aligned_def g)
  next
    case r: (Some a)
    show ?thesis
    proof (cases "get_phys_mem_range (e_map s) (ucast a)")
      case None
      then show ?thesis using k by (simp add: write_aligned_def g r)
    next
      case pr: (Some pr)
      show ?thesis
      proof (cases "pr_is_ram pr")
        case True
        with keeps_trans [OF k [THEN conjunct1] fill [OF r pr True refl]] show ?thesis
          by (simp add: write_aligned_def g r pr Let_def)
      next
        case False
        with keeps_trans [OF k [THEN conjunct1] dev] show ?thesis
          by (simp add: write_aligned_def g r pr)
      qed
    qed
  qed
qed

lemma tlb_ok_sel:
  assumes "mem_ok s"
  shows "tlb_entry_ok (m_ram_size (e_m s)) (c_tlb_read (e_cpu s) (tlb_index a))"
    "tlb_entry_ok (m_ram_size (e_m s)) (c_tlb_write (e_cpu s) (tlb_index a))"
    "tlb_entry_ok (m_ram_size (e_m s)) (c_tlb_code (e_cpu s) (tlb_index a))"
  using assms tlb_index_lt [of a] by (simp_all add: mem_ok_def tlb_ok_def)

lemma keeps_read_piece: "mem_ok (sy_emu y) \<Longrightarrow> keeps (sy_emu y) (sy_emu (snd (read_piece P y a sz)))"
  by (simp add: read_piece_def Let_def keeps_refl keeps_read_aligned)

lemma keeps_read_two: "mem_ok (sy_emu y) \<Longrightarrow> keeps (sy_emu y) (sy_emu (snd (read_two P y a b sz f)))"
proof -
  assume "mem_ok (sy_emu y)"
  from keeps_read_piece [OF this, of P a sz] obtain r0 y1 where
    1: "read_piece P y a sz = (r0, y1)" "keeps (sy_emu y) (sy_emu y1)" by (metis prod.collapse)
  then have "mem_ok (sy_emu y1)" by (simp add: keeps_def)
  from keeps_read_piece [OF this, of P b sz] obtain r1 y2 where
    2: "read_piece P y1 b sz = (r1, y2)" "keeps (sy_emu y1) (sy_emu y2)" by (metis prod.collapse)
  have "keeps (sy_emu y) (sy_emu y2)" using 1(2) 2(2) by (rule keeps_trans)
  then show ?thesis
    by (cases r0; cases r1) (simp_all add: read_two_def 1 2)
qed

lemma keeps_target_read: "mem_ok (sy_emu y) \<Longrightarrow> keeps (sy_emu y) (sy_emu (snd (target_read P y a sz)))"
  by (simp add: target_read_def target_read_slow_def Let_def keeps_refl keeps_read_aligned keeps_read_two)

lemma keeps_write_hit:
  assumes "mem_ok (sy_emu y)" "sz \<le> 3" "tlb_hit (c_tlb_write (e_cpu (sy_emu y))) a sz"
  shows "keeps (sy_emu y) (sy_emu (upd_emu (\<lambda>s. s\<lparr>e_ram :=
    mem_write (e_ram s) (tlb_ptr (c_tlb_write (e_cpu (sy_emu y))) a) (le_bytes (2 ^ sz) v)\<rparr>) y))"
  using keeps_ram [OF assms(1)] tlb_hit_aligned(3) [OF assms(3,2) tlb_ok_sel(2) [OF assms(1)]] by simp

lemma keeps_write_piece: "mem_ok (sy_emu y) \<Longrightarrow> keeps (sy_emu y) (sy_emu (snd (write_piece P y a v 0)))"
  using keeps_write_hit [of y 0 a v] by (simp add: write_piece_def Let_def keeps_write_aligned)

lemma keeps_write_bytes: "mem_ok (sy_emu y) \<Longrightarrow> keeps (sy_emu y) (sy_emu (snd (write_bytes P y a bs)))"
proof (induction bs arbitrary: y a)
  case (Cons b bs)
  from keeps_write_piece [OF Cons.prems, of P a "ucast b"] obtain r y1 where
    1: "write_piece P y a (ucast b) 0 = (r, y1)" "keeps (sy_emu y) (sy_emu y1)" by (metis prod.collapse)
  then have "keeps (sy_emu y) (sy_emu (snd (write_bytes P y1 (a + 1) bs)))"
    using keeps_trans Cons.IH by blast
  then show ?case using 1 by (cases r) simp_all
qed (simp add: keeps_refl)

lemma keeps_target_write:
  "mem_ok (sy_emu y) \<Longrightarrow> sz \<le> 3 \<Longrightarrow> keeps (sy_emu y) (sy_emu (snd (target_write P y a v sz)))"
  using keeps_write_hit [of y sz a v]
  by (simp add: target_write_def target_write_slow_def Let_def keeps_write_aligned keeps_write_bytes)

lemma keeps_insn_slow: "mem_ok s \<Longrightarrow> keeps s (snd (target_read_insn_slow s a))"
proof -
  assume ok0: "mem_ok s"
  obtain r s1 where g: "get_phys_addr s a ACCESS_CODE = (r, s1)" by fastforce
  note k = keeps_phys_addr [OF acc_le(3) ok0 g]
  have ok: "mem_ok s1" using k by (simp add: keeps_def)
  have pend: "keeps s (set_pending c a s1)" for c
    using keeps_trans [OF k [THEN conjunct1] keeps_pending] .
  have fill: "keeps s (upd_cpu (\<lambda>c. c\<lparr>c_tlb_code := (c_tlb_code c)(i := tlb_entry_for a (ram_index pr p))\<rparr>) s1)"
    if "r = Some p" "get_phys_mem_range (e_map s1) (ucast p) = Some pr" "pr_is_ram pr" for i p pr
    by (rule keeps_trans [OF k [THEN conjunct1]], rule keeps_fill(3))
       (use ram_access_room(1) [OF ok0 acc_le(3)] g that k in auto)
  show ?thesis
    unfolding target_read_insn_slow_def g using pend fill
    by (auto simp: Let_def split: option.split)
qed

lemma keeps_insn: "mem_ok s \<Longrightarrow> keeps s (snd (target_read_insn_u16 s a))"
  using keeps_insn_slow [of s a]
  by (auto simp: target_read_insn_u16_def Let_def keeps_refl split: prod.split option.split)

end
