(* ===== verification/Rv_Alu.thy ===== *)
theory Rv_Alu
  imports Emu_Prelude "HOL-Library.Signed_Division"
begin

text \<open>
  The arithmetic of the interpreter (\<open>emu/riscv_cpu_template.h\<close> at XLEN 32, \<open>sext()\<close> and
  \<open>get_field1()\<close> of \<open>emu/riscv_cpu.c\<close>): multiplication and division, the operation tables of OP,
  OP-IMM, BRANCH and AMO, and the immediates of every instruction format, on 32-bit words as the
  C code computes them. \<open>None\<close> stands for \<open>goto illegal_insn\<close>.
\<close>

section \<open>Multiply and divide\<close>

definition div32 :: "u32 \<Rightarrow> u32 \<Rightarrow> u32" where
  "div32 a b = (if b = 0 then -1 else if a = 0x80000000 \<and> b = -1 then a
     else word_of_int (sint a sdiv sint b))"

definition divu32 :: "u32 \<Rightarrow> u32 \<Rightarrow> u32" where
  "divu32 a b = (if b = 0 then -1 else a div b)"

definition rem32 :: "u32 \<Rightarrow> u32 \<Rightarrow> u32" where
  "rem32 a b = (if b = 0 then a else if a = 0x80000000 \<and> b = -1 then 0
     else word_of_int (sint a smod sint b))"

definition remu32 :: "u32 \<Rightarrow> u32 \<Rightarrow> u32" where
  "remu32 a b = (if b = 0 then a else a mod b)"

text \<open>\<open>((int64_t)a * (int64_t)b) >> 32\<close>; the product wraps at 64 bits.\<close>

definition mulh32 :: "u32 \<Rightarrow> u32 \<Rightarrow> u32" where
  "mulh32 a b = ucast (signed_drop_bit 32 ((scast a :: u64) * scast b))"

definition mulhsu32 :: "u32 \<Rightarrow> u32 \<Rightarrow> u32" where
  "mulhsu32 a b = ucast (signed_drop_bit 32 ((scast a :: u64) * ucast b))"

definition mulhu32 :: "u32 \<Rightarrow> u32 \<Rightarrow> u32" where
  "mulhu32 a b = ucast (signed_drop_bit 32 ((ucast a :: u64) * ucast b))"

section \<open>Fields and immediates\<close>

definition sext :: "u32 \<Rightarrow> nat \<Rightarrow> u32" where
  "sext val n = signed_drop_bit (32 - n) (push_bit (32 - n) val)"

definition get_field1 :: "u32 \<Rightarrow> nat \<Rightarrow> nat \<Rightarrow> nat \<Rightarrow> u32" where
  "get_field1 val src_pos dst_pos dst_pos_max =
     (let msk = push_bit dst_pos (push_bit (dst_pos_max - dst_pos + 1) 1 - 1)
      in if src_pos \<le> dst_pos then push_bit (dst_pos - src_pos) val AND msk
         else drop_bit (src_pos - dst_pos) val AND msk)"

definition insn_rd :: "u32 \<Rightarrow> nat" where "insn_rd insn = unat (drop_bit 7 insn AND 0x1f)"
definition insn_rs1 :: "u32 \<Rightarrow> nat" where "insn_rs1 insn = unat (drop_bit 15 insn AND 0x1f)"
definition insn_rs2 :: "u32 \<Rightarrow> nat" where "insn_rs2 insn = unat (drop_bit 20 insn AND 0x1f)"
definition insn_funct3 :: "u32 \<Rightarrow> u32" where "insn_funct3 insn = drop_bit 12 insn AND 7"

definition imm_i :: "u32 \<Rightarrow> u32" where "imm_i insn = signed_drop_bit 20 insn"

definition imm_s :: "u32 \<Rightarrow> u32" where
  "imm_s insn = signed_drop_bit 20 (push_bit 20 ((drop_bit 7 insn AND 0x1f) OR (drop_bit 20 insn AND 0xfe0)))"

definition imm_b :: "u32 \<Rightarrow> u32" where
  "imm_b insn = signed_drop_bit 19 (push_bit 19
     ((drop_bit 19 insn AND push_bit 12 1) OR (drop_bit 20 insn AND 0x7e0) OR
      (drop_bit 7 insn AND 0x1e) OR (push_bit 4 insn AND push_bit 11 1)))"

definition imm_u :: "u32 \<Rightarrow> u32" where "imm_u insn = insn AND 0xfffff000"

definition imm_j :: "u32 \<Rightarrow> u32" where
  "imm_j insn = signed_drop_bit 11 (push_bit 11
     ((drop_bit 11 insn AND push_bit 20 1) OR (drop_bit 20 insn AND 0x7fe) OR
      (drop_bit 9 insn AND push_bit 11 1) OR (insn AND 0xff000)))"

text \<open>The immediates of the compressed formats.\<close>

definition imm_c_addi4spn :: "u32 \<Rightarrow> u32" where
  "imm_c_addi4spn insn = get_field1 insn 11 4 5 OR get_field1 insn 7 6 9 OR get_field1 insn 6 2 2 OR get_field1 insn 5 3 3"

definition imm_c_lw :: "u32 \<Rightarrow> u32" where
  "imm_c_lw insn = get_field1 insn 10 3 5 OR get_field1 insn 6 2 2 OR get_field1 insn 5 6 6"

definition imm_c_ld :: "u32 \<Rightarrow> u32" where
  "imm_c_ld insn = get_field1 insn 10 3 5 OR get_field1 insn 5 6 7"

definition imm_c_i :: "u32 \<Rightarrow> u32" where
  "imm_c_i insn = sext (get_field1 insn 12 5 5 OR get_field1 insn 2 0 4) 6"

definition imm_c_j :: "u32 \<Rightarrow> u32" where
  "imm_c_j insn = sext (get_field1 insn 12 11 11 OR get_field1 insn 11 4 4 OR get_field1 insn 9 8 9 OR
     get_field1 insn 8 10 10 OR get_field1 insn 7 6 6 OR get_field1 insn 6 7 7 OR get_field1 insn 3 1 3 OR
     get_field1 insn 2 5 5) 12"

definition imm_c_addi16sp :: "u32 \<Rightarrow> u32" where
  "imm_c_addi16sp insn = sext (get_field1 insn 12 9 9 OR get_field1 insn 6 4 4 OR get_field1 insn 5 6 6 OR
     get_field1 insn 3 7 8 OR get_field1 insn 2 5 5) 10"

definition imm_c_lui :: "u32 \<Rightarrow> u32" where
  "imm_c_lui insn = sext (get_field1 insn 12 17 17 OR get_field1 insn 2 12 16) 18"

definition imm_c_shift :: "u32 \<Rightarrow> u32" where
  "imm_c_shift insn = get_field1 insn 12 5 5 OR get_field1 insn 2 0 4"

definition imm_c_b :: "u32 \<Rightarrow> u32" where
  "imm_c_b insn = sext (get_field1 insn 12 8 8 OR get_field1 insn 10 3 4 OR get_field1 insn 5 6 7 OR
     get_field1 insn 3 1 2 OR get_field1 insn 2 5 5) 9"

definition c_rs2 :: "u32 \<Rightarrow> u32" where "c_rs2 insn = drop_bit 2 insn AND 0x1f"

definition imm_c_lwsp :: "u32 \<Rightarrow> u32" where
  "imm_c_lwsp insn = get_field1 insn 12 5 5 OR (c_rs2 insn AND push_bit 2 7) OR get_field1 insn 2 6 7"

definition imm_c_ldsp :: "u32 \<Rightarrow> u32" where
  "imm_c_ldsp insn = get_field1 insn 12 5 5 OR (c_rs2 insn AND push_bit 3 3) OR get_field1 insn 2 6 8"

definition imm_c_swsp :: "u32 \<Rightarrow> u32" where
  "imm_c_swsp insn = get_field1 insn 9 2 5 OR get_field1 insn 7 6 7"

definition imm_c_sdsp :: "u32 \<Rightarrow> u32" where
  "imm_c_sdsp insn = get_field1 insn 10 3 5 OR get_field1 insn 7 6 8"

text \<open>The registers of the compressed formats with three-bit fields.\<close>

definition c_rd' :: "u32 \<Rightarrow> nat" where "c_rd' insn = unat ((drop_bit 2 insn AND 7) OR 8)"
definition c_rs1' :: "u32 \<Rightarrow> nat" where "c_rs1' insn = unat ((drop_bit 7 insn AND 7) OR 8)"

section \<open>Operation tables\<close>

definition sh :: "u32 \<Rightarrow> nat" where "sh v = unat (v AND 31)"

definition alu_op_imm :: "u32 \<Rightarrow> u32 \<Rightarrow> u32 \<Rightarrow> u32 option" where
  "alu_op_imm funct3 a imm =
     (if funct3 = 0 then Some (a + imm)
      else if funct3 = 1 then (if imm AND NOT 31 \<noteq> 0 then None else Some (push_bit (sh imm) a))
      else if funct3 = 2 then Some (of_bool (a <s imm))
      else if funct3 = 3 then Some (of_bool (a < imm))
      else if funct3 = 4 then Some (a XOR imm)
      else if funct3 = 5 then
        (if imm AND NOT (31 OR 0x400) \<noteq> 0 then None
         else if imm AND 0x400 \<noteq> 0 then Some (signed_drop_bit (sh imm) a)
         else Some (drop_bit (sh imm) a))
      else if funct3 = 6 then Some (a OR imm)
      else Some (a AND imm))"

definition alu_muldiv :: "u32 \<Rightarrow> u32 \<Rightarrow> u32 \<Rightarrow> u32" where
  "alu_muldiv funct3 a b =
     (if funct3 = 0 then a * b else if funct3 = 1 then mulh32 a b else if funct3 = 2 then mulhsu32 a b
      else if funct3 = 3 then mulhu32 a b else if funct3 = 4 then div32 a b else if funct3 = 5 then divu32 a b
      else if funct3 = 6 then rem32 a b else remu32 a b)"

definition alu_op :: "u32 \<Rightarrow> u32 \<Rightarrow> u32 \<Rightarrow> u32 option" where
  "alu_op insn a b =
     (let imm = drop_bit 25 insn; funct3 = insn_funct3 insn OR (drop_bit 27 insn AND push_bit 3 1)
      in if imm = 1 then Some (alu_muldiv (insn_funct3 insn) a b)
         else if imm AND NOT 0x20 \<noteq> 0 then None
         else if funct3 = 0 then Some (a + b)
         else if funct3 = 8 then Some (a - b)
         else if funct3 = 1 then Some (push_bit (sh b) a)
         else if funct3 = 2 then Some (of_bool (a <s b))
         else if funct3 = 3 then Some (of_bool (a < b))
         else if funct3 = 4 then Some (a XOR b)
         else if funct3 = 5 then Some (drop_bit (sh b) a)
         else if funct3 = 13 then Some (signed_drop_bit (sh b) a)
         else if funct3 = 6 then Some (a OR b)
         else if funct3 = 7 then Some (a AND b)
         else None)"

definition branch_cond :: "u32 \<Rightarrow> u32 \<Rightarrow> u32 \<Rightarrow> bool option" where
  "branch_cond funct3 a b =
     (let k = drop_bit 1 funct3; flip = bit funct3 0
      in if k = 0 then Some ((a = b) \<noteq> flip)
         else if k = 2 then Some ((a <s b) \<noteq> flip)
         else if k = 3 then Some ((a < b) \<noteq> flip)
         else None)"

text \<open>The value an AMO writes, from the value read and the register; \<open>lr.w\<close> and \<open>sc.w\<close> are elsewhere.\<close>

definition amo_op :: "u32 \<Rightarrow> u32 \<Rightarrow> u32 \<Rightarrow> u32 option" where
  "amo_op funct5 val val2 =
     (if funct5 = 1 then Some val2
      else if funct5 = 0 then Some (val + val2)
      else if funct5 = 4 then Some (val XOR val2)
      else if funct5 = 0xc then Some (val AND val2)
      else if funct5 = 8 then Some (val OR val2)
      else if funct5 = 0x10 then Some (if val <s val2 then val else val2)
      else if funct5 = 0x14 then Some (if val2 <s val then val else val2)
      else if funct5 = 0x18 then Some (if val < val2 then val else val2)
      else if funct5 = 0x1c then Some (if val2 < val then val else val2)
      else None)"

end
