(* ===== verification/Rv_Exec.thy ===== *)
theory Rv_Exec
  imports Bus Rv_Alu
begin

text \<open>
  One instruction of the interpreter (\<open>emu/riscv_cpu_template.h\<close> at XLEN 32 and FLEN 64 with the C
  extension, and \<open>emu/riscv_cpu_fp_template.h\<close>), a definition per group of the opcode switch. The
  arithmetic of the F and D extensions is the vendored SoftFP library: its functions are the
  record \<open>softfp\<close>, an argument of the definitions. A load from an address nothing is mapped at
  leaves the C variable it was to set uninitialised; what that variable then holds is the argument
  \<open>x_junk\<close>.
\<close>

section \<open>Arguments and results\<close>

text \<open>
  SoftFP by operation; the first argument says whether the 64-bit (True) or the 32-bit variant is
  meant. A function that computes a float takes the rounding mode and the flags and returns the
  value and the flags.
\<close>

record softfp =
  sf_add :: "bool \<Rightarrow> u64 \<Rightarrow> u64 \<Rightarrow> u32 \<Rightarrow> u32 \<Rightarrow> u64 \<times> u32"
  sf_sub :: "bool \<Rightarrow> u64 \<Rightarrow> u64 \<Rightarrow> u32 \<Rightarrow> u32 \<Rightarrow> u64 \<times> u32"
  sf_mul :: "bool \<Rightarrow> u64 \<Rightarrow> u64 \<Rightarrow> u32 \<Rightarrow> u32 \<Rightarrow> u64 \<times> u32"
  sf_div :: "bool \<Rightarrow> u64 \<Rightarrow> u64 \<Rightarrow> u32 \<Rightarrow> u32 \<Rightarrow> u64 \<times> u32"
  sf_sqrt :: "bool \<Rightarrow> u64 \<Rightarrow> u32 \<Rightarrow> u32 \<Rightarrow> u64 \<times> u32"
  sf_fma :: "bool \<Rightarrow> u64 \<Rightarrow> u64 \<Rightarrow> u64 \<Rightarrow> u32 \<Rightarrow> u32 \<Rightarrow> u64 \<times> u32"
  sf_min :: "bool \<Rightarrow> u64 \<Rightarrow> u64 \<Rightarrow> u32 \<Rightarrow> u64 \<times> u32"
  sf_max :: "bool \<Rightarrow> u64 \<Rightarrow> u64 \<Rightarrow> u32 \<Rightarrow> u64 \<times> u32"
  sf_to_i32 :: "bool \<Rightarrow> u64 \<Rightarrow> u32 \<Rightarrow> u32 \<Rightarrow> u32 \<times> u32"
  sf_to_u32 :: "bool \<Rightarrow> u64 \<Rightarrow> u32 \<Rightarrow> u32 \<Rightarrow> u32 \<times> u32"
  sf_of_i32 :: "bool \<Rightarrow> u32 \<Rightarrow> u32 \<Rightarrow> u32 \<Rightarrow> u64 \<times> u32"
  sf_of_u32 :: "bool \<Rightarrow> u32 \<Rightarrow> u32 \<Rightarrow> u32 \<Rightarrow> u64 \<times> u32"
  sf_le :: "bool \<Rightarrow> u64 \<Rightarrow> u64 \<Rightarrow> u32 \<Rightarrow> u32 \<times> u32"
  sf_lt :: "bool \<Rightarrow> u64 \<Rightarrow> u64 \<Rightarrow> u32 \<Rightarrow> u32 \<times> u32"
  sf_eq :: "bool \<Rightarrow> u64 \<Rightarrow> u64 \<Rightarrow> u32 \<Rightarrow> u32 \<times> u32"
  sf_64_to_32 :: "u64 \<Rightarrow> u32 \<Rightarrow> u32 \<Rightarrow> u64 \<times> u32"
  sf_32_to_64 :: "u64 \<Rightarrow> u32 \<Rightarrow> u64 \<times> u32"
  sf_class :: "bool \<Rightarrow> u64 \<Rightarrow> u32"

record xenv =
  x_plat :: plat
  x_fpu :: softfp
  x_junk :: "sys \<Rightarrow> u64"

text \<open>
  How an instruction ends: \<open>code_ptr += n; break\<close>, \<open>JUMP_INSN\<close> (the new pc is in the hart),
  \<open>goto done_interp\<close>, \<open>goto exception\<close> or \<open>goto mmu_exception\<close> (the exception is pending in the
  hart), \<open>goto illegal_insn\<close>.
\<close>

datatype flow = Next nat | Jump | Done | Raise | Illegal

section \<open>Registers and memory\<close>

definition reg :: "sys \<Rightarrow> nat \<Rightarrow> u32" where
  "reg y r = c_reg (e_cpu (sy_emu y)) r"

definition upd_hart :: "(cpu \<Rightarrow> cpu) \<Rightarrow> sys \<Rightarrow> sys" where
  "upd_hart f y = upd_emu (upd_cpu f) y"

definition put_reg :: "nat \<Rightarrow> u32 \<Rightarrow> sys \<Rightarrow> sys" where
  "put_reg r v = upd_hart (\<lambda>c. c\<lparr>c_reg := (c_reg c)(r := v)\<rparr>)"

text \<open>\<open>if (rd != 0) s->reg[rd] = val;\<close>\<close>

definition set_reg :: "nat \<Rightarrow> u32 \<Rightarrow> sys \<Rightarrow> sys" where
  "set_reg r v y = (if r = 0 then y else put_reg r v y)"

definition set_pc :: "u32 \<Rightarrow> sys \<Rightarrow> sys" where
  "set_pc v = upd_hart (\<lambda>c. c\<lparr>c_pc := v\<rparr>)"

definition fpreg :: "sys \<Rightarrow> nat \<Rightarrow> u64" where
  "fpreg y r = c_fp_reg (e_cpu (sy_emu y)) r"

text \<open>A result in a floating-point register: always with \<open>s->fs = 3\<close>.\<close>

definition put_fp :: "nat \<Rightarrow> u64 \<Rightarrow> sys \<Rightarrow> sys" where
  "put_fp r v = upd_hart (\<lambda>c. c\<lparr>c_fp_reg := (c_fp_reg c)(r := v), c_fs := 3\<rparr>)"

definition fs_off :: "sys \<Rightarrow> bool" where
  "fs_off y \<longleftrightarrow> c_fs (e_cpu (sy_emu y)) = 0"

definition F32_HIGH :: u64 where "F32_HIGH = push_bit 32 (-1)"

text \<open>\<open>if (target_read_uN(s, &rval, addr)) goto mmu_exception;\<close> and the same for a store.\<close>

definition load_then :: "xenv \<Rightarrow> nat \<Rightarrow> u32 \<Rightarrow> sys \<Rightarrow> (u64 \<Rightarrow> sys \<Rightarrow> flow \<times> sys) \<Rightarrow> flow \<times> sys" where
  "load_then E sz addr y k =
     (case target_read (x_plat E) y addr sz of
        (MemFault, y1) \<Rightarrow> (Raise, y1)
      | (MemOk v, y1) \<Rightarrow> k (take_bit (8 * 2 ^ sz) v) y1
      | (MemUnset, y1) \<Rightarrow> k (take_bit (8 * 2 ^ sz) (x_junk E y1)) y1)"

definition store_then :: "xenv \<Rightarrow> nat \<Rightarrow> u32 \<Rightarrow> u64 \<Rightarrow> sys \<Rightarrow> (sys \<Rightarrow> flow \<times> sys) \<Rightarrow> flow \<times> sys" where
  "store_then E sz addr v y k =
     (case target_write (x_plat E) y addr (take_bit (8 * 2 ^ sz) v) sz of
        (True, y1) \<Rightarrow> k y1
      | (False, y1) \<Rightarrow> (Raise, y1))"

section \<open>Compressed instructions\<close>

definition exec_c0 :: "xenv \<Rightarrow> sys \<Rightarrow> u32 \<Rightarrow> flow \<times> sys" where
  "exec_c0 E y insn =
     (let funct3 = drop_bit 13 insn AND 7; rd = c_rd' insn; rs1 = c_rs1' insn
      in if funct3 = 0 then
           (if imm_c_addi4spn insn = 0 then (Illegal, y)
            else (Next 2, put_reg rd (reg y 2 + imm_c_addi4spn insn) y))
         else if funct3 = 1 then
           (if fs_off y then (Illegal, y)
            else load_then E 3 (reg y rs1 + imm_c_ld insn) y (\<lambda>v y1. (Next 2, put_fp rd v y1)))
         else if funct3 = 2 then
           load_then E 2 (reg y rs1 + imm_c_lw insn) y (\<lambda>v y1. (Next 2, put_reg rd (ucast v) y1))
         else if funct3 = 3 then
           (if fs_off y then (Illegal, y)
            else load_then E 2 (reg y rs1 + imm_c_lw insn) y (\<lambda>v y1. (Next 2, put_fp rd (v OR F32_HIGH) y1)))
         else if funct3 = 5 then
           (if fs_off y then (Illegal, y)
            else store_then E 3 (reg y rs1 + imm_c_ld insn) (fpreg y rd) y (\<lambda>y1. (Next 2, y1)))
         else if funct3 = 6 then
           store_then E 2 (reg y rs1 + imm_c_lw insn) (ucast (reg y rd)) y (\<lambda>y1. (Next 2, y1))
         else if funct3 = 7 then
           (if fs_off y then (Illegal, y)
            else store_then E 2 (reg y rs1 + imm_c_lw insn) (fpreg y rd) y (\<lambda>y1. (Next 2, y1)))
         else (Illegal, y))"

text \<open>\<open>c.srli\<close> to \<open>c.and\<close>: case 4 of quadrant 1.\<close>

definition exec_c1_alu :: "sys \<Rightarrow> u32 \<Rightarrow> flow \<times> sys" where
  "exec_c1_alu y insn =
     (let funct3 = drop_bit 10 insn AND 3; rd = c_rs1' insn; a = reg y rd
      in if funct3 = 0 \<or> funct3 = 1 then
           (let imm = imm_c_shift insn
            in if imm AND 0x20 \<noteq> 0 then (Illegal, y)
               else if funct3 = 0 then (Next 2, put_reg rd (drop_bit (unat imm) a) y)
               else (Next 2, put_reg rd (signed_drop_bit (unat imm) a) y))
         else if funct3 = 2 then (Next 2, put_reg rd (a AND imm_c_i insn) y)
         else
           let b = reg y (c_rd' insn); f = (drop_bit 5 insn AND 3) OR (drop_bit 10 insn AND 4)
           in if f = 0 then (Next 2, put_reg rd (a - b) y)
              else if f = 1 then (Next 2, put_reg rd (a XOR b) y)
              else if f = 2 then (Next 2, put_reg rd (a OR b) y)
              else if f = 3 then (Next 2, put_reg rd (a AND b) y)
              else (Illegal, y))"

definition exec_c1 :: "u32 \<Rightarrow> sys \<Rightarrow> u32 \<Rightarrow> flow \<times> sys" where
  "exec_c1 pc y insn =
     (let funct3 = drop_bit 13 insn AND 7; rd = insn_rd insn
      in if funct3 = 0 then (Next 2, set_reg rd (reg y rd + imm_c_i insn) y)
         else if funct3 = 1 then (Jump, set_pc (pc + imm_c_j insn) (put_reg 1 (pc + 2) y))
         else if funct3 = 2 then (Next 2, set_reg rd (imm_c_i insn) y)
         else if funct3 = 3 then
           (if rd = 2 then
              (if imm_c_addi16sp insn = 0 then (Illegal, y)
               else (Next 2, put_reg 2 (reg y 2 + imm_c_addi16sp insn) y))
            else (Next 2, set_reg rd (imm_c_lui insn) y))
         else if funct3 = 4 then exec_c1_alu y insn
         else if funct3 = 5 then (Jump, set_pc (pc + imm_c_j insn) y)
         else if funct3 = 6 then
           (if reg y (c_rs1' insn) = 0 then (Jump, set_pc (pc + imm_c_b insn) y) else (Next 2, y))
         else
           (if reg y (c_rs1' insn) \<noteq> 0 then (Jump, set_pc (pc + imm_c_b insn) y) else (Next 2, y)))"

definition CAUSE_BREAKPOINT :: u32 where "CAUSE_BREAKPOINT = 3"
definition CAUSE_USER_ECALL :: u32 where "CAUSE_USER_ECALL = 8"

definition pend :: "u32 \<Rightarrow> sys \<Rightarrow> sys" where
  "pend cause = upd_hart (\<lambda>c. c\<lparr>c_pending_exception := cause\<rparr>)"

text \<open>\<open>c.jr\<close>, \<open>c.mv\<close>, \<open>c.ebreak\<close>, \<open>c.jalr\<close> and \<open>c.add\<close>: case 4 of quadrant 2.\<close>

definition exec_c2_cr :: "u32 \<Rightarrow> sys \<Rightarrow> u32 \<Rightarrow> flow \<times> sys" where
  "exec_c2_cr pc y insn =
     (let rd = insn_rd insn; rs2 = unat (c_rs2 insn)
      in if drop_bit 12 insn AND 1 = 0 then
           (if rs2 = 0 then
              (if rd = 0 then (Illegal, y) else (Jump, set_pc (reg y rd AND NOT 1) y))
            else (Next 2, set_reg rd (reg y rs2) y))
         else if rs2 = 0 then
           (if rd = 0 then (Raise, pend CAUSE_BREAKPOINT y)
            else (Jump, put_reg 1 (pc + 2) (set_pc (reg y rd AND NOT 1) y)))
         else (Next 2, set_reg rd (reg y rd + reg y rs2) y))"

definition exec_c2 :: "xenv \<Rightarrow> u32 \<Rightarrow> sys \<Rightarrow> u32 \<Rightarrow> flow \<times> sys" where
  "exec_c2 E pc y insn =
     (let funct3 = drop_bit 13 insn AND 7; rd = insn_rd insn; rs2 = unat (c_rs2 insn); sp = reg y 2
      in if funct3 = 0 then
           (let imm = get_field1 insn 12 5 5 OR c_rs2 insn
            in if imm AND 0x20 \<noteq> 0 then (Illegal, y)
               else (Next 2, set_reg rd (push_bit (unat imm) (reg y rd)) y))
         else if funct3 = 1 then
           (if fs_off y then (Illegal, y)
            else load_then E 3 (sp + imm_c_ldsp insn) y (\<lambda>v y1. (Next 2, put_fp rd v y1)))
         else if funct3 = 2 then
           load_then E 2 (sp + imm_c_lwsp insn) y (\<lambda>v y1. (Next 2, set_reg rd (ucast v) y1))
         else if funct3 = 3 then
           (if fs_off y then (Illegal, y)
            else load_then E 2 (sp + imm_c_lwsp insn) y (\<lambda>v y1. (Next 2, put_fp rd (v OR F32_HIGH) y1)))
         else if funct3 = 4 then exec_c2_cr pc y insn
         else if funct3 = 5 then
           (if fs_off y then (Illegal, y)
            else store_then E 3 (sp + imm_c_sdsp insn) (fpreg y rs2) y (\<lambda>y1. (Next 2, y1)))
         else if funct3 = 6 then
           store_then E 2 (sp + imm_c_swsp insn) (ucast (reg y rs2)) y (\<lambda>y1. (Next 2, y1))
         else
           (if fs_off y then (Illegal, y)
            else store_then E 2 (sp + imm_c_swsp insn) (fpreg y rs2) y (\<lambda>y1. (Next 2, y1))))"

section \<open>Control transfer, loads and stores\<close>

definition exec_jal :: "u32 \<Rightarrow> sys \<Rightarrow> u32 \<Rightarrow> flow \<times> sys" where
  "exec_jal pc y insn = (Jump, set_pc (pc + imm_j insn) (set_reg (insn_rd insn) (pc + 4) y))"

definition exec_jalr :: "u32 \<Rightarrow> sys \<Rightarrow> u32 \<Rightarrow> flow \<times> sys" where
  "exec_jalr pc y insn =
     (Jump, set_reg (insn_rd insn) (pc + 4) (set_pc ((reg y (insn_rs1 insn) + imm_i insn) AND NOT 1) y))"

definition exec_branch :: "u32 \<Rightarrow> sys \<Rightarrow> u32 \<Rightarrow> flow \<times> sys" where
  "exec_branch pc y insn =
     (case branch_cond (insn_funct3 insn) (reg y (insn_rs1 insn)) (reg y (insn_rs2 insn)) of
        None \<Rightarrow> (Illegal, y)
      | Some c \<Rightarrow> if c then (Jump, set_pc (pc + imm_b insn) y) else (Next 4, y))"

text \<open>The sign or zero extension of a loaded value, by \<open>funct3\<close>.\<close>

definition load_value :: "u32 \<Rightarrow> u64 \<Rightarrow> u32" where
  "load_value funct3 v =
     (if funct3 = 0 then scast (ucast v :: u8)
      else if funct3 = 1 then scast (ucast v :: u16)
      else ucast v)"

definition exec_load :: "xenv \<Rightarrow> sys \<Rightarrow> u32 \<Rightarrow> flow \<times> sys" where
  "exec_load E y insn =
     (let funct3 = insn_funct3 insn
      in if funct3 \<in> {0, 1, 2, 4, 5} then
           load_then E (unat (funct3 AND 3)) (reg y (insn_rs1 insn) + imm_i insn) y
             (\<lambda>v y1. (Next 4, set_reg (insn_rd insn) (load_value funct3 v) y1))
         else (Illegal, y))"

definition exec_store :: "xenv \<Rightarrow> sys \<Rightarrow> u32 \<Rightarrow> flow \<times> sys" where
  "exec_store E y insn =
     (let funct3 = insn_funct3 insn
      in if funct3 \<in> {0, 1, 2} then
           store_then E (unat funct3) (reg y (insn_rs1 insn) + imm_s insn) (ucast (reg y (insn_rs2 insn))) y
             (\<lambda>y1. (Next 4, y1))
         else (Illegal, y))"

section \<open>Integer arithmetic\<close>

definition exec_op_imm :: "sys \<Rightarrow> u32 \<Rightarrow> flow \<times> sys" where
  "exec_op_imm y insn =
     (case alu_op_imm (insn_funct3 insn) (reg y (insn_rs1 insn)) (imm_i insn) of
        None \<Rightarrow> (Illegal, y)
      | Some v \<Rightarrow> (Next 4, set_reg (insn_rd insn) v y))"

definition exec_op :: "sys \<Rightarrow> u32 \<Rightarrow> flow \<times> sys" where
  "exec_op y insn =
     (case alu_op insn (reg y (insn_rs1 insn)) (reg y (insn_rs2 insn)) of
        None \<Rightarrow> (Illegal, y)
      | Some v \<Rightarrow> (Next 4, set_reg (insn_rd insn) v y))"

section \<open>System instructions\<close>

text \<open>
  \<open>csr_read()\<close> in its place: the clock is asked only when the CSR is \<open>time\<close> or \<open>timeh\<close> and the
  access is allowed.
\<close>

definition csr_read_sys :: "plat \<Rightarrow> sys \<Rightarrow> u32 \<Rightarrow> bool \<Rightarrow> u32 option \<times> sys" where
  "csr_read_sys P y csr will_write =
     (let c = e_cpu (sy_emu y)
      in if (csr = 0xc01 \<or> csr = 0xc81) \<and> csr_read 0 c csr will_write \<noteq> None then
           let (t, s) = riscv_host_rdtime P (sy_emu y) in (csr_read t c csr will_write, y\<lparr>sy_emu := s\<rparr>)
         else (csr_read 0 c csr will_write, y))"

text \<open>
  \<open>csrrw\<close> and its kin. \<open>icount\<close> is \<open>GET_INSN_COUNTER()\<close>. \<open>csr_write()\<close> answers 2 after a TLB
  flush, which restarts the block; it never answers 1.
\<close>

definition csr_commit :: "u32 \<Rightarrow> nat \<Rightarrow> u32 \<Rightarrow> u32 \<Rightarrow> u32 \<Rightarrow> sys \<Rightarrow> flow \<times> sys" where
  "csr_commit pc rd csr old new y =
     (let (c, err) = csr_write (e_cpu (sy_emu y)) csr new; y2 = upd_hart (\<lambda>_. c) y
      in if err < 0 then (Illegal, y2)
         else if 0 < err then (if err = 2 then Jump else Done, set_pc (pc + 4) (set_reg rd old y2))
         else (Next 4, set_reg rd old y2))"

definition exec_csr :: "xenv \<Rightarrow> u64 \<Rightarrow> u32 \<Rightarrow> sys \<Rightarrow> u32 \<Rightarrow> flow \<times> sys" where
  "exec_csr E icount pc y insn =
     (let funct3 = insn_funct3 insn; imm = drop_bit 20 insn; rs1 = insn_rs1 insn; rd = insn_rd insn;
          val = (if funct3 AND 4 \<noteq> 0 then of_nat rs1 else reg y rs1);
          op = funct3 AND 3;
          writes = (op = 1 \<or> rs1 \<noteq> 0);
          y0 = upd_hart (\<lambda>c. c\<lparr>c_insn_counter := icount\<rparr>) y
      in case csr_read_sys (x_plat E) y0 imm writes of
           (None, y1) \<Rightarrow> (Illegal, y1)
         | (Some old, y1) \<Rightarrow>
             if \<not> writes then (Next 4, set_reg rd old y1)
             else
               csr_commit pc rd imm old (if op = 1 then val else if op = 2 then old OR val else old AND NOT val) y1)"

definition exec_priv :: "u32 \<Rightarrow> sys \<Rightarrow> u32 \<Rightarrow> flow \<times> sys" where
  "exec_priv pc y insn =
     (let imm = drop_bit 20 insn; c = e_cpu (sy_emu y)
      in if imm = 0x000 then
           (if insn AND 0xfff80 \<noteq> 0 then (Illegal, y)
            else (Raise, pend (CAUSE_USER_ECALL + of_nat (c_priv c)) y))
         else if imm = 0x001 then
           (if insn AND 0xfff80 \<noteq> 0 then (Illegal, y) else (Raise, pend CAUSE_BREAKPOINT y))
         else if imm = 0x102 then
           (if insn AND 0xfff80 \<noteq> 0 \<or> c_priv c < PRV_S then (Illegal, y)
            else (Done, upd_hart handle_sret (set_pc pc y)))
         else if imm = 0x302 then
           (if insn AND 0xfff80 \<noteq> 0 \<or> c_priv c < PRV_M then (Illegal, y)
            else (Done, upd_hart handle_mret (set_pc pc y)))
         else if imm = 0x105 then
           (if insn AND 0x7f80 \<noteq> 0 \<or> c_priv c = PRV_U then (Illegal, y)
            else if c_mip c AND c_mie c = 0
            then (Done, set_pc (pc + 4) (upd_hart (\<lambda>c. c\<lparr>c_power_down_flag := True\<rparr>) y))
            else (Next 4, y))
         else if drop_bit 5 imm = 9 then
           (if insn AND 0x7f80 \<noteq> 0 \<or> c_priv c = PRV_U then (Illegal, y)
            else (Jump, set_pc (pc + 4)
                   (upd_hart (\<lambda>c. if insn_rs1 insn = 0 then tlb_flush_all c
                                  else tlb_flush_vaddr c (reg y (insn_rs1 insn))) y)))
         else (Illegal, y))"

definition exec_system :: "xenv \<Rightarrow> u64 \<Rightarrow> u32 \<Rightarrow> sys \<Rightarrow> u32 \<Rightarrow> flow \<times> sys" where
  "exec_system E icount pc y insn =
     (if insn_funct3 insn AND 3 = 0 then exec_priv pc y insn else exec_csr E icount pc y insn)"

definition exec_misc_mem :: "sys \<Rightarrow> u32 \<Rightarrow> flow \<times> sys" where
  "exec_misc_mem y insn =
     (let funct3 = insn_funct3 insn
      in if funct3 = 0 then (if insn AND 0xf00fff80 \<noteq> 0 then (Illegal, y) else (Next 4, y))
         else if funct3 = 1 then (if insn \<noteq> 0x0000100f then (Illegal, y) else (Next 4, y))
         else (Illegal, y))"

section \<open>Atomics\<close>

definition exec_amo :: "xenv \<Rightarrow> sys \<Rightarrow> u32 \<Rightarrow> flow \<times> sys" where
  "exec_amo E y insn =
     (let addr = reg y (insn_rs1 insn); funct5 = drop_bit 27 insn; rd = insn_rd insn; rs2 = insn_rs2 insn
      in if insn_funct3 insn \<noteq> 2 then (Illegal, y)
         else if funct5 = 2 then
           (if rs2 \<noteq> 0 then (Illegal, y)
            else load_then E 2 addr y
                   (\<lambda>v y1. (Next 4, set_reg rd (ucast v) (upd_hart (\<lambda>c. c\<lparr>c_load_res := addr\<rparr>) y1))))
         else if funct5 = 3 then
           (if c_load_res (e_cpu (sy_emu y)) = addr
            then store_then E 2 addr (ucast (reg y rs2)) y (\<lambda>y1. (Next 4, set_reg rd 0 y1))
            else (Next 4, set_reg rd 1 y))
         else if amo_op funct5 0 0 = None then (Illegal, y)
         else
           load_then E 2 addr y (\<lambda>v y1.
             case amo_op funct5 (ucast v) (reg y1 rs2) of
               None \<Rightarrow> (Illegal, y1)
             | Some v2 \<Rightarrow> store_then E 2 addr (ucast v2) y1 (\<lambda>y2. (Next 4, set_reg rd (ucast v) y2))))"

section \<open>Floating point\<close>

definition exec_fp_load :: "xenv \<Rightarrow> sys \<Rightarrow> u32 \<Rightarrow> flow \<times> sys" where
  "exec_fp_load E y insn =
     (let addr = reg y (insn_rs1 insn) + imm_i insn; rd = insn_rd insn
      in if fs_off y then (Illegal, y)
         else if insn_funct3 insn = 2 then load_then E 2 addr y (\<lambda>v y1. (Next 4, put_fp rd (v OR F32_HIGH) y1))
         else if insn_funct3 insn = 3 then load_then E 3 addr y (\<lambda>v y1. (Next 4, put_fp rd v y1))
         else (Illegal, y))"

definition exec_fp_store :: "xenv \<Rightarrow> sys \<Rightarrow> u32 \<Rightarrow> flow \<times> sys" where
  "exec_fp_store E y insn =
     (let addr = reg y (insn_rs1 insn) + imm_s insn; v = fpreg y (insn_rs2 insn)
      in if fs_off y then (Illegal, y)
         else if insn_funct3 insn = 2 then store_then E 2 addr v y (\<lambda>y1. (Next 4, y1))
         else if insn_funct3 insn = 3 then store_then E 3 addr v y (\<lambda>y1. (Next 4, y1))
         else (Illegal, y))"

text \<open>
  The conversions of a register's 64 bits to and from the type of the SoftFP function, and the
  sign masks: \<open>FSIGN_MASK32\<close> is the \<open>int\<close> \<open>1 << 31\<close>, so it widens to 64 bits by its sign.
\<close>

definition fp_arg :: "bool \<Rightarrow> u64 \<Rightarrow> u64" where
  "fp_arg d v = (if d then v else take_bit 32 v)"

definition fp_res :: "bool \<Rightarrow> u64 \<Rightarrow> u64" where
  "fp_res d v = (if d then v else take_bit 32 v OR F32_HIGH)"

definition FSIGN_MASK :: "bool \<Rightarrow> u64" where
  "FSIGN_MASK d = (if d then push_bit 63 1 else scast (push_bit 31 1 :: u32))"

text \<open>A result with its flags into a floating-point register, and into an integer register.\<close>

definition put_fp_flags :: "bool \<Rightarrow> nat \<Rightarrow> u64 \<times> u32 \<Rightarrow> sys \<Rightarrow> sys" where
  "put_fp_flags d rd r y = upd_hart (\<lambda>c. c\<lparr>c_fflags := snd r\<rparr>) (put_fp rd (fp_res d (fst r)) y)"

definition set_reg_flags :: "nat \<Rightarrow> u32 \<times> u32 \<Rightarrow> sys \<Rightarrow> sys" where
  "set_reg_flags rd r y = set_reg rd (fst r) (upd_hart (\<lambda>c. c\<lparr>c_fflags := snd r\<rparr>) y)"

text \<open>\<open>fmadd\<close>, \<open>fmsub\<close>, \<open>fnmsub\<close>, \<open>fnmadd\<close>: whether the product's first factor and the addend are negated.\<close>

definition exec_fma :: "xenv \<Rightarrow> bool \<Rightarrow> bool \<Rightarrow> sys \<Rightarrow> u32 \<Rightarrow> flow \<times> sys" where
  "exec_fma E neg1 neg3 y insn =
     (let c = e_cpu (sy_emu y); fmt = drop_bit 25 insn AND 3; d = (fmt = 1); rs3 = unat (drop_bit 27 insn);
          sgn1 = (if neg1 then FSIGN_MASK d else 0); sgn3 = (if neg3 then FSIGN_MASK d else 0)
      in if fs_off y then (Illegal, y)
         else case get_insn_rm c (insn_funct3 insn) of
           None \<Rightarrow> (Illegal, y)
         | Some rm \<Rightarrow>
             if 1 < fmt then (Illegal, y)
             else (Next 4, put_fp_flags d (insn_rd insn)
                     (sf_fma (x_fpu E) d (fp_arg d (fpreg y (insn_rs1 insn) XOR sgn1))
                        (fp_arg d (fpreg y (insn_rs2 insn)))
                        (fp_arg d (fpreg y rs3 XOR sgn3)) rm (c_fflags c)) y))"

text \<open>Arithmetic. The rounding mode \<open>rm\<close> is what \<open>get_insn_rm()\<close> answered.\<close>

definition exec_fp_arith :: "xenv \<Rightarrow> bool \<Rightarrow> u32 \<Rightarrow> u32 \<Rightarrow> sys \<Rightarrow> u32 \<Rightarrow> flow \<times> sys" where
  "exec_fp_arith E d op rm y insn =
     (let F = x_fpu E; ff = c_fflags (e_cpu (sy_emu y)); rd = insn_rd insn; rs2 = insn_rs2 insn;
          a = fp_arg d (fpreg y (insn_rs1 insn)); b = fp_arg d (fpreg y rs2)
      in if op = 0x00 then (Next 4, put_fp_flags d rd (sf_add F d a b rm ff) y)
         else if op = 0x01 then (Next 4, put_fp_flags d rd (sf_sub F d a b rm ff) y)
         else if op = 0x02 then (Next 4, put_fp_flags d rd (sf_mul F d a b rm ff) y)
         else if op = 0x03 then (Next 4, put_fp_flags d rd (sf_div F d a b rm ff) y)
         else if rs2 \<noteq> 0 then (Illegal, y)
         else (Next 4, put_fp_flags d rd (sf_sqrt F d a rm ff) y))"

text \<open>Conversions to an integer, from one, and between the two formats.\<close>

definition exec_fp_to_int :: "xenv \<Rightarrow> bool \<Rightarrow> u32 \<Rightarrow> sys \<Rightarrow> u32 \<Rightarrow> flow \<times> sys" where
  "exec_fp_to_int E d rm y insn =
     (let F = x_fpu E; ff = c_fflags (e_cpu (sy_emu y)); rd = insn_rd insn; rs2 = insn_rs2 insn;
          a = fp_arg d (fpreg y (insn_rs1 insn))
      in if rs2 = 0 then (Next 4, set_reg_flags rd (sf_to_i32 F d a rm ff) y)
         else if rs2 = 1 then (Next 4, set_reg_flags rd (sf_to_u32 F d a rm ff) y)
         else (Illegal, y))"

definition exec_fp_of_int :: "xenv \<Rightarrow> bool \<Rightarrow> u32 \<Rightarrow> sys \<Rightarrow> u32 \<Rightarrow> flow \<times> sys" where
  "exec_fp_of_int E d rm y insn =
     (let F = x_fpu E; ff = c_fflags (e_cpu (sy_emu y)); rd = insn_rd insn; rs2 = insn_rs2 insn;
          i = reg y (insn_rs1 insn)
      in if rs2 = 0 then (Next 4, put_fp_flags d rd (sf_of_i32 F d i rm ff) y)
         else if rs2 = 1 then (Next 4, put_fp_flags d rd (sf_of_u32 F d i rm ff) y)
         else (Illegal, y))"

definition exec_fp_cvt :: "xenv \<Rightarrow> bool \<Rightarrow> u32 \<Rightarrow> sys \<Rightarrow> u32 \<Rightarrow> flow \<times> sys" where
  "exec_fp_cvt E d rm y insn =
     (let F = x_fpu E; ff = c_fflags (e_cpu (sy_emu y)); rd = insn_rd insn; rs2 = insn_rs2 insn;
          a = fpreg y (insn_rs1 insn)
      in if \<not> d \<and> rs2 = 1 then (Next 4, put_fp_flags False rd (sf_64_to_32 F a rm ff) y)
         else if d \<and> rs2 = 0 then (Next 4, put_fp_flags True rd (sf_32_to_64 F (fp_arg False a) ff) y)
         else (Illegal, y))"

text \<open>Sign injection, minimum and maximum, comparison, moves and classification: these do not round.\<close>

definition exec_fp_sgnj :: "bool \<Rightarrow> sys \<Rightarrow> u32 \<Rightarrow> flow \<times> sys" where
  "exec_fp_sgnj d y insn =
     (let rd = insn_rd insn; rm = insn_funct3 insn; a = fpreg y (insn_rs1 insn); b = fpreg y (insn_rs2 insn);
          m = FSIGN_MASK d
      in if rm = 0 then (Next 4, put_fp rd ((a AND NOT m) OR (b AND m)) y)
         else if rm = 1 then (Next 4, put_fp rd ((a AND NOT m) OR ((b AND m) XOR m)) y)
         else if rm = 2 then (Next 4, put_fp rd (a XOR (b AND m)) y)
         else (Illegal, y))"

definition exec_fp_minmax :: "xenv \<Rightarrow> bool \<Rightarrow> sys \<Rightarrow> u32 \<Rightarrow> flow \<times> sys" where
  "exec_fp_minmax E d y insn =
     (let F = x_fpu E; ff = c_fflags (e_cpu (sy_emu y)); rd = insn_rd insn; rm = insn_funct3 insn;
          a = fp_arg d (fpreg y (insn_rs1 insn)); b = fp_arg d (fpreg y (insn_rs2 insn))
      in if rm = 0 then (Next 4, put_fp_flags d rd (sf_min F d a b ff) y)
         else if rm = 1 then (Next 4, put_fp_flags d rd (sf_max F d a b ff) y)
         else (Illegal, y))"

definition exec_fp_cmp :: "xenv \<Rightarrow> bool \<Rightarrow> sys \<Rightarrow> u32 \<Rightarrow> flow \<times> sys" where
  "exec_fp_cmp E d y insn =
     (let F = x_fpu E; ff = c_fflags (e_cpu (sy_emu y)); rd = insn_rd insn; rm = insn_funct3 insn;
          a = fp_arg d (fpreg y (insn_rs1 insn)); b = fp_arg d (fpreg y (insn_rs2 insn))
      in if rm = 0 then (Next 4, set_reg_flags rd (sf_le F d a b ff) y)
         else if rm = 1 then (Next 4, set_reg_flags rd (sf_lt F d a b ff) y)
         else if rm = 2 then (Next 4, set_reg_flags rd (sf_eq F d a b ff) y)
         else (Illegal, y))"

definition exec_fp_mv :: "xenv \<Rightarrow> bool \<Rightarrow> sys \<Rightarrow> u32 \<Rightarrow> flow \<times> sys" where
  "exec_fp_mv E d y insn =
     (let rd = insn_rd insn; rm = insn_funct3 insn; a = fpreg y (insn_rs1 insn)
      in if insn_rs2 insn \<noteq> 0 then (Illegal, y)
         else if \<not> d \<and> rm = 0 then (Next 4, set_reg rd (ucast a) y)
         else if rm = 1 then (Next 4, set_reg rd (sf_class (x_fpu E) d (fp_arg d a)) y)
         else (Illegal, y))"

definition exec_fp_mv_x :: "sys \<Rightarrow> u32 \<Rightarrow> flow \<times> sys" where
  "exec_fp_mv_x y insn =
     (if insn_rs2 insn \<noteq> 0 \<or> insn_funct3 insn \<noteq> 0 then (Illegal, y)
      else (Next 4, put_fp (insn_rd insn) (scast (reg y (insn_rs1 insn))) y))"

definition exec_fp :: "xenv \<Rightarrow> sys \<Rightarrow> u32 \<Rightarrow> flow \<times> sys" where
  "exec_fp E y insn =
     (let fmt = drop_bit 25 insn AND 3; op = drop_bit 27 insn; d = (fmt = 1);
          rounded = (\<lambda>k. case get_insn_rm (e_cpu (sy_emu y)) (insn_funct3 insn) of None \<Rightarrow> (Illegal, y) | Some rm \<Rightarrow> k rm)
      in if fs_off y then (Illegal, y)
         else if 1 < fmt then (Illegal, y)
         else if op \<in> {0x00, 0x01, 0x02, 0x03, 0x0b} then rounded (\<lambda>rm. exec_fp_arith E d op rm y insn)
         else if op = 0x04 then exec_fp_sgnj d y insn
         else if op = 0x05 then exec_fp_minmax E d y insn
         else if op = 0x18 then rounded (\<lambda>rm. exec_fp_to_int E d rm y insn)
         else if op = 0x14 then exec_fp_cmp E d y insn
         else if op = 0x1a then rounded (\<lambda>rm. exec_fp_of_int E d rm y insn)
         else if op = 0x08 then rounded (\<lambda>rm. exec_fp_cvt E d rm y insn)
         else if op = 0x1c then exec_fp_mv E d y insn
         else if op = 0x1e \<and> \<not> d then exec_fp_mv_x y insn
         else (Illegal, y))"

lemmas exec_fp_parts = exec_fp_arith_def exec_fp_to_int_def exec_fp_of_int_def exec_fp_cvt_def exec_fp_sgnj_def
  exec_fp_minmax_def exec_fp_cmp_def exec_fp_mv_def exec_fp_mv_x_def

section \<open>The opcode switch\<close>

definition exec_insn :: "xenv \<Rightarrow> u64 \<Rightarrow> u32 \<Rightarrow> sys \<Rightarrow> u32 \<Rightarrow> flow \<times> sys" where
  "exec_insn E icount pc y insn =
     (let opcode = insn AND 0x7f
      in if insn AND 3 = 0 then exec_c0 E y insn
         else if insn AND 3 = 1 then exec_c1 pc y insn
         else if insn AND 3 = 2 then exec_c2 E pc y insn
         else if opcode = 0x37 then (Next 4, set_reg (insn_rd insn) (imm_u insn) y)
         else if opcode = 0x17 then (Next 4, set_reg (insn_rd insn) (pc + imm_u insn) y)
         else if opcode = 0x6f then exec_jal pc y insn
         else if opcode = 0x67 then exec_jalr pc y insn
         else if opcode = 0x63 then exec_branch pc y insn
         else if opcode = 0x03 then exec_load E y insn
         else if opcode = 0x23 then exec_store E y insn
         else if opcode = 0x13 then exec_op_imm y insn
         else if opcode = 0x33 then exec_op y insn
         else if opcode = 0x73 then exec_system E icount pc y insn
         else if opcode = 0x0f then exec_misc_mem y insn
         else if opcode = 0x2f then exec_amo E y insn
         else if opcode = 0x07 then exec_fp_load E y insn
         else if opcode = 0x27 then exec_fp_store E y insn
         else if opcode = 0x43 then exec_fma E False False y insn
         else if opcode = 0x47 then exec_fma E False True y insn
         else if opcode = 0x4b then exec_fma E True False y insn
         else if opcode = 0x4f then exec_fma E True True y insn
         else if opcode = 0x53 then exec_fp E y insn
         else (Illegal, y))"

section \<open>An instruction is two or four bytes long\<close>

definition even_next :: "flow \<times> sys \<Rightarrow> bool" where
  "even_next r \<longleftrightarrow> (case fst r of Next n \<Rightarrow> n = 2 \<or> n = 4 | _ \<Rightarrow> True)"

lemma even_next_simps [simp]:
  "even_next (Next n, y) \<longleftrightarrow> n = 2 \<or> n = 4" "even_next (Jump, y)" "even_next (Done, y)" "even_next (Raise, y)" "even_next (Illegal, y)"
  by (simp_all add: even_next_def)

lemma even_next_load [simp]: "(\<And>v y. even_next (k v y)) \<Longrightarrow> even_next (load_then E sz a y k)"
  by (simp add: load_then_def split: prod.split mem_res.split)

lemma even_next_store [simp]: "(\<And>y. even_next (k y)) \<Longrightarrow> even_next (store_then E sz a v y k)"
  by (simp add: store_then_def split: prod.split bool.split)

lemma even_next_c: "even_next (exec_c0 E y insn)" "even_next (exec_c1_alu y insn)" "even_next (exec_c1 pc y insn)"
  "even_next (exec_c2_cr pc y insn)" "even_next (exec_c2 E pc y insn)"
  by (simp_all add: exec_c0_def exec_c1_def exec_c1_alu_def exec_c2_def exec_c2_cr_def Let_def)

lemma even_next_int: "even_next (exec_jal pc y insn)" "even_next (exec_jalr pc y insn)" "even_next (exec_branch pc y insn)"
  "even_next (exec_load E y insn)" "even_next (exec_store E y insn)" "even_next (exec_op_imm y insn)" "even_next (exec_op y insn)"
  "even_next (exec_misc_mem y insn)" "even_next (exec_amo E y insn)"
  by (simp_all add: exec_jal_def exec_jalr_def exec_branch_def exec_load_def exec_store_def exec_op_imm_def exec_op_def
      exec_misc_mem_def exec_amo_def Let_def split: option.split)

lemma even_next_priv: "even_next (exec_priv pc y insn)"
  by (simp add: exec_priv_def Let_def)

lemma even_next_if: "even_next x \<Longrightarrow> even_next z \<Longrightarrow> even_next (if b then x else z)"
  "even_next (if b then Jump else Done, y)"
  by simp_all

lemma even_next_csr: "even_next (exec_csr E ic pc y insn)"
proof -
  have "even_next (csr_commit pc rd csr old new y)" for pc rd csr old new y
    unfolding csr_commit_def Let_def by (cases "csr_write (e_cpu (sy_emu y)) csr new") simp
  then show ?thesis
    unfolding exec_csr_def Let_def by (auto split: prod.split option.split intro!: even_next_if)
qed

lemma even_next_fp: "even_next (exec_fp_load E y insn)" "even_next (exec_fp_store E y insn)" "even_next (exec_fma E a b y insn)"
  by (simp_all add: exec_fp_load_def exec_fp_store_def exec_fma_def Let_def split: option.split)

lemma even_next_fp_op: "even_next (exec_fp E y insn)"
  unfolding exec_fp_def Let_def
  by (intro even_next_if even_next_simps(2-)) (simp_all add: exec_fp_parts Let_def split: option.split)

lemma even_next_exec: "even_next (exec_insn E ic pc y insn)"
  by (simp add: exec_insn_def exec_system_def Let_def even_next_c even_next_int even_next_priv even_next_csr even_next_fp even_next_fp_op)
end
