(* ===== verification/Interp.thy ===== *)
theory Interp
  imports Rv_Exec
begin

text \<open>
  The interpreter's loop (\<open>riscv_cpu_interp_x32\<close> of \<open>emu/riscv_cpu_template.h\<close> and
  \<open>riscv_cpu_interp\<close> of \<open>emu/riscv_cpu.c\<close>). Code is executed in blocks, the rest of the current page:
  the cycle budget and the interrupts are looked at only between blocks, and inside one the
  instruction is read straight from the host pointer \<open>code_ptr\<close> (an index into guest RAM here).
\<close>

section \<open>The loop's state\<close>

text \<open>
  The local variables \<open>code_ptr\<close>, \<open>code_end\<close> and \<open>code_to_pc_addend\<close>, and \<open>s->n_cycles\<close>, which is
  used in this loop only. \<open>code_ptr = code_end = NULL\<close> is 0 and 0: what is tested is that the first
  is not below the second.
\<close>

record istate =
  i_sys :: sys
  i_cycles :: int
  i_ptr :: nat
  i_end :: nat
  i_addend :: u32

definition get_pc :: "istate \<Rightarrow> u32" where
  "get_pc st = of_nat (i_ptr st) + i_addend st"

definition get_insn32 :: "sys \<Rightarrow> nat \<Rightarrow> u32" where
  "get_insn32 y ptr = of_le (mem_read (e_ram (sy_emu y)) ptr 4)"

text \<open>\<open>JUMP_INSN\<close>, and the start of the function: no block, at the hart's pc.\<close>

definition new_block :: "istate \<Rightarrow> istate" where
  "new_block st = st\<lparr>i_ptr := 0, i_end := 0, i_addend := c_pc (e_cpu (sy_emu (i_sys st)))\<rparr>"

definition on_sys :: "(sys \<Rightarrow> sys) \<Rightarrow> istate \<Rightarrow> istate" where
  "on_sys f st = st\<lparr>i_sys := f (i_sys st)\<rparr>"

section \<open>Between blocks\<close>

text \<open>The host pointer of the code at an address.\<close>

definition code_pointer :: "emu \<Rightarrow> u32 \<Rightarrow> nat option \<times> emu" where
  "code_pointer s addr =
     (let t = c_tlb_code (e_cpu s)
      in if tlb_vaddr (t (tlb_index addr)) = addr AND NOT PG_MASK then (Some (tlb_ptr t addr), s)
         else target_read_insn_slow s addr)"

text \<open>
  The start of a block: the instruction at the pc, \<open>None\<close> when the fetch faults. The last two
  bytes of a page may be the first half of an instruction that continues on the next page.
\<close>

definition fetch_block :: "istate \<Rightarrow> u32 option \<times> istate" where
  "fetch_block st =
     (let addr = c_pc (e_cpu (sy_emu (i_sys st)))
      in case code_pointer (sy_emu (i_sys st)) addr of
           (None, s) \<Rightarrow> (None, on_sys (sy_emu_update (\<lambda>_. s)) st)
         | (Some ptr, s) \<Rightarrow>
             let st1 = on_sys (sy_emu_update (\<lambda>_. s)) st\<lparr>i_ptr := ptr, i_end := ptr + (0xffe - unat (addr AND PG_MASK)),
                         i_addend := addr - of_nat ptr\<rparr>
             in if i_end st1 \<le> i_ptr st1 then
                  let lo = (of_le (mem_read (e_ram s) ptr 2) :: u32)
                  in if lo AND 3 = 3 then
                       (case target_read_insn_u16 s (addr + 2) of
                          (None, s2) \<Rightarrow> (None, on_sys (sy_emu_update (\<lambda>_. s2)) st1)
                        | (Some hi, s2) \<Rightarrow> (Some (lo OR push_bit 16 (ucast hi)), on_sys (sy_emu_update (\<lambda>_. s2)) st1))
                     else (Some lo, st1)
                else (Some (get_insn32 (i_sys st1) ptr), st1))"

text \<open>\<open>if ((s->mip & s->mie) != 0) if (raise_interrupt(s)) ...\<close>: whether one was taken.\<close>

definition take_interrupt :: "sys \<Rightarrow> bool \<times> sys" where
  "take_interrupt y =
     (let c = e_cpu (sy_emu y)
      in if c_mip c AND c_mie c \<noteq> 0 then
           let (c1, r) = raise_interrupt c in (r \<noteq> 0, upd_hart (\<lambda>_. c1) y)
         else (False, y))"

section \<open>One turn of the loop\<close>

text \<open>The code after the loop, reached with an exception pending.\<close>

definition leave_raise :: "xenv \<Rightarrow> istate \<Rightarrow> istate" where
  "leave_raise E st =
     (let y = set_pc (get_pc st) (i_sys st); c = e_cpu (sy_emu y)
      in if bit (c_pending_exception c) 31 then st\<lparr>i_sys := y\<rparr>
         else let (sb, s) = raise_exception2 (x_plat E) (sy_sbi y) (sy_emu y) (c_pending_exception c) (c_pending_tval c)
              in st\<lparr>i_sys := y\<lparr>sy_sbi := sb, sy_emu := s\<rparr>, i_cycles := i_cycles st - 1\<rparr>)"

text \<open>
  An instruction, once fetched. The Boolean says that the loop is left. \<open>total\<close> is
  \<open>insn_counter_addend\<close>.
\<close>

definition run_insn :: "xenv \<Rightarrow> u64 \<Rightarrow> istate \<Rightarrow> u32 \<Rightarrow> bool \<times> istate" where
  "run_insn E tot st insn =
     (let st1 = st\<lparr>i_cycles := i_cycles st - 1\<rparr>;
          (fl, y) = exec_insn E (tot - of_int (i_cycles st1)) (get_pc st) (i_sys st) insn;
          st2 = st1\<lparr>i_sys := y\<rparr>
      in case fl of
           Next n \<Rightarrow> (False, st2\<lparr>i_ptr := i_ptr st2 + n\<rparr>)
         | Jump \<Rightarrow> (False, new_block st2)
         | Done \<Rightarrow> (True, st2)
         | Raise \<Rightarrow> (True, leave_raise E st2)
         | Illegal \<Rightarrow> (True, leave_raise E (on_sys (upd_hart (\<lambda>c. c\<lparr>c_pending_exception := CAUSE_ILLEGAL_INSTRUCTION,
                                                                 c_pending_tval := insn\<rparr>)) st2)))"

definition interp_step :: "xenv \<Rightarrow> u64 \<Rightarrow> istate \<Rightarrow> bool \<times> istate" where
  "interp_step E tot st =
     (if i_end st \<le> i_ptr st then
        let st1 = on_sys (set_pc (get_pc st)) st
        in if i_cycles st1 \<le> 0 then (True, st1)
           else case take_interrupt (i_sys st1) of
                  (True, y) \<Rightarrow> (True, st1\<lparr>i_sys := y, i_cycles := i_cycles st1 - 1\<rparr>)
                | (False, y) \<Rightarrow>
                    (case fetch_block (st1\<lparr>i_sys := y\<rparr>) of
                       (None, st2) \<Rightarrow> (True, leave_raise E st2)
                     | (Some insn, st2) \<Rightarrow> run_insn E tot st2 insn)
      else run_insn E tot st (get_insn32 (i_sys st) (i_ptr st)))"

section \<open>The loop ends\<close>

text \<open>
  Between blocks the loop goes on only with cycles left, and spends one; inside a block each
  instruction moves \<open>code_ptr\<close> towards \<open>code_end\<close>.
\<close>

lemma run_insn_cases:
  obtains (seq) n y where "run_insn E tot st insn = (False, st\<lparr>i_cycles := i_cycles st - 1, i_sys := y, i_ptr := i_ptr st + n\<rparr>)"
      "n = 2 \<or> n = 4"
    | (jump) y where "run_insn E tot st insn = (False, new_block (st\<lparr>i_cycles := i_cycles st - 1, i_sys := y\<rparr>))"
    | (stop) st' where "run_insn E tot st insn = (True, st')" "i_cycles st' = i_cycles st - 1 \<or> i_cycles st' = i_cycles st - 2"
proof -
  obtain fl y where r: "exec_insn E (tot - of_int (i_cycles st - 1)) (get_pc st) (i_sys st) insn = (fl, y)" by fastforce
  have e: "even_next (fl, y)" using even_next_exec r by metis
  have "i_cycles (leave_raise E st') = i_cycles st' \<or> i_cycles (leave_raise E st') = i_cycles st' - 1" for st'
    by (simp add: leave_raise_def Let_def split: prod.split)
  note lr = this [of "st\<lparr>i_cycles := i_cycles st - 1, i_sys := y\<rparr>"]
    this [of "on_sys (upd_hart (\<lambda>c. c\<lparr>c_pending_exception := CAUSE_ILLEGAL_INSTRUCTION, c_pending_tval := insn\<rparr>))
      (st\<lparr>i_cycles := i_cycles st - 1, i_sys := y\<rparr>)"]
  show thesis
  proof (cases fl)
    case (Next n)
    with e r seq show thesis by (simp add: run_insn_def)
  next
    case Raise
    with r lr(1) stop show thesis by (simp add: run_insn_def)
  next
    case Illegal
    with r lr(2) stop show thesis by (simp add: run_insn_def on_sys_def)
  qed (use r jump stop in \<open>simp_all add: run_insn_def\<close>)
qed

lemma fetch_block_cycles:
  "i_cycles (snd (fetch_block st)) = i_cycles st"
  "fst (fetch_block st) \<noteq> None \<Longrightarrow> i_end (snd (fetch_block st)) - i_ptr (snd (fetch_block st)) \<le> 0xffe"
  by (auto simp: fetch_block_def on_sys_def Let_def split: prod.split option.split)

lemma step_slow:
  assumes "i_end st \<le> i_ptr st" "interp_step E tot st = (b, st')"
  obtains (budget) "b" "i_cycles st \<le> 0" "st' = on_sys (set_pc (get_pc st)) st"
    | (irq) y where "b" "0 < i_cycles st" "take_interrupt (set_pc (get_pc st) (i_sys st)) = (True, y)"
        "st' = st\<lparr>i_sys := y, i_cycles := i_cycles st - 1\<rparr>"
    | (fault) y st2 where "b" "0 < i_cycles st" "take_interrupt (set_pc (get_pc st) (i_sys st)) = (False, y)"
        "fetch_block (st\<lparr>i_sys := y\<rparr>) = (None, st2)" "st' = leave_raise E st2"
    | (insn) y insn st2 where "0 < i_cycles st" "take_interrupt (set_pc (get_pc st) (i_sys st)) = (False, y)"
        "fetch_block (st\<lparr>i_sys := y\<rparr>) = (Some insn, st2)" "run_insn E tot st2 insn = (b, st')"
proof (cases "i_cycles st \<le> 0")
  case True
  then show ?thesis using budget assms by (simp add: interp_step_def on_sys_def)
next
  case c: False
  obtain t y where t: "take_interrupt (set_pc (get_pc st) (i_sys st)) = (t, y)" by fastforce
  obtain r st2 where f: "fetch_block (st\<lparr>i_sys := y\<rparr>) = (r, st2)" by fastforce
  show ?thesis
  proof (cases t)
    case True
    then show ?thesis using irq c t assms by (simp add: interp_step_def on_sys_def)
  next
    case False
    then show ?thesis
      using fault insn c t f assms by (cases r) (simp_all add: interp_step_def on_sys_def)
  qed
qed

lemma step_fast: "i_ptr st < i_end st \<Longrightarrow> interp_step E tot st = run_insn E tot st (get_insn32 (i_sys st) (i_ptr st))"
  by (simp add: interp_step_def)

lemma step_measure:
  assumes "interp_step E tot st = (False, st')"
  shows "nat (i_cycles st') < nat (i_cycles st) \<or>
    nat (i_cycles st') = nat (i_cycles st) \<and> i_end st' - i_ptr st' < i_end st - i_ptr st"
proof (cases "i_end st \<le> i_ptr st")
  case True
  from True assms show ?thesis
  proof (cases rule: step_slow)
    case (insn y insn st2)
    have "i_cycles st2 = i_cycles st" using fetch_block_cycles(1) [of "st\<lparr>i_sys := y\<rparr>"] insn(3) by simp
    then show ?thesis
      using insn(1,4) by (cases rule: run_insn_cases [of E tot st2 insn]) (auto simp: new_block_def)
  qed simp_all
next
  case False
  then show ?thesis
    using assms by (cases rule: run_insn_cases [of E tot st "get_insn32 (i_sys st) (i_ptr st)"]) (auto simp: step_fast new_block_def)
qed

lemma step_lex:
  "(False, st') = interp_step E tot st \<Longrightarrow> ((E, tot, st'), (E, tot, st)) \<in>
   inv_image (less_than <*lex*> less_than) (\<lambda>(E, tot, st). (nat (i_cycles st), i_end st - i_ptr st))"
  using step_measure [of E tot st st'] by (simp del: nat_less_iff zless_nat_conj)

function interp_loop :: "xenv \<Rightarrow> u64 \<Rightarrow> istate \<Rightarrow> istate" where
  "interp_loop E tot st = (case interp_step E tot st of (True, st') \<Rightarrow> st' | (False, st') \<Rightarrow> interp_loop E tot st')"
  by pat_completeness auto
termination
  by (relation "inv_image (less_than <*lex*> less_than) (\<lambda>(E, tot, st). (nat (i_cycles st), i_end st - i_ptr st))")
     (auto simp del: in_inv_image intro: step_lex)

declare interp_loop.simps [simp del]

section \<open>A call of the interpreter\<close>

definition riscv_cpu_interp_x32 :: "xenv \<Rightarrow> sys \<Rightarrow> int \<Rightarrow> sys" where
  "riscv_cpu_interp_x32 E y n_cycles1 =
     (if n_cycles1 = 0 then y
      else
        let tot = c_insn_counter (e_cpu (sy_emu y)) + of_int n_cycles1;
            finish = (\<lambda>st. upd_hart (\<lambda>c. c\<lparr>c_insn_counter := tot - of_int (i_cycles st)\<rparr>) (i_sys st));
            st = \<lparr>i_sys = y, i_cycles = n_cycles1, i_ptr = 0, i_end = 0, i_addend = 0\<rparr>
        in case take_interrupt y of
             (True, y1) \<Rightarrow> finish (st\<lparr>i_sys := y1, i_cycles := n_cycles1 - 1\<rparr>)
           | (False, y1) \<Rightarrow> finish (interp_loop E tot (new_block (st\<lparr>i_sys := pend (-1) y1\<rparr>))))"

text \<open>
  The budget is overrun by less than a page of code: a block that starts with a cycle left may run
  to its end.
\<close>

lemma run_insn_cycles:
  assumes "run_insn E tot st insn = (b, st')"
  shows "i_cycles st' < i_cycles st" "i_cycles st - 2 \<le> i_cycles st'"
    "\<not> b \<Longrightarrow> i_cycles st' = i_cycles st - 1 \<and> i_end st' - i_ptr st' \<le> i_end st - i_ptr st - 2"
  using assms by (cases rule: run_insn_cases [of E tot st insn]; force simp: new_block_def)+

lemma fetch_fault_pending:
  "target_read_insn_slow s a = (None, s') \<Longrightarrow> c_pending_exception (e_cpu s') \<in> {CAUSE_FAULT_FETCH, CAUSE_FETCH_PAGE_FAULT}"
  "target_read_insn_u16 s a = (None, s') \<Longrightarrow> c_pending_exception (e_cpu s') \<in> {CAUSE_FAULT_FETCH, CAUSE_FETCH_PAGE_FAULT}"
  "code_pointer s a = (None, s') \<Longrightarrow> c_pending_exception (e_cpu s') \<in> {CAUSE_FAULT_FETCH, CAUSE_FETCH_PAGE_FAULT}"
proof -
  show 1: "c_pending_exception (e_cpu s') \<in> {CAUSE_FAULT_FETCH, CAUSE_FETCH_PAGE_FAULT}"
    if "target_read_insn_slow s a = (None, s')" for s s'
    using that by (auto simp: target_read_insn_slow_def set_pending_def Let_def split: prod.splits option.splits if_splits)
  show "target_read_insn_u16 s a = (None, s') \<Longrightarrow> c_pending_exception (e_cpu s') \<in> {CAUSE_FAULT_FETCH, CAUSE_FETCH_PAGE_FAULT}"
    "code_pointer s a = (None, s') \<Longrightarrow> c_pending_exception (e_cpu s') \<in> {CAUSE_FAULT_FETCH, CAUSE_FETCH_PAGE_FAULT}"
    using 1 by (auto simp: target_read_insn_u16_def code_pointer_def Let_def split: prod.splits option.splits if_splits)
qed

lemma fetch_block_fault:
  "fetch_block st = (None, st') \<Longrightarrow>
   c_pending_exception (e_cpu (sy_emu (i_sys st'))) \<in> {CAUSE_FAULT_FETCH, CAUSE_FETCH_PAGE_FAULT}"
  by (auto simp: fetch_block_def Let_def on_sys_def dest!: fetch_fault_pending split: prod.splits option.splits if_splits)

lemma leave_raise_cycles:
  "i_cycles (leave_raise E st) =
     i_cycles st - (if bit (c_pending_exception (e_cpu (sy_emu (i_sys st)))) 31 then 0 else 1)"
  by (simp add: leave_raise_def Let_def set_pc_def upd_hart_def split: prod.split)

lemma leave_fault_cycles:
  assumes "fetch_block st = (None, st')"
  shows "i_cycles (leave_raise E st') = i_cycles st - 1"
proof -
  have "\<not> bit (c_pending_exception (e_cpu (sy_emu (i_sys st')))) 31"
    using fetch_block_fault [OF assms] by (auto simp: cause_defs)
  then show ?thesis using fetch_block_cycles(1) [of st] assms by (simp add: leave_raise_cycles)
qed

lemma step_cycles:
  assumes "interp_step E tot st = (b, st')" "int (i_end st - i_ptr st) - 4094 \<le> i_cycles st"
  shows "i_cycles st' \<le> i_cycles st" "0 < i_cycles st \<Longrightarrow> i_cycles st' < i_cycles st"
    "b \<Longrightarrow> -4095 \<le> i_cycles st'" "\<not> b \<Longrightarrow> int (i_end st' - i_ptr st') - 4094 \<le> i_cycles st'"
proof -
  have "i_cycles st' \<le> i_cycles st \<and> (0 < i_cycles st \<longrightarrow> i_cycles st' < i_cycles st) \<and> (b \<longrightarrow> -4095 \<le> i_cycles st') \<and>
      (\<not> b \<longrightarrow> int (i_end st' - i_ptr st') - 4094 \<le> i_cycles st')"
  proof (cases "i_end st \<le> i_ptr st")
    case True
    from True assms(1) show ?thesis
    proof (cases rule: step_slow)
      case budget
      then show ?thesis using assms(2) by (simp add: on_sys_def)
    next
      case (irq y)
      then show ?thesis by simp
    next
      case (fault y st2)
      then show ?thesis using leave_fault_cycles [OF fault(4)] by simp
    next
      case (insn y insn st2)
      have "i_cycles st2 = i_cycles st" "i_end st2 - i_ptr st2 \<le> 4094"
        using fetch_block_cycles [of "st\<lparr>i_sys := y\<rparr>"] insn(3) by simp_all
      then show ?thesis using run_insn_cycles [OF insn(4)] insn(1) by auto
    qed
  next
    case False
    then show ?thesis
      using assms(2) run_insn_cycles [of E tot st "get_insn32 (i_sys st) (i_ptr st)" b st'] assms(1) by (auto simp: step_fast)
  qed
  then show "i_cycles st' \<le> i_cycles st" "0 < i_cycles st \<Longrightarrow> i_cycles st' < i_cycles st"
    "b \<Longrightarrow> -4095 \<le> i_cycles st'" "\<not> b \<Longrightarrow> int (i_end st' - i_ptr st') - 4094 \<le> i_cycles st'" by blast+
qed

lemma loop_cycles:
  assumes "int (i_end st - i_ptr st) - 4094 \<le> i_cycles st"
  shows "i_cycles (interp_loop E tot st) \<le> i_cycles st \<and> -4095 \<le> i_cycles (interp_loop E tot st) \<and>
    (0 < i_cycles st \<longrightarrow> i_cycles (interp_loop E tot st) < i_cycles st)"
  using assms
proof (induction E tot st rule: interp_loop.induct)
  case (1 E tot st)
  obtain b st' where r: "interp_step E tot st = (b, st')" by fastforce
  note c = step_cycles [OF r 1(2)]
  show ?case
  proof (cases b)
    case True
    then show ?thesis using c by (simp add: interp_loop.simps [of E tot st] r)
  next
    case False
    with 1(1) [OF r [symmetric]] c show ?thesis by (auto simp: interp_loop.simps [of E tot st] r)
  qed
qed

lemma x32_counter:
  assumes "0 < n"
  obtains k where "-4095 \<le> k" "k < n"
    "c_insn_counter (e_cpu (sy_emu (riscv_cpu_interp_x32 E y n))) = c_insn_counter (e_cpu (sy_emu y)) + of_int n - of_int k"
proof (cases "take_interrupt y")
  case (Pair t y1)
  let ?st = "new_block \<lparr>i_sys = pend (-1) y1, i_cycles = n, i_ptr = 0, i_end = 0, i_addend = 0\<rparr>"
  let ?k = "if t then n - 1 else i_cycles (interp_loop E (c_insn_counter (e_cpu (sy_emu y)) + of_int n) ?st)"
  have "int (i_end ?st - i_ptr ?st) - 4094 \<le> i_cycles ?st" "i_cycles ?st = n" using assms by (simp_all add: new_block_def)
  with loop_cycles [of ?st] have "-4095 \<le> ?k" "?k < n" using assms by auto
  moreover have "c_insn_counter (e_cpu (sy_emu (riscv_cpu_interp_x32 E y n))) =
      c_insn_counter (e_cpu (sy_emu y)) + of_int n - of_int ?k"
    using assms Pair by (simp add: riscv_cpu_interp_x32_def Let_def upd_hart_def split: bool.split)
  ultimately show thesis using that by blast
qed

text \<open>
  \<open>riscv_cpu_interp()\<close>: calls of the above until the budget is spent or the guest waits for an
  interrupt. \<open>None\<close> is \<open>abort()\<close>, for a hart whose XLEN the build does not have.
\<close>

definition cycles_left :: "u64 \<Rightarrow> sys \<Rightarrow> int" where
  "cycles_left timeout y = sint (ucast (timeout - c_insn_counter (e_cpu (sy_emu y))) :: u32)"

lemma cycles_left_x32:
  assumes "0 < cycles_left timeout y"
  shows "-4095 \<le> cycles_left timeout (riscv_cpu_interp_x32 E y (cycles_left timeout y))"
    "cycles_left timeout (riscv_cpu_interp_x32 E y (cycles_left timeout y)) < cycles_left timeout y"
proof -
  let ?n = "cycles_left timeout y" and ?ic = "c_insn_counter (e_cpu (sy_emu y))"
  obtain k where k: "-4095 \<le> k" "k < ?n"
    "c_insn_counter (e_cpu (sy_emu (riscv_cpu_interp_x32 E y ?n))) = ?ic + of_int ?n - of_int k"
    using x32_counter [OF assms] .
  have n: "?n < 2147483648" using sint_less [of "ucast (timeout - ?ic) :: u32"] by (simp add: cycles_left_def)
  have "(ucast (timeout - (?ic + of_int ?n - of_int k)) :: u32) = ucast (timeout - ?ic) - of_int ?n + of_int k"
    by (simp add: down_diff down_add down_of_int)
  also have "\<dots> = of_int k" by (simp add: cycles_left_def)
  finally have "cycles_left timeout (riscv_cpu_interp_x32 E y ?n) = sint (of_int k :: u32)"
    using k(3) by (simp add: cycles_left_def)
  also have "\<dots> = k" using k n by (simp add: sint_sbintrunc' signed_take_bit_int_eq_self)
  finally show "-4095 \<le> cycles_left timeout (riscv_cpu_interp_x32 E y ?n)"
    "cycles_left timeout (riscv_cpu_interp_x32 E y ?n) < ?n" using k by simp_all
qed

function cpu_interp_loop :: "xenv \<Rightarrow> u64 \<Rightarrow> sys \<Rightarrow> sys option" where
  "cpu_interp_loop E timeout y =
     (let c = e_cpu (sy_emu y)
      in if \<not> c_power_down_flag c \<and> 0 < cycles_left timeout y then
           if c_cur_xlen c = 32 then cpu_interp_loop E timeout (riscv_cpu_interp_x32 E y (cycles_left timeout y))
           else None
         else Some y)"
  by pat_completeness auto
termination
  by (relation "measure (\<lambda>(E, timeout, y). nat (cycles_left timeout y))") (auto dest: cycles_left_x32)

declare cpu_interp_loop.simps [simp del]

definition riscv_cpu_interp :: "xenv \<Rightarrow> sys \<Rightarrow> int \<Rightarrow> sys option" where
  "riscv_cpu_interp E y n_cycles = cpu_interp_loop E (c_insn_counter (e_cpu (sy_emu y)) + of_int n_cycles) y"

end
