(* ===== verification/Sandbox.thy ===== *)
theory Sandbox
  imports Interp
begin

text \<open>
  What the interpreter keeps, whatever code it runs. The laws of the hart and the bus that the
  interpreter relies on are two locales: what one instruction needs (\<open>exec_laws\<close>) and what the
  loop needs beyond it (\<open>interp_laws\<close>). Their interpretation is the machine's invariant: every
  TLB entry points into guest RAM, the hart stays below M-mode with every trap delegated, the
  addresses code is fetched from are even, x0 is 0, and the host's memory outside guest RAM does
  not change.
\<close>

section \<open>Jump targets are even\<close>

lemma even_imm [simp]:
  "\<not> bit (imm_b insn) 0" "\<not> bit (imm_j insn) 0" "\<not> bit (imm_c_j insn) 0" "\<not> bit (imm_c_b insn) 0"
  by (simp_all add: imm_b_def imm_j_def imm_c_j_def imm_c_b_def sext_def get_field1_def Let_def bit_simps)

lemma even_add32 [simp]: "\<not> bit (a :: u32) 0 \<Longrightarrow> \<not> bit b 0 \<Longrightarrow> \<not> bit (a + b) 0"
  by (simp add: bit_0)

lemma even_and32 [simp]: "\<not> bit ((a :: u32) AND NOT 1) 0" "\<not> bit ((a :: u32) AND -2) 0"
  by (simp_all add: bit_simps)

lemma and3_le [simp]: "unat ((f :: u32) AND 3) \<le> 3"
proof -
  have "f AND 3 = take_bit 2 f" by (simp add: take_bit_eq_mask mask_eq_exp_minus_1)
  then show ?thesis using take_bit_nat_less_exp [of 2 "unat f"] by (simp add: unsigned_take_bit_eq)
qed

lemma even_small [simp]: "\<not> bit (2 :: u32) 0" "\<not> bit (4 :: u32) 0"
  by simp_all

lemma c_reg_nonzero [simp]: "c_rd' insn \<noteq> 0" "c_rs1' insn \<noteq> 0"
proof -
  have "x OR 8 \<noteq> (0 :: u32)" for x
  proof
    assume "x OR 8 = 0"
    then have "bit (x OR 8) 3 = bit (0 :: u32) 3" by simp
    then show False by (simp add: bit_or_iff)
  qed
  then show "c_rd' insn \<noteq> 0" "c_rs1' insn \<noteq> 0" by (simp_all add: c_rd'_def c_rs1'_def unsigned_eq_0_iff)
qed

section \<open>What one instruction relies on\<close>

locale exec_laws =
  fixes R :: "sys \<Rightarrow> sys \<Rightarrow> bool"
    and F :: "sys \<Rightarrow> bool"
  assumes R_refl: "R y y"
    and R_trans: "R y y' \<Longrightarrow> R y' y'' \<Longrightarrow> R y y''"
    and R_reg: "r \<noteq> 0 \<Longrightarrow> R y (put_reg r v y)"
    and R_pc: "\<not> bit v 0 \<Longrightarrow> R y (set_pc v y)"
    and R_fp: "R y (put_fp r fv y)"
    and R_fflags: "R y (upd_hart (\<lambda>c. c\<lparr>c_fflags := ff\<rparr>) y)"
    and R_counter: "R y (upd_hart (\<lambda>c. c\<lparr>c_insn_counter := n\<rparr>) y)"
    and R_load_res: "R y (upd_hart (\<lambda>c. c\<lparr>c_load_res := a\<rparr>) y)"
    and R_wfi: "R y (upd_hart (\<lambda>c. c\<lparr>c_power_down_flag := pd\<rparr>) y)"
    and R_pend: "R y (pend cause y)"
    and R_read: "sz \<le> 3 \<Longrightarrow> R y (snd (target_read P y a sz))"
    and R_write: "sz \<le> 3 \<Longrightarrow> R y (snd (target_write P y a w sz))"
    and R_time: "R y (y\<lparr>sy_emu := snd (riscv_host_rdtime P (sy_emu y))\<rparr>)"
    and R_csr: "csr_read t (e_cpu (sy_emu y)) csr True = Some old \<Longrightarrow>
      R y (upd_hart (\<lambda>_. fst (csr_write (e_cpu (sy_emu y)) csr new)) y)"
    and R_sret: "PRV_S \<le> c_priv (e_cpu (sy_emu y)) \<Longrightarrow> R y (upd_hart handle_sret y)"
    and R_mret: "PRV_M \<le> c_priv (e_cpu (sy_emu y)) \<Longrightarrow> R y (upd_hart handle_mret y)"
    and R_flush: "R y (upd_hart tlb_flush_all y)"
    and F_break: "F (pend CAUSE_BREAKPOINT y)"
    and F_ecall: "F (pend (CAUSE_USER_ECALL + of_nat (c_priv (e_cpu (sy_emu y)))) y)"
    and F_read: "target_read P y a sz = (MemFault, y') \<Longrightarrow> F y'"
    and F_write: "target_write P y a w sz = (False, y') \<Longrightarrow> F y'"
begin

text \<open>The outcome of an instruction: the state is kept, and an exception is pending if one is raised.\<close>

definition good :: "sys \<Rightarrow> flow \<times> sys \<Rightarrow> bool" where
  "good y r \<longleftrightarrow> R y (snd r) \<and> (fst r = Raise \<longrightarrow> F (snd r))"

lemma good_simps [simp]:
  "good y (Next n, y') = R y y'" "good y (Jump, y') = R y y'" "good y (Done, y') = R y y'" "good y (Illegal, y') = R y y'"
  "good y (Raise, y') = (R y y' \<and> F y')"
  by (simp_all add: good_def)

lemma R_after [simp]:
  "R y y"
  "R y z \<Longrightarrow> r \<noteq> 0 \<Longrightarrow> R y (put_reg r v z)" "R y z \<Longrightarrow> R y (set_reg r v z)"
  "R y z \<Longrightarrow> \<not> bit v 0 \<Longrightarrow> R y (set_pc v z)" "R y z \<Longrightarrow> R y (put_fp r fv z)" "R y z \<Longrightarrow> R y (pend cause z)"
  "R y z \<Longrightarrow> R y (upd_hart (\<lambda>c. c\<lparr>c_fflags := ff\<rparr>) z)" "R y z \<Longrightarrow> R y (upd_hart (\<lambda>c. c\<lparr>c_insn_counter := n\<rparr>) z)"
  "R y z \<Longrightarrow> R y (upd_hart (\<lambda>c. c\<lparr>c_load_res := a\<rparr>) z)" "R y z \<Longrightarrow> R y (upd_hart (\<lambda>c. c\<lparr>c_power_down_flag := pd\<rparr>) z)"
  "R y z \<Longrightarrow> R y (upd_hart tlb_flush_all z)"
  using R_trans [of y z] R_refl R_reg [of r z v] R_pc R_fp R_pend R_fflags R_counter R_load_res R_wfi R_flush
  by (auto simp: set_reg_def)

lemma R_fp_flags [simp]: "R y z \<Longrightarrow> R y (put_fp_flags d rd res z)" "R y z \<Longrightarrow> R y (set_reg_flags rd ires z)"
  by (simp_all add: put_fp_flags_def set_reg_flags_def)

lemma good_if: "(b \<Longrightarrow> good y x) \<Longrightarrow> (\<not> b \<Longrightarrow> good y z) \<Longrightarrow> good y (if b then x else z)"
  by simp

lemma good_load:
  assumes "sz \<le> 3" "\<And>v y1. R y y1 \<Longrightarrow> good y (k v y1)"
  shows "good y (load_then E sz a y k)"
proof -
  obtain r y1 where r: "target_read (x_plat E) y a sz = (r, y1)" by fastforce
  have "R y y1" using R_read [OF assms(1), of y "x_plat E" a] r by simp
  then show ?thesis
    using assms(2) F_read [of "x_plat E" y a sz y1] r by (cases r) (auto simp: load_then_def good_def)
qed

lemma good_store:
  assumes "sz \<le> 3" "\<And>y1. R y y1 \<Longrightarrow> good y (k y1)"
  shows "good y (store_then E sz a v y k)"
proof -
  obtain r y1 where r: "target_write (x_plat E) y a (take_bit (8 * 2 ^ sz) v) sz = (r, y1)" by fastforce
  have "R y y1" using R_write [OF assms(1), of y "x_plat E" a "take_bit (8 * 2 ^ sz) v"] r by simp
  then show ?thesis
    using assms(2) F_write [of "x_plat E" y a "take_bit (8 * 2 ^ sz) v" sz y1] r
    by (cases r) (auto simp: store_then_def good_def)
qed

lemma good_compressed: "good y (exec_c0 E y insn)" "good y (exec_c1_alu y insn)" "good y (exec_c2_cr pc y insn)"
  "good y (exec_c2 E pc y insn)" "\<not> bit pc 0 \<Longrightarrow> good y (exec_c1 pc y insn)"
proof -
  show "good y (exec_c0 E y insn)" unfolding exec_c0_def Let_def by (intro good_if good_load good_store) simp_all
  show alu: "good y (exec_c1_alu y insn)" unfolding exec_c1_alu_def Let_def by (intro good_if) simp_all
  show cr: "good y (exec_c2_cr pc y insn)" unfolding exec_c2_cr_def Let_def by (intro good_if) (simp_all add: F_break)
  show "good y (exec_c2 E pc y insn)" unfolding exec_c2_def Let_def by (intro good_if good_load good_store cr) simp_all
  show "good y (exec_c1 pc y insn)" if "\<not> bit pc 0"
    unfolding exec_c1_def Let_def using that by (intro good_if alu) simp_all
qed

lemma good_transfer:
  "\<not> bit pc 0 \<Longrightarrow> good y (exec_jal pc y insn)" "\<not> bit pc 0 \<Longrightarrow> good y (exec_branch pc y insn)" "good y (exec_jalr pc y insn)"
  by (simp_all add: exec_jal_def exec_jalr_def exec_branch_def split: option.split)

lemma good_mem: "good y (exec_load E y insn)" "good y (exec_store E y insn)" "good y (exec_amo E y insn)"
  "good y (exec_fp_load E y insn)" "good y (exec_fp_store E y insn)"
proof -
  show "good y (exec_load E y insn)" unfolding exec_load_def Let_def by (intro good_if good_load) simp_all
  show "good y (exec_store E y insn)" unfolding exec_store_def Let_def by (intro good_if good_store) auto
  show "good y (exec_fp_load E y insn)" unfolding exec_fp_load_def Let_def by (intro good_if good_load) simp_all
  show "good y (exec_fp_store E y insn)" unfolding exec_fp_store_def Let_def by (intro good_if good_store) simp_all
  have st: "good y (store_then E 2 a v y1 (\<lambda>y2. (Next 4, set_reg r w y2)))" if "R y y1" for a v y1 r w
    using good_store [of 2 y1 "\<lambda>y2. (Next 4, set_reg r w y2)" E a v] R_trans [OF that] by (auto simp: good_def)
  show "good y (exec_amo E y insn)"
    unfolding exec_amo_def Let_def by (intro good_if good_load good_store) (simp_all add: st split: option.split)
qed

lemma good_int: "good y (exec_op_imm y insn)" "good y (exec_op y insn)" "good y (exec_misc_mem y insn)"
  by (simp_all add: exec_op_imm_def exec_op_def exec_misc_mem_def Let_def split: option.split)

lemma good_rounded: "(\<And>rm. good y (k rm)) \<Longrightarrow> good y (case r of None \<Rightarrow> (Illegal, y) | Some rm \<Rightarrow> k rm)"
  by (cases r) simp_all

lemma good_fp: "good y (exec_fma E n1 n3 y insn)" "good y (exec_fp E y insn)"
proof -
  show "good y (exec_fma E n1 n3 y insn)" by (simp add: exec_fma_def Let_def split: option.split)
  show "good y (exec_fp E y insn)"
    unfolding exec_fp_def Let_def by (intro good_if good_rounded) (simp_all add: exec_fp_parts Let_def)
qed

lemma good_priv: "\<not> bit pc 0 \<Longrightarrow> good y (exec_priv pc y insn)"
proof -
  assume pc: "\<not> bit pc 0"
  have c: "c_priv (e_cpu (sy_emu (set_pc pc y))) = c_priv (e_cpu (sy_emu y))" by (simp add: set_pc_def upd_hart_def)
  have f: "tlb_flush_vaddr c a = tlb_flush_all c" for c a by (simp add: tlb_flush_vaddr_def)
  have "R y (upd_hart handle_sret (set_pc pc y))" if "PRV_S \<le> c_priv (e_cpu (sy_emu y))"
    using R_trans [OF R_pc [OF pc] R_sret] that c by simp
  moreover have "R y (upd_hart handle_mret (set_pc pc y))" if "PRV_M \<le> c_priv (e_cpu (sy_emu y))"
    using R_trans [OF R_pc [OF pc] R_mret] that c by simp
  ultimately show ?thesis
    using pc unfolding exec_priv_def Let_def f if_cancel by (intro good_if) (simp_all add: F_break F_ecall)
qed

lemma csr_read_sys_ok:
  assumes "csr_read_sys P y csr w = (r, y1)"
  shows "R y y1" "r = Some old \<Longrightarrow> \<exists>t. csr_read t (e_cpu (sy_emu y1)) csr w = Some old"
proof -
  have "e_cpu (snd (riscv_host_rdtime P (sy_emu y))) = e_cpu (sy_emu y)"
    by (simp add: riscv_host_rdtime_def rv_mtime_def)
  then show "R y y1" "r = Some old \<Longrightarrow> \<exists>t. csr_read t (e_cpu (sy_emu y1)) csr w = Some old"
    using assms R_time [of y P] by (auto simp: csr_read_sys_def Let_def split: if_splits prod.splits)
qed

lemma good_csr:
  assumes pc: "\<not> bit pc 0"
  shows "good y (exec_csr E ic pc y insn)"
proof -
  define w where "w \<longleftrightarrow> insn_funct3 insn AND 3 = 1 \<or> insn_rs1 insn \<noteq> 0"
  define csr where "csr = drop_bit 20 insn"
  obtain r y1 where r: "csr_read_sys (x_plat E) (upd_hart (\<lambda>c. c\<lparr>c_insn_counter := ic\<rparr>) y) csr w = (r, y1)" by fastforce
  have y1: "R y y1" using R_trans [OF R_counter csr_read_sys_ok(1) [OF r]] .
  have wr: "good y (csr_commit pc rd csr old new y1)" if "r = Some old" w for rd old new
  proof -
    have "R y (upd_hart (\<lambda>_. fst (csr_write (e_cpu (sy_emu y1)) csr new)) y1)"
      using csr_read_sys_ok(2) [OF r that(1)] R_csr R_trans [OF y1] that(2) by auto
    then show ?thesis using pc by (simp add: csr_commit_def Let_def case_prod_beta)
  qed
  show ?thesis
    unfolding exec_csr_def Let_def w_def [symmetric] csr_def [symmetric] r using y1 wr by (cases r) simp_all
qed

lemma good_exec: "\<not> bit pc 0 \<Longrightarrow> good y (exec_insn E ic pc y insn)"
  unfolding exec_insn_def exec_system_def Let_def
  by (intro good_if good_compressed good_transfer good_mem good_int good_fp good_priv good_csr) simp_all

end

section \<open>What the loop relies on\<close>

locale interp_laws = exec_laws +
  fixes I :: "sys \<Rightarrow> bool"
  assumes R_I: "R y y' \<Longrightarrow> I y \<Longrightarrow> I y'"
    and I_pc: "I y \<Longrightarrow> \<not> bit (c_pc (e_cpu (sy_emu y))) 0"
    and R_irq: "R y (snd (take_interrupt y))"
    and R_fetch: "R y (y\<lparr>sy_emu := snd (code_pointer (sy_emu y) a)\<rparr>)"
    and R_fetch16: "R y (y\<lparr>sy_emu := snd (target_read_insn_u16 (sy_emu y) a)\<rparr>)"
    and F_fetch: "code_pointer s a = (None, s') \<Longrightarrow> F (y\<lparr>sy_emu := s'\<rparr>)"
    and F_fetch16: "target_read_insn_u16 s a = (None, s') \<Longrightarrow> F (y\<lparr>sy_emu := s'\<rparr>)"
    and F_illegal: "F (upd_hart (\<lambda>c. c\<lparr>c_pending_exception := CAUSE_ILLEGAL_INSTRUCTION, c_pending_tval := w\<rparr>) y)"
    and F_pc: "F y \<Longrightarrow> F (set_pc w y)"
    and R_illegal: "R y (upd_hart (\<lambda>c. c\<lparr>c_pending_exception := CAUSE_ILLEGAL_INSTRUCTION, c_pending_tval := w\<rparr>) y)"
    and R_raise: "F y \<Longrightarrow> raise_exception2 P (sy_sbi y) (sy_emu y) (c_pending_exception (e_cpu (sy_emu y)))
      (c_pending_tval (e_cpu (sy_emu y))) = (sb, s') \<Longrightarrow> R y (y\<lparr>sy_sbi := sb, sy_emu := s'\<rparr>)"
begin

lemma leave_raise_R:
  assumes "R y (i_sys st)" "\<not> bit (get_pc st) 0" "F (i_sys st)"
  shows "R y (i_sys (leave_raise E st))"
proof -
  let ?y = "set_pc (get_pc st) (i_sys st)"
  obtain sb s' where r: "raise_exception2 (x_plat E) (sy_sbi ?y) (sy_emu ?y) (c_pending_exception (e_cpu (sy_emu ?y)))
      (c_pending_tval (e_cpu (sy_emu ?y))) = (sb, s')" by (metis prod.exhaust)
  have y: "R y ?y" using assms by simp
  moreover have "R y (?y\<lparr>sy_sbi := sb, sy_emu := s'\<rparr>)" by (rule R_trans [OF y R_raise [OF F_pc [OF assms(3)] r]])
  ultimately show ?thesis by (simp add: leave_raise_def Let_def r)
qed

lemma fetch_block_R:
  assumes "I (i_sys st)" "fetch_block st = (r, st')" "get_pc st = c_pc (e_cpu (sy_emu (i_sys st)))"
  shows "R (i_sys st) (i_sys st')" "get_pc st' = get_pc st" "r = None \<Longrightarrow> F (i_sys st')"
proof -
  let ?a = "c_pc (e_cpu (sy_emu (i_sys st)))"
  obtain p s where p: "code_pointer (sy_emu (i_sys st)) ?a = (p, s)" by fastforce
  obtain h s2 where h: "target_read_insn_u16 s (?a + 2) = (h, s2)" by fastforce
  have 1: "R (i_sys st) ((i_sys st)\<lparr>sy_emu := s\<rparr>)" using R_fetch [of "i_sys st" ?a] p by simp
  have 2: "R (i_sys st) ((i_sys st)\<lparr>sy_emu := s2\<rparr>)"
    using R_trans [OF 1 R_fetch16 [of "(i_sys st)\<lparr>sy_emu := s\<rparr>" "?a + 2"]] h by simp
  have f: "p = None \<Longrightarrow> F ((i_sys st)\<lparr>sy_emu := s\<rparr>)" "h = None \<Longrightarrow> F ((i_sys st)\<lparr>sy_emu := s2\<rparr>)"
    using F_fetch [of "sy_emu (i_sys st)" ?a s "i_sys st"] p F_fetch16 [of s "?a + 2" s2 "i_sys st"] h by simp_all
  have c: "(r = None \<longrightarrow> F (i_sys st')) \<and> get_pc st' = get_pc st \<and>
      (i_sys st' = (i_sys st)\<lparr>sy_emu := s\<rparr> \<or> i_sys st' = (i_sys st)\<lparr>sy_emu := s2\<rparr>)"
  proof (cases p)
    case None
    then show ?thesis using assms(2) f(1) p by (auto simp: fetch_block_def Let_def on_sys_def get_pc_def)
  next
    case (Some ptr)
    show ?thesis
    proof (cases h)
      case None
      then show ?thesis
        using assms(2,3) f(2) Some p h by (auto simp: fetch_block_def Let_def on_sys_def get_pc_def split: if_splits)
    next
      case (Some hi)
      then show ?thesis
        using assms(2,3) \<open>p = Some ptr\<close> p h by (auto simp: fetch_block_def Let_def on_sys_def get_pc_def split: if_splits)
    qed
  qed
  then show "R (i_sys st) (i_sys st')" using 1 2 by metis
  show "get_pc st' = get_pc st" "r = None \<Longrightarrow> F (i_sys st')" using c by simp_all
qed

lemma run_insn_R:
  assumes "I (i_sys st)" "\<not> bit (get_pc st) 0" "run_insn E tot st insn = (b, st')"
  shows "R (i_sys st) (i_sys st')" "\<not> b \<Longrightarrow> \<not> bit (get_pc st') 0"
proof -
  obtain fl y where r: "exec_insn E (tot - of_int (i_cycles st - 1)) (get_pc st) (i_sys st) insn = (fl, y)" by fastforce
  have g: "good (i_sys st) (fl, y)" using good_exec [OF assms(2)] r by metis
  then have R: "R (i_sys st) y" by (simp add: good_def)
  let ?st = "st\<lparr>i_cycles := i_cycles st - 1, i_sys := y\<rparr>"
  let ?ill = "upd_hart (\<lambda>c. c\<lparr>c_pending_exception := CAUSE_ILLEGAL_INSTRUCTION, c_pending_tval := insn\<rparr>)"
  have pc: "get_pc (on_sys f ?st) = get_pc st" "get_pc ?st = get_pc st" for f by (simp_all add: get_pc_def on_sys_def)
  have ill: "R (i_sys st) (i_sys (leave_raise E (on_sys ?ill ?st)))"
    using assms(2) pc R_trans [OF R R_illegal] F_illegal by (intro leave_raise_R) (simp_all add: on_sys_def)
  have ra: "R (i_sys st) (i_sys (leave_raise E ?st))" if "fl = Raise"
    using g that assms(2) pc by (intro leave_raise_R) simp_all
  show "R (i_sys st) (i_sys st')"
    using assms(3) r R ill ra by (cases fl) (auto simp: run_insn_def new_block_def)
  have n: "\<not> bit (get_pc (?st\<lparr>i_ptr := i_ptr st + n\<rparr>)) 0" if "fl = Next n" for n
  proof -
    have "n = 2 \<or> n = 4" using even_next_exec [of E] r that by (metis even_next_simps(1))
    moreover have "get_pc (?st\<lparr>i_ptr := i_ptr st + n\<rparr>) = get_pc st + of_nat n" by (simp add: get_pc_def)
    ultimately show ?thesis using assms(2) by auto
  qed
  have j: "\<not> bit (get_pc (new_block ?st)) 0"
    using I_pc [OF R_I [OF R assms(1)]] by (simp add: new_block_def get_pc_def)
  show "\<not> bit (get_pc st') 0" if "\<not> b"
    using assms(3) r n j that by (cases fl) (auto simp: run_insn_def)
qed

lemma step_R:
  assumes "I (i_sys st)" "\<not> bit (get_pc st) 0" "interp_step E tot st = (b, st')"
  shows "R (i_sys st) (i_sys st') \<and> (\<not> b \<longrightarrow> \<not> bit (get_pc st') 0)"
proof (cases "i_end st \<le> i_ptr st")
  case False
  then show ?thesis using assms run_insn_R [OF assms(1,2), of E tot _ b st'] by (auto simp: step_fast)
next
  case True
  let ?y = "set_pc (get_pc st) (i_sys st)"
  have y: "R (i_sys st) ?y" using assms(2) by simp
  have t: "R (i_sys st) y1" if "take_interrupt ?y = (x, y1)" for x y1
    using R_trans [OF y R_irq] that by (metis snd_conv)
  have f: "R (i_sys st) (i_sys st2) \<and> get_pc st2 = get_pc st \<and> (r = None \<longrightarrow> F (i_sys st2))"
    if "take_interrupt ?y = (False, y1)" "fetch_block (st\<lparr>i_sys := y1\<rparr>) = (r, st2)" for y1 r st2
  proof -
    have "c_pc (e_cpu (sy_emu y1)) = get_pc st"
      using that(1)
      by (auto simp: take_interrupt_def Let_def raise_interrupt_def set_pc_def upd_hart_def split: if_splits)
    then have "get_pc (st\<lparr>i_sys := y1\<rparr>) = c_pc (e_cpu (sy_emu (i_sys (st\<lparr>i_sys := y1\<rparr>))))" by (simp add: get_pc_def)
    moreover have "I (i_sys (st\<lparr>i_sys := y1\<rparr>))" using R_I [OF t [OF that(1)] assms(1)] by simp
    ultimately show ?thesis
      using fetch_block_R [OF _ that(2)] R_trans [OF t [OF that(1)]] by (auto simp: get_pc_def)
  qed
  from True assms(3) show ?thesis
  proof (cases rule: step_slow)
    case budget
    then show ?thesis using y by (simp add: on_sys_def)
  next
    case (irq y1)
    then show ?thesis using t by simp
  next
    case (fault y1 st2)
    then show ?thesis using f [OF fault(3,4)] leave_raise_R [of "i_sys st" st2 E] assms(2) by simp
  next
    case (insn y1 insn st2)
    note f2 = f [OF insn(2,3)]
    then have "I (i_sys st2)" using R_I assms(1) by blast
    then show ?thesis using run_insn_R [OF _ _ insn(4)] f2 assms(2) R_trans by (metis (no_types))
  qed
qed

lemma loop_R: "I (i_sys st) \<Longrightarrow> \<not> bit (get_pc st) 0 \<Longrightarrow> R (i_sys st) (i_sys (interp_loop E tot st))"
proof (induction E tot st rule: interp_loop.induct)
  case (1 E tot st)
  obtain b st' where r: "interp_step E tot st = (b, st')" by fastforce
  note s = step_R [OF 1(2,3) r]
  show ?case
  proof (cases b)
    case True
    then show ?thesis using s by (simp add: interp_loop.simps [of E tot st] r)
  next
    case False
    then have "R (i_sys st') (i_sys (interp_loop E tot st'))" using 1(1) [OF r [symmetric]] s R_I 1(2) by auto
    then show ?thesis using False s R_trans by (auto simp: interp_loop.simps [of E tot st] r)
  qed
qed

lemma x32_R: "I y \<Longrightarrow> R y (riscv_cpu_interp_x32 E y n)"
proof -
  assume I: "I y"
  obtain t y1 where t: "take_interrupt y = (t, y1)" by fastforce
  have y1: "R y y1" using R_irq [of y] t by simp
  let ?st = "new_block \<lparr>i_sys = pend (-1) y1, i_cycles = n, i_ptr = 0, i_end = 0, i_addend = 0\<rparr>"
  have st: "R y (i_sys ?st)" using y1 by (simp add: new_block_def)
  then have "\<not> bit (get_pc ?st) 0" using I_pc [OF R_I [OF st I]] by (simp add: get_pc_def new_block_def)
  from loop_R [OF R_I [OF st I] this] st have "R y (i_sys (interp_loop E tot ?st))" for tot using R_trans by blast
  then show ?thesis using y1 t by (simp add: riscv_cpu_interp_x32_def Let_def split: bool.split)
qed

lemma cpu_loop_R: "I y \<Longrightarrow> cpu_interp_loop E timeout y = Some y' \<Longrightarrow> R y y'"
proof (induction E timeout y rule: cpu_interp_loop.induct)
  case (1 E timeout y)
  show ?case
  proof (cases "\<not> c_power_down_flag (e_cpu (sy_emu y)) \<and> 0 < cycles_left timeout y")
    case True
    let ?y = "riscv_cpu_interp_x32 E y (cycles_left timeout y)"
    have x: "c_cur_xlen (e_cpu (sy_emu y)) = 32" "cpu_interp_loop E timeout ?y = Some y'"
      using True 1(3) by (auto simp: cpu_interp_loop.simps [of E timeout y] Let_def split: if_splits)
    have "R y ?y" using x32_R 1(2) .
    moreover have "R ?y y'" using 1(1) [OF refl _ x(1)] True R_I [OF \<open>R y ?y\<close> 1(2)] x(2) by simp
    ultimately show ?thesis by (rule R_trans)
  next
    case False
    then show ?thesis using 1(3) by (auto simp: cpu_interp_loop.simps [of E timeout y] Let_def)
  qed
qed

end

section \<open>The machine's invariant\<close>

text \<open>What holds of the hart while guest code runs, for a machine with \<open>n\<close> bytes of RAM.\<close>

definition fetch_ok :: "cpu \<Rightarrow> bool" where
  "fetch_ok c \<longleftrightarrow> \<not> bit (c_pc c) 0 \<and> \<not> bit (c_sepc c) 0 \<and> \<not> bit (c_stvec c) 0 \<and> c_reg c 0 = 0"

definition cpu_inv :: "u32 \<Rightarrow> cpu \<Rightarrow> bool" where
  "cpu_inv n c \<longleftrightarrow> tlb_ok n c \<and> guest_inv c \<and> fetch_ok c"

definition run_inv :: "emu \<Rightarrow> bool" where
  "run_inv s \<longleftrightarrow> ram_map_ok (e_map s) (m_ram_size (e_m s)) \<and> cpu_inv (m_ram_size (e_m s)) (e_cpu s)"

text \<open>A step that keeps the invariant and the host's memory.\<close>

definition runs :: "sys \<Rightarrow> sys \<Rightarrow> bool" where
  "runs y y' \<longleftrightarrow> (run_inv (sy_emu y) \<longrightarrow> run_inv (sy_emu y') \<and> host_mem (sy_emu y') = host_mem (sy_emu y))"

text \<open>The exceptions the interpreter can have pending when it raises one.\<close>

definition pend_ok :: "sys \<Rightarrow> bool" where
  "pend_ok y \<longleftrightarrow> (let c = e_cpu (sy_emu y) in c_pending_exception c \<in> {1, 2, 3, 12, 13, 15} \<or>
     c_pending_exception c = 8 + of_nat (c_priv c))"

lemma run_inv_mem_ok: "run_inv s \<Longrightarrow> mem_ok s"
  by (simp add: run_inv_def cpu_inv_def mem_ok_def guest_inv_def)

lemma host_mem_upd [simp]: "host_mem (upd_cpu f s) = host_mem s" "host_mem (s\<lparr>e_ev := x\<rparr>) = host_mem s"
  by (simp_all add: host_mem_def cong: if_cong)

lemma runs_hart: "(\<And>n. cpu_inv n (e_cpu (sy_emu y)) \<Longrightarrow> cpu_inv n (f (e_cpu (sy_emu y)))) \<Longrightarrow> runs y (upd_hart f y)"
  by (simp add: runs_def run_inv_def upd_hart_def)

lemma hart_ctl_inv:
  assumes "hart_ctl c' = hart_ctl c"
  shows "guest_inv c' = guest_inv c" "fetch_ok c' = fetch_ok c"
proof -
  have s: "c_priv (hart_ctl c) = c_priv c" "c_cur_xlen (hart_ctl c) = c_cur_xlen c" "c_medeleg (hart_ctl c) = c_medeleg c"
    "c_mideleg (hart_ctl c) = c_mideleg c" "c_mie (hart_ctl c) = c_mie c" "c_mstatus (hart_ctl c) = c_mstatus c"
    "c_pc (hart_ctl c) = c_pc c" "c_sepc (hart_ctl c) = c_sepc c" "c_stvec (hart_ctl c) = c_stvec c" "c_reg (hart_ctl c) = c_reg c" for c
    by (simp_all add: hart_ctl_def hart_core_def)
  show "guest_inv c' = guest_inv c" "fetch_ok c' = fetch_ok c"
    using assms s [of c] s [of c'] by (simp_all add: guest_inv_def fetch_ok_def)
qed

lemma runs_keeps: "(mem_ok (sy_emu y) \<Longrightarrow> keeps (sy_emu y) (sy_emu y')) \<Longrightarrow> runs y y'"
proof -
  assume k: "mem_ok (sy_emu y) \<Longrightarrow> keeps (sy_emu y) (sy_emu y')"
  show ?thesis
  proof (unfold runs_def, intro impI)
    assume i: "run_inv (sy_emu y)"
    then have *: "mem_ok (sy_emu y')" "host_mem (sy_emu y') = host_mem (sy_emu y)"
      "hart_ctl (e_cpu (sy_emu y')) = hart_ctl (e_cpu (sy_emu y))"
      using k run_inv_mem_ok by (simp_all add: keeps_def)
    with i hart_ctl_inv [OF *(3)] show "run_inv (sy_emu y') \<and> host_mem (sy_emu y') = host_mem (sy_emu y)"
      by (simp add: run_inv_def cpu_inv_def mem_ok_def)
  qed
qed

text \<open>Every operation on the hart leaves the TLBs alone or empties them.\<close>

definition tlbs :: "cpu \<Rightarrow> (nat \<Rightarrow> tlb_entry) \<times> (nat \<Rightarrow> tlb_entry) \<times> (nat \<Rightarrow> tlb_entry)" where
  "tlbs c = (c_tlb_read c, c_tlb_write c, c_tlb_code c)"

definition tlb_step :: "cpu \<Rightarrow> cpu \<Rightarrow> bool" where
  "tlb_step c c' \<longleftrightarrow> tlbs c' = tlbs c \<or> tlbs c' = tlbs (tlb_flush_all c)"

lemma tlb_step_ok: "tlb_step c c' \<Longrightarrow> tlb_ok n c \<Longrightarrow> tlb_ok n c'"
  by (auto simp: tlb_step_def tlbs_def tlb_ok_def tlb_entry_ok_def tlb_flush_all_def tlb_init_def tlb_invalidate_def)

lemma tlb_step_if: "tlb_step c (fst x) \<Longrightarrow> tlb_step c (fst z) \<Longrightarrow> tlb_step c (fst (if b then x else z))"
  by simp

lemma tlbs_flush [simp]:
  "tlbs (tlb_flush_all (c\<lparr>c_satp := w\<rparr>)) = tlbs (tlb_flush_all c)" "tlbs (tlb_flush_all (tlb_flush_all c)) = tlbs (tlb_flush_all c)"
  by (auto simp: tlbs_def tlb_flush_all_def tlb_init_def tlb_invalidate_def)

lemma tlb_step_mstatus: "tlb_step c (set_mstatus c v)"
  by (simp add: tlb_step_def set_mstatus_def Let_def) (simp add: tlbs_def)

lemma tlb_step_csr: "tlb_step c (fst (csr_write c csr v))"
  unfolding csr_write_def
  by (intro tlb_step_if) (simp_all add: tlb_step_mstatus, simp_all add: tlb_step_def set_frm_def, simp_all add: tlbs_def)

lemma tlb_step_priv: "tlb_step c ((set_priv (c\<lparr>c_mstatus := m\<rparr>) p)\<lparr>c_pc := v\<rparr>)"
  "tlb_step c ((set_priv (c\<lparr>c_scause := a, c_sepc := b, c_stval := d, c_mstatus := m\<rparr>) p)\<lparr>c_pc := v\<rparr>)"
  "tlb_step c ((set_priv (c\<lparr>c_mcause := a, c_mepc := b, c_mtval := d, c_mstatus := m\<rparr>) p)\<lparr>c_pc := v\<rparr>)"
  by (simp_all add: tlb_step_def set_priv_def tlbs_def tlb_flush_all_def tlb_init_def)

lemma tlb_step_trap: "tlb_step c (deliver_trap c cause t)" "tlb_step c (handle_sret c)"
  by (simp_all add: deliver_trap_def handle_sret_def Let_def tlb_step_priv)

lemma fetch_ok_csr: "fetch_ok c \<Longrightarrow> fetch_ok (fst (csr_write c csr v))"
proof -
  assume f: "fetch_ok c"
  have i: "fetch_ok (fst x) \<Longrightarrow> fetch_ok (fst z) \<Longrightarrow> fetch_ok (fst (if b then x else z))" for b x z by simp
  have m: "fetch_ok (set_mstatus c w)" for w using f by (simp add: fetch_ok_def set_mstatus_def Let_def)
  show ?thesis
    unfolding csr_write_def by (intro i) (use f m in \<open>simp_all add: fetch_ok_def set_frm_def bit_simps\<close>)
qed

lemma cpu_inv_trap: "cpu_inv n c \<Longrightarrow> trap_delegated c cause \<Longrightarrow> cpu_inv n (deliver_trap c cause tval)"
  using tlb_step_ok [OF tlb_step_trap(1)] guest_inv_trap
  by (simp add: cpu_inv_def) (simp add: fetch_ok_def deliver_trap_def set_priv_def Let_def)

lemma cpu_inv_sync: "cpu_inv n c \<Longrightarrow> unat cause < 16 \<Longrightarrow> cause \<notin> {9, 10, 11} \<Longrightarrow> cpu_inv n (deliver_trap c cause tval)"
  using cpu_inv_trap [of n c cause tval] guest_sync_delegated [of c cause] by (simp add: cpu_inv_def)

lemma cpu_inv_irq: "cpu_inv n c \<Longrightarrow> cpu_inv n (fst (raise_interrupt c))"
  using cpu_inv_trap [of n c] guest_irq_delegated(2) [of c] by (simp add: raise_interrupt_def Let_def cpu_inv_def)

lemma cpu_inv_sret: "cpu_inv n c \<Longrightarrow> PRV_S \<le> c_priv c \<Longrightarrow> cpu_inv n (handle_sret c)"
  using tlb_step_ok [OF tlb_step_trap(2)] guest_inv_step [OF gs_sret]
  by (simp add: cpu_inv_def) (simp add: fetch_ok_def handle_sret_def set_priv_def Let_def)

lemma cpu_inv_csr: "cpu_inv n c \<Longrightarrow> csr_read t c csr True = Some old \<Longrightarrow> cpu_inv n (fst (csr_write c csr new))"
  using tlb_step_ok [OF tlb_step_csr] guest_inv_step [OF gs_csr] fetch_ok_csr by (simp add: cpu_inv_def)

lemma cpu_inv_flush: "cpu_inv n c \<Longrightarrow> cpu_inv n (tlb_flush_all c)"
  using tlb_step_ok [of c "tlb_flush_all c"] by (simp add: cpu_inv_def tlb_step_def guest_inv_def fetch_ok_def)

text \<open>Updates of fields the invariant does not speak of, and of the registers and the pc.\<close>

lemma cpu_inv_fields:
  assumes "cpu_inv n c"
  shows "r \<noteq> 0 \<Longrightarrow> cpu_inv n (c\<lparr>c_reg := (c_reg c)(r := v)\<rparr>)" "\<not> bit v 0 \<Longrightarrow> cpu_inv n (c\<lparr>c_pc := v\<rparr>)"
    "cpu_inv n (c\<lparr>c_fp_reg := fr, c_fs := fs\<rparr>)" "cpu_inv n (c\<lparr>c_fflags := ff\<rparr>)" "cpu_inv n (c\<lparr>c_insn_counter := k\<rparr>)"
    "cpu_inv n (c\<lparr>c_load_res := a\<rparr>)" "cpu_inv n (c\<lparr>c_power_down_flag := pd\<rparr>)" "cpu_inv n (c\<lparr>c_pending_exception := e\<rparr>)"
    "cpu_inv n (c\<lparr>c_pending_exception := e, c_pending_tval := t\<rparr>)"
  using assms by (simp_all add: cpu_inv_def guest_inv_def fetch_ok_def tlb_ok_def)

section \<open>The pending exception\<close>

lemma read_piece_fault:
  "read_aligned P y a sz = (MemFault, y') \<Longrightarrow> c_pending_exception (e_cpu (sy_emu y')) = CAUSE_LOAD_PAGE_FAULT"
  "read_piece P y a sz = (MemFault, y') \<Longrightarrow> c_pending_exception (e_cpu (sy_emu y')) = CAUSE_LOAD_PAGE_FAULT"
proof -
  show 1: "c_pending_exception (e_cpu (sy_emu y')) = CAUSE_LOAD_PAGE_FAULT" if "read_aligned P y a sz = (MemFault, y')" for y
    using that
    by (auto simp: read_aligned_def read_device_def set_pending_def Let_def split: prod.splits option.splits if_splits)
  show "read_piece P y a sz = (MemFault, y') \<Longrightarrow> c_pending_exception (e_cpu (sy_emu y')) = CAUSE_LOAD_PAGE_FAULT"
    using 1 by (auto simp: read_piece_def Let_def split: if_splits)
qed

lemma target_read_fault:
  assumes "target_read P y a sz = (MemFault, y')"
  shows "c_pending_exception (e_cpu (sy_emu y')) = CAUSE_LOAD_PAGE_FAULT"
proof -
  have "c_pending_exception (e_cpu (sy_emu y')) = CAUSE_LOAD_PAGE_FAULT" if "read_two P y b c k f = (MemFault, y')" for b c k f
    using that by (auto simp: read_two_def dest: read_piece_fault split: prod.splits mem_res.splits)
  then show ?thesis
    using assms read_piece_fault(1) by (auto simp: target_read_def target_read_slow_def Let_def split: if_splits)
qed

lemma target_write_fault:
  assumes "target_write P y a v sz = (False, y')"
  shows "c_pending_exception (e_cpu (sy_emu y')) = CAUSE_STORE_PAGE_FAULT"
proof -
  have w: "c_pending_exception (e_cpu (sy_emu y')) = CAUSE_STORE_PAGE_FAULT" if "write_aligned P y a v sz = (False, y')" for y a v sz
    using that by (auto simp: write_aligned_def set_pending_def Let_def split: prod.splits option.splits if_splits)
  have "c_pending_exception (e_cpu (sy_emu y')) = CAUSE_STORE_PAGE_FAULT" if "write_bytes P y a bs = (False, y')" for bs
    using that
  proof (induction bs arbitrary: y a)
    case (Cons b bs)
    then show ?case
      using w by (auto simp: write_piece_def Let_def split: prod.splits bool.splits if_splits)
  qed simp
  then show ?thesis
    using assms w by (auto simp: target_write_def target_write_slow_def Let_def split: if_splits)
qed

section \<open>SBI calls and the host's memory\<close>

lemma host_mem_view: "host_view s' = host_view s \<Longrightarrow> host_mem s' = host_mem s"
  using host_view_ok by blast

lemmas host_mem_views = host_view_plat [THEN host_mem_view] host_view_timer [THEN host_mem_view]

lemma host_mem_dbcn_loop:
  "p + i + n \<le> unat (m_ram_size (e_m s)) \<Longrightarrow> host_mem (snd (dbcn_read_loop P n i p s)) = host_mem s"
proof (induction n arbitrary: i s)
  case (Suc n)
  obtain c s1 where g: "plat_getc P s = (c, s1)" by fastforce
  have v: "host_view s1 = host_view s" "e_m s1 = e_m s" using host_view_plat(3) [of P s] plat_getc_frame(2) [of P s] g by simp_all
  have "host_mem (s1\<lparr>e_ram := (e_ram s1)(p + i := word_of_int c)\<rparr>) = host_mem s1"
    using Suc.prems v(2) by (auto simp: host_mem_def)
  then show ?case
    using Suc.IH [of "Suc i" "s1\<lparr>e_ram := (e_ram s1)(p + i := word_of_int c)\<rparr>"] Suc.prems g v host_mem_view [OF v(1)]
    by simp
qed simp

lemma host_mem_dbcn: "host_mem (snd (snd (sbi_dbcn P s fid))) = host_mem s"
proof -
  have put: "host_mem (put_bytes s bs) = host_mem s" for bs s
    by (induction bs arbitrary: s) (simp_all add: put_bytes_def host_mem_views)
  have "host_mem (snd (dbcn_read_loop P (unat len) 0 p s)) = host_mem s" if "rv_guest_phys_ptr s a len = Some p" for a len p
    using guest_phys_ptr_iff that by (intro host_mem_dbcn_loop) auto
  then show ?thesis
    using put by (auto simp: sbi_dbcn_def Let_def case_prod_beta host_mem_views split: option.split)
qed

lemma host_mem_sbi: "host_mem (snd (snd (riscv_host_sbi P st s))) = host_mem s"
proof -
  have x: "host_mem (set_xreg s r v) = host_mem s" "host_mem (sbi_ret e v s) = host_mem s" for r v e s
    by (simp_all add: set_xreg_def sbi_ret_def)
  have r: "host_mem (rv_request_poweroff s) = host_mem s" "host_mem (rv_request_reboot s) = host_mem s"
    by (simp_all add: rv_request_poweroff_def rv_request_reboot_def host_view_upd_m [THEN host_mem_view])
  have "host_mem (snd (sbi_srst s fid)) = host_mem s" for fid by (simp add: sbi_srst_def r)
  then show ?thesis
    by (simp add: riscv_host_sbi_def Let_def case_prod_beta x r host_mem_dbcn host_mem_views)
qed

section \<open>The interpreter keeps the invariant\<close>

lemma runs_raise:
  assumes "pend_ok y" "raise_exception2 P (sy_sbi y) (sy_emu y) (c_pending_exception (e_cpu (sy_emu y)))
      (c_pending_tval (e_cpu (sy_emu y))) = (sb, s')"
  shows "runs y (y\<lparr>sy_sbi := sb, sy_emu := s'\<rparr>)"
proof (unfold runs_def, intro impI)
  assume i: "run_inv (sy_emu y)"
  let ?s = "sy_emu y" and ?c = "e_cpu (sy_emu y)"
  have p: "c_priv ?c \<le> 1" using i by (simp add: run_inv_def cpu_inv_def guest_inv_def prv_defs)
  have "run_inv s' \<and> host_mem s' = host_mem ?s"
  proof (cases "c_pending_exception ?c = CAUSE_SUPERVISOR_ECALL \<and> c_priv ?c = PRV_S")
    case True
    obtain v st1 s1 where h: "riscv_host_sbi P (sy_sbi y) ?s = (v, st1, s1)" using prod_cases3 by blast
    note f = sbi_frame_call [OF h]
    have s': "s' = upd_cpu (\<lambda>c. c\<lparr>c_pc := c_pc c + 4\<rparr>) s1" using assms(2) True h f by (simp add: raise_exception2_def)
    have m: "host_mem s1 = host_mem ?s" using host_mem_sbi [of P "sy_sbi y" ?s] h by simp
    have map: "e_map s1 = e_map ?s" "m_ram_size (e_m s1) = m_ram_size (e_m ?s)" using m by (simp_all add: host_mem_def)
    have "cpu_inv n (e_cpu s1)" if "cpu_inv n ?c" for n
      using f that by (auto simp: sbi_frame_def cpu_inv_def guest_inv_def fetch_ok_def tlb_ok_def areg_defs)
    then have "run_inv s1" using i by (simp add: run_inv_def map)
    moreover from this have "\<not> bit (c_pc (e_cpu s1) + 4) 0" by (intro even_add32) (simp_all add: run_inv_def cpu_inv_def fetch_ok_def)
    ultimately have "run_inv s'" using cpu_inv_fields(2) by (simp add: run_inv_def s')
    then show ?thesis using m by (simp add: s')
  next
    case False
    then have s': "s' = upd_cpu (\<lambda>c. deliver_trap c (c_pending_exception ?c) (c_pending_tval ?c)) ?s"
      using assms(2) by (simp add: raise_exception2_def split: if_splits)
    have "c_pending_exception ?c \<in> {1, 2, 3, 12, 13, 15, 8}"
      using assms(1) p False by (auto simp: pend_ok_def Let_def cause_defs prv_defs le_Suc_eq)
    then have "unat (c_pending_exception ?c) < 16" "c_pending_exception ?c \<notin> {9, 10, 11}" by auto
    then show ?thesis
      using i cpu_inv_sync by (simp add: run_inv_def s')
  qed
  then show "run_inv (sy_emu (y\<lparr>sy_sbi := sb, sy_emu := s'\<rparr>)) \<and> host_mem (sy_emu (y\<lparr>sy_sbi := sb, sy_emu := s'\<rparr>)) = host_mem ?s"
    by simp
qed

lemma runs_irq: "runs y (snd (take_interrupt y))"
proof -
  have "runs y (upd_hart (\<lambda>_. fst (raise_interrupt (e_cpu (sy_emu y)))) y)"
    by (intro runs_hart cpu_inv_irq)
  moreover have "runs y y" by (simp add: runs_def)
  ultimately show ?thesis by (simp add: take_interrupt_def Let_def case_prod_beta)
qed

lemma runs_fetch: "runs y (y\<lparr>sy_emu := snd (code_pointer (sy_emu y) a)\<rparr>)"
  "runs y (y\<lparr>sy_emu := snd (target_read_insn_u16 (sy_emu y) a)\<rparr>)"
  using keeps_insn_slow keeps_refl keeps_insn
  by (auto intro!: runs_keeps simp: code_pointer_def Let_def)

lemma runs_refl: "runs y y"
  by (simp add: runs_def)

lemma runs_trans: "runs y y' \<Longrightarrow> runs y' y'' \<Longrightarrow> runs y y''"
  by (simp add: runs_def)

lemma runs_fields:
  "r \<noteq> 0 \<Longrightarrow> runs y (put_reg r v y)" "\<not> bit v 0 \<Longrightarrow> runs y (set_pc v y)" "runs y (put_fp r fv y)"
  "runs y (upd_hart (\<lambda>c. c\<lparr>c_fflags := ff\<rparr>) y)" "runs y (upd_hart (\<lambda>c. c\<lparr>c_insn_counter := n\<rparr>) y)"
  "runs y (upd_hart (\<lambda>c. c\<lparr>c_load_res := a\<rparr>) y)" "runs y (upd_hart (\<lambda>c. c\<lparr>c_power_down_flag := pd\<rparr>) y)"
  "runs y (pend cause y)" "runs y (upd_hart (\<lambda>c. c\<lparr>c_pending_exception := cause, c_pending_tval := w\<rparr>) y)"
  unfolding put_reg_def set_pc_def put_fp_def pend_def by (intro runs_hart; rule cpu_inv_fields; assumption)+

lemma runs_hart_ops:
  "csr_read t (e_cpu (sy_emu y)) csr True = Some old \<Longrightarrow> runs y (upd_hart (\<lambda>_. fst (csr_write (e_cpu (sy_emu y)) csr new)) y)"
  "PRV_S \<le> c_priv (e_cpu (sy_emu y)) \<Longrightarrow> runs y (upd_hart handle_sret y)"
  "PRV_M \<le> c_priv (e_cpu (sy_emu y)) \<Longrightarrow> runs y (upd_hart handle_mret y)"
  "runs y (upd_hart tlb_flush_all y)"
proof -
  show "runs y (upd_hart (\<lambda>_. fst (csr_write (e_cpu (sy_emu y)) csr new)) y)"
    if "csr_read t (e_cpu (sy_emu y)) csr True = Some old" using that by (intro runs_hart cpu_inv_csr)
  show "runs y (upd_hart handle_sret y)" if "PRV_S \<le> c_priv (e_cpu (sy_emu y))" using that by (intro runs_hart cpu_inv_sret)
  show "runs y (upd_hart handle_mret y)" if "PRV_M \<le> c_priv (e_cpu (sy_emu y))"
    using that by (intro runs_hart) (simp add: cpu_inv_def guest_inv_def prv_defs)
  show "runs y (upd_hart tlb_flush_all y)" by (intro runs_hart cpu_inv_flush)
qed

lemma runs_access:
  "sz \<le> 3 \<Longrightarrow> runs y (snd (target_read P y a sz))" "sz \<le> 3 \<Longrightarrow> runs y (snd (target_write P y a w sz))"
  "runs y (y\<lparr>sy_emu := snd (riscv_host_rdtime P (sy_emu y))\<rparr>)"
proof -
  show "sz \<le> 3 \<Longrightarrow> runs y (snd (target_read P y a sz))" "sz \<le> 3 \<Longrightarrow> runs y (snd (target_write P y a w sz))"
    using keeps_target_read keeps_target_write by (auto intro: runs_keeps)
  have "host_view (snd (riscv_host_rdtime P (sy_emu y))) = host_view (sy_emu y)"
    by (simp add: riscv_host_rdtime_def rv_mtime_def)
  then show "runs y (y\<lparr>sy_emu := snd (riscv_host_rdtime P (sy_emu y))\<rparr>)"
    using keeps_view by (auto intro: runs_keeps)
qed

lemma pend_ok_set:
  "pend_ok (pend CAUSE_BREAKPOINT y)" "pend_ok (pend (CAUSE_USER_ECALL + of_nat (c_priv (e_cpu (sy_emu y)))) y)"
  "pend_ok (upd_hart (\<lambda>c. c\<lparr>c_pending_exception := CAUSE_ILLEGAL_INSTRUCTION, c_pending_tval := w\<rparr>) y)"
  "pend_ok y \<Longrightarrow> pend_ok (set_pc w y)"
  by (simp_all add: pend_ok_def pend_def set_pc_def upd_hart_def CAUSE_BREAKPOINT_def CAUSE_USER_ECALL_def cause_defs Let_def)

lemma pend_ok_faults:
  "target_read P y a sz = (MemFault, y') \<Longrightarrow> pend_ok y'" "target_write P y a v sz = (False, y') \<Longrightarrow> pend_ok y'"
  "code_pointer s a = (None, s') \<Longrightarrow> pend_ok (y\<lparr>sy_emu := s'\<rparr>)"
  "target_read_insn_u16 s a = (None, s') \<Longrightarrow> pend_ok (y\<lparr>sy_emu := s'\<rparr>)"
  by (auto simp: pend_ok_def cause_defs dest!: target_read_fault target_write_fault fetch_fault_pending)

interpretation sandbox: interp_laws runs pend_ok "\<lambda>y. run_inv (sy_emu y)"
proof unfold_locales
  show "run_inv (sy_emu y) \<Longrightarrow> \<not> bit (c_pc (e_cpu (sy_emu y))) 0" for y by (simp add: run_inv_def cpu_inv_def fetch_ok_def)
  show "runs y y' \<Longrightarrow> run_inv (sy_emu y) \<Longrightarrow> run_inv (sy_emu y')" for y y' by (simp add: runs_def)
qed (rule runs_refl runs_fields runs_hart_ops runs_access runs_irq runs_fetch pend_ok_set, assumption?
     | erule (1) runs_trans | erule pend_ok_faults | erule (1) runs_raise)+

end
