(* ===== verification/Ram_Access.thy ===== *)
theory Ram_Access
  imports Bus
begin

text \<open>
  Guest RAM as plain memory. While translation is off (\<open>flat\<close>), a load or a store of any width
  and any alignment that lies in RAM reads or writes exactly the bytes at its address,
  little-endian, whether it takes a TLB fast path, the slow path, or the slow path's split into
  pieces.
\<close>

section \<open>Untranslated RAM\<close>

definition ram_mapped :: "emu \<Rightarrow> bool" where
  "ram_mapped s \<longleftrightarrow> map_disjoint (e_map s) \<and> unat (m_ram_size (e_m s)) \<le> 0x40000000 \<and>
     unat (m_ram_size (e_m s)) mod 4096 = 0 \<and>
     (case get_phys_mem_range (e_map s) RV_RAM_BASE of
        None \<Rightarrow> False
      | Some pr \<Rightarrow> pr_is_ram pr \<and> pr_addr pr = RV_RAM_BASE \<and> pr_size pr = ucast (m_ram_size (e_m s)) \<and>
                  pr_phys_mem pr = Some 0)"

definition tlb_flat :: "(nat \<Rightarrow> tlb_entry) \<Rightarrow> bool" where
  "tlb_flat t \<longleftrightarrow> (\<forall>i<TLB_SIZE. tlb_vaddr (t i) = -1 \<or> tlb_addend (t i) = - 0x80000000)"

definition flat :: "emu \<Rightarrow> bool" where
  "flat s \<longleftrightarrow> mem_ok s \<and> ram_mapped s \<and> \<not> bit (c_satp (e_cpu s)) 31 \<and>
     tlb_flat (c_tlb_read (e_cpu s)) \<and> tlb_flat (c_tlb_write (e_cpu s))"

definition in_ram :: "emu \<Rightarrow> u32 \<Rightarrow> nat \<Rightarrow> bool" where
  "in_ram s a n \<longleftrightarrow> 0x80000000 \<le> unat a \<and> unat a + n \<le> 0x80000000 + unat (m_ram_size (e_m s))"

definition ram_bytes :: "emu \<Rightarrow> u32 \<Rightarrow> nat \<Rightarrow> u8 list" where
  "ram_bytes s a n = mem_read (e_ram s) (unat a - 0x80000000) n"

lemma ram_mapped_frame [simp]:
  "ram_mapped (upd_cpu f s) = ram_mapped s" "ram_mapped (s\<lparr>e_ram := r\<rparr>) = ram_mapped s"
  by (simp_all add: ram_mapped_def cong: option.case_cong)

lemma flat_translate: "flat s \<Longrightarrow> get_phys_addr s a acc = (Some a, s)"
  by (simp add: flat_def mem_ok_def get_phys_addr_def Let_def satp_mode)

lemma flat_decode:
  assumes "flat s" "in_ram s a n" "0 < n"
  obtains pr where "get_phys_mem_range (e_map s) (ucast a) = Some pr" "pr_is_ram pr"
    "ram_index pr a = unat a - 0x80000000"
proof -
  from assms(1) obtain pr where
    pr: "get_phys_mem_range (e_map s) RV_RAM_BASE = Some pr" "pr_is_ram pr" "pr_addr pr = RV_RAM_BASE"
      "pr_size pr = ucast (m_ram_size (e_m s))" "pr_phys_mem pr = Some 0" and d: "map_disjoint (e_map s)"
    by (auto simp: flat_def ram_mapped_def split: option.splits)
  have sz: "unat (m_ram_size (e_m s)) \<le> 0x40000000" using assms(1) by (simp add: flat_def ram_mapped_def)
  have "pr \<in> set (e_map s)" using iobus.lookup_iff [OF d] pr(1) by blast
  moreover have "pr_covers pr (ucast a)"
    using assms(2,3) sz
    by (simp add: pr_covers_def pr(3,4) in_ram_def word_le_nat_alt word_less_nat_alt unat_word_ariths RV_RAM_BASE_def)
  ultimately have "get_phys_mem_range (e_map s) (ucast a) = Some pr" using iobus.lookup_iff [OF d] by blast
  moreover have "ram_index pr a = unat a - 0x80000000"
    using assms(2) by (simp add: ram_index_def pr(3,5) in_ram_def unat_sub_if_size RV_RAM_BASE_def)
  ultimately show ?thesis using that pr(2) by blast
qed

text \<open>The states an access in RAM may leave behind: RAM as stated, and still untranslated.\<close>

definition flat_to :: "sys \<Rightarrow> block \<Rightarrow> sys \<Rightarrow> bool" where
  "flat_to y ram y' \<longleftrightarrow> flat (sy_emu y') \<and> e_ram (sy_emu y') = ram \<and> e_m (sy_emu y') = e_m (sy_emu y)"

lemma flat_to_refl: "flat (sy_emu y) \<Longrightarrow> flat_to y (e_ram (sy_emu y)) y"
  by (simp add: flat_to_def)

lemma flat_to_trans: "flat_to y r y' \<Longrightarrow> flat_to y' r' y'' \<Longrightarrow> flat_to y r' y''"
  by (simp add: flat_to_def)

lemma in_ram_to: "flat_to y r y' \<Longrightarrow> in_ram (sy_emu y') a n = in_ram (sy_emu y) a n"
  by (simp add: flat_to_def in_ram_def)

lemma flat_hit_ptr:
  assumes "flat s" "tlb_hit t a sz" "sz \<le> 3" "t = c_tlb_read (e_cpu s) \<or> t = c_tlb_write (e_cpu s)"
  shows "tlb_ptr t a = unat a - 0x80000000"
proof -
  have ok: "tlb_entry_ok (m_ram_size (e_m s)) (t (tlb_index a))"
    using assms(1,4) tlb_ok_sel [of s a] by (auto simp: flat_def)
  from tlb_hit_aligned(2) [OF assms(2,3) ok] have "tlb_vaddr (t (tlb_index a)) \<noteq> -1"
    using table_aligned [of "drop_bit 12 a"] by (auto simp: page_base unsigned_minus_1_eq_mask mask_eq_exp_minus_1)
  then have "tlb_addend (t (tlb_index a)) = - 0x80000000"
    using assms(1,4) tlb_index_lt [of a] by (auto simp: flat_def tlb_flat_def)
  then show ?thesis unfolding tlb_ptr_def by linarith
qed

lemma flat_entry: "0x80000000 \<le> unat a \<Longrightarrow> tlb_addend (tlb_entry_for a (unat a - 0x80000000)) = - 0x80000000"
  by (simp add: tlb_entry_for_def of_nat_diff)

section \<open>Loads\<close>

lemma flat_read_piece:
  assumes "flat (sy_emu y)" "in_ram (sy_emu y) a (2 ^ sz)" "sz \<le> 3"
  shows "\<exists>y'. read_piece P y a sz = (MemOk (of_le (ram_bytes (sy_emu y) a (2 ^ sz))), y') \<and>
    flat_to y (e_ram (sy_emu y)) y'"
    and "\<exists>y'. read_aligned P y a sz = (MemOk (of_le (ram_bytes (sy_emu y) a (2 ^ sz))), y') \<and>
    flat_to y (e_ram (sy_emu y)) y'"
proof -
  let ?s = "sy_emu y"
  obtain pr where pr: "get_phys_mem_range (e_map ?s) (ucast a) = Some pr" "pr_is_ram pr"
      "ram_index pr a = unat a - 0x80000000"
    using flat_decode [OF assms(1,2)] by auto
  let ?y' = "y\<lparr>sy_emu := upd_cpu (\<lambda>c. c\<lparr>c_tlb_read := (c_tlb_read c)(tlb_index a := tlb_entry_for a (unat a - 0x80000000))\<rparr>) ?s\<rparr>"
  have r: "read_aligned P y a sz = (MemOk (of_le (ram_bytes ?s a (2 ^ sz))), ?y')"
    by (simp add: read_aligned_def flat_translate [OF assms(1)] pr ram_bytes_def Let_def)
  have "mem_ok (sy_emu ?y')"
    using keeps_read_aligned [of y P a sz] assms(1) r by (simp add: keeps_def flat_def)
  moreover have "0x80000000 \<le> unat a" using assms(2) by (simp add: in_ram_def)
  ultimately have f: "flat_to y (e_ram ?s) ?y'"
    using assms(1) by (auto simp: flat_to_def flat_def tlb_flat_def flat_entry)
  with r show al: "\<exists>y'. read_aligned P y a sz = (MemOk (of_le (ram_bytes ?s a (2 ^ sz))), y') \<and> flat_to y (e_ram ?s) y'"
    by blast
  show "\<exists>y'. read_piece P y a sz = (MemOk (of_le (ram_bytes ?s a (2 ^ sz))), y') \<and> flat_to y (e_ram ?s) y'"
    using al flat_to_refl [OF assms(1)] flat_hit_ptr [OF assms(1) _ assms(3)]
    by (auto simp: read_piece_def Let_def ram_bytes_def)
qed

lemma ram_bytes_to: "flat_to y (e_ram (sy_emu y)) y' \<Longrightarrow> ram_bytes (sy_emu y') a n = ram_bytes (sy_emu y) a n"
  by (simp add: flat_to_def ram_bytes_def)

lemma flat_read_two:
  assumes "flat (sy_emu y)" "in_ram (sy_emu y) a (2 ^ sz)" "in_ram (sy_emu y) b (2 ^ sz)" "sz \<le> 3"
  shows "\<exists>y'. read_two P y a b sz f =
    (MemOk (f (of_le (ram_bytes (sy_emu y) a (2 ^ sz))) (of_le (ram_bytes (sy_emu y) b (2 ^ sz)))), y') \<and>
    flat_to y (e_ram (sy_emu y)) y'"
proof -
  from flat_read_piece(1) [OF assms(1,2,4), of P] obtain y1 where
    1: "read_piece P y a sz = (MemOk (of_le (ram_bytes (sy_emu y) a (2 ^ sz))), y1)"
       "flat_to y (e_ram (sy_emu y)) y1" by blast
  have f1: "flat (sy_emu y1)" "in_ram (sy_emu y1) b (2 ^ sz)" "e_ram (sy_emu y1) = e_ram (sy_emu y)"
    using 1(2) assms(3) by (simp_all add: flat_to_def in_ram_to [OF 1(2)])
  from flat_read_piece(1) [OF f1(1,2) assms(4), of P] obtain y2 where
    2: "read_piece P y1 b sz = (MemOk (of_le (ram_bytes (sy_emu y) b (2 ^ sz))), y2)"
       "flat_to y1 (e_ram (sy_emu y1)) y2"
    using ram_bytes_to [OF 1(2)] by auto
  show ?thesis
    using 1 2 flat_to_trans [OF 1(2) 2(2)] f1(3) by (simp add: read_two_def)
qed

text \<open>The pieces of a misaligned load, put together.\<close>

lemma low_bits: "sz \<le> 3 \<Longrightarrow> unat ((a :: u32) AND (push_bit sz 1 - 1)) = unat a mod 2 ^ sz"
proof -
  have "a AND (push_bit sz 1 - 1) = take_bit sz a" by (simp add: take_bit_eq_mask mask_eq_exp_minus_1)
  then show ?thesis by (metis unsigned_take_bit_eq take_bit_eq_mod)
qed

lemma misaligned_pieces:
  assumes "in_ram s a k" "k = 2 ^ sz" "sz \<le> 3" "unat a mod k = al" "0 < al" "unat (m_ram_size (e_m s)) mod 4096 = 0"
    "unat (m_ram_size (e_m s)) \<le> 0x40000000"
  shows "in_ram s (a - of_nat al) k" "in_ram s (a - of_nat al + of_nat k) k"
    "take k (drop al (ram_bytes s (a - of_nat al) k @ ram_bytes s (a - of_nat al + of_nat k) k)) = ram_bytes s a k"
    "al < k"
proof -
  let ?A = "unat a" and ?n = "unat (m_ram_size (e_m s))"
  have k: "0 < k" "k dvd 4096" "k dvd 0x80000000"
    using le_imp_power_dvd [of sz 12 "2 :: nat"] le_imp_power_dvd [of sz 31 "2 :: nat"] assms(2,3) by simp_all
  show al: "al < k" using assms(4) k(1) by (metis mod_less_divisor)
  obtain e c where c: "(0x80000000 :: nat) = k * c" and e: "0x80000000 + ?n = k * e"
    using k assms(6) by (meson dvdE dvd_add dvd_trans mod_0_imp_dvd)
  define q where "q = ?A div k"
  have A: "?A = k * q + al" using assms(4) by (metis q_def mult_div_mod_eq)
  have b: "k * c \<le> ?A" "?A + k \<le> k * e" using assms(1) c e by (simp_all add: in_ram_def)
  have "c \<le> q" using div_le_mono [OF b(1), of k] k(1) by (simp add: q_def)
  have "k * (q + 1) < k * e" using b(2) A assms(5) by (simp add: distrib_left)
  then have "q + 1 < e" by (simp only: mult_less_cancel1)
  then have "q + 2 \<le> e" by simp
  have lo: "0x80000000 \<le> ?A - al" unfolding c A using \<open>c \<le> q\<close> by simp
  have hi: "?A - al + k + k \<le> 0x80000000 + ?n"
    unfolding e A using mult_le_mono2 [OF \<open>q + 2 \<le> e\<close>, of k] by simp
  have al': "al \<le> ?A" using A by simp
  have ua: "unat (of_nat al :: u32) = al" using al' unat_u32_lt [of a] by (simp add: unsigned_of_nat take_bit_nat_eq_self)
  have u1: "unat (a - of_nat al) = ?A - al" using al' by (simp add: unat_sub_if_size ua)
  have u2: "unat (a - of_nat al + of_nat k) = ?A - al + k"
    using hi assms(7) by (subst unat_add_of_nat) (simp_all add: u1)
  show "in_ram s (a - of_nat al) k" "in_ram s (a - of_nat al + of_nat k) k"
    using lo hi by (simp_all add: in_ram_def u1 u2)
  have "ram_bytes s (a - of_nat al) k @ ram_bytes s (a - of_nat al + of_nat k) k =
      mem_read (e_ram s) (?A - al - 0x80000000) (k + k)"
    unfolding ram_bytes_def u1 u2 mem_read_add using lo by (simp add: add.commute)
  moreover have "ram_bytes s a k = take k (drop al (mem_read (e_ram s) (?A - al - 0x80000000) (k + k)))"
    using mem_read_sub [of al k "k + k" "e_ram s" "?A - al - 0x80000000"] al lo al'
    unfolding ram_bytes_def by (simp add: add.commute)
  ultimately show "take k (drop al (ram_bytes s (a - of_nat al) k @ ram_bytes s (a - of_nat al + of_nat k) k)) =
      ram_bytes s a k"
    by simp
qed

lemma ucast_of_le: "length bs \<le> 4 \<Longrightarrow> ucast (of_le bs :: u64) = (of_le bs :: u32)"
  "length bs \<le> 4 \<Longrightarrow> ucast (of_le bs :: u32) = (of_le bs :: u64)"
  by (rule bit_word_eqI, auto simp: bit_simps bit_of_le)+

lemma unat_of_mod: "unat (of_nat (unat (a :: u32) mod k) :: u32) = unat a mod k"
proof -
  have "unat a mod k < 4294967296" using unat_u32_lt [of a] mod_less_eq_dividend [of "unat a" k] by linarith
  then show ?thesis by (simp add: unsigned_of_nat take_bit_nat_eq_self)
qed

lemma of_nat_mod_ne: "unat (a :: u32) mod k \<noteq> 0 \<Longrightarrow> (of_nat (unat a mod k) :: u32) \<noteq> 0"
  using unat_of_mod [of a k] by (metis unsigned_0)

lemma low_bits_word: "sz \<le> 3 \<Longrightarrow> (a :: u32) AND (push_bit sz 1 - 1) = of_nat (unat a mod 2 ^ sz)"
  using low_bits [of sz a] by (metis of_nat_unat ucast_id)

lemma flat_misaligned_half:
  assumes "flat (sy_emu y)" "in_ram (sy_emu y) a 2" "unat a mod 2 \<noteq> 0"
  shows "\<exists>y'. target_read_slow P y a 1 = (MemOk (of_le (ram_bytes (sy_emu y) a 2)), y') \<and>
    flat_to y (e_ram (sy_emu y)) y'"
proof -
  have r: "unat (m_ram_size (e_m (sy_emu y))) \<le> 0x40000000" using assms(1) by (simp add: flat_def ram_mapped_def)
  have u: "unat (a + 1) = unat a + 1" using assms(2) r by (simp add: in_ram_def unat_word_ariths)
  then have i: "in_ram (sy_emu y) a (2 ^ 0)" "in_ram (sy_emu y) (a + 1) (2 ^ 0)" using assms(2) by (simp_all add: in_ram_def)
  have b: "ram_bytes (sy_emu y) a 2 = ram_bytes (sy_emu y) a 1 @ ram_bytes (sy_emu y) (a + 1) 1"
    using mem_read_add [of "e_ram (sy_emu y)" "unat a - 0x80000000" 1 1] assms(2)
    by (simp add: ram_bytes_def u in_ram_def numeral_2_eq_2 Suc_diff_le [symmetric])
  have c: "of_le (ram_bytes (sy_emu y) a 2) =
      (of_le (ram_bytes (sy_emu y) a 1) OR push_bit 8 (of_le (ram_bytes (sy_emu y) (a + 1) 1)) :: u64)"
    unfolding b by (simp add: ram_bytes_def mem_read_def)
  have "target_read_slow P y a 1 = read_two P y a (a + 1) 0 (\<lambda>v0 v1. v0 OR push_bit 8 v1)"
    using low_bits_word [of 1 a] of_nat_mod_ne [OF assms(3)] by (simp add: target_read_slow_def)
  with flat_read_two [OF assms(1) i, of P "\<lambda>v0 v1. v0 OR push_bit 8 v1"] c show ?thesis by simp
qed

lemma flat_misaligned_word:
  assumes "flat (sy_emu y)" "in_ram (sy_emu y) a 4" "unat a mod 4 \<noteq> 0"
  shows "\<exists>y'. target_read_slow P y a 2 = (MemOk (of_le (ram_bytes (sy_emu y) a 4)), y') \<and>
    flat_to y (e_ram (sy_emu y)) y'"
proof -
  let ?al = "unat a mod 4" and ?b = "ram_bytes (sy_emu y)"
  let ?f = "\<lambda>(v0 :: u64) (v1 :: u64). ucast (drop_bit (8 * ?al) (ucast v0 :: u32) OR push_bit (32 - 8 * ?al) (ucast v1 :: u32)) :: u64"
  have r: "unat (m_ram_size (e_m (sy_emu y))) mod 4096 = 0" "unat (m_ram_size (e_m (sy_emu y))) \<le> 0x40000000"
    using assms(1) by (simp_all add: flat_def ram_mapped_def)
  note mp = misaligned_pieces [of "sy_emu y" a 4 2 ?al, OF assms(2) _ _ refl _ r]
  have l: "target_read_slow P y a 2 = read_two P y (a - of_nat ?al) (a - of_nat ?al + 4) 2 ?f"
    using low_bits_word [of 2 a] of_nat_mod_ne [OF assms(3)] unat_of_mod [of a 4] by (simp add: target_read_slow_def Let_def)
  have "?f (of_le (?b (a - of_nat ?al) 4)) (of_le (?b (a - of_nat ?al + 4) 4)) = of_le (?b a 4)"
    using of_le_split [of "?b (a - of_nat ?al) 4" 4 "?b (a - of_nat ?al + 4) 4" ?al, where 'a = 32] mp(3,4) assms(3)
    by (simp add: ucast_of_le ram_bytes_def)
  with flat_read_two [OF assms(1), of "a - of_nat ?al" 2 "a - of_nat ?al + 4" P ?f] mp(1,2) assms(3) l
  show ?thesis by simp
qed

lemma flat_misaligned_double:
  assumes "flat (sy_emu y)" "in_ram (sy_emu y) a 8" "unat a mod 8 \<noteq> 0"
  shows "\<exists>y'. target_read_slow P y a 3 = (MemOk (of_le (ram_bytes (sy_emu y) a 8)), y') \<and>
    flat_to y (e_ram (sy_emu y)) y'"
proof -
  let ?al = "unat a mod 8" and ?b = "ram_bytes (sy_emu y)"
  let ?f = "\<lambda>v0 v1. drop_bit (8 * ?al) v0 OR push_bit (64 - 8 * ?al) v1 :: u64"
  have r: "unat (m_ram_size (e_m (sy_emu y))) mod 4096 = 0" "unat (m_ram_size (e_m (sy_emu y))) \<le> 0x40000000"
    using assms(1) by (simp_all add: flat_def ram_mapped_def)
  note mp = misaligned_pieces [of "sy_emu y" a 8 3 ?al, OF assms(2) _ _ refl _ r]
  have l: "target_read_slow P y a 3 = read_two P y (a - of_nat ?al) (a - of_nat ?al + 8) 3 ?f"
    using low_bits_word [of 3 a] of_nat_mod_ne [OF assms(3)] unat_of_mod [of a 8] by (simp add: target_read_slow_def Let_def)
  have "?f (of_le (?b (a - of_nat ?al) 8)) (of_le (?b (a - of_nat ?al + 8) 8)) = of_le (?b a 8)"
    using of_le_split [of "?b (a - of_nat ?al) 8" 8 "?b (a - of_nat ?al + 8) 8" ?al, where 'a = 64] mp(3,4) assms(3)
    by (simp add: ram_bytes_def)
  with flat_read_two [OF assms(1), of "a - of_nat ?al" 3 "a - of_nat ?al + 8" P ?f] mp(1,2) assms(3) l
  show ?thesis by simp
qed

lemma flat_target_read:
  assumes "flat (sy_emu y)" "in_ram (sy_emu y) a (2 ^ sz)" "sz \<le> 3"
  shows "\<exists>y'. target_read P y a sz = (MemOk (of_le (ram_bytes (sy_emu y) a (2 ^ sz))), y') \<and>
    flat_to y (e_ram (sy_emu y)) y'"
proof (cases "tlb_hit (c_tlb_read (e_cpu (sy_emu y))) a sz")
  case True
  then show ?thesis
    using flat_to_refl [OF assms(1)] flat_hit_ptr [OF assms(1) _ assms(3)]
    by (auto simp: target_read_def Let_def ram_bytes_def)
next
  case False
  let ?s = "sy_emu y" and ?al = "unat a mod 2 ^ sz"
  have lb: "unat (a AND (push_bit sz 1 - 1)) = ?al" using low_bits [OF assms(3)] .
  have ral: "a AND (push_bit sz 1 - 1) = of_nat ?al" unfolding lb [symmetric] by simp
  show ?thesis
  proof (cases "?al = 0")
    case True
    then show ?thesis using False flat_read_piece(2) [OF assms]
      by (simp add: target_read_def target_read_slow_def Let_def ral del: push_bit_of_1)
  next
    case mis: False
    have slow: "target_read P y a sz = target_read_slow P y a sz" using False by (simp add: target_read_def Let_def)
    have "sz = 1 \<or> sz = 2 \<or> sz = 3" using assms(3) mis by (cases "sz = 0") auto
    then show ?thesis
      using flat_misaligned_half [OF assms(1)] flat_misaligned_word [OF assms(1)] flat_misaligned_double [OF assms(1)]
        assms(2) mis by (auto simp: slow)
  qed
qed

section \<open>Stores\<close>

lemma flat_ram_write:
  assumes "flat (sy_emu y)" "in_ram (sy_emu y) a (length bs)"
  shows "flat_to y (mem_write (e_ram (sy_emu y)) (unat a - 0x80000000) bs)
    (upd_emu (\<lambda>s. s\<lparr>e_ram := mem_write (e_ram s) (unat a - 0x80000000) bs\<rparr>) y)"
proof -
  have "keeps (sy_emu y) (sy_emu y\<lparr>e_ram := mem_write (e_ram (sy_emu y)) (unat a - 0x80000000) bs\<rparr>)"
    using assms by (intro keeps_ram) (auto simp: flat_def in_ram_def)
  with assms(1) show ?thesis by (simp add: flat_to_def flat_def keeps_def)
qed

lemma flat_write_piece:
  assumes "flat (sy_emu y)" "in_ram (sy_emu y) a (2 ^ sz)" "sz \<le> 3" "a AND (push_bit sz 1 - 1) = 0"
  shows "\<exists>y'. write_aligned P y a v sz = (True, y') \<and>
      flat_to y (mem_write (e_ram (sy_emu y)) (unat a - 0x80000000) (le_bytes (2 ^ sz) v)) y'"
    and "\<exists>y'. write_piece P y a v sz = (True, y') \<and>
      flat_to y (mem_write (e_ram (sy_emu y)) (unat a - 0x80000000) (le_bytes (2 ^ sz) v)) y'"
proof -
  let ?s = "sy_emu y" and ?bs = "le_bytes (2 ^ sz) v"
  obtain pr where pr: "get_phys_mem_range (e_map ?s) (ucast a) = Some pr" "pr_is_ram pr"
      "ram_index pr a = unat a - 0x80000000"
    using flat_decode [OF assms(1,2)] by auto
  let ?s1 = "upd_cpu (\<lambda>c. c\<lparr>c_tlb_write := (c_tlb_write c)(tlb_index a := tlb_entry_for a (unat a - 0x80000000))\<rparr>) ?s"
  let ?y' = "y\<lparr>sy_emu := ?s1\<lparr>e_ram := mem_write (e_ram ?s1) (unat a - 0x80000000) ?bs\<rparr>\<rparr>"
  have r: "write_aligned P y a v sz = (True, ?y')"
    by (simp add: write_aligned_def flat_translate [OF assms(1)] pr Let_def)
  have "mem_ok (sy_emu ?y')"
    using keeps_write_aligned [OF _ assms(3,4), of y P v] assms(1) r by (simp add: keeps_def flat_def)
  moreover have "0x80000000 \<le> unat a" using assms(2) by (simp add: in_ram_def)
  ultimately have "flat_to y (mem_write (e_ram ?s) (unat a - 0x80000000) ?bs) ?y'"
    using assms(1) by (auto simp: flat_to_def flat_def tlb_flat_def flat_entry)
  with r show al: "\<exists>y'. write_aligned P y a v sz = (True, y') \<and>
      flat_to y (mem_write (e_ram ?s) (unat a - 0x80000000) ?bs) y'" by blast
  show "\<exists>y'. write_piece P y a v sz = (True, y') \<and>
      flat_to y (mem_write (e_ram ?s) (unat a - 0x80000000) ?bs) y'"
    using al flat_ram_write [OF assms(1), of a ?bs] assms(2) flat_hit_ptr [OF assms(1) _ assms(3)]
    by (auto simp: write_piece_def Let_def)
qed

lemma flat_write_bytes:
  "flat (sy_emu y) \<Longrightarrow> in_ram (sy_emu y) a (length bs) \<Longrightarrow>
   \<exists>y'. write_bytes P y a bs = (True, y') \<and> flat_to y (mem_write (e_ram (sy_emu y)) (unat a - 0x80000000) bs) y'"
proof (induction bs arbitrary: y a)
  case Nil
  then show ?case by (simp add: flat_to_refl)
next
  case (Cons b bs)
  have i: "in_ram (sy_emu y) a (2 ^ 0)" "a AND (push_bit 0 1 - 1) = 0" using Cons.prems(2) by (simp_all add: in_ram_def)
  from flat_write_piece(2) [OF Cons.prems(1) i(1) _ i(2), of P "ucast b"] obtain y1 where
    1: "write_piece P y a (ucast b) 0 = (True, y1)"
       "flat_to y (mem_write (e_ram (sy_emu y)) (unat a - 0x80000000) [b]) y1"
    by (auto simp: le_bytes_def)
  have sz: "unat (m_ram_size (e_m (sy_emu y))) \<le> 0x40000000"
    using Cons.prems(1) by (simp add: flat_def ram_mapped_def)
  have u: "unat (a + 1) = unat a + 1" if "bs \<noteq> []"
    using Cons.prems(2) sz that by (simp add: in_ram_def unat_word_ariths)
  show ?case
  proof (cases "bs = []")
    case True
    with 1 show ?thesis by auto
  next
    case False
    have "flat (sy_emu y1)" "in_ram (sy_emu y1) (a + 1) (length bs)"
      using 1(2) Cons.prems(2) u [OF False] by (simp_all add: flat_to_def in_ram_def)
    from Cons.IH [OF this] obtain y2 where
      2: "write_bytes P y1 (a + 1) bs = (True, y2)"
         "flat_to y1 (mem_write (e_ram (sy_emu y1)) (unat (a + 1) - 0x80000000) bs) y2" by blast
    have e: "unat (a + 1) - 0x80000000 = unat a - 0x80000000 + 1"
      using u [OF False] Cons.prems(2) unfolding in_ram_def by linarith
    have "mem_write (e_ram (sy_emu y1)) (unat (a + 1) - 0x80000000) bs =
        mem_write (e_ram (sy_emu y)) (unat a - 0x80000000) (b # bs)"
      using mem_write_append [of "e_ram (sy_emu y)" "unat a - 0x80000000" "[b]" bs] 1(2)
      unfolding e by (simp add: flat_to_def)
    with 1 2 flat_to_trans [OF 1(2) 2(2)] show ?thesis by simp
  qed
qed

lemma flat_target_write:
  assumes "flat (sy_emu y)" "in_ram (sy_emu y) a (2 ^ sz)" "sz \<le> 3"
  shows "\<exists>y'. target_write P y a v sz = (True, y') \<and>
      flat_to y (mem_write (e_ram (sy_emu y)) (unat a - 0x80000000) (le_bytes (2 ^ sz) v)) y'"
proof (cases "tlb_hit (c_tlb_write (e_cpu (sy_emu y))) a sz")
  case True
  then show ?thesis
    using flat_ram_write [OF assms(1), of a "le_bytes (2 ^ sz) v"] assms(2) flat_hit_ptr [OF assms(1) True assms(3)]
    by (auto simp: target_write_def Let_def)
next
  case False
  then show ?thesis
    using flat_write_piece(1) [OF assms, of P v] flat_write_bytes [OF assms(1), of a "le_bytes (2 ^ sz) v" P] assms(2)
    by (auto simp: target_write_def target_write_slow_def Let_def)
qed

section \<open>A concrete machine\<close>

definition ram_demo_range :: phys_range where
  "ram_demo_range = \<lparr>pr_addr = RV_RAM_BASE, pr_org_size = 0x200000, pr_size = 0x200000, pr_is_ram = True,
     pr_devram_flags = 0, pr_phys_mem = Some 0, pr_dev = NoDev, pr_devio_flags = 0\<rparr>"

definition ram_demo :: sys where
  "ram_demo = \<lparr>sy_emu = emu_start\<lparr>e_map := [ram_demo_range]\<rparr>, sy_blk = vblk_zero, sy_net = vnet_zero,
     sy_sbi = \<lparr>sbi_n_calls = 0, sbi_n_unsupported = 0\<rparr>\<rparr>"

lemma ram_demo_ok: "mem_ok (sy_emu ram_demo)"
  by (simp add: mem_ok_def ram_demo_def ram_map_ok_def ram_range_ok_def ram_demo_range_def RV_RAM_BASE_def
      tlb_ok_def tlb_entry_ok_def riscv_cpu_boot_smode_def riscv_cpu_init_def tlb_init_def tlb_invalidate_def
      tlb_flush_all_def set_priv_def)

lemma ram_demo_flat: "flat (sy_emu ram_demo)"
  using ram_demo_ok unfolding flat_def
  by (simp add: ram_demo_def ram_mapped_def ram_demo_range_def pr_covers_def RV_RAM_BASE_def tlb_flat_def
      riscv_cpu_boot_smode_def riscv_cpu_init_def tlb_init_def tlb_invalidate_def tlb_flush_all_def set_priv_def cpu_zero_def)

section \<open>Properties\<close>




text \<open>
  C9. Every access of the guest, load, store or instruction fetch, of any width at any address and in
  any privilege mode, keeps the memory invariant (every TLB entry points at a page of guest RAM),
  leaves the host's memory outside guest RAM, the address map and the size of RAM alone, and of the
  hart changes only the TLBs, the pending exception and the interrupt and power-down bits; and a
  TLB hit always addresses bytes inside guest RAM.
\<close>

theorem access_confined:
  assumes "mem_ok (sy_emu y)" "sz \<le> 3"
  shows "keeps (sy_emu y) (sy_emu (snd (target_read P y a sz))) \<and>
    keeps (sy_emu y) (sy_emu (snd (target_write P y a v sz))) \<and>
    keeps (sy_emu y) (snd (target_read_insn_u16 (sy_emu y) a)) \<and>
    (tlb_hit (c_tlb_read (e_cpu (sy_emu y))) a sz \<longrightarrow>
       tlb_ptr (c_tlb_read (e_cpu (sy_emu y))) a + 2 ^ sz \<le> unat (m_ram_size (e_m (sy_emu y)))) \<and>
    (tlb_hit (c_tlb_write (e_cpu (sy_emu y))) a sz \<longrightarrow>
       tlb_ptr (c_tlb_write (e_cpu (sy_emu y))) a + 2 ^ sz \<le> unat (m_ram_size (e_m (sy_emu y))))"
  using keeps_target_read [OF assms(1)] keeps_target_write [OF assms] keeps_insn [OF assms(1)]
    tlb_hit_aligned(3) [where t = "c_tlb_read (e_cpu (sy_emu y))", OF _ assms(2) tlb_ok_sel(1) [OF assms(1), of a]]
    tlb_hit_aligned(3) [where t = "c_tlb_write (e_cpu (sy_emu y))", OF _ assms(2) tlb_ok_sel(2) [OF assms(1), of a]]
  by blast

theorem access_confined_witness:
  "keeps (sy_emu ram_demo) (sy_emu (snd (target_write quiet_plat ram_demo 0x801ffffc 7 3)))"
  using access_confined [OF ram_demo_ok, of 3] by simp

end
