(* ===== verification/Fdt.thy ===== *)
theory Fdt
  imports Machine
begin

text \<open>
  The devicetree writer (\<open>emu/rv_fdt.c\<close>): the cursor with its overflow flag, the string interning,
  the property encoders and \<open>rv_build_fdt()\<close>, whose sequence of writer calls is the list
  \<open>fdt_tree\<close>. A reader of the DTB format states what the blob means; the blob is proved to read
  back as the tree the calls describe, and to fit for every command line the machine can pass.
\<close>

section \<open>Constants and state\<close>

definition FDT_MAGIC :: u32 where "FDT_MAGIC = 0xd00dfeed"
definition FDT_VERSION :: u32 where "FDT_VERSION = 17"
definition FDT_COMP_VERSION :: u32 where "FDT_COMP_VERSION = 16"
definition FDT_BEGIN_NODE :: u32 where "FDT_BEGIN_NODE = 1"
definition FDT_END_NODE :: u32 where "FDT_END_NODE = 2"
definition FDT_PROP :: u32 where "FDT_PROP = 3"
definition FDT_END :: u32 where "FDT_END = 9"
definition FDT_HDR_SIZE :: nat where "FDT_HDR_SIZE = 40"
definition FDT_RSVMAP_SIZE :: nat where "FDT_RSVMAP_SIZE = 16"
definition FDT_STRUCT_OFF :: nat where "FDT_STRUCT_OFF = FDT_HDR_SIZE + FDT_RSVMAP_SIZE"
definition FDT_STRINGS_MAX :: nat where "FDT_STRINGS_MAX = 512"

lemmas fdt_consts = FDT_BEGIN_NODE_def FDT_END_NODE_def FDT_PROP_def FDT_END_def
lemmas fdt_sizes = FDT_HDR_SIZE_def FDT_RSVMAP_SIZE_def FDT_STRUCT_OFF_def FDT_STRINGS_MAX_def

text \<open>A C string's bytes, with the terminating NUL and without.\<close>

definition chars :: "string \<Rightarrow> u8 list" where
  "chars s = map (\<lambda>c. of_nat (of_char c)) s"

definition cstr :: "string \<Rightarrow> u8 list" where
  "cstr s = chars s @ [0]"

text \<open>
  \<open>FDTState\<close>: \<open>f_buf\<close> is the memory the blob is written into, from index \<open>f_base\<close>;
  \<open>f_strings\<close> is the used part of the strings array, its length \<open>strings_len\<close>.
\<close>

record fdt_state =
  f_base :: nat
  f_buf :: block
  f_buf_size :: nat
  f_pos :: nat
  f_strings :: "u8 list"
  f_overflow :: bool

record fdt_params =
  fp_ram_base :: u32
  fp_ram_size :: u32
  fp_timebase_hz :: u32
  fp_isa :: string
  fp_mmu_type :: "string option"
  fp_cmdline :: "string option"
  fp_initrd_start :: u32
  fp_initrd_end :: u32
  fp_has_virtio_blk :: bool
  fp_has_virtio_net :: bool

section \<open>The writer\<close>

definition fdt_u32 :: "fdt_state \<Rightarrow> u32 \<Rightarrow> fdt_state" where
  "fdt_u32 s v =
     (if f_buf_size s < f_pos s + 4 then s\<lparr>f_overflow := True\<rparr>
      else s\<lparr>f_buf := mem_write (f_buf s) (f_base s + f_pos s) (be32 v), f_pos := f_pos s + 4\<rparr>)"

definition pad4 :: "nat \<Rightarrow> nat" where
  "pad4 n = (n + 3) div 4 * 4"

definition fdt_data :: "fdt_state \<Rightarrow> u8 list \<Rightarrow> fdt_state" where
  "fdt_data s data =
     (let padded = pad4 (length data)
      in if f_buf_size s < f_pos s + padded then s\<lparr>f_overflow := True\<rparr>
         else s\<lparr>f_buf := mem_write (mem_write (f_buf s) (f_base s + f_pos s) data)
                   (f_base s + f_pos s + length data) (replicate (padded - length data) 0),
                f_pos := f_pos s + padded\<rparr>)"

text \<open>The NUL-terminated string at an offset of the strings block.\<close>

definition cstr_at :: "u8 list \<Rightarrow> nat \<Rightarrow> u8 list" where
  "cstr_at strs i = takeWhile (\<lambda>b. b \<noteq> 0) (drop i strs)"

function fdt_find :: "u8 list \<Rightarrow> u8 list \<Rightarrow> nat \<Rightarrow> nat option" where
  "fdt_find strs name i =
     (if i < length strs then
        (if cstr_at strs i = name then Some i
         else fdt_find strs name (i + (length (cstr_at strs i) + 1)))
      else None)"
  by pat_completeness auto
termination by (relation "measure (\<lambda>(strs, name, i). length strs - i)") auto

definition fdt_str :: "fdt_state \<Rightarrow> string \<Rightarrow> u32 \<times> fdt_state" where
  "fdt_str s name =
     (case fdt_find (f_strings s) (chars name) 0 of
        Some i \<Rightarrow> (of_nat i, s)
      | None \<Rightarrow>
          if FDT_STRINGS_MAX < length (f_strings s) + (length name + 1) then (0, s\<lparr>f_overflow := True\<rparr>)
          else (of_nat (length (f_strings s)), s\<lparr>f_strings := f_strings s @ cstr name\<rparr>))"

definition fdt_begin_node :: "fdt_state \<Rightarrow> string \<Rightarrow> fdt_state" where
  "fdt_begin_node s name = fdt_data (fdt_u32 s FDT_BEGIN_NODE) (cstr name)"

text \<open>\<open>name@addr\<close> in the local buffer of 40 bytes: at most 28 characters of the name, then the hexadecimal digits.\<close>

definition hex_digit :: "u32 \<Rightarrow> char" where
  "hex_digit d = (if d < 10 then char_of (48 + unat d) else char_of (97 + unat d - 10 :: nat))"

fun hex_loop :: "nat list \<Rightarrow> bool \<Rightarrow> u32 \<Rightarrow> string" where
  "hex_loop [] leading addr = []"
| "hex_loop (shift # shifts) leading addr =
     (let d = drop_bit shift addr AND 0xf
      in if d \<noteq> 0 \<or> \<not> leading \<or> shift = 0 then hex_digit d # hex_loop shifts False addr
         else hex_loop shifts leading addr)"

definition node_num_name :: "string \<Rightarrow> u32 \<Rightarrow> string" where
  "node_num_name name addr = take 28 name @ ''@'' @ hex_loop [28, 24, 20, 16, 12, 8, 4, 0] True addr"

definition fdt_begin_node_num :: "fdt_state \<Rightarrow> string \<Rightarrow> u32 \<Rightarrow> fdt_state" where
  "fdt_begin_node_num s name addr = fdt_begin_node s (node_num_name name addr)"

definition fdt_end_node :: "fdt_state \<Rightarrow> fdt_state" where
  "fdt_end_node s = fdt_u32 s FDT_END_NODE"

text \<open>The name cell: \<open>fdt_u32(s, fdt_str(s, name))\<close>.\<close>

definition fdt_name_cell :: "fdt_state \<Rightarrow> string \<Rightarrow> fdt_state" where
  "fdt_name_cell s name = (let (off, s1) = fdt_str s name in fdt_u32 s1 off)"

definition fdt_prop :: "fdt_state \<Rightarrow> string \<Rightarrow> u8 list \<Rightarrow> fdt_state" where
  "fdt_prop s name data =
     fdt_data (fdt_name_cell (fdt_u32 (fdt_u32 s FDT_PROP) (of_nat (length data))) name) data"

definition fdt_prop_empty :: "fdt_state \<Rightarrow> string \<Rightarrow> fdt_state" where
  "fdt_prop_empty s name = fdt_prop s name []"

definition fdt_prop_str :: "fdt_state \<Rightarrow> string \<Rightarrow> string \<Rightarrow> fdt_state" where
  "fdt_prop_str s name val = fdt_prop s name (cstr val)"

definition fdt_prop_u32 :: "fdt_state \<Rightarrow> string \<Rightarrow> u32 \<Rightarrow> fdt_state" where
  "fdt_prop_u32 s name val = fdt_prop s name (be32 val)"

definition fdt_prop_cells :: "fdt_state \<Rightarrow> string \<Rightarrow> u32 list \<Rightarrow> fdt_state" where
  "fdt_prop_cells s name cells =
     fold (\<lambda>c s. fdt_u32 s c) cells
       (fdt_name_cell (fdt_u32 (fdt_u32 s FDT_PROP) (of_nat (length cells * 4))) name)"

definition fdt_prop_reg64 :: "fdt_state \<Rightarrow> u32 \<Rightarrow> u32 \<Rightarrow> fdt_state" where
  "fdt_prop_reg64 s addr sz = fdt_prop_cells s ''reg'' [0, addr, 0, sz]"

section \<open>The machine's tree\<close>

text \<open>The writer's calls, and what each does.\<close>

datatype fdt_call =
    BeginNode string
  | BeginNodeNum string u32
  | EndNode
  | PropEmpty string
  | PropStr string string
  | PropU32 string u32
  | PropCells string "u32 list"
  | PropReg64 u32 u32

fun fdt_do :: "fdt_call \<Rightarrow> fdt_state \<Rightarrow> fdt_state" where
  "fdt_do (BeginNode name) s = fdt_begin_node s name"
| "fdt_do (BeginNodeNum name addr) s = fdt_begin_node_num s name addr"
| "fdt_do EndNode s = fdt_end_node s"
| "fdt_do (PropEmpty name) s = fdt_prop_empty s name"
| "fdt_do (PropStr name val) s = fdt_prop_str s name val"
| "fdt_do (PropU32 name val) s = fdt_prop_u32 s name val"
| "fdt_do (PropCells name cells) s = fdt_prop_cells s name cells"
| "fdt_do (PropReg64 addr sz) s = fdt_prop_reg64 s addr sz"

definition fdt_cpus :: "fdt_params \<Rightarrow> fdt_call list" where
  "fdt_cpus p =
     [BeginNode ''cpus'', PropU32 ''#address-cells'' 1, PropU32 ''#size-cells'' 0,
      PropU32 ''timebase-frequency'' (fp_timebase_hz p),
      BeginNodeNum ''cpu'' 0, PropStr ''device_type'' ''cpu'', PropU32 ''reg'' 0,
      PropStr ''status'' ''okay'', PropStr ''compatible'' ''riscv'', PropStr ''riscv,isa'' (fp_isa p)] @
     (case fp_mmu_type p of Some m \<Rightarrow> [PropStr ''mmu-type'' m] | None \<Rightarrow> []) @
     [PropU32 ''clock-frequency'' 2000000000,
      BeginNode ''interrupt-controller'', PropU32 ''#interrupt-cells'' 1,
      PropEmpty ''interrupt-controller'', PropStr ''compatible'' ''riscv,cpu-intc'', PropU32 ''phandle'' 1,
      EndNode, EndNode, EndNode]"

definition fdt_memory :: "fdt_params \<Rightarrow> fdt_call list" where
  "fdt_memory p =
     [BeginNodeNum ''memory'' (fp_ram_base p), PropStr ''device_type'' ''memory'',
      PropReg64 (fp_ram_base p) (fp_ram_size p), EndNode]"

definition fdt_virtio :: "u64 \<Rightarrow> u64 \<Rightarrow> nat \<Rightarrow> fdt_call list" where
  "fdt_virtio base sz irq =
     [BeginNodeNum ''virtio'' (ucast base), PropStr ''compatible'' ''virtio,mmio'',
      PropReg64 (ucast base) (ucast sz), PropU32 ''interrupt-parent'' 2,
      PropU32 ''interrupts'' (of_nat irq), EndNode]"

definition fdt_soc :: "fdt_params \<Rightarrow> fdt_call list" where
  "fdt_soc p =
     [BeginNode ''soc'', PropU32 ''#address-cells'' 2, PropU32 ''#size-cells'' 2,
      PropStr ''compatible'' ''simple-bus'', PropEmpty ''ranges'',
      BeginNodeNum ''clint'' (ucast RV_CLINT_BASE), PropStr ''compatible'' ''riscv,clint0'',
      PropCells ''interrupts-extended'' [1, 3, 1, 7],
      PropReg64 (ucast RV_CLINT_BASE) (ucast RV_CLINT_SIZE), EndNode,
      BeginNodeNum ''plic'' (ucast RV_PLIC_BASE), PropU32 ''#interrupt-cells'' 1,
      PropEmpty ''interrupt-controller'', PropStr ''compatible'' ''riscv,plic0'', PropU32 ''riscv,ndev'' 31,
      PropReg64 (ucast RV_PLIC_BASE) (ucast RV_PLIC_SIZE), PropCells ''interrupts-extended'' [1, 9],
      PropU32 ''phandle'' 2, EndNode,
      BeginNodeNum ''serial'' (ucast RV_UART_BASE), PropStr ''compatible'' ''ns16550a'',
      PropReg64 (ucast RV_UART_BASE) (ucast RV_UART_SIZE), PropU32 ''clock-frequency'' 1843200,
      PropU32 ''reg-shift'' 0, PropU32 ''reg-io-width'' 1, PropU32 ''interrupt-parent'' 2,
      PropU32 ''interrupts'' (of_nat RV_UART_IRQ), EndNode] @
     (if fp_has_virtio_blk p then fdt_virtio RV_VIRTIO_BASE RV_VIRTIO_SIZE RV_VIRTIO_IRQ else []) @
     (if fp_has_virtio_net p then fdt_virtio RV_VIRTIO_NET_BASE RV_VIRTIO_NET_SIZE RV_VIRTIO_NET_IRQ else []) @
     [BeginNodeNum ''syscon'' (ucast RV_SYSCON_BASE), PropStr ''compatible'' ''syscon'',
      PropReg64 (ucast RV_SYSCON_BASE) (ucast RV_SYSCON_SIZE), PropU32 ''phandle'' 3, EndNode,
      EndNode]"

definition fdt_syscon_user :: "string \<Rightarrow> string \<Rightarrow> u32 \<Rightarrow> fdt_call list" where
  "fdt_syscon_user name compatible val =
     [BeginNode name, PropStr ''compatible'' compatible, PropU32 ''regmap'' 3, PropU32 ''offset'' 0,
      PropU32 ''value'' val, EndNode]"

definition fdt_chosen :: "fdt_params \<Rightarrow> fdt_call list" where
  "fdt_chosen p =
     [BeginNode ''chosen'', PropStr ''bootargs'' (case fp_cmdline p of Some c \<Rightarrow> c | None \<Rightarrow> []),
      PropStr ''stdout-path'' ''/soc/serial@10000000''] @
     (if fp_initrd_start p < fp_initrd_end p
      then [PropU32 ''linux,initrd-start'' (fp_initrd_start p), PropU32 ''linux,initrd-end'' (fp_initrd_end p)]
      else []) @
     [EndNode]"

definition fdt_tree :: "fdt_params \<Rightarrow> fdt_call list" where
  "fdt_tree p =
     [BeginNode [], PropU32 ''#address-cells'' 2, PropU32 ''#size-cells'' 2,
      PropStr ''compatible'' ''ra8d1,tinyemu'', PropStr ''model'' ''ra8d1-tinyemu''] @
     fdt_cpus p @ fdt_memory p @ fdt_soc p @
     fdt_syscon_user ''poweroff'' ''syscon-poweroff'' 0x5555 @
     fdt_syscon_user ''reboot'' ''syscon-reboot'' 0x7777 @
     fdt_chosen p @ [EndNode]"

text \<open>The header: ten big-endian words after the zeroed reservation map.\<close>

definition fdt_header :: "nat \<Rightarrow> nat \<Rightarrow> nat \<Rightarrow> u8 list" where
  "fdt_header tot pos strings_len =
     be32 FDT_MAGIC @ be32 (of_nat tot) @ be32 (of_nat FDT_STRUCT_OFF) @ be32 (of_nat pos) @
     be32 (of_nat FDT_HDR_SIZE) @ be32 FDT_VERSION @ be32 FDT_COMP_VERSION @ be32 0 @
     be32 (of_nat strings_len) @ be32 (of_nat (pos - FDT_STRUCT_OFF))"

definition fdt_start :: "block \<Rightarrow> nat \<Rightarrow> nat \<Rightarrow> fdt_state" where
  "fdt_start buf base buf_size = \<lparr>f_base = base, f_buf = buf, f_buf_size = buf_size,
     f_pos = FDT_STRUCT_OFF, f_strings = [], f_overflow = False\<rparr>"

definition rv_build_fdt :: "block \<Rightarrow> nat \<Rightarrow> nat \<Rightarrow> fdt_params \<Rightarrow> nat \<times> block" where
  "rv_build_fdt buf base buf_size p =
     (if buf_size < FDT_STRUCT_OFF + 64 then (0, buf)
      else
        let s = fdt_u32 (fold fdt_do (fdt_tree p) (fdt_start buf base buf_size)) FDT_END;
            tot = f_pos s + length (f_strings s)
        in if f_overflow s then (0, f_buf s)
           else if buf_size < tot then (0, f_buf s)
           else
             let b1 = mem_write (f_buf s) (base + f_pos s) (f_strings s);
                 b2 = mem_write b1 (base + FDT_HDR_SIZE) (replicate FDT_RSVMAP_SIZE 0)
             in (tot, mem_write b2 base (fdt_header tot (f_pos s) (length (f_strings s)))))"

section \<open>What the blob means\<close>

text \<open>
  A reader of the structure block as the DTB format defines it: tokens are big-endian words, names
  and property values are padded to words, a property names itself by its offset in the strings
  block, and the end token comes last.
\<close>

datatype fdt_tok = TBegin "u8 list" | TProp "u8 list" "u8 list" | TEnd

function fdt_read :: "u8 list \<Rightarrow> u8 list \<Rightarrow> fdt_tok list option" where
  "fdt_read strs bs =
     (if length bs < 4 then None
      else
        let t = of_be32 (take 4 bs); r = drop 4 bs
        in if t = FDT_BEGIN_NODE then
             let n = takeWhile (\<lambda>b. b \<noteq> 0) r; k = pad4 (length n + 1)
             in if length r < k then None else map_option (Cons (TBegin n)) (fdt_read strs (drop k r))
           else if t = FDT_END_NODE then map_option (Cons TEnd) (fdt_read strs r)
           else if t = FDT_PROP then
             let len = unat (of_be32 (take 4 r)); off = unat (of_be32 (take 4 (drop 4 r))); d = drop 8 r
             in if length r < 8 \<or> length d < pad4 len then None
                else map_option (Cons (TProp (cstr_at strs off) (take len d))) (fdt_read strs (drop (pad4 len) d))
           else if t = FDT_END \<and> r = [] then Some []
           else None)"
  by pat_completeness auto
termination by (relation "measure (\<lambda>(strs, bs). length bs)") auto

declare fdt_read.simps [simp del] fdt_find.simps [simp del]

text \<open>The token a writer call stands for.\<close>

fun fdt_token :: "fdt_call \<Rightarrow> fdt_tok" where
  "fdt_token (BeginNode name) = TBegin (chars name)"
| "fdt_token (BeginNodeNum name addr) = TBegin (chars (node_num_name name addr))"
| "fdt_token EndNode = TEnd"
| "fdt_token (PropEmpty name) = TProp (chars name) []"
| "fdt_token (PropStr name val) = TProp (chars name) (cstr val)"
| "fdt_token (PropU32 name val) = TProp (chars name) (be32 val)"
| "fdt_token (PropCells name cells) = TProp (chars name) (concat (map be32 cells))"
| "fdt_token (PropReg64 addr sz) = TProp (chars ''reg'') (concat (map be32 [0, addr, 0, sz]))"

section \<open>Strings\<close>

definition no_nul :: "string \<Rightarrow> bool" where
  "no_nul s \<longleftrightarrow> CHR 0x00 \<notin> set s"

lemma length_chars [simp]: "length (chars s) = length s" "length (cstr s) = length s + 1"
  by (simp_all add: chars_def cstr_def)

lemma byte_of_char: "unat (of_nat (of_char c) :: u8) = of_char c"
  using nat_of_char_less_256 [of c] by (simp add: unsigned_of_nat take_bit_nat_eq_self del: of_nat_of_char)

lemma chars_inj: "chars a = chars b \<longleftrightarrow> a = b"
proof -
  have "inj (\<lambda>c. of_nat (of_char c) :: u8)"
    by (rule injI) (metis byte_of_char of_char_eq_iff)
  then show ?thesis unfolding chars_def by (simp add: inj_map_eq_map)
qed

lemma chars_no_nul: "no_nul s \<Longrightarrow> 0 \<notin> set (chars s)"
proof -
  have "(of_nat (of_char c) :: u8) \<noteq> 0" if "c \<noteq> CHR 0x00" for c
  proof
    assume z: "(of_nat (of_char c) :: u8) = 0"
    have "(of_char c :: nat) = 0" using byte_of_char [of c] unfolding z by simp
    then have "(of_char c :: nat) = of_char (CHR 0x00)" by simp
    then have "c = CHR 0x00" by (rule of_char_eqI)
    with that show False ..
  qed
  then show "no_nul s \<Longrightarrow> 0 \<notin> set (chars s)" unfolding no_nul_def chars_def set_map image_iff by metis
qed

lemma cstr_at_append: "0 \<in> set (drop i strs) \<Longrightarrow> cstr_at (strs @ x) i = cstr_at strs i"
proof -
  assume z: "0 \<in> set (drop i strs)"
  then have "i \<le> length strs" by (metis drop_all empty_iff list.set(1) nat_le_linear)
  with z show ?thesis by (simp add: cstr_at_def takeWhile_append1)
qed

lemma cstr_at_here: "no_nul n \<Longrightarrow> cstr_at (pre @ cstr n @ rest) (length pre) = chars n"
  by (simp add: cstr_at_def cstr_def takeWhile_append chars_no_nul)

text \<open>The strings block as the names interned so far, and the search through it.\<close>

definition strings_of :: "string list \<Rightarrow> u8 list" where
  "strings_of ns = concat (map cstr ns)"

lemma strings_of_simps [simp]: "strings_of [] = []" "strings_of (m # ns) = cstr m @ strings_of ns"
    "strings_of (ms @ ns) = strings_of ms @ strings_of ns"
  by (simp_all add: strings_of_def)

lemma strings_of_Nil [simp]: "strings_of ns = [] \<longleftrightarrow> ns = []"
  by (cases ns) (simp_all add: cstr_def)

lemma fdt_find_strings:
  assumes "list_all no_nul ns"
  shows "fdt_find (pre @ strings_of ns) (chars n) (length pre) = None \<longleftrightarrow> n \<notin> set ns"
  using assms
proof (induction ns arbitrary: pre)
  case Nil
  then show ?case by (subst fdt_find.simps) simp
next
  case (Cons m ns)
  have h: "cstr_at (pre @ cstr m @ strings_of ns) (length pre) = chars m"
    using cstr_at_here [of m pre "strings_of ns"] Cons.prems by simp
  have "fdt_find ((pre @ cstr m) @ strings_of ns) (chars n) (length (pre @ cstr m)) = None \<longleftrightarrow> n \<notin> set ns"
    using Cons.IH [of "pre @ cstr m"] Cons.prems by simp
  then show ?case
    by (subst fdt_find.simps) (auto simp: h chars_inj)
qed

lemma fdt_find_Some: "fdt_find strs name i = Some j \<Longrightarrow> i \<le> j \<and> j < length strs \<and> cstr_at strs j = name"
proof (induction strs name i rule: fdt_find.induct)
  case (1 strs name i)
  then show ?case
    using 1(2) [unfolded fdt_find.simps [of strs name i]] by (fastforce split: if_splits)
qed

lemma strings_terminated:
  assumes "i < length (strings_of ns)"
  shows "0 \<in> set (drop i (strings_of ns))"
proof -
  have "ns \<noteq> []" using assms by auto
  then have "last (strings_of ns) = 0"
    by (induction ns) (auto simp: cstr_def last_append)
  moreover have "last (drop i (strings_of ns)) = last (strings_of ns)" using assms by simp
  ultimately show ?thesis using assms by (metis last_in_set drop_eq_Nil linorder_not_le)
qed

section \<open>The bytes a call writes\<close>

definition data_bytes :: "u8 list \<Rightarrow> u8 list" where
  "data_bytes d = d @ replicate (pad4 (length d) - length d) 0"

definition name_off :: "u8 list \<Rightarrow> u8 list \<Rightarrow> nat" where
  "name_off strs n = (case fdt_find strs n 0 of Some i \<Rightarrow> i | None \<Rightarrow> length strs)"

definition name_add :: "u8 list \<Rightarrow> u8 list \<Rightarrow> u8 list" where
  "name_add strs n = (case fdt_find strs n 0 of Some i \<Rightarrow> strs | None \<Rightarrow> strs @ n @ [0])"

fun tok_bytes :: "u8 list \<Rightarrow> fdt_tok \<Rightarrow> u8 list" where
  "tok_bytes strs (TBegin n) = be32 FDT_BEGIN_NODE @ data_bytes (n @ [0])"
| "tok_bytes strs (TProp n d) =
     be32 FDT_PROP @ be32 (of_nat (length d)) @ be32 (of_nat (name_off strs n)) @ data_bytes d"
| "tok_bytes strs TEnd = be32 FDT_END_NODE"

fun tok_strings :: "u8 list \<Rightarrow> fdt_tok \<Rightarrow> u8 list" where
  "tok_strings strs (TProp n d) = name_add strs n"
| "tok_strings strs _ = strs"

fun tree_bytes :: "u8 list \<Rightarrow> fdt_tok list \<Rightarrow> u8 list" where
  "tree_bytes strs [] = []"
| "tree_bytes strs (t # ts) = tok_bytes strs t @ tree_bytes (tok_strings strs t) ts"

fun tree_strings :: "u8 list \<Rightarrow> fdt_tok list \<Rightarrow> u8 list" where
  "tree_strings strs [] = strs"
| "tree_strings strs (t # ts) = tree_strings (tok_strings strs t) ts"

text \<open>
  \<open>wrote s bs strs s'\<close>: going from \<open>s\<close> to \<open>s'\<close> the writer appended \<open>bs\<close> and the strings became
  \<open>strs\<close>, unless it overflowed, which it remembers; and in any case it stayed inside its buffer.
\<close>

definition wrote :: "fdt_state \<Rightarrow> u8 list \<Rightarrow> u8 list \<Rightarrow> fdt_state \<Rightarrow> bool" where
  "wrote s bs strs s' \<longleftrightarrow> f_base s' = f_base s \<and> f_buf_size s' = f_buf_size s \<and>
     (f_pos s \<le> f_buf_size s \<longrightarrow> f_pos s' \<le> f_buf_size s \<and>
        (\<forall>a. a < f_base s \<or> f_base s + f_buf_size s \<le> a \<longrightarrow> f_buf s' a = f_buf s a)) \<and>
     (length (f_strings s) \<le> FDT_STRINGS_MAX \<longrightarrow> length (f_strings s') \<le> FDT_STRINGS_MAX) \<and>
     (\<not> f_overflow s' \<longrightarrow> \<not> f_overflow s \<and> f_pos s' = f_pos s + length bs \<and> f_strings s' = strs \<and>
        f_buf s' = mem_write (f_buf s) (f_base s + f_pos s) bs)"

lemma wrote_refl: "f_strings s = strs \<Longrightarrow> wrote s [] strs s"
  by (simp add: wrote_def)

lemma wrote_trans: "wrote s as strs s' \<Longrightarrow> wrote s' bs strs' s'' \<Longrightarrow> wrote s (as @ bs) strs' s''"
  using mem_write_append [of "f_buf s" "f_base s + f_pos s" as bs] by (auto simp: wrote_def add.assoc)

lemma wrote_u32: "wrote s (be32 v) (f_strings s) (fdt_u32 s v)"
  by (auto simp: wrote_def fdt_u32_def mem_write_def)

lemma pad4_ge: "n \<le> pad4 n" "pad4 n \<le> n + 3" "pad4 n mod 4 = 0"
  unfolding pad4_def by presburger+

lemma length_data_bytes [simp]: "length (data_bytes d) = pad4 (length d)"
  using pad4_ge(1) [of "length d"] by (simp add: data_bytes_def)

lemma wrote_data: "wrote s (data_bytes d) (f_strings s) (fdt_data s d)"
proof (cases "f_buf_size s < f_pos s + pad4 (length d)")
  case False
  have "fdt_data s d = s\<lparr>f_buf := mem_write (f_buf s) (f_base s + f_pos s) (data_bytes d), f_pos := f_pos s + pad4 (length d)\<rparr>"
    using False by (simp add: fdt_data_def Let_def mem_write_append data_bytes_def)
  with False show ?thesis by (auto simp: wrote_def mem_write_def)
qed (simp add: wrote_def fdt_data_def)

lemma wrote_name:
  assumes "f_strings s = strs"
  shows "wrote s (be32 (of_nat (name_off strs (chars n)))) (name_add strs (chars n)) (fdt_name_cell s n)"
proof (cases "fdt_find strs (chars n) 0")
  case (Some i)
  then show ?thesis
    using wrote_u32 [of s "of_nat i"] assms by (simp add: fdt_name_cell_def fdt_str_def name_off_def name_add_def)
next
  case None
  let ?s = "s\<lparr>f_strings := f_strings s @ cstr n\<rparr>" and ?o = "s\<lparr>f_overflow := True\<rparr>"
  show ?thesis
    using wrote_u32 [of ?s "of_nat (length strs)"] wrote_u32 [of ?o 0] None assms
    by (auto simp: fdt_name_cell_def fdt_str_def name_off_def name_add_def wrote_def cstr_def FDT_STRINGS_MAX_def)
qed

lemma strings_frame [simp]: "f_strings (fdt_u32 s v) = f_strings s" "f_strings (fdt_data s d) = f_strings s"
  by (simp_all add: fdt_u32_def fdt_data_def Let_def)

text \<open>The three words every property starts with.\<close>

definition prop_head :: "fdt_state \<Rightarrow> nat \<Rightarrow> string \<Rightarrow> fdt_state" where
  "prop_head s len n = fdt_name_cell (fdt_u32 (fdt_u32 s FDT_PROP) (of_nat len)) n"

lemma wrote_prop_head:
  assumes "f_strings s = strs"
  shows "wrote s (be32 FDT_PROP @ be32 (of_nat len) @ be32 (of_nat (name_off strs (chars n))))
    (name_add strs (chars n)) (prop_head s len n)"
proof -
  have "wrote s (be32 FDT_PROP @ be32 (of_nat len)) (f_strings (fdt_u32 s FDT_PROP)) (fdt_u32 (fdt_u32 s FDT_PROP) (of_nat len))"
    by (rule wrote_trans [OF wrote_u32 wrote_u32])
  from wrote_trans [OF this wrote_name [of _ strs n]] show ?thesis by (simp add: assms prop_head_def)
qed

text \<open>Appending to a state whose strings are only known when it has not overflowed.\<close>

lemma wrote_then:
  assumes "wrote s as strs s'" "wrote s' bs (f_strings s') s''"
  shows "wrote s (as @ bs) strs s''"
proof (cases "f_overflow s''")
  case True
  with wrote_trans [OF assms] show ?thesis by (simp add: wrote_def)
next
  case False
  then have "f_strings s' = strs" using assms by (simp add: wrote_def)
  with wrote_trans [OF assms] show ?thesis by simp
qed

lemma wrote_prop:
  "f_strings s = strs \<Longrightarrow> wrote s (tok_bytes strs (TProp (chars n) d)) (name_add strs (chars n)) (fdt_prop s n d)"
  using wrote_then [OF wrote_prop_head wrote_data, of s strs "length d" n d]
  by (simp add: fdt_prop_def prop_head_def)

lemma wrote_cells:
  "f_strings s = strs \<Longrightarrow> wrote s (concat (map be32 cs)) strs (fold (\<lambda>c s. fdt_u32 s c) cs s)"
proof (induction cs arbitrary: s)
  case Nil
  then show ?case by (simp add: wrote_refl)
next
  case (Cons c cs)
  have "f_strings (fdt_u32 s c) = strs" using Cons.prems by (simp add: fdt_u32_def)
  from wrote_trans [OF wrote_u32 Cons.IH [OF this]] show ?case by simp
qed

lemma length_cells [simp]: "length (concat (map be32 cs)) = 4 * length cs"
  by (induction cs) simp_all

lemma pad4_mult [simp]: "pad4 (4 * n) = 4 * n"
  by (simp add: pad4_def)

lemma data_bytes_cells: "data_bytes (concat (map be32 cs)) = concat (map be32 cs)"
  by (simp add: data_bytes_def)

lemma wrote_prop_cells:
  "f_strings s = strs \<Longrightarrow>
   wrote s (tok_bytes strs (TProp (chars n) (concat (map be32 cs)))) (name_add strs (chars n)) (fdt_prop_cells s n cs)"
  using wrote_then [OF wrote_prop_head wrote_cells [OF refl], of s strs "length cs * 4" n cs]
  by (simp add: fdt_prop_cells_def prop_head_def data_bytes_cells mult.commute)

text \<open>Every writer call appends the bytes of its token, and so does a sequence of calls.\<close>

lemma wrote_call: "wrote s (tok_bytes (f_strings s) (fdt_token c)) (tok_strings (f_strings s) (fdt_token c)) (fdt_do c s)"
proof -
  have b: "wrote s (tok_bytes (f_strings s) (TBegin (chars n))) (f_strings s) (fdt_begin_node s n)" for n
    using wrote_then [OF wrote_u32 [of s FDT_BEGIN_NODE] wrote_data, of "cstr n"] by (simp add: fdt_begin_node_def cstr_def)
  show ?thesis
  proof (cases c)
    case EndNode
    then show ?thesis using wrote_u32 by (simp add: fdt_end_node_def)
  next
    case (PropReg64 a z)
    then show ?thesis using wrote_prop_cells [OF refl, of s "''reg''" "[0, a, 0, z]"]
      by (simp add: fdt_prop_reg64_def)
  next
    case (PropCells n cs)
    then show ?thesis using wrote_prop_cells [OF refl, of s n cs] by simp
  qed (use b wrote_prop [OF refl, of s] in
      \<open>simp_all add: fdt_begin_node_num_def fdt_prop_empty_def fdt_prop_str_def fdt_prop_u32_def del: tok_bytes.simps\<close>)
qed

lemma wrote_any: "wrote s as strs s' \<Longrightarrow> f_overflow s' \<Longrightarrow> wrote s bs strs' s'"
  by (simp add: wrote_def)

lemma wrote_calls:
  "f_strings s = strs \<Longrightarrow>
   wrote s (tree_bytes strs (map fdt_token cs)) (tree_strings strs (map fdt_token cs)) (fold fdt_do cs s)"
proof (induction cs arbitrary: s strs)
  case Nil
  then show ?case by (simp add: wrote_refl)
next
  case (Cons c cs)
  let ?s = "fdt_do c s" and ?t = "fdt_token c"
  have w: "wrote s (tok_bytes strs ?t) (tok_strings strs ?t) ?s" using wrote_call [of s c] Cons.prems by simp
  have r: "wrote ?s (tree_bytes (f_strings ?s) (map fdt_token cs)) (tree_strings (f_strings ?s) (map fdt_token cs)) (fold fdt_do cs ?s)"
    using Cons.IH by simp
  show ?case
  proof (cases "f_overflow ?s")
    case True
    with r have "f_overflow (fold fdt_do cs ?s)" by (auto simp: wrote_def)
    with wrote_trans [OF w r] show ?thesis by (auto elim: wrote_any)
  next
    case False
    then have "f_strings ?s = tok_strings strs ?t" using w by (simp add: wrote_def)
    with wrote_trans [OF w r] show ?thesis by simp
  qed
qed

section \<open>Reading the blob back\<close>

lemma take_be32 [simp]: "take 4 (be32 v @ r) = be32 v" "drop 4 (be32 v @ r) = r"
  by simp_all

lemma read_begin:
  assumes "0 \<notin> set n"
  shows "fdt_read strs (be32 FDT_BEGIN_NODE @ data_bytes (n @ [0]) @ rest) =
    map_option (Cons (TBegin n)) (fdt_read strs rest)"
proof -
  have t: "takeWhile (\<lambda>b. b \<noteq> 0) (data_bytes (n @ [0]) @ rest) = n"
    using assms by (simp add: data_bytes_def takeWhile_append)
  show ?thesis
    by (subst fdt_read.simps) (simp add: Let_def t)
qed

lemma read_end_node: "fdt_read strs (be32 FDT_END_NODE @ rest) = map_option (Cons TEnd) (fdt_read strs rest)"
  by (subst fdt_read.simps) (simp add: Let_def fdt_consts)

lemma read_end: "fdt_read strs (be32 FDT_END) = Some []"
  by (subst fdt_read.simps) (simp add: Let_def fdt_consts take_all)

lemma unat_of_nat_u32: "n < 4294967296 \<Longrightarrow> unat (of_nat n :: u32) = n"
  by (simp add: unsigned_of_nat take_bit_nat_eq_self)

lemma read_prop:
  assumes "length d < 4294967296" "off < 4294967296"
  shows "fdt_read strs (be32 FDT_PROP @ be32 (of_nat (length d)) @ be32 (of_nat off) @ data_bytes d @ rest) =
    map_option (Cons (TProp (cstr_at strs off) d)) (fdt_read strs rest)"
proof -
  have d8: "drop 8 (be32 a @ be32 b @ x) = x" for a b x
    by (metis drop_drop take_be32(2) numeral_Bit0 numeral_eq_iff)
  have dd: "take (length d) (data_bytes d) @ take (length d - pad4 (length d)) rest = d"
    using pad4_ge(1) [of "length d"] by (simp add: data_bytes_def)
  have dr: "drop (pad4 (length d)) (data_bytes d @ rest) = rest"
    using length_data_bytes [of d] by (metis append_eq_conv_conj)
  show ?thesis
    by (subst fdt_read.simps)
       (simp add: Let_def fdt_consts d8 dd dr unat_of_nat_u32 assms)
qed

definition strs_term :: "u8 list \<Rightarrow> bool" where
  "strs_term strs \<longleftrightarrow> strs = [] \<or> last strs = 0"

lemma strs_term_in: "strs_term strs \<Longrightarrow> i < length strs \<Longrightarrow> 0 \<in> set (drop i strs)"
  by (metis strs_term_def last_drop last_in_set drop_eq_Nil linorder_not_le list.size(3) not_less_zero)

lemma strs_term_add: "strs_term strs \<Longrightarrow> strs_term (name_add strs n)"
  by (simp add: strs_term_def name_add_def split: option.split)

lemma name_off_add:
  assumes "0 \<notin> set n"
  shows "cstr_at (name_add strs n) (name_off strs n) = n" "name_off strs n < length (name_add strs n)"
proof (atomize (full), cases "fdt_find strs n 0")
  case None
  have "takeWhile (\<lambda>b. b \<noteq> 0) (n @ [0]) = n" using assms by (simp add: takeWhile_append)
  then show "cstr_at (name_add strs n) (name_off strs n) = n \<and> name_off strs n < length (name_add strs n)"
    by (simp add: name_add_def name_off_def None cstr_at_def)
next
  case (Some i)
  with fdt_find_Some [of strs n 0 i]
  show "cstr_at (name_add strs n) (name_off strs n) = n \<and> name_off strs n < length (name_add strs n)"
    by (simp add: name_add_def name_off_def)
qed

lemma tree_strings_ext: "\<exists>x. tree_strings strs ts = strs @ x"
proof (induction ts arbitrary: strs)
  case (Cons t ts)
  obtain x where "tree_strings (tok_strings strs t) ts = tok_strings strs t @ x" using Cons.IH by blast
  moreover have "\<exists>y. tok_strings strs t = strs @ y"
    by (cases t) (auto simp: name_add_def split: option.split)
  ultimately show ?case by auto
qed simp

fun tok_ok :: "fdt_tok \<Rightarrow> bool" where
  "tok_ok (TBegin n) = (0 \<notin> set n)"
| "tok_ok (TProp n d) = (0 \<notin> set n \<and> length d < 4294967296)"
| "tok_ok TEnd = True"

lemma read_tree:
  "strs_term strs \<Longrightarrow> list_all tok_ok ts \<Longrightarrow> length (tree_strings strs ts) < 4294967296 \<Longrightarrow>
   fdt_read (tree_strings strs ts) (tree_bytes strs ts @ be32 FDT_END) = Some ts"
proof (induction ts arbitrary: strs)
  case Nil
  then show ?case by (simp add: read_end)
next
  case (Cons t ts)
  have "strs_term (tok_strings strs t)" using Cons.prems(1) by (cases t) (simp_all add: strs_term_add)
  with Cons have ih: "fdt_read (tree_strings (tok_strings strs t) ts)
      (tree_bytes (tok_strings strs t) ts @ be32 FDT_END) = Some ts" by simp
  show ?case
  proof (cases t)
    case (TBegin n)
    then show ?thesis using ih read_begin Cons.prems(2) by simp
  next
    case TEnd
    then show ?thesis using ih by (simp add: read_end_node)
  next
    case (TProp n d)
    let ?st = "name_add strs n" and ?o = "name_off strs n"
    have n: "0 \<notin> set n" "length d < 4294967296" using Cons.prems(2) TProp by simp_all
    obtain x where x: "tree_strings ?st ts = ?st @ x" using tree_strings_ext by blast
    have "cstr_at (?st @ x) ?o = n"
      using cstr_at_append [OF strs_term_in [OF strs_term_add [OF Cons.prems(1)] name_off_add(2) [OF n(1)]]]
        name_off_add(1) [OF n(1)] by simp
    moreover have "?o < 4294967296"
      using name_off_add(2) [OF n(1), of strs] Cons.prems(3) x TProp by simp
    ultimately show ?thesis using ih read_prop [OF n(2), of ?o] x TProp by simp
  qed
qed

section \<open>The tree fits\<close>

text \<open>What a token takes in the structure block, whatever the strings are.\<close>

fun tok_size :: "fdt_tok \<Rightarrow> nat" where
  "tok_size (TBegin n) = 4 + pad4 (length n + 1)"
| "tok_size (TProp n d) = 12 + pad4 (length d)"
| "tok_size TEnd = 4"

lemma length_tok_bytes [simp]: "length (tok_bytes strs t) = tok_size t"
  by (cases t) simp_all

text \<open>The state after an operation that had room.\<close>

definition roomy :: "fdt_state \<Rightarrow> nat \<Rightarrow> fdt_state \<Rightarrow> bool" where
  "roomy s n s' \<longleftrightarrow> \<not> f_overflow s' \<and> f_pos s' = f_pos s + n \<and> f_buf_size s' = f_buf_size s"

lemma roomy_u32: "\<not> f_overflow s \<Longrightarrow> f_pos s + 4 \<le> f_buf_size s \<Longrightarrow> roomy s 4 (fdt_u32 s v)"
  by (simp add: roomy_def fdt_u32_def)

lemma roomy_data: "\<not> f_overflow s \<Longrightarrow> f_pos s + pad4 (length d) \<le> f_buf_size s \<Longrightarrow> roomy s (pad4 (length d)) (fdt_data s d)"
  by (simp add: roomy_def fdt_data_def Let_def)

lemma roomy_name:
  "\<not> f_overflow s \<Longrightarrow> f_pos s + 4 \<le> f_buf_size s \<Longrightarrow> length (name_add (f_strings s) (chars n)) \<le> FDT_STRINGS_MAX \<Longrightarrow>
   roomy s 4 (fdt_name_cell s n)"
  by (auto simp: roomy_def fdt_name_cell_def fdt_str_def fdt_u32_def name_add_def split: option.splits)

lemma roomy_cells:
  "\<not> f_overflow s \<Longrightarrow> f_pos s + 4 * length cs \<le> f_buf_size s \<Longrightarrow>
   roomy s (4 * length cs) (fold (\<lambda>c s. fdt_u32 s c) cs s)"
proof (induction cs arbitrary: s)
  case (Cons c cs)
  have "roomy s 4 (fdt_u32 s c)" by (rule roomy_u32) (use Cons.prems in auto)
  with Cons.IH [of "fdt_u32 s c"] Cons.prems show ?case by (simp add: roomy_def)
qed (simp add: roomy_def)

lemma roomy_head:
  assumes "\<not> f_overflow s" "f_pos s + 12 \<le> f_buf_size s" "length (name_add (f_strings s) (chars n)) \<le> FDT_STRINGS_MAX"
  shows "roomy s 12 (prop_head s len n)"
proof -
  have 1: "roomy s 4 (fdt_u32 s FDT_PROP)" by (rule roomy_u32) (use assms in auto)
  then have 2: "roomy (fdt_u32 s FDT_PROP) 4 (fdt_u32 (fdt_u32 s FDT_PROP) (of_nat len))"
    using assms by (intro roomy_u32) (auto simp: roomy_def)
  with 1 have "roomy (fdt_u32 (fdt_u32 s FDT_PROP) (of_nat len)) 4 (prop_head s len n)"
    unfolding prop_head_def using assms by (intro roomy_name) (auto simp: roomy_def)
  with 1 2 show ?thesis by (simp add: roomy_def)
qed

lemma roomy_prop:
  "\<not> f_overflow s \<Longrightarrow> f_pos s + 12 + pad4 (length d) \<le> f_buf_size s \<Longrightarrow>
   length (name_add (f_strings s) (chars n)) \<le> FDT_STRINGS_MAX \<Longrightarrow> roomy s (12 + pad4 (length d)) (fdt_prop s n d)"
  using roomy_head [of s n "length d"] roomy_data [of "prop_head s (length d) n" d]
  by (simp add: roomy_def fdt_prop_def prop_head_def)

lemma roomy_prop_cells:
  "\<not> f_overflow s \<Longrightarrow> f_pos s + 12 + 4 * length cs \<le> f_buf_size s \<Longrightarrow>
   length (name_add (f_strings s) (chars n)) \<le> FDT_STRINGS_MAX \<Longrightarrow> roomy s (12 + 4 * length cs) (fdt_prop_cells s n cs)"
  using roomy_head [of s n "length cs * 4"] roomy_cells [of "prop_head s (length cs * 4) n" cs]
  by (simp add: roomy_def fdt_prop_cells_def prop_head_def)

lemma roomy_begin:
  assumes "\<not> f_overflow s" "f_pos s + 4 + pad4 (length n + 1) \<le> f_buf_size s"
  shows "roomy s (4 + pad4 (length n + 1)) (fdt_begin_node s n)"
proof -
  have 1: "roomy s 4 (fdt_u32 s FDT_BEGIN_NODE)" by (rule roomy_u32) (use assms in auto)
  then have "roomy (fdt_u32 s FDT_BEGIN_NODE) (pad4 (length n + 1)) (fdt_begin_node s n)"
    using assms roomy_data [of "fdt_u32 s FDT_BEGIN_NODE" "cstr n"] by (simp add: roomy_def fdt_begin_node_def)
  with 1 show ?thesis by (simp add: roomy_def)
qed

lemma roomy_call:
  assumes "\<not> f_overflow s" "f_pos s + tok_size (fdt_token c) \<le> f_buf_size s"
    "length (tok_strings (f_strings s) (fdt_token c)) \<le> FDT_STRINGS_MAX"
  shows "roomy s (tok_size (fdt_token c)) (fdt_do c s)"
proof (cases c)
  case EndNode
  then show ?thesis using assms roomy_u32 [of s FDT_END_NODE] by (simp add: fdt_end_node_def)
next
  case (PropReg64 a z)
  then show ?thesis using assms roomy_prop_cells [of s "[0, a, 0, z]" "''reg''"]
    by (simp add: fdt_prop_reg64_def pad4_def)
next
  case (PropCells n cs)
  then show ?thesis using assms roomy_prop_cells [of s cs n] by simp
next
  case (PropStr n v)
  then show ?thesis using assms roomy_prop [of s "cstr v" n] by (simp add: fdt_prop_str_def)
next
  case (PropU32 n v)
  then show ?thesis using assms roomy_prop [of s "be32 v" n] by (simp add: fdt_prop_u32_def)
next
  case (PropEmpty n)
  then show ?thesis using assms roomy_prop [of s "[]" n] by (simp add: fdt_prop_empty_def)
qed (use assms roomy_begin [of s] in \<open>simp_all add: fdt_begin_node_num_def\<close>)

definition call_size :: "fdt_call \<Rightarrow> nat" where
  "call_size c = tok_size (fdt_token c)"

lemma roomy_calls:
  "\<not> f_overflow s \<Longrightarrow> f_pos s + sum_list (map call_size cs) \<le> f_buf_size s \<Longrightarrow>
   (\<And>k. k \<le> length cs \<Longrightarrow> length (tree_strings (f_strings s) (map fdt_token (take k cs))) \<le> FDT_STRINGS_MAX) \<Longrightarrow>
   roomy s (sum_list (map call_size cs)) (fold fdt_do cs s)"
proof (induction cs arbitrary: s)
  case (Cons c cs)
  have r: "roomy s (call_size c) (fdt_do c s)"
    unfolding call_size_def using Cons.prems(1,2) Cons.prems(3) [of 1] by (intro roomy_call) (auto simp: call_size_def)
  then have st: "f_strings (fdt_do c s) = tok_strings (f_strings s) (fdt_token c)"
    using wrote_call [of s c] by (simp add: wrote_def roomy_def)
  have "roomy (fdt_do c s) (sum_list (map call_size cs)) (fold fdt_do cs (fdt_do c s))"
  proof (rule Cons.IH)
    fix k assume "k \<le> length cs"
    then show "length (tree_strings (f_strings (fdt_do c s)) (map fdt_token (take k cs))) \<le> FDT_STRINGS_MAX"
      using Cons.prems(3) [of "Suc k"] by (simp add: st)
  qed (use r Cons.prems(2) in \<open>auto simp: roomy_def\<close>)
  with r show ?case by (simp add: roomy_def)
qed (simp add: roomy_def)

text \<open>The names the strings block can hold, each once.\<close>

fun call_names :: "fdt_call \<Rightarrow> string list" where
  "call_names (PropEmpty n) = [n]"
| "call_names (PropStr n v) = [n]"
| "call_names (PropU32 n v) = [n]"
| "call_names (PropCells n cs) = [n]"
| "call_names (PropReg64 a z) = [''reg'']"
| "call_names _ = []"

lemma tok_strings_names:
  "tok_strings strs (fdt_token c) = (case call_names c of [] \<Rightarrow> strs | n # _ \<Rightarrow> name_add strs (chars n))"
  by (cases c) simp_all

lemma name_add_strings:
  assumes "list_all no_nul ns" "distinct ns" "no_nul n"
  shows "\<exists>ms. name_add (strings_of ns) (chars n) = strings_of ms \<and> distinct ms \<and> list_all no_nul ms \<and>
    set ms \<subseteq> insert n (set ns)"
proof (cases "n \<in> set ns")
  case True
  then have "fdt_find (strings_of ns) (chars n) 0 \<noteq> None" using fdt_find_strings [OF assms(1), of "[]" n] by simp
  then show ?thesis using assms by (auto simp: name_add_def intro!: exI [of _ ns])
next
  case False
  then have "fdt_find (strings_of ns) (chars n) 0 = None" using fdt_find_strings [OF assms(1), of "[]" n] by simp
  then show ?thesis using assms False
    by (auto simp: name_add_def cstr_def intro!: exI [of _ "ns @ [n]"])
qed

lemma tree_strings_names:
  "list_all no_nul ns \<Longrightarrow> distinct ns \<Longrightarrow> list_all (\<lambda>c. list_all no_nul (call_names c)) cs \<Longrightarrow>
   \<exists>ms. tree_strings (strings_of ns) (map fdt_token cs) = strings_of ms \<and> distinct ms \<and> list_all no_nul ms \<and>
     set ms \<subseteq> set ns \<union> set (concat (map call_names cs))"
proof (induction cs arbitrary: ns)
  case Nil
  then show ?case by auto
next
  case (Cons c cs)
  have "\<exists>ms. tok_strings (strings_of ns) (fdt_token c) = strings_of ms \<and> distinct ms \<and> list_all no_nul ms \<and>
      set ms \<subseteq> set ns \<union> set (call_names c)"
  proof (cases "call_names c")
    case Nil
    then show ?thesis using Cons.prems by (auto simp: tok_strings_names)
  next
    case n: (Cons n l)
    then have "no_nul n" using Cons.prems(3) by simp
    with name_add_strings [OF Cons.prems(1,2)] obtain ms where
      "name_add (strings_of ns) (chars n) = strings_of ms" "distinct ms" "list_all no_nul ms" "set ms \<subseteq> insert n (set ns)"
      by blast
    with n show ?thesis by (intro exI [of _ ms]) (auto simp: tok_strings_names)
  qed
  then obtain ms where m: "tok_strings (strings_of ns) (fdt_token c) = strings_of ms" "distinct ms" "list_all no_nul ms"
      "set ms \<subseteq> set ns \<union> set (call_names c)" by blast
  from Cons.IH [OF m(3,2)] Cons.prems(3) obtain ks where
    k: "tree_strings (strings_of ms) (map fdt_token cs) = strings_of ks" "distinct ks" "list_all no_nul ks"
       "set ks \<subseteq> set ms \<union> set (concat (map call_names cs))" by auto
  show ?case using m k by (intro exI [of _ ks]) auto
qed

lemma length_strings_of: "length (strings_of ns) = (\<Sum>n\<leftarrow>ns. length n + 1)"
  by (induction ns) simp_all

lemma strings_bound: "distinct ns \<Longrightarrow> set ns \<subseteq> set ms \<Longrightarrow> length (strings_of ns) \<le> length (strings_of ms)"
proof -
  assume d: "distinct ns" "set ns \<subseteq> set ms"
  have "(\<Sum>n\<leftarrow>ns. length n + 1) = (\<Sum>n\<in>set ns. length n + 1)" using d(1) by (simp add: sum_list_distinct_conv_sum_set)
  also have "\<dots> \<le> (\<Sum>n\<in>set ms. length n + 1)" using d(2) by (intro sum_mono2) auto
  also have "\<dots> \<le> (\<Sum>n\<leftarrow>ms. length n + 1)"
    by (induction ms) (auto simp: insert_absorb sum.insert_if)
  finally show ?thesis by (simp add: length_strings_of)
qed

definition fdt_names :: "string list" where
  "fdt_names = [''#address-cells'', ''#size-cells'', ''compatible'', ''model'', ''timebase-frequency'',
     ''device_type'', ''reg'', ''status'', ''riscv,isa'', ''mmu-type'', ''clock-frequency'', ''#interrupt-cells'',
     ''interrupt-controller'', ''phandle'', ''ranges'', ''interrupts-extended'', ''riscv,ndev'', ''reg-shift'',
     ''reg-io-width'', ''interrupt-parent'', ''interrupts'', ''regmap'', ''offset'', ''value'', ''bootargs'',
     ''stdout-path'', ''linux,initrd-start'', ''linux,initrd-end'']"

lemmas fdt_tree_defs = fdt_tree_def fdt_cpus_def fdt_memory_def fdt_soc_def fdt_virtio_def fdt_syscon_user_def
  fdt_chosen_def

lemma fdt_tree_names: "list_all (\<lambda>c. list_all (\<lambda>n. n \<in> set fdt_names) (call_names c)) (fdt_tree p)"
  by (simp add: fdt_tree_defs fdt_names_def split: option.split)

lemma fdt_names_fit: "length (strings_of fdt_names) \<le> FDT_STRINGS_MAX" "list_all no_nul fdt_names"
  by (simp_all add: length_strings_of fdt_names_def FDT_STRINGS_MAX_def no_nul_def)

text \<open>
  The structure block takes at most 2300 bytes and the three strings that vary; node names that
  carry an address are at most 37 characters long.
\<close>

lemma hex_loop_length: "length (hex_loop shs l a) \<le> length shs"
proof (induction shs arbitrary: l)
  case (Cons sh shs)
  from Cons [of l] Cons [of False] show ?case by (auto simp: Let_def)
qed simp

lemma node_num_size: "tok_size (TBegin (chars (node_num_name n a))) \<le> 52"
  using hex_loop_length [of "[28, 24, 20, 16, 12, 8, 4, 0]" True a] pad4_ge(2) [of "length (node_num_name n a) + 1"]
  by (simp add: node_num_name_def)

lemma call_size_le:
  "call_size (BeginNodeNum n a) \<le> 52" "call_size (PropStr n v) \<le> 16 + length v"
  "call_size (BeginNode n) = 4 + pad4 (length n + 1)" "call_size EndNode = 4" "call_size (PropEmpty n) = 12"
  "call_size (PropU32 n x) = 16" "call_size (PropCells n cs) = 12 + 4 * length cs" "call_size (PropReg64 a z) = 28"
  using node_num_size [of n a] pad4_ge(2) [of "length v + 1"]
  by (simp_all add: call_size_def pad4_def)

definition opt_len :: "string option \<Rightarrow> nat" where
  "opt_len s = (case s of None \<Rightarrow> 0 | Some t \<Rightarrow> length t)"

fun call_ub :: "fdt_call \<Rightarrow> nat" where
  "call_ub (BeginNodeNum n a) = 52"
| "call_ub (PropStr n v) = 16 + length v"
| "call_ub (BeginNode n) = 8 + length n"
| "call_ub (PropCells n cs) = 12 + 4 * length cs"
| "call_ub (PropU32 n x) = 16"
| "call_ub (PropReg64 a z) = 28"
| "call_ub (PropEmpty n) = 12"
| "call_ub EndNode = 4"

lemma call_size_ub: "call_size c \<le> call_ub c"
proof (cases c)
  case (BeginNode n)
  then show ?thesis using pad4_ge(2) [of "length n + 1"] by (simp add: call_size_le)
qed (simp_all add: call_size_le)

lemma fdt_tree_size:
  "(\<Sum>c\<leftarrow>fdt_tree p. call_size c) \<le> 2300 + length (fp_isa p) + opt_len (fp_mmu_type p) + opt_len (fp_cmdline p)"
proof -
  have "(\<Sum>c\<leftarrow>fdt_tree p. call_size c) \<le> (\<Sum>c\<leftarrow>fdt_tree p. call_ub c)"
    by (rule sum_list_mono) (rule call_size_ub)
  also have "\<dots> \<le> 2300 + length (fp_isa p) + opt_len (fp_mmu_type p) + opt_len (fp_cmdline p)"
    by (cases "fp_mmu_type p"; cases "fp_cmdline p") (simp_all add: fdt_tree_defs opt_len_def)
  finally show ?thesis .
qed

lemma hex_digit_no_nul: "d < 16 \<Longrightarrow> hex_digit d \<noteq> CHR 0x00"
proof
  assume d: "d < 16" and z: "hex_digit d = CHR 0x00"
  have "unat d < 16" using d by (simp add: word_less_nat_alt)
  then have "(of_char (hex_digit d) :: nat) \<noteq> 0"
    by (auto simp: hex_digit_def word_less_nat_alt)
  with z show False by simp
qed

lemma hex_loop_no_nul: "no_nul (hex_loop shs l a)"
proof (induction shs arbitrary: l)
  case (Cons sh shs)
  have "drop_bit sh a AND 0xf < 16"
  proof -
    have "drop_bit sh a AND 0xf = take_bit 4 (drop_bit sh a)" by (simp add: take_bit_eq_mask mask_eq_exp_minus_1)
    moreover have "unat (take_bit 4 (drop_bit sh a)) = unat (drop_bit sh a) mod 16"
      by (simp add: take_bit_eq_mod unat_mod_distrib)
    ultimately show ?thesis by (simp add: word_less_nat_alt)
  qed
  from hex_digit_no_nul [OF this] Cons [of l] Cons [of False] show ?case by (auto simp: Let_def no_nul_def)
qed (simp add: no_nul_def)

lemma node_num_no_nul: "no_nul n \<Longrightarrow> no_nul (node_num_name n a)"
  using hex_loop_no_nul [of "[28, 24, 20, 16, 12, 8, 4, 0]" True a]
  by (auto simp: no_nul_def node_num_name_def simp del: hex_loop.simps dest: in_set_takeD)

fun call_ok :: "fdt_call \<Rightarrow> bool" where
  "call_ok (BeginNode n) = no_nul n"
| "call_ok (BeginNodeNum n a) = no_nul n"
| "call_ok EndNode = True"
| "call_ok (PropEmpty n) = no_nul n"
| "call_ok (PropStr n v) = (no_nul n \<and> length v < 4294967295)"
| "call_ok (PropU32 n x) = no_nul n"
| "call_ok (PropCells n cs) = (no_nul n \<and> length cs < 1073741824)"
| "call_ok (PropReg64 a z) = True"

lemma call_ok_tok: "call_ok c \<Longrightarrow> tok_ok (fdt_token c)"
  by (cases c) (simp_all add: chars_no_nul node_num_no_nul, simp add: chars_no_nul no_nul_def)

lemma fdt_tree_ok:
  assumes "length (fp_isa p) < 4294967295" "opt_len (fp_mmu_type p) < 4294967295" "opt_len (fp_cmdline p) < 4294967295"
  shows "list_all tok_ok (map fdt_token (fdt_tree p))"
proof -
  have "list_all call_ok (fdt_tree p)"
    using assms by (cases "fp_mmu_type p"; cases "fp_cmdline p")
      (simp_all add: fdt_tree_defs opt_len_def no_nul_def)
  then show ?thesis by (auto simp: list_all_iff call_ok_tok)
qed

section \<open>The finished blob\<close>

text \<open>The word at an index of the header, and the tree a blob holds.\<close>

definition fdt_field :: "block \<Rightarrow> nat \<Rightarrow> nat \<Rightarrow> nat" where
  "fdt_field buf base i = unat (of_be32 (mem_read buf (base + 4 * i) 4))"

definition fdt_parse :: "block \<Rightarrow> nat \<Rightarrow> fdt_tok list option" where
  "fdt_parse buf base =
     (if fdt_field buf base 0 = unat FDT_MAGIC
      then fdt_read (mem_read buf (base + fdt_field buf base 3) (fdt_field buf base 8))
             (mem_read buf (base + fdt_field buf base 2) (fdt_field buf base 9))
      else None)"

lemma length_tree_bytes [simp]: "length (tree_bytes strs (map fdt_token cs)) = (\<Sum>c\<leftarrow>cs. call_size c)"
  by (induction cs arbitrary: strs) (simp_all add: call_size_def)

lemma fdt_tree_strings:
  "k \<le> length (fdt_tree p) \<Longrightarrow> length (tree_strings [] (map fdt_token (take k (fdt_tree p)))) \<le> FDT_STRINGS_MAX"
proof -
  have sub: "list_all (\<lambda>c. list_all no_nul (call_names c)) (take k (fdt_tree p))"
    using fdt_tree_names [of p] fdt_names_fit(2) by (auto simp: list_all_iff dest: in_set_takeD)
  have "set (concat (map call_names (take k (fdt_tree p)))) \<subseteq> set fdt_names"
    using fdt_tree_names [of p] by (auto simp: list_all_iff dest: in_set_takeD)
  with tree_strings_names [of "[]", OF _ _ sub] obtain ms where
    "tree_strings [] (map fdt_token (take k (fdt_tree p))) = strings_of ms" "distinct ms" "set ms \<subseteq> set fdt_names" by auto
  then show ?thesis using strings_bound [of ms fdt_names] fdt_names_fit(1) by simp
qed

text \<open>The state after the last call, when there was room.\<close>

lemma fdt_written:
  assumes "FDT_STRUCT_OFF + (\<Sum>c\<leftarrow>fdt_tree p. call_size c) + 4 \<le> buf_size"
    and s_def: "s = fdt_u32 (fold fdt_do (fdt_tree p) (fdt_start buf base buf_size)) FDT_END"
  shows "\<not> f_overflow s" "f_pos s = FDT_STRUCT_OFF + (\<Sum>c\<leftarrow>fdt_tree p. call_size c) + 4"
    "f_strings s = tree_strings [] (map fdt_token (fdt_tree p))"
    "f_buf s = mem_write buf (base + FDT_STRUCT_OFF) (tree_bytes [] (map fdt_token (fdt_tree p)) @ be32 FDT_END)"
proof -
  let ?st = "fdt_start buf base buf_size" and ?t = "map fdt_token (fdt_tree p)"
  let ?s1 = "fold fdt_do (fdt_tree p) ?st"
  have "roomy ?st (\<Sum>c\<leftarrow>fdt_tree p. call_size c) ?s1"
    by (rule roomy_calls) (use assms(1) fdt_tree_strings in \<open>auto simp: fdt_start_def\<close>)
  then have p1: "f_pos ?s1 = FDT_STRUCT_OFF + (\<Sum>c\<leftarrow>fdt_tree p. call_size c)" "\<not> f_overflow ?s1" "f_buf_size ?s1 = buf_size"
    by (simp_all add: roomy_def) (simp_all add: fdt_start_def)
  then have "roomy ?s1 4 s" unfolding s_def using assms(1) by (intro roomy_u32) simp_all
  with p1 show o: "\<not> f_overflow s" and "f_pos s = FDT_STRUCT_OFF + (\<Sum>c\<leftarrow>fdt_tree p. call_size c) + 4"
    by (simp_all add: roomy_def)
  have w: "wrote ?st (tree_bytes [] ?t @ be32 FDT_END) (tree_strings [] ?t) s"
    unfolding s_def by (rule wrote_then [OF wrote_calls wrote_u32]) (simp add: fdt_start_def)
  then show "f_strings s = tree_strings [] ?t" "f_buf s = mem_write buf (base + FDT_STRUCT_OFF) (tree_bytes [] ?t @ be32 FDT_END)"
    using o by (simp_all add: wrote_def fdt_start_def)
qed

lemma length_header [simp]: "length (fdt_header t q n) = 40"
  by (simp add: fdt_header_def)

lemma header_fields:
  assumes "mem_read buf base 40 = fdt_header t q n" "t < 4294967296" "q < 4294967296" "n < 4294967296"
  shows "fdt_field buf base 0 = unat FDT_MAGIC" "fdt_field buf base 1 = t" "fdt_field buf base 2 = FDT_STRUCT_OFF"
    "fdt_field buf base 3 = q" "fdt_field buf base 8 = n" "fdt_field buf base 9 = q - FDT_STRUCT_OFF"
proof -
  have f: "fdt_field buf base i = unat (of_be32 (take 4 (drop (4 * i) (fdt_header t q n))))" if "i < 10" for i
    using mem_read_sub [of "4 * i" 4 40 buf base] that assms(1) by (simp add: fdt_field_def)
  show "fdt_field buf base 0 = unat FDT_MAGIC" "fdt_field buf base 1 = t" "fdt_field buf base 2 = FDT_STRUCT_OFF"
    "fdt_field buf base 3 = q" "fdt_field buf base 8 = n" "fdt_field buf base 9 = q - FDT_STRUCT_OFF"
    using assms by (simp_all add: f fdt_header_def unat_of_nat_u32 fdt_sizes)
qed

lemma fdt_build_ok:
  assumes fit: "FDT_STRUCT_OFF + (\<Sum>c\<leftarrow>fdt_tree p. call_size c) + 4 + FDT_STRINGS_MAX \<le> buf_size"
    and sz: "buf_size < 4294967296" and ok: "list_all tok_ok (map fdt_token (fdt_tree p))"
  shows "0 < fst (rv_build_fdt buf base buf_size p)"
    "fst (rv_build_fdt buf base buf_size p) \<le> buf_size"
    "fdt_field (snd (rv_build_fdt buf base buf_size p)) base 1 = fst (rv_build_fdt buf base buf_size p)"
    "fdt_parse (snd (rv_build_fdt buf base buf_size p)) base = Some (map fdt_token (fdt_tree p))"
proof -
  let ?ts = "map fdt_token (fdt_tree p)"
  define s where "s = fdt_u32 (fold fdt_do (fdt_tree p) (fdt_start buf base buf_size)) FDT_END"
  define S where "S = tree_bytes [] ?ts @ be32 FDT_END"
  define strs where "strs = tree_strings [] ?ts"
  have "FDT_STRUCT_OFF + (\<Sum>c\<leftarrow>fdt_tree p. call_size c) + 4 \<le> buf_size" using fit by simp
  note w = fdt_written [OF this s_def]
  have L: "length strs \<le> FDT_STRINGS_MAX" unfolding strs_def using fdt_tree_strings [of "length (fdt_tree p)" p] by simp
  have pos: "f_pos s = FDT_STRUCT_OFF + length S" using w(2) by (simp add: S_def)
  let ?tot = "f_pos s + length strs" and ?h = "fdt_header (f_pos s + length strs) (f_pos s) (length strs)"
  let ?b1 = "mem_write (f_buf s) (base + f_pos s) strs"
  let ?b = "mem_write (mem_write ?b1 (base + FDT_HDR_SIZE) (replicate FDT_RSVMAP_SIZE 0)) base ?h"
  have fits: "?tot \<le> buf_size" using fit L w(2) by simp
  have "FDT_STRUCT_OFF + 64 \<le> buf_size" using fit by (simp add: fdt_sizes)
  then have r: "rv_build_fdt buf base buf_size p = (?tot, ?b)"
    using w(1) fits by (simp add: rv_build_fdt_def Let_def s_def [symmetric] w(3) strs_def [symmetric])
  have h: "mem_read ?b base 40 = ?h" by (rule mem_read_write_same') simp
  have bS: "f_buf s = mem_write buf (base + FDT_STRUCT_OFF) S" using w(4) by (simp add: S_def)
  have st: "mem_read ?b (base + FDT_STRUCT_OFF) (length S) = S"
    by (simp add: mem_read_write_disjoint fdt_sizes pos bS)
  have ss: "mem_read ?b (base + f_pos s) (length strs) = strs"
    by (simp add: mem_read_write_disjoint fdt_sizes pos)
  have lt: "?tot < 4294967296" "f_pos s < 4294967296" "length strs < 4294967296" using fits sz by linarith+
  note f = header_fields [OF h lt]
  show "0 < fst (rv_build_fdt buf base buf_size p)" "fst (rv_build_fdt buf base buf_size p) \<le> buf_size"
    using fits by (simp_all add: r pos fdt_sizes)
  show "fdt_field (snd (rv_build_fdt buf base buf_size p)) base 1 = fst (rv_build_fdt buf base buf_size p)"
    using f(2) by (simp add: r)
  have "fdt_parse ?b base = fdt_read strs S"
    unfolding fdt_parse_def f using st ss by (simp add: pos)
  also have "\<dots> = Some ?ts"
    unfolding strs_def S_def by (rule read_tree) (use ok lt in \<open>simp_all add: strs_term_def strs_def\<close>)
  finally show "fdt_parse (snd (rv_build_fdt buf base buf_size p)) base = Some ?ts" by (simp add: r)
qed

lemma fdt_fits:
  assumes "length (fp_isa p) + opt_len (fp_mmu_type p) + opt_len (fp_cmdline p) + 3072 \<le> buf_size"
    "buf_size < 4294967296"
  shows "FDT_STRUCT_OFF + (\<Sum>c\<leftarrow>fdt_tree p. call_size c) + 4 + FDT_STRINGS_MAX \<le> buf_size"
    "list_all tok_ok (map fdt_token (fdt_tree p))"
proof -
  show "FDT_STRUCT_OFF + (\<Sum>c\<leftarrow>fdt_tree p. call_size c) + 4 + FDT_STRINGS_MAX \<le> buf_size"
    using fdt_tree_size [of p] assms(1) by (simp add: fdt_sizes)
  show "list_all tok_ok (map fdt_token (fdt_tree p))" using assms by (intro fdt_tree_ok) auto
qed

lemma fdt_build_confined:
  "fst (rv_build_fdt buf base buf_size p) \<le> buf_size \<and>
   (\<forall>a. a < base \<or> base + buf_size \<le> a \<longrightarrow> snd (rv_build_fdt buf base buf_size p) a = buf a)"
proof (cases "buf_size < FDT_STRUCT_OFF + 64")
  case False
  define s where "s = fdt_u32 (fold fdt_do (fdt_tree p) (fdt_start buf base buf_size)) FDT_END"
  have "wrote (fdt_start buf base buf_size) (tree_bytes [] (map fdt_token (fdt_tree p)) @ be32 FDT_END)
      (tree_strings [] (map fdt_token (fdt_tree p))) s"
    unfolding s_def by (rule wrote_then [OF wrote_calls wrote_u32]) (simp add: fdt_start_def)
  then have w: "\<And>a. a < base \<or> base + buf_size \<le> a \<Longrightarrow> f_buf s a = buf a"
    using False by (auto simp: wrote_def fdt_start_def)
  have r: "rv_build_fdt buf base buf_size p =
      (if f_overflow s \<or> buf_size < f_pos s + length (f_strings s) then (0, f_buf s)
       else (f_pos s + length (f_strings s),
             mem_write (mem_write (mem_write (f_buf s) (base + f_pos s) (f_strings s)) (base + FDT_HDR_SIZE)
               (replicate FDT_RSVMAP_SIZE 0)) base
               (fdt_header (f_pos s + length (f_strings s)) (f_pos s) (length (f_strings s)))))"
    using False by (simp add: rv_build_fdt_def Let_def s_def [symmetric])
  show ?thesis
    unfolding r using w False by (auto simp: mem_write_outside fdt_sizes)
qed (simp add: rv_build_fdt_def)

section \<open>Properties\<close>

text \<open>
  C6. The devicetree blob reads back as the tree it was built from: for every set of parameters whose
  three strings leave 3 KiB of the buffer, the writer succeeds, the header states the size it
  returns, and a reader of the DTB format recovers exactly the nodes and properties of the writer
  calls, each property under its own name although names are shared in the strings block.
\<close>

theorem fdt_roundtrip:
  assumes "length (fp_isa p) + opt_len (fp_mmu_type p) + opt_len (fp_cmdline p) + 3072 \<le> buf_size"
    "buf_size < 4294967296"
  shows "\<exists>tot buf'. rv_build_fdt buf base buf_size p = (tot, buf') \<and> 0 < tot \<and> tot \<le> buf_size \<and>
    fdt_field buf' base 1 = tot \<and> fdt_parse buf' base = Some (map fdt_token (fdt_tree p))"
proof -
  note fits = fdt_fits [OF assms]
  note b = fdt_build_ok [OF fits(1) assms(2) fits(2), of buf base]
  obtain tot buf' where "rv_build_fdt buf base buf_size p = (tot, buf')" by fastforce
  with b show ?thesis by simp
qed

definition fdt_demo :: fdt_params where
  "fdt_demo = \<lparr>fp_ram_base = 0x80000000, fp_ram_size = 0x4000000, fp_timebase_hz = 1000000,
     fp_isa = ''rv32acdfimsu'', fp_mmu_type = Some ''riscv,sv32'', fp_cmdline = Some ''console=hvc0'',
     fp_initrd_start = 0, fp_initrd_end = 0, fp_has_virtio_blk = True, fp_has_virtio_net = False\<rparr>"

theorem fdt_roundtrip_witness:
  "\<exists>tot buf'. rv_build_fdt (\<lambda>_. 0) 0x3f00000 0x100000 fdt_demo = (tot, buf') \<and> 0 < tot \<and>
     fdt_parse buf' 0x3f00000 = Some (map fdt_token (fdt_tree fdt_demo))"
  using fdt_roundtrip [of fdt_demo "0x100000" "\<lambda>_. 0" "0x3f00000"]
  by (auto simp: fdt_demo_def opt_len_def)


text \<open>
  Whatever the parameters and however small the buffer, the writer stays inside it: the size it
  returns is at most the buffer's and no byte before or after the buffer changes, also when the
  tree overflows it.
\<close>

lemma fdt_confined:
  "fst (rv_build_fdt buf base buf_size p) \<le> buf_size \<and>
   mem_read (snd (rv_build_fdt buf base buf_size p)) 0 base = mem_read buf 0 base \<and>
   mem_read (snd (rv_build_fdt buf base buf_size p)) (base + buf_size) n = mem_read buf (base + buf_size) n"
  using fdt_build_confined [of buf base buf_size p] by (auto intro!: mem_read_cong)

end
