(* ===== verification/Boot.thy ===== *)
theory Boot
  imports Ram_Access Fdt
begin

text \<open>
  Building the machine (\<open>emu/rv_machine.c\<close>, \<open>rv_kernel_footprint()\<close> to \<open>rv_machine_init()\<close>): where
  the kernel, the initrd and the devicetree go in guest RAM, the address map with its devices, and
  the hart left ready to enter the kernel. \<open>size_t\<close> is 32 bits wide, as on the board. The RAM block
  the platform hands over is \<open>guest_ram\<close>: its size, or \<open>None\<close> for a NULL pointer; its bytes are
  \<open>e_ram\<close> of the state the call starts in.
\<close>

section \<open>The request\<close>

record boot_image =
  bi_kernel :: "block option"
  bi_kernel_size :: u32
  bi_initrd :: "block option"
  bi_initrd_size :: u32
  bi_rootfs :: "block option"
  bi_rootfs_size :: u32
  bi_cmdline :: "string option"

definition RV_IMAGE_MAGIC2 :: u32 where "RV_IMAGE_MAGIC2 = 0x05435352"
definition RV_TIMEBASE_HZ :: u32 where "RV_TIMEBASE_HZ = 1000000"

text \<open>The size of the kernel once it runs: the \<open>image_size\<close> of its header where it has one.\<close>

definition rv_kernel_footprint :: "block \<Rightarrow> u32 \<Rightarrow> u32" where
  "rv_kernel_footprint krn file_size =
     (if file_size < 64 then file_size
      else if (of_le (mem_read krn 56 4) :: u32) \<noteq> RV_IMAGE_MAGIC2 then file_size
      else
        let image_size = (of_le (mem_read krn 16 8) :: u64)
        in if ucast file_size < image_size \<and> image_size < 0xffffffff then ucast image_size
           else file_size)"

text \<open>\<open>rv_isa_string()\<close>: the characters before the terminating NUL.\<close>

fun isa_loop :: "u32 \<Rightarrow> nat \<Rightarrow> nat list \<Rightarrow> string \<Rightarrow> string" where
  "isa_loop misa buf_size [] buf = buf"
| "isa_loop misa buf_size (i # is) buf =
     (if length buf < buf_size - 1
      then isa_loop misa buf_size is (if bit misa i then buf @ [char_of (97 + i)] else buf)
      else buf)"

definition rv_isa_string :: "u32 \<Rightarrow> nat \<Rightarrow> string" where
  "rv_isa_string misa buf_size =
     (if buf_size < 5 then ''rv32ima'' else isa_loop misa buf_size [0..<26] ''rv32'')"

section \<open>Loading\<close>

text \<open>
  The copies into guest RAM. The kernel is copied before its size is looked at, so a failure
  also leaves the block changed. On success: the guest addresses of the initrd, 0 and 0 without one.
\<close>

definition boot_load :: "block \<Rightarrow> u32 \<Rightarrow> boot_image \<Rightarrow> block \<Rightarrow> (int + u32 \<times> u32) \<times> block" where
  "boot_load ram ram_size img krn =
     (let ram1 = mem_write ram 0 (mem_read krn 0 (unat (bi_kernel_size img)));
          used = rv_kernel_footprint krn (bi_kernel_size img);
          finish = (\<lambda>ram2 top start stop.
            if top < used then (Inl (- ENOMEM), ram2)
            else (Inr (start, stop), mem_write ram2 (unat used) (replicate (unat (top - used)) 0)))
      in if ram_size < used then (Inl (- ENOMEM), ram1)
         else
           let top = ram_size - 0x100000
           in case bi_initrd img of
                None \<Rightarrow> finish ram1 top 0 0
              | Some initrd \<Rightarrow>
                  if bi_initrd_size img = 0 then finish ram1 top 0 0
                  else
                    let off = (top - bi_initrd_size img) AND NOT 0xfff
                    in if top < bi_initrd_size img \<or> off < used then (Inl (- ENOMEM), ram1)
                       else finish (mem_write ram1 (unat off) (mem_read initrd 0 (unat (bi_initrd_size img))))
                              off (ucast RV_RAM_BASE + off) (ucast RV_RAM_BASE + off + bi_initrd_size img))"

section \<open>The address map\<close>

text \<open>
  The devices every machine has. The result of \<open>cpu_register_device()\<close> is not looked at: a device
  that did not fit the table would silently be missing.
\<close>

definition boot_devices :: "(u64 \<times> u64 \<times> dev_id \<times> u32) list" where
  "boot_devices =
     [(RV_UART_BASE, RV_UART_SIZE, DevUart, DEVIO_SIZE8 OR DEVIO_SIZE32),
      (RV_CLINT_BASE, RV_CLINT_SIZE, DevClint, DEVIO_SIZE32),
      (RV_SYSCON_BASE, RV_SYSCON_SIZE, DevSyscon, DEVIO_SIZE32),
      (RV_PVIO_BASE, RV_PVIO_SIZE, DevPv, DEVIO_SIZE32),
      (RV_PLIC_BASE, RV_PLIC_SIZE, DevPlic, DEVIO_SIZE32)]"

fun register_all :: "phys_map \<Rightarrow> (u64 \<times> u64 \<times> dev_id \<times> u32) list \<Rightarrow> phys_map" where
  "register_all mm [] = mm"
| "register_all mm ((base, sz, dev, flags) # ds) =
     register_all (case cpu_register_device mm base sz dev flags of None \<Rightarrow> mm | Some mm' \<Rightarrow> mm') ds"

definition boot_map :: "u32 \<Rightarrow> phys_map option" where
  "boot_map ram_size =
     (case rv_register_ram_ptr phys_mem_map_init RV_RAM_BASE (ucast ram_size) (Some 0) 0 of
        None \<Rightarrow> None
      | Some (mm, _) \<Rightarrow> Some (register_all mm boot_devices))"

section \<open>rv_machine_init\<close>

definition boot_params :: "boot_image \<Rightarrow> rvmachine \<Rightarrow> u32 \<times> u32 \<Rightarrow> cpu \<Rightarrow> fdt_params" where
  "boot_params img m initrd c =
     \<lparr>fp_ram_base = ucast RV_RAM_BASE, fp_ram_size = m_ram_size m, fp_timebase_hz = RV_TIMEBASE_HZ,
      fp_isa = rv_isa_string (c_misa c) 40, fp_mmu_type = Some ''riscv,sv32'',
      fp_cmdline = bi_cmdline img, fp_initrd_start = fst initrd, fp_initrd_end = snd initrd,
      fp_has_virtio_blk = m_has_rootfs m, fp_has_virtio_net = m_has_net m\<rparr>"

text \<open>The two virtio devices, each registered only when the platform has what is behind it.\<close>

definition boot_virtio :: "plat \<Rightarrow> boot_image \<Rightarrow> sys \<Rightarrow> int \<times> sys" where
  "boot_virtio P img y =
     (let (ret, y1) =
        (if bi_rootfs img \<noteq> None \<and> 512 \<le> bi_rootfs_size img then
           let (r, v, mm) = rv_virtio_blk_init (sy_blk y) (e_map (sy_emu y)) RV_VIRTIO_BASE RV_VIRTIO_IRQ
                 (bi_rootfs img) (ucast (bi_rootfs_size img));
               y' = y\<lparr>sy_blk := v, sy_emu := (sy_emu y)\<lparr>e_map := mm\<rparr>\<rparr>
           in if r \<noteq> 0 then (r, y') else (0, upd_emu (upd_m (m_has_rootfs_update (\<lambda>_. True))) y')
         else (0, y))
      in if ret \<noteq> 0 then (ret, y1)
         else case po_net_mac P of
                None \<Rightarrow> (0, y1)
              | Some mac \<Rightarrow>
                  let (r, v, mm) = rv_virtio_net_init (e_map (sy_emu y1)) RV_VIRTIO_NET_BASE RV_VIRTIO_NET_IRQ mac;
                      y' = y1\<lparr>sy_net := v, sy_emu := (sy_emu y1)\<lparr>e_map := mm\<rparr>\<rparr>
                  in if r \<noteq> 0 then (r, y') else (0, upd_emu (upd_m (m_has_net_update (\<lambda>_. True))) y'))"

definition boot_ram_size :: "u32 \<Rightarrow> u32" where
  "boot_ram_size n = (let n' = n AND NOT (ucast DEVRAM_PAGE_SIZE - 1) in if 0x40000000 < n' then 0x40000000 else n')"

text \<open>The devicetree and the hand-over, once the hart exists.\<close>

definition boot_finish :: "boot_image \<Rightarrow> u32 \<times> u32 \<Rightarrow> sys \<Rightarrow> int \<times> sys" where
  "boot_finish img initrd y =
     (let s = (sy_emu y)\<lparr>e_cpu := riscv_cpu_init\<rparr>;
          fdt_addr = ucast RV_RAM_BASE + m_ram_size (e_m s) - 0x100000;
          (fdt_size, ram) = rv_build_fdt (e_ram s) (unat (fdt_addr - ucast RV_RAM_BASE)) 0x100000
                              (boot_params img (e_m s) initrd (e_cpu s));
          s1 = s\<lparr>e_ram := ram\<rparr>
      in if fdt_size = 0 then (- ENOMEM, y\<lparr>sy_emu := s1\<rparr>)
         else (0, y\<lparr>sy_emu := upd_cpu (\<lambda>c. riscv_cpu_boot_smode c (ucast RV_RAM_BASE) 0 fdt_addr)
                      (upd_m (\<lambda>m. m\<lparr>m_fdt_addr := fdt_addr, m_fdt_size := of_nat fdt_size\<rparr>) s1)\<rparr>))"

definition rv_machine_init :: "plat \<Rightarrow> u32 option \<Rightarrow> boot_image \<Rightarrow> sys \<Rightarrow> int \<times> sys" where
  "rv_machine_init P guest_ram img y =
     (case bi_kernel img of
        None \<Rightarrow> (- EINVAL, y)
      | Some krn \<Rightarrow>
          if bi_kernel_size img = 0 then (- EINVAL, y)
          else case guest_ram of
            None \<Rightarrow> (- ENOMEM, y)
          | Some n \<Rightarrow>
              if n < 0x200000 then (- ENOMEM, y)
              else
                let ram_size = boot_ram_size n;
                    (res, ram) = boot_load (e_ram (sy_emu y)) ram_size img krn;
                    s = (sy_emu y)\<lparr>e_m := rvm_zero\<lparr>m_ram_size := ram_size, m_timecmp := UINT64_MAX\<rparr>,
                                    e_ram := ram\<rparr>
                in case res of
                     Inl e \<Rightarrow> (e, y\<lparr>sy_emu := s\<rparr>)
                   | Inr initrd \<Rightarrow>
                       (case boot_map ram_size of
                          None \<Rightarrow> (- ENOMEM, y\<lparr>sy_emu := s\<rparr>)
                        | Some mm \<Rightarrow>
                            let (ret, y1) = boot_virtio P img (y\<lparr>sy_emu := s\<lparr>e_map := mm\<rparr>\<rparr>)
                            in if ret \<noteq> 0 then (ret, y1) else boot_finish img initrd y1))"

section \<open>The address map that results\<close>

lemma boot_ram_size_facts:
  assumes "0x200000 \<le> n"
  shows "unat (boot_ram_size n) mod 4096 = 0" "0x200000 \<le> unat (boot_ram_size n)"
    "unat (boot_ram_size n) \<le> 0x40000000" "unat (boot_ram_size n) \<le> unat n"
proof -
  have m: "(ucast DEVRAM_PAGE_SIZE - 1 :: u32) = PG_MASK" by (simp add: DEVRAM_PAGE_SIZE_def PG_MASK_def)
  have n: "0x200000 \<le> unat n" using assms by (simp add: word_le_nat_alt)
  have e: "unat n - unat n mod 4096 = unat n div 4096 * 4096" by (rule minus_mod_eq_div_mult)
  have "0x200000 \<le> unat n - unat n mod 4096" unfolding e using div_le_mono [OF n, of 4096] by simp
  moreover have "(unat n - unat n mod 4096) mod 4096 = 0" unfolding e by simp
  ultimately show "unat (boot_ram_size n) mod 4096 = 0" "0x200000 \<le> unat (boot_ram_size n)"
    "unat (boot_ram_size n) \<le> 0x40000000" "unat (boot_ram_size n) \<le> unat n"
    by (auto simp: boot_ram_size_def Let_def m word_less_nat_alt unat_page_base)
qed

definition ram_range :: "u32 \<Rightarrow> phys_range" where
  "ram_range n = \<lparr>pr_addr = RV_RAM_BASE, pr_org_size = ucast n, pr_size = ucast n, pr_is_ram = True,
     pr_devram_flags = 0, pr_phys_mem = Some 0, pr_dev = NoDev, pr_devio_flags = 0\<rparr>"

definition dev_range :: "u64 \<times> u64 \<times> dev_id \<times> u32 \<Rightarrow> phys_range" where
  "dev_range d = (case d of (base, sz, dev, flags) \<Rightarrow>
     \<lparr>pr_addr = base, pr_org_size = sz, pr_size = sz, pr_is_ram = False, pr_devram_flags = 0,
      pr_phys_mem = None, pr_dev = dev, pr_devio_flags = flags\<rparr>)"

text \<open>The ranges of a machine, by what it has.\<close>

definition blk_dev :: "u64 \<times> u64 \<times> dev_id \<times> u32" where
  "blk_dev = (RV_VIRTIO_BASE, RV_VIRTIO_SIZE, DevBlk, DEVIO_SIZE32)"

definition net_dev :: "u64 \<times> u64 \<times> dev_id \<times> u32" where
  "net_dev = (RV_VIRTIO_NET_BASE, RV_VIRTIO_NET_SIZE, DevNet, DEVIO_SIZE8 OR DEVIO_SIZE16 OR DEVIO_SIZE32)"

definition machine_map :: "u32 \<Rightarrow> bool \<Rightarrow> bool \<Rightarrow> phys_map" where
  "machine_map n blk net = ram_range n # map dev_range
     (boot_devices @ (if blk then [blk_dev] else []) @ (if net then [net_dev] else []))"

lemma boot_map_eq:
  assumes "unat n mod 4096 = 0" "n \<noteq> 0"
  shows "boot_map n = Some (machine_map n False False)"
proof -
  have "(ucast n :: u64) AND 4095 = take_bit 12 (ucast n)"
    by (simp add: take_bit_eq_mask mask_eq_exp_minus_1)
  also have "\<dots> = ucast (take_bit 12 n)" by (simp add: unsigned_take_bit_eq)
  also have "take_bit 12 n = 0" using assms(1) by (simp add: unat_mod_4096 unsigned_eq_0_iff)
  finally have a: "(ucast n :: u64) AND 4095 = 0" by simp
  have "(ucast n :: u64) \<noteq> 0" using assms(2) by (metis unat_ucast_32_64 unsigned_0 unsigned_word_eqI)
  with a show ?thesis
    by (simp add: boot_map_def rv_register_ram_ptr_def register_ram_entry_def phys_mem_map_init_def iomem_consts
        boot_devices_def cpu_register_device_def machine_map_def ram_range_def dev_range_def map_defs)
qed

definition wants_blk :: "boot_image \<Rightarrow> bool" where
  "wants_blk img \<longleftrightarrow> bi_rootfs img \<noteq> None \<and> 512 \<le> bi_rootfs_size img"

lemma boot_virtio_ok:
  assumes "e_map (sy_emu y) = machine_map n False False" "m_has_rootfs (e_m (sy_emu y)) = False"
    "m_has_net (e_m (sy_emu y)) = False"
  shows "\<exists>y1. boot_virtio P img y = (0, y1) \<and> sy_sbi y1 = sy_sbi y \<and>
    sy_emu y1 = (sy_emu y)\<lparr>e_m := (e_m (sy_emu y))\<lparr>m_has_rootfs := wants_blk img, m_has_net := po_net_mac P \<noteq> None\<rparr>,
      e_map := machine_map n (wants_blk img) (po_net_mac P \<noteq> None)\<rparr> \<and>
    (wants_blk img \<longrightarrow> vb_data (sy_blk y1) = the (bi_rootfs img) \<and>
       vb_nb_sectors (sy_blk y1) = ucast (bi_rootfs_size img) div 512)"
proof -
  have b: "rv_virtio_blk_init v mm RV_VIRTIO_BASE RV_VIRTIO_IRQ (Some d) (ucast z) =
      (0, vblk_zero\<lparr>vb_data := d, vb_nb_sectors := ucast z div 512, vb_irq := RV_VIRTIO_IRQ, vb_inited := True\<rparr>,
       mm @ [dev_range blk_dev])" if "512 \<le> z" "length mm < 32" for v mm d and z :: u32
    using that
    by (simp add: rv_virtio_blk_init_def SECTOR_SIZE_def word_less_nat_alt word_le_nat_alt not_less cpu_register_device_def
        iomem_consts Let_def dev_range_def blk_dev_def RV_VIRTIO_SIZE_def)
  have nt: "rv_virtio_net_init mm RV_VIRTIO_NET_BASE RV_VIRTIO_NET_IRQ mac =
      (0, vnet_zero\<lparr>vn_mac := (\<lambda>i. if i < 6 then mac ! i else 0), vn_irq := RV_VIRTIO_NET_IRQ, vn_inited := True\<rparr>,
       mm @ [dev_range net_dev])" if "length mm < 32" for mm mac
    using that by (simp add: rv_virtio_net_init_def cpu_register_device_def iomem_consts Let_def dev_range_def
        net_dev_def RV_VIRTIO_NET_SIZE_def)
  have l: "length (machine_map n x False) < 32" for x by (simp add: machine_map_def boot_devices_def)
  have m1: "machine_map n False False @ [dev_range blk_dev] = machine_map n True False"
    "machine_map n x False @ [dev_range net_dev] = machine_map n x True" for x
    by (simp_all add: machine_map_def)
  show ?thesis
    using assms
    by (cases "po_net_mac P"; cases "wants_blk img")
       (auto simp: boot_virtio_def wants_blk_def b nt l m1 upd_m_def Let_def split: option.splits)
qed

section \<open>What loading leaves in guest RAM\<close>

definition has_initrd :: "boot_image \<Rightarrow> bool" where
  "has_initrd img \<longleftrightarrow> bi_initrd img \<noteq> None \<and> bi_initrd_size img \<noteq> 0"

definition boot_top :: "u32 \<Rightarrow> boot_image \<Rightarrow> nat" where
  "boot_top n img = (if has_initrd img then (unat n - 0x100000 - unat (bi_initrd_size img)) div 4096 * 4096
     else unat n - 0x100000)"

definition boot_initrd :: "u32 \<Rightarrow> boot_image \<Rightarrow> u32 \<times> u32" where
  "boot_initrd n img = (if has_initrd img
     then (0x80000000 + of_nat (boot_top n img), 0x80000000 + of_nat (boot_top n img) + bi_initrd_size img)
     else (0, 0))"

text \<open>The kernel's footprint lies below the initrd, and the initrd below the devicetree.\<close>

definition boot_fits :: "u32 \<Rightarrow> boot_image \<Rightarrow> block \<Rightarrow> bool" where
  "boot_fits n img krn \<longleftrightarrow>
     unat (rv_kernel_footprint krn (bi_kernel_size img)) \<le> boot_top n img \<and>
     (has_initrd img \<longrightarrow> unat (bi_initrd_size img) + 0x100000 \<le> unat n)"

definition boot_loaded :: "block \<Rightarrow> u32 \<Rightarrow> boot_image \<Rightarrow> block \<Rightarrow> block" where
  "boot_loaded ram n img krn =
     (let used = unat (rv_kernel_footprint krn (bi_kernel_size img));
          ram1 = mem_write ram 0 (mem_read krn 0 (unat (bi_kernel_size img)));
          ram2 = (if has_initrd img
            then mem_write ram1 (boot_top n img) (mem_read (the (bi_initrd img)) 0 (unat (bi_initrd_size img)))
            else ram1)
      in mem_write ram2 used (replicate (boot_top n img - used) 0))"

lemma boot_load_spec:
  assumes "0x200000 \<le> unat n" "unat n \<le> 0x40000000"
  shows "boot_load ram n img krn =
    (if boot_fits n img krn then (Inr (boot_initrd n img), boot_loaded ram n img krn)
     else (Inl (- ENOMEM), mem_write ram 0 (mem_read krn 0 (unat (bi_kernel_size img)))))"
proof -
  let ?u = "rv_kernel_footprint krn (bi_kernel_size img)" and ?z = "bi_initrd_size img" and ?top = "n - 0x100000"
  have top: "unat ?top = unat n - 0x100000" using assms by (simp add: unat_sub_if_size)
  have off: "unat ((?top - ?z) AND NOT 0xfff) = (unat n - 0x100000 - unat ?z) div 4096 * 4096" if "?z \<le> ?top"
    using unat_page_base [of "?top - ?z"] that
    by (simp add: PG_MASK_def unat_sub word_le_nat_alt top minus_mod_eq_div_mult)
  have le: "boot_top n img \<le> unat n" "boot_top n img < 4294967296"
    using assms div_times_less_eq_dividend [of "unat n - 0x100000 - unat ?z" 4096] by (auto simp: boot_top_def)
  have lt: "n < ?u \<longleftrightarrow> unat n < unat ?u" by (rule word_less_nat_alt)
  show ?thesis
  proof (cases "has_initrd img")
    case True
    then obtain d where d: "bi_initrd img = Some d" "?z \<noteq> 0" by (auto simp: has_initrd_def)
    show ?thesis
    proof (cases "?z \<le> ?top")
      case z: True
      have o: "unat ((?top - ?z) AND NOT 0xfff) = boot_top n img" using off [OF z] True by (simp add: boot_top_def)
      then have w: "(?top - ?z) AND NOT 0xfff = of_nat (boot_top n img)" by (metis of_nat_unat ucast_id)
      have ub: "unat (of_nat (boot_top n img) :: u32) = boot_top n img" using o w by simp
      have "unat ?z + 0x100000 \<le> unat n" using z assms(1) by (simp add: word_le_nat_alt top)
      then have "boot_fits n img krn \<longleftrightarrow> unat ?u \<le> boot_top n img" by (simp add: boot_fits_def)
      then show ?thesis
        using True z le ub
        by (simp add: boot_load_def boot_loaded_def boot_initrd_def d w [simplified] lt Let_def not_less [symmetric] word_less_nat_alt
            unat_sub_if_size RV_RAM_BASE_def)
    next
      case z: False
      then have "\<not> boot_fits n img krn" using True assms(1) by (auto simp: boot_fits_def word_le_nat_alt top)
      then show ?thesis using z by (simp add: boot_load_def d Let_def not_le)
    qed
  next
    case False
    then have "bi_initrd img = None \<or> ?z = 0" by (auto simp: has_initrd_def)
    moreover have "boot_fits n img krn \<longleftrightarrow> unat ?u \<le> unat ?top" "boot_top n img = unat ?top"
      using False by (simp_all add: boot_fits_def boot_top_def top)
    ultimately show ?thesis
      using False top
      by (auto simp: boot_load_def boot_loaded_def boot_initrd_def Let_def word_less_nat_alt
            unat_sub_if_size split: option.split)
  qed
qed

lemma footprint_ge: "unat file_size \<le> unat (rv_kernel_footprint krn file_size)"
proof -
  have "unat file_size \<le> unat (ucast w :: u32)" if "ucast file_size < w" "w < 0xffffffff" for w :: u64
  proof -
    have "unat (ucast w :: u32) = unat w"
      using that(2) by (simp add: unsigned_ucast_eq word_less_nat_alt take_bit_nat_eq_self)
    then show ?thesis using that(1) by (simp add: word_less_nat_alt)
  qed
  then show ?thesis by (simp add: rv_kernel_footprint_def Let_def)
qed

lemma boot_top_room:
  "boot_fits n img krn \<Longrightarrow> has_initrd img \<Longrightarrow> boot_top n img + unat (bi_initrd_size img) + 0x100000 \<le> unat n"
  "boot_fits n img krn \<Longrightarrow> boot_top n img \<le> unat n - 0x100000"
  using div_times_less_eq_dividend [of "unat n - 0x100000 - unat (bi_initrd_size img)" 4096]
  by (auto simp: boot_fits_def boot_top_def)

lemma boot_loaded_facts:
  fixes ram :: block
  assumes "boot_fits n img krn"
  defines "used \<equiv> unat (rv_kernel_footprint krn (bi_kernel_size img))"
    and "ks \<equiv> unat (bi_kernel_size img)" and "ram' \<equiv> boot_loaded ram n img krn"
  shows "mem_read ram' 0 ks = mem_read krn 0 ks"
    "mem_read ram' ks (used - ks) = mem_read ram ks (used - ks)"
    "mem_read ram' used (boot_top n img - used) = replicate (boot_top n img - used) 0"
    "has_initrd img \<Longrightarrow> mem_read ram' (boot_top n img) (unat (bi_initrd_size img)) =
       mem_read (the (bi_initrd img)) 0 (unat (bi_initrd_size img))"
    "unat n - 0x100000 \<le> a \<Longrightarrow> ram' a = ram a"
proof -
  have u: "ks \<le> used" "used \<le> boot_top n img"
    using footprint_ge [of "bi_kernel_size img" krn] assms(1) by (simp_all add: ks_def used_def boot_fits_def)
  note top = boot_top_room [OF assms(1)]
  show "mem_read ram' 0 ks = mem_read krn 0 ks"
    using u by (simp add: ram'_def boot_loaded_def Let_def mem_read_write_disjoint mem_read_write_same' flip: ks_def used_def)
  show "mem_read ram' ks (used - ks) = mem_read ram ks (used - ks)"
    using u by (simp add: ram'_def boot_loaded_def Let_def mem_read_write_disjoint flip: ks_def used_def)
  show "mem_read ram' used (boot_top n img - used) = replicate (boot_top n img - used) 0"
    by (simp add: ram'_def boot_loaded_def Let_def mem_read_write_same' flip: ks_def used_def)
  show "mem_read ram' (boot_top n img) (unat (bi_initrd_size img)) =
       mem_read (the (bi_initrd img)) 0 (unat (bi_initrd_size img))" if "has_initrd img"
    using u that by (simp add: ram'_def boot_loaded_def Let_def mem_read_write_disjoint mem_read_write_same' flip: ks_def used_def)
  show "ram' a = ram a" if "unat n - 0x100000 \<le> a"
    using u top that by (auto simp: ram'_def boot_loaded_def Let_def mem_write_outside simp flip: ks_def used_def)
qed

section \<open>The whole of \<open>rv_machine_init()\<close>\<close>

lemma boot_isa: "rv_isa_string (c_misa riscv_cpu_init) 40 = ''rv32acdfimsu''"
  by (simp add: rv_isa_string_def riscv_cpu_init_def tlb_init_def tlb_flush_all_def mcpuid_defs upt_rec bit_simps char_of_def)

lemma machine_map_disjoint: "unat n \<le> 0x40000000 \<Longrightarrow> map_disjoint (machine_map n blk net)"
  by (simp add: machine_map_def boot_devices_def blk_dev_def net_dev_def ram_range_def dev_range_def range_disjoint_def map_defs)

lemma fresh_tlb:
  "i < TLB_SIZE \<Longrightarrow> tlb_vaddr (c_tlb_read riscv_cpu_init i) = -1 \<and> tlb_vaddr (c_tlb_write riscv_cpu_init i) = -1 \<and>
     tlb_vaddr (c_tlb_code riscv_cpu_init i) = -1"
  by (simp add: riscv_cpu_init_def tlb_init_def tlb_invalidate_def)

lemma boot_smode_tlb [simp]:
  "c_tlb_read (riscv_cpu_boot_smode c pc h d) = c_tlb_read c" "c_tlb_write (riscv_cpu_boot_smode c pc h d) = c_tlb_write c"
  "c_tlb_code (riscv_cpu_boot_smode c pc h d) = c_tlb_code c" "c_cur_xlen (riscv_cpu_boot_smode c pc h d) = c_cur_xlen c"
  "c_satp (riscv_cpu_boot_smode c pc h d) = 0"
  by (simp_all add: riscv_cpu_boot_smode_def)

lemma boot_flat:
  assumes "e_cpu s = riscv_cpu_boot_smode riscv_cpu_init pc h d" "e_map s = machine_map n blk net" "m_ram_size (e_m s) = n"
    "unat n mod 4096 = 0" "0x200000 \<le> unat n" "unat n \<le> 0x40000000"
  shows "flat s"
proof -
  have "ram_range_ok n (ram_range n)" using assms(4,6) by (simp add: ram_range_ok_def ram_range_def RV_RAM_BASE_def)
  then have "ram_map_ok (machine_map n blk net) n"
    by (simp add: ram_map_ok_def machine_map_def boot_devices_def blk_dev_def net_dev_def dev_range_def)
  moreover have "c_cur_xlen riscv_cpu_init = 32" by (simp add: riscv_cpu_init_def tlb_init_def)
  ultimately have "mem_ok s"
    using assms(1-3) fresh_tlb by (simp add: mem_ok_def tlb_ok_def tlb_entry_ok_def)
  moreover have "get_phys_mem_range (machine_map n blk net) RV_RAM_BASE = Some (ram_range n)"
    using assms(5,6) by (simp add: machine_map_def ram_range_def pr_covers_def RV_RAM_BASE_def word_less_nat_alt unat_word_ariths)
  moreover have "tlb_flat (c_tlb_read (e_cpu s))" "tlb_flat (c_tlb_write (e_cpu s))"
    using assms(1) fresh_tlb by (simp_all add: tlb_flat_def)
  ultimately show ?thesis
    using assms machine_map_disjoint [of n blk net]
    by (simp add: flat_def ram_mapped_def) (simp add: ram_range_def)
qed

lemma boot_init_ok:
  fixes img P y
  assumes krn: "bi_kernel img = Some krn" "bi_kernel_size img \<noteq> 0" and n: "0x200000 \<le> n"
    and fits: "boot_fits (boot_ram_size n) img krn" and cmd: "opt_len (bi_cmdline img) + 4096 \<le> 0x100000"
  defines "N \<equiv> boot_ram_size n"
  defines "p \<equiv> boot_params img (rvm_zero\<lparr>m_ram_size := N, m_has_rootfs := wants_blk img, m_has_net := po_net_mac P \<noteq> None\<rparr>)
     (boot_initrd N img) riscv_cpu_init"
  shows "\<exists>y' tot. rv_machine_init P (Some n) img y = (0, y') \<and>
    e_cpu (sy_emu y') = riscv_cpu_boot_smode riscv_cpu_init 0x80000000 0 (0x80000000 + N - 0x100000) \<and>
    e_map (sy_emu y') = machine_map N (wants_blk img) (po_net_mac P \<noteq> None) \<and>
    e_m (sy_emu y') = rvm_zero\<lparr>m_ram_size := N, m_timecmp := UINT64_MAX, m_has_rootfs := wants_blk img,
      m_has_net := po_net_mac P \<noteq> None, m_fdt_addr := 0x80000000 + N - 0x100000, m_fdt_size := of_nat tot\<rparr> \<and>
    rv_build_fdt (boot_loaded (e_ram (sy_emu y)) N img krn) (unat N - 0x100000) 0x100000 p = (tot, e_ram (sy_emu y')) \<and>
    0 < tot \<and> fdt_parse (e_ram (sy_emu y')) (unat N - 0x100000) = Some (map fdt_token (fdt_tree p)) \<and>
    (wants_blk img \<longrightarrow> vb_data (sy_blk y') = the (bi_rootfs img) \<and>
       vb_nb_sectors (sy_blk y') = ucast (bi_rootfs_size img) div 512)"
proof -
  note N = boot_ram_size_facts [OF n, folded N_def]
  have load: "boot_load (e_ram (sy_emu y)) N img krn = (Inr (boot_initrd N img), boot_loaded (e_ram (sy_emu y)) N img krn)"
    using boot_load_spec [OF N(2,3)] fits by (simp add: N_def)
  have mm: "boot_map N = Some (machine_map N False False)" using N by (intro boot_map_eq) auto
  define s0 where "s0 = (sy_emu y)\<lparr>e_m := rvm_zero\<lparr>m_ram_size := N, m_timecmp := UINT64_MAX\<rparr>,
      e_ram := boot_loaded (e_ram (sy_emu y)) N img krn, e_map := machine_map N False False\<rparr>"
  obtain y1 where y1: "boot_virtio P img (y\<lparr>sy_emu := s0\<rparr>) = (0, y1)"
    "sy_emu y1 = s0\<lparr>e_m := (e_m s0)\<lparr>m_has_rootfs := wants_blk img, m_has_net := po_net_mac P \<noteq> None\<rparr>,
      e_map := machine_map N (wants_blk img) (po_net_mac P \<noteq> None)\<rparr>"
    "wants_blk img \<longrightarrow> vb_data (sy_blk y1) = the (bi_rootfs img) \<and>
       vb_nb_sectors (sy_blk y1) = ucast (bi_rootfs_size img) div 512"
    using boot_virtio_ok [of "y\<lparr>sy_emu := s0\<rparr>" N P img] by (auto simp: s0_def rvm_zero_def)
  have p: "boot_params img (e_m (sy_emu y1)) (boot_initrd N img) riscv_cpu_init = p"
    by (simp add: p_def boot_params_def y1(2) s0_def)
  have "length (fp_isa p) + opt_len (fp_mmu_type p) + opt_len (fp_cmdline p) + 3072 \<le> 0x100000"
    using cmd by (simp add: p_def boot_params_def boot_isa opt_len_def)
  note fits = fdt_fits [OF this]
  let ?b = "boot_loaded (e_ram (sy_emu y)) N img krn"
  obtain tot buf where r: "rv_build_fdt ?b (unat N - 0x100000) 0x100000 p = (tot, buf)" by fastforce
  note f = fdt_build_ok [OF fits(1) _ fits(2), of ?b "unat N - 0x100000", simplified r fst_conv snd_conv]
  have base: "unat (N - 0x100000) = unat N - 0x100000" using N(2) by (simp add: unat_sub_if_size)
  have "rv_machine_init P (Some n) img y = boot_finish img (boot_initrd N img) y1"
    using krn n y1(1) by (simp add: rv_machine_init_def not_less [symmetric] Let_def load mm s0_def flip: N_def)
  then show ?thesis
    using f(1,4) r p base y1(3)
    by (simp add: boot_finish_def Let_def y1(2) s0_def RV_RAM_BASE_def upd_m_def upd_cpu_def)
qed

text \<open>The devicetree parameters of the machine that \<open>rv_machine_init()\<close> builds.\<close>

definition machine_params :: "plat \<Rightarrow> u32 \<Rightarrow> boot_image \<Rightarrow> fdt_params" where
  "machine_params P N img =
     boot_params img (rvm_zero\<lparr>m_ram_size := N, m_has_rootfs := wants_blk img, m_has_net := po_net_mac P \<noteq> None\<rparr>)
       (boot_initrd N img) riscv_cpu_init"

definition boot_demo :: boot_image where
  "boot_demo = \<lparr>bi_kernel = Some (\<lambda>_. 0x13), bi_kernel_size = 8, bi_initrd = Some (\<lambda>_. 1), bi_initrd_size = 4096,
     bi_rootfs = None, bi_rootfs_size = 0, bi_cmdline = Some ''console=hvc0''\<rparr>"

lemma boot_demo_ok:
  "bi_kernel boot_demo = Some (\<lambda>_. 0x13)" "bi_kernel_size boot_demo = 8" "boot_ram_size 0x200000 = 0x200000"
  "rv_kernel_footprint (\<lambda>_. 0x13) 8 = 8" "has_initrd boot_demo" "boot_top 0x200000 boot_demo = 0xff000"
  "boot_fits 0x200000 boot_demo (\<lambda>_. 0x13)" "opt_len (bi_cmdline boot_demo) = 12"
  by (simp_all add: boot_demo_def boot_ram_size_def DEVRAM_PAGE_SIZE_def rv_kernel_footprint_def has_initrd_def
      boot_top_def boot_fits_def opt_len_def)

section \<open>Properties\<close>

text \<open>
  C5. An image that fits boots: \<open>rv_machine_init()\<close> returns 0 and leaves the kernel's bytes at the
  start of guest RAM, the initrd's where the devicetree says they are, zeros from the end of the
  kernel's footprint up to them, a devicetree in the last megabyte that reads back as the tree of
  this machine, nothing past the end of RAM changed, and the hart in S-mode at the kernel's first
  instruction with the hart id and the devicetree's address in a0 and a1, every trap of the guest
  delegated, translation off and RAM mapped.
\<close>

theorem boot_layout:
  assumes "bi_kernel img = Some krn" "bi_kernel_size img \<noteq> 0" "0x200000 \<le> n"
    "boot_fits (boot_ram_size n) img krn" "opt_len (bi_cmdline img) + 4096 \<le> 0x100000"
  shows "\<exists>y'. rv_machine_init P (Some n) img y = (0, y') \<and>
    (let N = boot_ram_size n; used = unat (rv_kernel_footprint krn (bi_kernel_size img)); s = sy_emu y';
         ks = unat (bi_kernel_size img); is = unat (bi_initrd_size img); top = boot_top N img in
     mem_read (e_ram s) 0 ks = mem_read krn 0 ks \<and>
     mem_read (e_ram s) used (top - used) = replicate (top - used) 0 \<and>
     (has_initrd img \<longrightarrow> mem_read (e_ram s) top is = mem_read (the (bi_initrd img)) 0 is \<and>
        unat (fp_initrd_start (machine_params P N img)) = 0x80000000 + top \<and>
        unat (fp_initrd_end (machine_params P N img)) = 0x80000000 + top + is) \<and>
     fdt_parse (e_ram s) (unat N - 0x100000) = Some (map fdt_token (fdt_tree (machine_params P N img))) \<and>
     (\<forall>a \<ge> unat N. e_ram s a = e_ram (sy_emu y) a) \<and>
     c_priv (e_cpu s) = PRV_S \<and> c_pc (e_cpu s) = 0x80000000 \<and> c_reg (e_cpu s) 10 = 0 \<and>
     unat (c_reg (e_cpu s) 11) = 0x80000000 + unat N - 0x100000 \<and>
     guest_inv (e_cpu s) \<and> flat s)"
proof -
  let ?N = "boot_ram_size n" and ?l = "boot_loaded (e_ram (sy_emu y)) (boot_ram_size n) img krn"
  note N = boot_ram_size_facts [OF assms(3)]
  obtain y' tot where y': "rv_machine_init P (Some n) img y = (0, y')"
    "e_cpu (sy_emu y') = riscv_cpu_boot_smode riscv_cpu_init 0x80000000 0 (0x80000000 + ?N - 0x100000)"
    "e_map (sy_emu y') = machine_map ?N (wants_blk img) (po_net_mac P \<noteq> None)"
    "m_ram_size (e_m (sy_emu y')) = ?N"
    "rv_build_fdt ?l (unat ?N - 0x100000) 0x100000 (machine_params P ?N img) = (tot, e_ram (sy_emu y'))"
    "fdt_parse (e_ram (sy_emu y')) (unat ?N - 0x100000) = Some (map fdt_token (fdt_tree (machine_params P ?N img)))"
    using boot_init_ok [OF assms, of P y] unfolding machine_params_def by fastforce
  note top = boot_top_room [OF assms(4)] and l = boot_loaded_facts [OF assms(4), where ram = "e_ram (sy_emu y)"]
  have keep: "e_ram (sy_emu y') a = ?l a" if "a < unat ?N - 0x100000 \<or> unat ?N \<le> a" for a
    using fdt_build_confined [of ?l "unat ?N - 0x100000" "0x100000" "machine_params P ?N img"] that y'(5) N(2) by auto
  then have low: "mem_read (e_ram (sy_emu y')) a k = mem_read ?l a k" if "a + k \<le> unat ?N - 0x100000" for a k
    using that by (intro mem_read_cong) auto
  have used: "unat (bi_kernel_size img) \<le> unat (rv_kernel_footprint krn (bi_kernel_size img))"
    "unat (rv_kernel_footprint krn (bi_kernel_size img)) \<le> boot_top ?N img"
    using footprint_ge assms(4) by (auto simp: boot_fits_def)
  have "flat (sy_emu y')" using boot_flat [OF y'(2-4)] N by simp
  moreover have "unat (fp_initrd_start (machine_params P ?N img)) = 0x80000000 + boot_top ?N img \<and>
        unat (fp_initrd_end (machine_params P ?N img)) = 0x80000000 + boot_top ?N img + unat (bi_initrd_size img)"
    if "has_initrd img"
    using top(1) [OF that] N(3) that
    by (simp add: machine_params_def boot_params_def boot_initrd_def unat_word_ariths unat_of_nat)
  moreover have "e_ram (sy_emu y') a = e_ram (sy_emu y) a" if "unat ?N \<le> a" for a
    using keep [of a] l(5) [of a] that by simp
  moreover have "unat (0x80000000 + ?N - 0x100000) = 0x80000000 + unat ?N - 0x100000"
    using N(2,3) by (simp add: unat_word_ariths unat_sub_if_size)
  ultimately show ?thesis
    using y' l low used top N(2) guest_inv_start
    by (auto simp: Let_def riscv_cpu_boot_smode_def)
qed

theorem boot_layout_witness:
  "\<exists>y'. rv_machine_init quiet_plat (Some 0x200000) boot_demo ram_demo = (0, y') \<and>
     mem_read (e_ram (sy_emu y')) 0xff000 4096 = mem_read (\<lambda>_. 1) 0 4096 \<and>
     c_reg (e_cpu (sy_emu y')) 10 = 0 \<and> unat (c_reg (e_cpu (sy_emu y')) 11) = 0x80100000 \<and> flat (sy_emu y')"
  using boot_layout [of boot_demo "\<lambda>_. 0x13" "0x200000" quiet_plat ram_demo]
  by (auto simp: boot_demo_ok Let_def) (auto simp: boot_demo_def)


text \<open>
  A request that cannot boot is refused with the documented error and without a machine: no
  kernel is -EINVAL, no RAM or less than 2 MiB of it is -ENOMEM, and an image whose kernel
  footprint, initrd and devicetree do not fit is -ENOMEM. In the last case the kernel has already
  been copied.
\<close>

lemma boot_rejects:
  "(bi_kernel img = None \<or> bi_kernel_size img = 0 \<longrightarrow> rv_machine_init P guest_ram img y = (- EINVAL, y)) \<and>
   (bi_kernel img = Some krn \<and> bi_kernel_size img \<noteq> 0 \<longrightarrow>
      rv_machine_init P None img y = (- ENOMEM, y) \<and>
      (n < 0x200000 \<longrightarrow> rv_machine_init P (Some n) img y = (- ENOMEM, y)) \<and>
      (0x200000 \<le> n \<and> \<not> boot_fits (boot_ram_size n) img krn \<longrightarrow>
         (\<exists>y'. rv_machine_init P (Some n) img y = (- ENOMEM, y') \<and> e_cpu (sy_emu y') = e_cpu (sy_emu y) \<and>
            e_ram (sy_emu y') = mem_write (e_ram (sy_emu y)) 0 (mem_read krn 0 (unat (bi_kernel_size img))))))"
proof -
  have "\<exists>y'. rv_machine_init P (Some n) img y = (- ENOMEM, y') \<and> e_cpu (sy_emu y') = e_cpu (sy_emu y) \<and>
      e_ram (sy_emu y') = mem_write (e_ram (sy_emu y)) 0 (mem_read krn 0 (unat (bi_kernel_size img)))"
    if "bi_kernel img = Some krn" "bi_kernel_size img \<noteq> 0" "0x200000 \<le> n" "\<not> boot_fits (boot_ram_size n) img krn"
    using that boot_load_spec [OF boot_ram_size_facts(2,3) [OF that(3)], of "e_ram (sy_emu y)" img krn]
    by (simp add: rv_machine_init_def Let_def not_less [symmetric])
  then show ?thesis by (auto simp: rv_machine_init_def split: option.splits)
qed

text \<open>
  The kernel is copied into guest RAM before its size is compared with the RAM there is: an image
  larger than the block overwrites the memory after it, and only then is -ENOMEM returned.
\<close>

lemma boot_oversized_kernel:
  assumes "bi_kernel img = Some krn" "0x200000 \<le> n" "boot_ram_size n < bi_kernel_size img"
    "unat (boot_ram_size n) \<le> a" "a < unat (bi_kernel_size img)"
  shows "\<exists>y'. rv_machine_init P (Some n) img y = (- ENOMEM, y') \<and> e_ram (sy_emu y') a = krn a"
proof -
  note N = boot_ram_size_facts [OF assms(2)]
  have "unat (boot_ram_size n) < unat (rv_kernel_footprint krn (bi_kernel_size img))"
    using assms(3) footprint_ge [of "bi_kernel_size img" krn] by (simp add: word_less_nat_alt)
  then have "\<not> boot_fits (boot_ram_size n) img krn" using boot_top_room(2) by (fastforce simp: boot_fits_def)
  moreover have "bi_kernel_size img \<noteq> 0" using assms(5) by auto
  ultimately show ?thesis
    using assms boot_load_spec [OF N(2,3), of "e_ram (sy_emu y)" img krn]
    by (simp add: rv_machine_init_def Let_def not_less [symmetric] mem_write_inside nth_mem_read)
qed

text \<open>
  The memory of the kernel's image past the end of its file, its .bss, keeps what the previous
  boot left there: the zeroing starts at the end of the footprint, which includes it.
\<close>

lemma boot_bss_kept:
  assumes "bi_kernel img = Some krn" "bi_kernel_size img \<noteq> 0" "0x200000 \<le> n"
    "boot_fits (boot_ram_size n) img krn" "opt_len (bi_cmdline img) + 4096 \<le> 0x100000"
    "unat (bi_kernel_size img) \<le> a" "a < unat (rv_kernel_footprint krn (bi_kernel_size img))"
  shows "\<exists>y'. rv_machine_init P (Some n) img y = (0, y') \<and> e_ram (sy_emu y') a = e_ram (sy_emu y) a"
proof -
  let ?N = "boot_ram_size n" and ?ks = "unat (bi_kernel_size img)"
  let ?l = "boot_loaded (e_ram (sy_emu y)) ?N img krn" and ?u = "unat (rv_kernel_footprint krn (bi_kernel_size img))"
  obtain y' tot where y': "rv_machine_init P (Some n) img y = (0, y')"
    "rv_build_fdt ?l (unat ?N - 0x100000) 0x100000 (machine_params P ?N img) = (tot, e_ram (sy_emu y'))"
    using boot_init_ok [OF assms(1-5), of P y] unfolding machine_params_def by fastforce
  have "a < unat ?N - 0x100000"
    using assms(7) boot_top_room(2) [OF assms(4)] assms(4) by (simp add: boot_fits_def)
  then have "e_ram (sy_emu y') a = ?l a"
    using fdt_build_confined [of ?l "unat ?N - 0x100000" "0x100000" "machine_params P ?N img"] y'(2) by auto
  also have "\<dots> = e_ram (sy_emu y) a"
    using boot_loaded_facts(2) [OF assms(4), where ram = "e_ram (sy_emu y)"] assms(6,7)
      nth_mem_read [of "a - ?ks" "?u - ?ks" ?l ?ks] nth_mem_read [of "a - ?ks" "?u - ?ks" "e_ram (sy_emu y)" ?ks]
    by simp
  finally show ?thesis using y'(1) by blast
qed

definition bss_demo :: block where
  "bss_demo = mem_write (mem_write (\<lambda>_. 0) 16 [100]) 56 [0x52, 0x53, 0x43, 0x05]"

text \<open>
  The devicetree and the address map describe the same machine: the address windows of the
  devicetree's nodes (memory, clint, plic, serial, syscon, and the two virtio devices where they
  exist) are exactly the ranges registered with the bus, but for the paravirtual I/O page, which
  has no node; no two ranges overlap.
\<close>

lemma fdt_matches_map:
  assumes "bi_kernel img = Some krn" "bi_kernel_size img \<noteq> 0" "0x200000 \<le> n"
    "boot_fits (boot_ram_size n) img krn" "opt_len (bi_cmdline img) + 4096 \<le> 0x100000"
  shows "\<exists>y'. rv_machine_init P (Some n) img y = (0, y') \<and> map_disjoint (e_map (sy_emu y')) \<and>
    {(a, z). PropReg64 a z \<in> set (fdt_tree (machine_params P (boot_ram_size n) img))} =
    (\<lambda>r. (ucast (pr_addr r), ucast (pr_size r))) ` {r \<in> set (e_map (sy_emu y')). pr_dev r \<noteq> DevPv}"
proof -
  let ?N = "boot_ram_size n" and ?net = "po_net_mac P \<noteq> None"
  obtain y' where y': "rv_machine_init P (Some n) img y = (0, y')" "e_map (sy_emu y') = machine_map ?N (wants_blk img) ?net"
    using boot_init_ok [OF assms, of P y] by blast
  have "{(a, z). PropReg64 a z \<in> set (fdt_tree (machine_params P ?N img))} =
      (\<lambda>r. (ucast (pr_addr r), ucast (pr_size r))) ` {r \<in> set (machine_map ?N (wants_blk img) ?net). pr_dev r \<noteq> DevPv}"
    by (cases "wants_blk img"; cases ?net)
       (simp add: set_eq_iff machine_params_def boot_params_def fdt_tree_def fdt_cpus_def fdt_memory_def fdt_soc_def fdt_virtio_def
        fdt_syscon_user_def fdt_chosen_def machine_map_def boot_devices_def ram_range_def dev_range_def blk_dev_def net_dev_def
        map_defs image_def ex_disj_distrib conj_disj_distribR; blast)+
  then show ?thesis
    using y' machine_map_disjoint [OF boot_ram_size_facts(3) [OF assms(3)]] by auto
qed

end
