(* ===== verification/Run.thy ===== *)
theory Run
  imports Sandbox Boot
begin

text \<open>
  The run loop (\<open>emu/rv_machine.c\<close>, \<open>rv_machine_run_bounded()\<close> and \<open>rv_machine_run()\<close>): the timer, the
  console, the network device and a slice of the interpreter in turn, until the guest stops the
  machine or a limit is reached. A guest may run forever, so the loop is a partial function; its
  invariant is also stated of every turn it takes.
\<close>

section \<open>The loop\<close>

text \<open>\<open>timer_update()\<close>, \<open>uart_poll_input()\<close>, \<open>rv_virtio_net_poll()\<close>.\<close>

definition machine_poll :: "plat \<Rightarrow> sys \<Rightarrow> sys option" where
  "machine_poll P y =
     (case uart_poll_input P (timer_update P (sy_emu y)) of
        None \<Rightarrow> None
      | Some s \<Rightarrow> let (v, s1) = rv_virtio_net_poll P (sy_net y, s) in Some (y\<lparr>sy_net := v, sy_emu := s1\<rparr>))"

text \<open>
  One turn: \<open>Some r\<close> when the loop returns \<open>r\<close>, \<open>None\<close> when it goes round again. The whole is
  \<open>None\<close> if the console drain or the interpreter does not come back.
\<close>

definition run_turn :: "xenv \<Rightarrow> u64 \<Rightarrow> u64 \<Rightarrow> sys \<Rightarrow> (int option \<times> sys) option" where
  "run_turn E insn_limit deadline y =
     (if m_stop (e_m (sy_emu y)) \<noteq> 0 then Some (Some (if m_stop (e_m (sy_emu y)) = 2 then 1 else 0), y)
      else case machine_poll (x_plat E) y of
        None \<Rightarrow> None
      | Some y1 \<Rightarrow>
          (case riscv_cpu_interp E y1 (int RV_SLICE_INSNS) of
             None \<Rightarrow> None
           | Some y2 \<Rightarrow>
               if insn_limit \<noteq> 0 \<and> insn_limit \<le> c_insn_counter (e_cpu (sy_emu y2)) then Some (Some 2, y2)
               else if deadline \<noteq> 0 then
                 let (t, s) = rv_mtime (x_plat E) (sy_emu y2); y3 = y2\<lparr>sy_emu := s\<rparr>
                 in if deadline \<le> t then Some (Some 2, y3) else Some (None, y3)
               else Some (None, y2)))"

partial_function (option) run_loop :: "xenv \<Rightarrow> u64 \<Rightarrow> u64 \<Rightarrow> sys \<Rightarrow> (int \<times> sys) option" where
  "run_loop E insn_limit deadline y =
     Option.bind (run_turn E insn_limit deadline y)
       (\<lambda>r. if fst r \<noteq> None then Some (the (fst r), snd r) else run_loop E insn_limit deadline (snd r))"

definition rv_machine_run_bounded :: "xenv \<Rightarrow> u64 \<Rightarrow> u64 \<Rightarrow> sys \<Rightarrow> (int \<times> sys) option" where
  "rv_machine_run_bounded E insn_limit us_limit y =
     (if us_limit \<noteq> 0 then
        let (t, s) = rv_mtime (x_plat E) (sy_emu y) in run_loop E insn_limit (t + us_limit) (y\<lparr>sy_emu := s\<rparr>)
      else run_loop E insn_limit 0 y)"

definition rv_machine_run :: "xenv \<Rightarrow> sys \<Rightarrow> (int \<times> sys) option" where
  "rv_machine_run E y = rv_machine_run_bounded E 0 0 y"

section \<open>Every turn keeps the invariant\<close>

inductive machine_reach :: "xenv \<Rightarrow> u64 \<Rightarrow> u64 \<Rightarrow> sys \<Rightarrow> sys \<Rightarrow> bool" for E insn_limit deadline where
  mr_start: "machine_reach E insn_limit deadline y y"
| mr_turn: "machine_reach E insn_limit deadline y y1 \<Longrightarrow> run_turn E insn_limit deadline y1 = Some (r, y2) \<Longrightarrow>
    machine_reach E insn_limit deadline y y2"

lemma runs_view: "host_view (sy_emu y') = host_view (sy_emu y) \<Longrightarrow> runs y y'"
  using keeps_view by (auto intro: runs_keeps)

lemma host_view_uart_poll: "uart_poll_loop P n s = Some s' \<Longrightarrow> host_view s' = host_view s"
proof (induction n arbitrary: s)
  case (Suc n)
  obtain c s1 where g: "plat_getc P s = (c, s1)" by fastforce
  have "host_view s1 = host_view s" using host_view_plat(3) [of P s] g by simp
  with Suc g show ?case by (fastforce split: if_splits)
qed simp

lemma runs_poll: "machine_poll P y = Some y' \<Longrightarrow> runs y y'"
proof (rule runs_view)
  assume m: "machine_poll P y = Some y'"
  then obtain s where s: "uart_poll_input P (timer_update P (sy_emu y)) = Some s"
    by (auto simp: machine_poll_def split: option.splits)
  then have "host_view s = host_view (sy_emu y)"
    using host_view_uart_poll [of P 64 "timer_update P (sy_emu y)" s] by (simp add: uart_poll_input_def)
  moreover have "host_view (snd (rv_virtio_net_poll P (sy_net y, s))) = host_view s"
    by (rule host_view_dma [OF dma_net_poll])
  moreover have "sy_emu y' = snd (rv_virtio_net_poll P (sy_net y, s))"
    using m s by (auto simp: machine_poll_def Let_def split: prod.splits)
  ultimately show "host_view (sy_emu y') = host_view (sy_emu y)" by simp
qed

lemma runs_mtime: "runs y (y\<lparr>sy_emu := snd (rv_mtime P (sy_emu y))\<rparr>)"
  using runs_access(3) [of y P] by (simp add: riscv_host_rdtime_def)

lemma runs_interp: "run_inv (sy_emu y) \<Longrightarrow> riscv_cpu_interp E y n = Some y' \<Longrightarrow> runs y y'"
  using sandbox.cpu_loop_R by (simp add: riscv_cpu_interp_def)

lemma runs_turn:
  assumes "run_inv (sy_emu y)" "run_turn E il dl y = Some (r, y')"
  shows "runs y y'"
proof (cases "m_stop (e_m (sy_emu y)) = 0")
  case False
  then show ?thesis using assms(2) by (simp add: run_turn_def runs_refl split: if_splits)
next
  case True
  with assms(2) obtain y1 y2 where
    1: "machine_poll (x_plat E) y = Some y1" "riscv_cpu_interp E y1 (int RV_SLICE_INSNS) = Some y2" and
    2: "y' = y2 \<or> y' = y2\<lparr>sy_emu := snd (rv_mtime (x_plat E) (sy_emu y2))\<rparr>"
    by (auto simp: run_turn_def Let_def split: option.splits if_splits prod.splits)
  have "runs y y1" using 1(1) by (rule runs_poll)
  moreover have "runs y1 y2" using runs_interp [OF _ 1(2)] \<open>runs y y1\<close> assms(1) by (simp add: runs_def)
  moreover have "runs y2 y'" using 2 runs_mtime runs_refl by auto
  ultimately show ?thesis using runs_trans by blast
qed

lemma runs_reach: "machine_reach E il dl y y' \<Longrightarrow> run_inv (sy_emu y) \<Longrightarrow> runs y y'"
proof (induction rule: machine_reach.induct)
  case (mr_turn y y1 r y2)
  then have "run_inv (sy_emu y1)" by (simp add: runs_def)
  with mr_turn show ?case using runs_turn runs_trans by blast
qed (rule runs_refl)

lemma mr_first: "machine_reach E il dl y1 y2 \<Longrightarrow> run_turn E il dl y = Some (r, y1) \<Longrightarrow> machine_reach E il dl y y2"
  by (induction rule: machine_reach.induct) (auto intro: machine_reach.intros)

lemma turn_result: "run_turn E il dl y = Some (Some r, y') \<Longrightarrow> r \<in> {0, 1, 2} \<and> (r \<noteq> 2 \<longrightarrow> m_stop (e_m (sy_emu y')) \<noteq> 0)"
  by (auto simp: run_turn_def Let_def split: if_splits option.splits prod.splits)

lemma run_loop_reach:
  assumes "run_loop E il dl y = Some (r, y')"
  shows "machine_reach E il dl y y' \<and> r \<in> {0, 1, 2} \<and> (r \<noteq> 2 \<longrightarrow> m_stop (e_m (sy_emu y')) \<noteq> 0)"
proof -
  have "machine_reach E il dl y (snd z) \<and> fst z \<in> {0, 1, 2} \<and> (fst z \<noteq> 2 \<longrightarrow> m_stop (e_m (sy_emu (snd z))) \<noteq> 0)"
    if "run_loop E il dl y = Some z" for z
  proof (rule run_loop.raw_induct [where P = "\<lambda>E il dl y z. machine_reach E il dl y (snd z) \<and> fst z \<in> {0, 1, 2} \<and>
      (fst z \<noteq> 2 \<longrightarrow> m_stop (e_m (sy_emu (snd z))) \<noteq> 0)", OF _ that], goal_cases)
    case 1: (1 f E il dl y z)
    from 1(2) obtain o1 y1 where t: "run_turn E il dl y = Some (o1, y1)" by (cases "run_turn E il dl y") auto
    show ?case
    proof (cases o1)
      case None
      then have "f E il dl y1 = Some z" using 1(2) t by simp
      with 1(1) mr_first [OF _ t] show ?thesis by blast
    next
      case (Some v)
      then have "z = (v, y1)" using 1(2) t by simp
      then show ?thesis using turn_result t Some mr_turn [OF mr_start t] by simp
    qed
  qed
  from this [OF assms] show ?thesis by simp
qed

section \<open>From power-on\<close>

lemma fresh_run_inv:
  assumes "e_cpu s = riscv_cpu_boot_smode riscv_cpu_init 0x80000000 0 d" "e_map s = machine_map n blk net" "m_ram_size (e_m s) = n"
    "unat n mod 4096 = 0" "0x200000 \<le> unat n" "unat n \<le> 0x40000000"
  shows "run_inv s"
proof -
  have "mem_ok s" using boot_flat [OF assms] by (simp add: flat_def)
  moreover have "fetch_ok (e_cpu s)"
    using assms(1) by (simp add: fetch_ok_def riscv_cpu_boot_smode_def riscv_cpu_init_def tlb_init_def cpu_zero_def)
  ultimately show ?thesis using guest_inv_start assms(1) by (simp add: run_inv_def cpu_inv_def mem_ok_def)
qed

lemma boot_success:
  assumes "rv_machine_init P g img y0 = (0, y)"
  obtains n where "g = Some n" "0x200000 \<le> n" "run_inv (sy_emu y)" "m_ram_size (e_m (sy_emu y)) = boot_ram_size n"
    "\<And>a. unat (boot_ram_size n) \<le> a \<Longrightarrow> e_ram (sy_emu y) a = e_ram (sy_emu y0) a" "uart_ring_ok (sy_emu y)"
proof -
  have nz: "- EINVAL \<noteq> 0" "- ENOMEM \<noteq> 0" by (simp_all add: EINVAL_def ENOMEM_def)
  from assms nz obtain krn n where k: "bi_kernel img = Some krn" "bi_kernel_size img \<noteq> 0" "g = Some n" "0x200000 \<le> n"
    by (auto simp: rv_machine_init_def not_less split: option.splits if_splits)
  let ?N = "boot_ram_size n" and ?l = "boot_loaded (e_ram (sy_emu y0)) (boot_ram_size n) img krn"
  note N = boot_ram_size_facts [OF k(4)]
  have fits: "boot_fits ?N img krn"
    using assms k nz boot_load_spec [OF N(2,3), of "e_ram (sy_emu y0)" img krn]
    by (auto simp: rv_machine_init_def Let_def not_less [symmetric] split: if_splits)
  have load: "boot_load (e_ram (sy_emu y0)) ?N img krn = (Inr (boot_initrd ?N img), ?l)"
    using boot_load_spec [OF N(2,3)] fits by simp
  have mm: "boot_map ?N = Some (machine_map ?N False False)" using N by (intro boot_map_eq) auto
  define s0 where "s0 = (sy_emu y0)\<lparr>e_m := rvm_zero\<lparr>m_ram_size := ?N, m_timecmp := UINT64_MAX\<rparr>, e_ram := ?l,
      e_map := machine_map ?N False False\<rparr>"
  obtain y1 where y1: "boot_virtio P img (y0\<lparr>sy_emu := s0\<rparr>) = (0, y1)"
    "sy_emu y1 = s0\<lparr>e_m := (e_m s0)\<lparr>m_has_rootfs := wants_blk img, m_has_net := po_net_mac P \<noteq> None\<rparr>,
      e_map := machine_map ?N (wants_blk img) (po_net_mac P \<noteq> None)\<rparr>"
    using boot_virtio_ok [of "y0\<lparr>sy_emu := s0\<rparr>" ?N P img] by (auto simp: s0_def rvm_zero_def)
  have f: "boot_finish img (boot_initrd ?N img) y1 = (0, y)"
    using assms k y1(1) by (simp add: rv_machine_init_def not_less [symmetric] Let_def load mm s0_def)
  have base: "unat (?N - 0x100000) = unat ?N - 0x100000" using N(2) by (simp add: unat_sub_if_size)
  obtain sz ram p where b: "rv_build_fdt ?l (unat ?N - 0x100000) 0x100000 p = (sz, ram)"
    "e_cpu (sy_emu y) = riscv_cpu_boot_smode riscv_cpu_init 0x80000000 0 (0x80000000 + ?N - 0x100000)"
    "e_map (sy_emu y) = machine_map ?N (wants_blk img) (po_net_mac P \<noteq> None)" "m_ram_size (e_m (sy_emu y)) = ?N" "e_ram (sy_emu y) = ram"
    "uart_ring_ok (sy_emu y)"
    using f nz base by (auto simp: boot_finish_def Let_def y1(2) s0_def RV_RAM_BASE_def rvm_zero_def uart_ring_ok_def RV_RX_RING_def
        split: prod.splits if_splits)
  have "e_ram (sy_emu y) a = e_ram (sy_emu y0) a" if "unat ?N \<le> a" for a
    using that fdt_build_confined [of ?l "unat ?N - 0x100000" "0x100000" p] b(1,5) N(2)
      boot_loaded_facts(5) [OF fits, of a "e_ram (sy_emu y0)"] by auto
  with that [OF k(3,4) fresh_run_inv [OF b(2-4)] b(4) _ b(6)] N show thesis by blast
qed

end
