(* ===== verification/Progress.thy ===== *)
theory Progress
  imports Run
begin

text \<open>
  The run loop makes progress: a turn always comes back, the history of platform events only
  grows, and a run with a time limit ends once the platform's clock has reached it.
\<close>

section \<open>The history grows and the console ring stays in order\<close>

definition grows :: "emu \<Rightarrow> emu \<Rightarrow> bool" where
  "grows s s' \<longleftrightarrow> (uart_ring_ok s \<longrightarrow> uart_ring_ok s') \<and> (\<exists>h. e_ev s' = h @ e_ev s)"

lemma grows_same:
  "m_rx_head (e_m s') = m_rx_head (e_m s) \<Longrightarrow> m_rx_tail (e_m s') = m_rx_tail (e_m s) \<Longrightarrow> e_ev s' = h @ e_ev s \<Longrightarrow> grows s s'"
  by (auto simp: grows_def uart_ring_ok_def)

lemma grows_refl [simp]: "grows s s"
  by (rule grows_same [where h = "[]"]) simp_all

lemma grows_trans: "grows s s' \<Longrightarrow> grows s' s'' \<Longrightarrow> grows s s''"
  by (auto simp: grows_def)

lemma grows_upd [simp]:
  "grows s t \<Longrightarrow> grows s (upd_cpu f t)" "grows s t \<Longrightarrow> grows s (t\<lparr>e_ram := r\<rparr>)"
  "grows s t \<Longrightarrow> m_rx_head (g (e_m t)) = m_rx_head (e_m t) \<Longrightarrow> m_rx_tail (g (e_m t)) = m_rx_tail (e_m t) \<Longrightarrow>
   grows s (upd_m g t)" "grows s t \<Longrightarrow> grows s (add_ev e t)"
  by (auto intro: grows_trans [OF _ grows_same [where h = "[]"]] grows_trans [OF _ grows_same [where h = "[e]"]]
      simp: add_ev_def)

lemma grows_plat [simp]:
  "grows s t \<Longrightarrow> grows s (plat_putc t c)" "grows s t \<Longrightarrow> grows s (snd (plat_now_us P t))" "grows s t \<Longrightarrow> grows s (snd (plat_getc P t))"
proof -
  have "grows t (plat_putc t c)" "grows t (snd (plat_now_us P t))" "grows t (snd (plat_getc P t))" for t
    by (simp_all add: grows_def uart_ring_ok_def) (simp_all add: plat_putc_def plat_now_us_def plat_getc_def Let_def)
  then show "grows s t \<Longrightarrow> grows s (plat_putc t c)" "grows s t \<Longrightarrow> grows s (snd (plat_now_us P t))"
    "grows s t \<Longrightarrow> grows s (snd (plat_getc P t))"
    using grows_trans by blast+
qed

lemma grows_irq [simp]:
  "grows s t \<Longrightarrow> grows s (plic_update t)" "grows s t \<Longrightarrow> grows s (plic_set_irq t i l)" "grows s t \<Longrightarrow> grows s (uart_update_irq t)"
  by (simp_all add: plic_update_def plic_set_irq_def uart_update_irq_def Let_def)

lemma grows_dma: "dma_confined s s' \<Longrightarrow> grows s s'"
  by (auto simp: dma_confined_def intro: grows_same)

lemma grows_uart [simp]:
  "grows s (uart_push_rx s c)" "grows s (snd (uart_read s off sz))" "grows s (uart_write s off v sz)"
proof -
  have "uart_ring_ok s \<Longrightarrow> uart_ring_ok (uart_push_rx s c)" using uart_push_ring by blast
  moreover have "\<exists>h. e_ev (uart_push_rx s c) = h @ e_ev s"
    by (simp add: uart_push_rx_def Let_def uart_update_irq_def plic_set_irq_def plic_update_def)
  ultimately show "grows s (uart_push_rx s c)" by (simp add: grows_def)
  have "uart_ring_ok s \<Longrightarrow> uart_ring_ok (uart_update_irq (upd_m (\<lambda>m. m\<lparr>m_rx_tail := ring_next (m_rx_tail m)\<rparr>) s))"
    by (simp add: uart_ring_ok_def unat_ring_next RV_RX_RING_def)
  then have "grows s (uart_update_irq (upd_m (\<lambda>m. m\<lparr>m_rx_tail := ring_next (m_rx_tail m)\<rparr>) s))"
    by (simp add: grows_def uart_update_irq_def plic_set_irq_def plic_update_def Let_def)
  then show "grows s (snd (uart_read s off sz))" by (simp add: uart_read_def Let_def)
  show "grows s (uart_write s off v sz)" by (simp add: uart_write_def Let_def)
qed

lemma grows_timer [simp]:
  "grows s t \<Longrightarrow> grows s (rv_set_timer t x)" "grows s t \<Longrightarrow> grows s (rv_set_ipi t l)" "grows s t \<Longrightarrow> grows s (timer_update P t)"
  "grows s t \<Longrightarrow> grows s (snd (clint_read P t off sz))" "grows s t \<Longrightarrow> grows s (clint_write t off v sz)"
  "grows s t \<Longrightarrow> grows s (snd (rv_mtime P t))"
  by (simp_all add: rv_set_timer_def rv_set_ipi_def timer_update_def clint_read_def clint_write_def rv_mtime_def
      case_prod_beta Let_def)

lemma grows_regs [simp]:
  "grows s (snd (plic_read s off sz))" "grows s (plic_write s off v sz)" "grows s (snd (syscon_read s off sz))"
  "grows s (syscon_write s off v sz)"
  by (simp_all add: plic_read_def plic_write_def syscon_read_def syscon_write_def rv_request_poweroff_def
      rv_request_reboot_def Let_def)

lemma grows_pv [simp]: "grows s (snd (pv_read P s off sz))" "grows s (pv_write P s off v sz)"
proof -
  have st: "grows s t \<Longrightarrow> grows s (pv_status r t)" "grows s t \<Longrightarrow> grows s (pv_reply n res t)" for r t n res
    by (simp_all add: pv_status_def pv_reply_def Let_def)
  have "grows s (pv_exec P s c)" for c
    by (simp add: pv_exec_def pv_command_defs Let_def st)
  then show "grows s (pv_write P s off v sz)" by (simp add: pv_write_def)
  show "grows s (snd (pv_read P s off sz))" by (simp add: pv_read_def Let_def case_prod_beta)
qed

lemma grows_dev:
  "grows (sy_emu y) (sy_emu (snd (dev_read P y d off sz)))" "grows (sy_emu y) (sy_emu (dev_write P y d off v sz))"
  using grows_dma [OF dma_virtio_write [of "sy_emu y" "sy_blk y" off v sz]]
    grows_dma [OF dma_vnet_write [of "sy_emu y" "sy_net y" off v sz]]
  by (cases d; simp add: dev_read_def dev_write_def Let_def case_prod_beta)+

lemma grows_device:
  "grows (sy_emu y) (sy_emu (snd (read_device P y pr off sz)))" "grows (sy_emu y) (sy_emu (write_device P y pr off v sz))"
  using grows_dev grows_trans [OF grows_dev(1) grows_dev(1)] grows_trans [OF grows_dev(2) grows_dev(2)]
  by (simp_all add: read_device_def write_device_def case_prod_beta Let_def)

lemma grows_at [simp]: "grows s (s'\<lparr>e_ram := r\<rparr>) = grows s s'" "grows s (upd_cpu f s') = grows s s'"
  by (simp_all add: grows_def uart_ring_ok_def)

lemma grows_phys_addr: "grows s (snd (get_phys_addr s v acc))"
  by (rule grows_same [where h = "[]"]) simp_all

lemma grows_pending [simp]: "grows s (set_pending c a s') = grows s s'"
  by (simp add: set_pending_def)

lemma grows_read_aligned: "grows (sy_emu y) (sy_emu (snd (read_aligned P y a sz)))"
proof -
  obtain r s where g: "get_phys_addr (sy_emu y) a ACCESS_READ = (r, s)" by fastforce
  have s: "grows (sy_emu y) s" using grows_phys_addr [of "sy_emu y" a ACCESS_READ] g by simp
  have dev: "grows (sy_emu y) (sy_emu (snd (read_device P (y\<lparr>sy_emu := s\<rparr>) pr off sz)))" for pr off
    using grows_trans [OF s] grows_device(1) [of "y\<lparr>sy_emu := s\<rparr>"] by simp
  show ?thesis
    unfolding read_aligned_def g using s dev by (auto simp: Let_def split: option.split)
qed

lemma grows_write_aligned: "grows (sy_emu y) (sy_emu (snd (write_aligned P y a v sz)))"
proof -
  obtain r s where g: "get_phys_addr (sy_emu y) a ACCESS_WRITE = (r, s)" by fastforce
  have s: "grows (sy_emu y) s" using grows_phys_addr [of "sy_emu y" a ACCESS_WRITE] g by simp
  have dev: "grows (sy_emu y) (sy_emu (write_device P (y\<lparr>sy_emu := s\<rparr>) pr off v sz))" for pr off
    using grows_trans [OF s] grows_device(2) [of "y\<lparr>sy_emu := s\<rparr>"] by simp
  show ?thesis
    unfolding write_aligned_def g using s dev by (auto simp: Let_def split: option.split)
qed

lemma grows_pieces:
  "grows (sy_emu y) (sy_emu (snd (read_piece P y a sz)))" "grows (sy_emu y) (sy_emu (snd (write_piece P y a v sz)))"
  using grows_read_aligned grows_write_aligned by (simp_all add: read_piece_def write_piece_def Let_def)

lemma grows_read_two: "grows (sy_emu y) (sy_emu (snd (read_two P y a b sz f)))"
proof -
  obtain r0 y1 r1 y2 where r: "read_piece P y a sz = (r0, y1)" "read_piece P y1 b sz = (r1, y2)" by (metis prod.exhaust)
  have "grows (sy_emu y) (sy_emu y1)" "grows (sy_emu y1) (sy_emu y2)"
    using grows_pieces(1) [of y P a sz] grows_pieces(1) [of y1 P b sz] r by simp_all
  with grows_trans show ?thesis by (cases r0; cases r1) (auto simp: read_two_def r)
qed

lemma grows_write_bytes: "grows (sy_emu y) (sy_emu (snd (write_bytes P y a bs)))"
proof (induction bs arbitrary: y a)
  case (Cons b bs)
  obtain r y1 where r: "write_piece P y a (ucast b) 0 = (r, y1)" by fastforce
  have 1: "grows (sy_emu y) (sy_emu y1)" using grows_pieces(2) [of y P a "ucast b" 0] r by simp
  with grows_trans [OF 1 Cons.IH] show ?case by (cases r) (simp_all add: r)
qed simp

lemma grows_target:
  "grows (sy_emu y) (sy_emu (snd (target_read P y a sz)))" "grows (sy_emu y) (sy_emu (snd (target_write P y a v sz)))"
  using grows_read_aligned grows_write_aligned grows_read_two grows_write_bytes
  by (simp_all add: target_read_def target_read_slow_def target_write_def target_write_slow_def Let_def)

lemma grows_fetch:
  "grows s (snd (target_read_insn_u16 s a))" "grows s (snd (code_pointer s a))"
proof -
  have sl: "grows s (snd (target_read_insn_slow s a))"
  proof -
    obtain r s1 where g: "get_phys_addr s a ACCESS_CODE = (r, s1)" by fastforce
    have "grows s s1" using grows_phys_addr [of s a ACCESS_CODE] g by simp
    then show ?thesis unfolding target_read_insn_slow_def g by (auto simp: Let_def split: option.split)
  qed
  then show "grows s (snd (target_read_insn_u16 s a))" "grows s (snd (code_pointer s a))"
    by (auto simp: target_read_insn_u16_def code_pointer_def Let_def split: prod.split option.split)
qed

section \<open>SBI calls\<close>

lemma grows_dbcn: "grows s (snd (snd (sbi_dbcn P s fid)))"
proof -
  have put: "grows s t \<Longrightarrow> grows s (put_bytes t bs)" for bs t
    by (induction bs arbitrary: t) (simp_all add: put_bytes_def)
  have get: "grows s t \<Longrightarrow> grows s (snd (dbcn_read_loop P n i p t))" for n i p t
  proof (induction n arbitrary: i t)
    case (Suc n)
    obtain c t1 where g: "plat_getc P t = (c, t1)" by fastforce
    have "grows s t1" using grows_plat(3) [OF Suc.prems, of P] g by simp
    then show ?case using Suc.IH [of "t1\<lparr>e_ram := (e_ram t1)(p + i := word_of_int c)\<rparr>" "Suc i"] g by simp
  qed simp
  show ?thesis using put get by (auto simp: sbi_dbcn_def Let_def case_prod_beta split: option.split)
qed

lemma grows_sbi: "grows s (snd (snd (riscv_host_sbi P st s)))"
proof -
  have x: "grows s t \<Longrightarrow> grows s (set_xreg t r v)" "grows s t \<Longrightarrow> grows s (sbi_ret e v t)" for t r v e
    by (simp_all add: set_xreg_def sbi_ret_def)
  have r: "grows s t \<Longrightarrow> grows s (rv_request_poweroff t)" "grows s t \<Longrightarrow> grows s (rv_request_reboot t)" for t
    by (simp_all add: rv_request_poweroff_def rv_request_reboot_def)
  have "grows s (snd (sbi_srst s fid))" for fid by (simp add: sbi_srst_def r)
  then show ?thesis by (simp add: riscv_host_sbi_def Let_def case_prod_beta x r grows_dbcn)
qed

lemma grows_raise: "raise_exception2 P sb s cause t = (sb', s') \<Longrightarrow> grows s s'"
proof -
  assume r: "raise_exception2 P sb s cause t = (sb', s')"
  obtain v st1 s1 where h: "riscv_host_sbi P sb s = (v, st1, s1)" using prod_cases3 by blast
  have "grows s s1" using grows_sbi [of s P sb] h by simp
  then show ?thesis using r by (auto simp: raise_exception2_def h split: if_splits)
qed

section \<open>The interpreter's laws a second time\<close>

text \<open>
  Growth along the way needs no invariant of its own: it is another interpretation of the same
  laws, with \<open>runs\<close> alongside for the facts about the program counter.
\<close>

definition advances :: "sys \<Rightarrow> sys \<Rightarrow> bool" where
  "advances y y' \<longleftrightarrow> runs y y' \<and> grows (sy_emu y) (sy_emu y')"

lemma advances_hart: "runs y (upd_hart f y) \<Longrightarrow> advances y (upd_hart f y)"
  by (simp add: advances_def upd_hart_def)

lemma advances_trans: "advances y y' \<Longrightarrow> advances y' y'' \<Longrightarrow> advances y y''"
  using runs_trans grows_trans unfolding advances_def by blast

lemma advances_irq: "advances y (snd (take_interrupt y))"
  using runs_irq [of y] by (simp add: advances_def take_interrupt_def upd_hart_def Let_def case_prod_beta)

lemma advances_mem:
  "sz \<le> 3 \<Longrightarrow> advances y (snd (target_read P y a sz))" "sz \<le> 3 \<Longrightarrow> advances y (snd (target_write P y a w sz))"
  "advances y (y\<lparr>sy_emu := snd (riscv_host_rdtime P (sy_emu y))\<rparr>)"
  "advances y (y\<lparr>sy_emu := snd (code_pointer (sy_emu y) a)\<rparr>)"
  "advances y (y\<lparr>sy_emu := snd (target_read_insn_u16 (sy_emu y) a)\<rparr>)"
  using runs_access runs_fetch grows_target grows_fetch by (simp_all add: advances_def riscv_host_rdtime_def)

lemma advances_raise:
  "pend_ok y \<Longrightarrow> raise_exception2 P (sy_sbi y) (sy_emu y) (c_pending_exception (e_cpu (sy_emu y)))
     (c_pending_tval (e_cpu (sy_emu y))) = (sb, s') \<Longrightarrow> advances y (y\<lparr>sy_sbi := sb, sy_emu := s'\<rparr>)"
  using runs_raise grows_raise by (simp add: advances_def)

lemmas advances_fields = runs_fields [unfolded put_reg_def set_pc_def put_fp_def pend_def, THEN advances_hart,
    folded put_reg_def set_pc_def put_fp_def pend_def] runs_hart_ops [THEN advances_hart]

interpretation progress: interp_laws advances pend_ok "\<lambda>y. run_inv (sy_emu y)"
proof unfold_locales
  show "run_inv (sy_emu y) \<Longrightarrow> \<not> bit (c_pc (e_cpu (sy_emu y))) 0" for y by (simp add: run_inv_def cpu_inv_def fetch_ok_def)
  show "advances y y' \<Longrightarrow> run_inv (sy_emu y) \<Longrightarrow> run_inv (sy_emu y')" for y y' by (simp add: advances_def runs_def)
  show "advances y y" for y by (simp add: advances_def runs_refl)
qed (rule advances_fields advances_mem advances_irq pend_ok_set, assumption?
     | erule (1) advances_trans | erule pend_ok_faults | erule (1) advances_raise)+

section \<open>A turn comes back\<close>

lemma uart_poll_loop_some:
  assumes "uart_ring_ok s" "RV_RX_RING - length (uart_contents s) \<le> n"
  obtains s' where "uart_poll_loop P n s = Some s'" "grows s s'"
  using assms
proof (induction n arbitrary: s thesis)
  case 0
  then have "ring_count RV_RX_RING (unat (m_rx_head (e_m s))) (unat (m_rx_tail (e_m s))) < RV_RX_RING"
    by (intro ring_count_less) (simp add: RV_RX_RING_def)
  with "0.prems"(3) show ?case by (simp add: uart_contents_def)
next
  case (Suc n)
  obtain c s1 where g: "plat_getc P s = (c, s1)" by fastforce
  have s1: "grows s s1" "uart_ring_ok s1" "uart_contents s1 = uart_contents s"
    using grows_plat(3) [OF grows_refl [of s], of P] plat_getc_frame(2) [of P s] g Suc.prems(2)
    by (simp_all add: uart_contents_def uart_ring_ok_def)
  let ?s2 = "uart_push_rx s1 (word_of_int c)"
  have s2: "grows s ?s2" using grows_trans [OF s1(1) grows_uart(1)] .
  show ?case
  proof (cases "Suc (unat (m_rx_head (e_m s))) mod RV_RX_RING = unat (m_rx_tail (e_m s)) \<or> c < 0")
    case True
    then have "uart_poll_loop P (Suc n) s = Some s \<or> uart_poll_loop P (Suc n) s = Some s1" by (auto simp: g)
    then show ?thesis using Suc.prems(1) s1(1) by auto
  next
    case False
    then have "length (uart_contents s1) < RV_RX_RING - 1"
      using ring_full_iff [of "unat (m_rx_head (e_m s))" RV_RX_RING "unat (m_rx_tail (e_m s))"] Suc.prems(2) s1(3)
        ring_count_less [of RV_RX_RING "unat (m_rx_head (e_m s))" "unat (m_rx_tail (e_m s))"]
      by (auto simp: uart_contents_def uart_ring_ok_def RV_RX_RING_def)
    then have "RV_RX_RING - length (uart_contents ?s2) \<le> n" "uart_ring_ok ?s2"
      using uart_push_ring [OF s1(2), of "word_of_int c"] Suc.prems(3) s1(3) by simp_all
    then obtain s' where "uart_poll_loop P n ?s2 = Some s'" "grows ?s2 s'" using Suc.IH by blast
    then show ?thesis using Suc.prems(1) [of s'] grows_trans [OF s2] False g by simp
  qed
qed

lemma machine_poll_some:
  assumes "uart_ring_ok (sy_emu y)"
  obtains y' where "machine_poll P y = Some y'" "grows (sy_emu y) (sy_emu y')"
proof -
  let ?s = "timer_update P (sy_emu y)"
  have t: "grows (sy_emu y) ?s" by simp
  then have "uart_ring_ok ?s" using assms by (simp add: grows_def)
  then obtain s where s: "uart_poll_input P ?s = Some s" "grows ?s s"
    using uart_poll_loop_some [of ?s 64 P] by (auto simp: uart_poll_input_def RV_RX_RING_def)
  have n: "grows s (snd (rv_virtio_net_poll P (sy_net y, s)))" by (rule grows_dma [OF dma_net_poll])
  have "grows (sy_emu y) (snd (rv_virtio_net_poll P (sy_net y, s)))"
    by (rule grows_trans [OF t grows_trans [OF s(2) n]])
  then show thesis using that s(1) by (simp add: machine_poll_def Let_def case_prod_beta)
qed

lemma interp_some:
  assumes "run_inv (sy_emu y)"
  obtains y' where "riscv_cpu_interp E y n = Some y'" "advances y y'"
proof -
  have "\<exists>y'. cpu_interp_loop E timeout y = Some y'" for timeout
    using assms
  proof (induction E timeout y rule: cpu_interp_loop.induct)
    case (1 E timeout y)
    have x: "c_cur_xlen (e_cpu (sy_emu y)) = 32" using 1(2) by (simp add: run_inv_def cpu_inv_def guest_inv_def)
    have "run_inv (sy_emu (riscv_cpu_interp_x32 E y (cycles_left timeout y)))"
      using progress.x32_R [OF 1(2)] 1(2) by (simp add: advances_def runs_def)
    then show ?case using 1(1) [OF refl _ x] by (auto simp: cpu_interp_loop.simps [of E timeout y] x Let_def)
  qed
  then obtain y' where "riscv_cpu_interp E y n = Some y'" by (auto simp: riscv_cpu_interp_def)
  with that progress.cpu_loop_R [OF assms] show thesis by (simp add: riscv_cpu_interp_def)
qed

text \<open>How many times the clock has been read.\<close>

definition now_count :: "history \<Rightarrow> nat" where
  "now_count h = length (filter (\<lambda>e. case e of EvNow t \<Rightarrow> True | _ \<Rightarrow> False) h)"

lemma now_count_grows: "grows s s' \<Longrightarrow> now_count (e_ev s) \<le> now_count (e_ev s')"
  by (auto simp: grows_def now_count_def)

lemma mtime_event: "rv_mtime P s = (t, s') \<Longrightarrow> t = po_now P (e_ev s) \<and> e_ev s' = EvNow t # e_ev s \<and> e_m s' = e_m s \<and> e_cpu s' = e_cpu s"
  by (auto simp: rv_mtime_def plat_now_us_def Let_def)

text \<open>Why a turn ends the run.\<close>

definition run_ended :: "xenv \<Rightarrow> u64 \<Rightarrow> u64 \<Rightarrow> int \<Rightarrow> sys \<Rightarrow> bool" where
  "run_ended E insn_limit deadline r y \<longleftrightarrow>
     (r = 0 \<and> m_stop (e_m (sy_emu y)) \<notin> {0, 2} \<or> r = 1 \<and> m_stop (e_m (sy_emu y)) = 2 \<or>
      r = 2 \<and> (insn_limit \<noteq> 0 \<and> insn_limit \<le> c_insn_counter (e_cpu (sy_emu y)) \<or>
               deadline \<noteq> 0 \<and> (\<exists>t h. e_ev (sy_emu y) = EvNow t # h \<and> deadline \<le> t)))"

lemma turn_some:
  assumes "run_inv (sy_emu y)" "uart_ring_ok (sy_emu y)"
  obtains r y' where "run_turn E il dl y = Some (r, y')" "advances y y'"
    "case r of Some v \<Rightarrow> run_ended E il dl v y'
     | None \<Rightarrow> dl \<noteq> 0 \<longrightarrow> (\<exists>h. e_ev (sy_emu y') = EvNow (po_now (x_plat E) h) # h \<and> po_now (x_plat E) h < dl \<and>
         now_count (e_ev (sy_emu y)) \<le> now_count h)"
proof (cases "m_stop (e_m (sy_emu y)) = 0")
  case False
  then show thesis
    using that [of "Some (if m_stop (e_m (sy_emu y)) = 2 then 1 else 0)" y]
    by (simp add: run_turn_def run_ended_def advances_def runs_refl)
next
  case True
  obtain y1 where y1: "machine_poll (x_plat E) y = Some y1" "grows (sy_emu y) (sy_emu y1)"
    using machine_poll_some [OF assms(2)] .
  have a1: "advances y y1" using runs_poll [OF y1(1)] y1(2) by (simp add: advances_def)
  then have "run_inv (sy_emu y1)" using assms(1) by (simp add: advances_def runs_def)
  then obtain y2 where y2: "riscv_cpu_interp E y1 (int RV_SLICE_INSNS) = Some y2" "advances y1 y2"
    using interp_some by blast
  have a2: "advances y y2" by (rule advances_trans [OF a1 y2(2)])
  obtain t s where t: "rv_mtime (x_plat E) (sy_emu y2) = (t, s)" by fastforce
  let ?y3 = "y2\<lparr>sy_emu := s\<rparr>"
  have "advances y2 ?y3" using advances_mem(3) [of y2 "x_plat E"] t by (simp add: riscv_host_rdtime_def)
  then have a3: "advances y ?y3" by (rule advances_trans [OF a2])
  have n: "now_count (e_ev (sy_emu y)) \<le> now_count (e_ev (sy_emu y2))" using a2 by (simp add: advances_def now_count_grows)
  note m = mtime_event [OF t]
  have eq: "run_turn E il dl y = (if il \<noteq> 0 \<and> il \<le> c_insn_counter (e_cpu (sy_emu y2)) then Some (Some 2, y2)
      else if dl \<noteq> 0 then if dl \<le> t then Some (Some 2, ?y3) else Some (None, ?y3) else Some (None, y2))"
    using True y1(1) y2(1) t by (simp add: run_turn_def Let_def)
  show thesis
  proof (cases "il \<noteq> 0 \<and> il \<le> c_insn_counter (e_cpu (sy_emu y2))")
    case True
    then show thesis using that [of "Some 2" y2] eq a2 by (simp add: run_ended_def)
  next
    case False
    then consider "dl = 0" | "dl \<noteq> 0" "dl \<le> t" | "dl \<noteq> 0" "t < dl" by fastforce
    then show thesis
    proof cases
      case 1
      with False show thesis using that [of None y2] eq a2 by simp
    next
      case 2
      then have "run_turn E il dl y = Some (Some 2, ?y3)" using False eq by auto
      then show thesis using that 2 a3 m by (simp add: run_ended_def)
    next
      case 3
      then have "run_turn E il dl y = Some (None, ?y3)" using False eq by auto
      then show thesis using that 3 a3 m n by auto
    qed
  qed
qed

lemma advances_inv:
  "advances y y' \<Longrightarrow> run_inv (sy_emu y) \<Longrightarrow> uart_ring_ok (sy_emu y) \<Longrightarrow> run_inv (sy_emu y') \<and> uart_ring_ok (sy_emu y')"
  by (simp add: advances_def runs_def grows_def)

lemma run_loop_returns:
  assumes "dl \<noteq> 0" "\<And>h. k \<le> now_count h \<Longrightarrow> dl \<le> po_now (x_plat E) h"
    "run_inv (sy_emu y)" "uart_ring_ok (sy_emu y)"
  obtains r y' where "run_loop E il dl y = Some (r, y')" "run_ended E il dl r y'"
  using assms(3,4)
proof (induction "k - now_count (e_ev (sy_emu y))" arbitrary: y thesis rule: less_induct)
  case less
  obtain r y1 where t: "run_turn E il dl y = Some (r, y1)" "advances y y1"
    "case r of Some v \<Rightarrow> run_ended E il dl v y1
     | None \<Rightarrow> dl \<noteq> 0 \<longrightarrow> (\<exists>h. e_ev (sy_emu y1) = EvNow (po_now (x_plat E) h) # h \<and> po_now (x_plat E) h < dl \<and>
         now_count (e_ev (sy_emu y)) \<le> now_count h)"
    using turn_some [OF less.prems(2,3)] .
  show ?case
  proof (cases r)
    case (Some v)
    then show ?thesis using less.prems(1) [of v y1] t by (simp add: run_loop.simps [of E il dl y])
  next
    case None
    then obtain h where h: "e_ev (sy_emu y1) = EvNow (po_now (x_plat E) h) # h" "po_now (x_plat E) h < dl"
      "now_count (e_ev (sy_emu y)) \<le> now_count h" using t(3) assms(1) by auto
    have "now_count h < k" using assms(2) [of h] h(2) by (meson not_le)
    then have "k - now_count (e_ev (sy_emu y1)) < k - now_count (e_ev (sy_emu y))"
      using h(1,3) by (simp add: now_count_def)
    from less.hyps [OF this _ advances_inv [THEN conjunct1] advances_inv [THEN conjunct2]] t(2) less.prems
    obtain r' y' where "run_loop E il dl y1 = Some (r', y')" "run_ended E il dl r' y'" by blast
    then show ?thesis using less.prems(1) [of r' y'] t(1) None by (simp add: run_loop.simps [of E il dl y])
  qed
qed

lemma boot_demo_boots:
  obtains y where "rv_machine_init P (Some 0x200000) boot_demo ram_demo = (0, y)"
proof -
  have "bi_kernel_size boot_demo \<noteq> 0" "boot_fits (boot_ram_size 0x200000) boot_demo (\<lambda>_. 0x13)"
    "opt_len (bi_cmdline boot_demo) + 4096 \<le> 0x100000" using boot_demo_ok by simp_all
  from boot_init_ok [OF boot_demo_ok(1) this(1) _ this(2,3), of P ram_demo] that show thesis by auto
qed

text \<open>The budget of a slice, in terms of the counter.\<close>

lemma cycles_left_int: "-2147483648 \<le> k \<Longrightarrow> k < 2147483648 \<Longrightarrow>
    timeout = c_insn_counter (e_cpu (sy_emu y)) + of_int k \<Longrightarrow> cycles_left timeout y = k"
  by (simp add: cycles_left_def down_of_int sint_sbintrunc' signed_take_bit_int_eq_self)

lemma cpu_loop_budget:
  "-4095 \<le> k \<Longrightarrow> k < 2147483648 \<Longrightarrow> timeout = c_insn_counter (e_cpu (sy_emu y)) + of_int k \<Longrightarrow>
   cpu_interp_loop E timeout y = Some y' \<Longrightarrow>
   \<exists>e. -4095 \<le> e \<and> e \<le> k \<and> timeout = c_insn_counter (e_cpu (sy_emu y')) + of_int e \<and>
     (0 < e \<longrightarrow> c_power_down_flag (e_cpu (sy_emu y')))"
proof (induction E timeout y arbitrary: k rule: cpu_interp_loop.induct)
  case (1 E timeout y)
  have l: "cycles_left timeout y = k" using 1(2-4) by (intro cycles_left_int) simp_all
  show ?case
  proof (cases "\<not> c_power_down_flag (e_cpu (sy_emu y)) \<and> 0 < k")
    case True
    let ?y = "riscv_cpu_interp_x32 E y k"
    have x: "c_cur_xlen (e_cpu (sy_emu y)) = 32" "cpu_interp_loop E timeout ?y = Some y'"
      using True 1(5) by (auto simp: cpu_interp_loop.simps [of E timeout y] Let_def l split: if_splits)
    obtain j where j: "-4095 \<le> j" "j < k"
      "c_insn_counter (e_cpu (sy_emu ?y)) = c_insn_counter (e_cpu (sy_emu y)) + of_int k - of_int j"
      using x32_counter True by metis
    then have "timeout = c_insn_counter (e_cpu (sy_emu ?y)) + of_int j" using 1(4) by simp
    from 1(1) [OF refl _ x(1), unfolded l, OF _ j(1) _ this x(2)] True 1(3) j(2) show ?thesis by force
  next
    case False
    then have "y' = y" using 1(5) l by (auto simp: cpu_interp_loop.simps [of E timeout y] Let_def)
    then show ?thesis using False 1(2,4) by (intro exI [of _ k]) auto
  qed
qed

section \<open>Properties\<close>

text \<open>
  C1. The guest cannot leave its sandbox. Take any request \<open>rv_machine_init()\<close> accepts, any platform
  and any code and data in the images, and run the machine for any number of turns with or without
  limits: the invariant holds in every state reached (the hart is below M-mode, every trap the
  guest can cause is delegated to it, M-mode interrupts are off, MPRV is clear, every TLB entry
  and every RAM range point into the block, x0 is 0 and code is fetched from even addresses), the
  address map and the size of RAM are those of the boot, and no byte of memory after the RAM block
  has changed since before the machine was built.
\<close>

theorem machine_confined:
  assumes "rv_machine_init P guest_ram img y0 = (0, y)" "machine_reach E insn_limit deadline y y'"
  shows "run_inv (sy_emu y') \<and> e_map (sy_emu y') = e_map (sy_emu y) \<and>
    m_ram_size (e_m (sy_emu y')) = m_ram_size (e_m (sy_emu y)) \<and>
    (\<forall>a \<ge> unat (m_ram_size (e_m (sy_emu y))). e_ram (sy_emu y') a = e_ram (sy_emu y0) a)"
proof -
  obtain n where n: "run_inv (sy_emu y)" "m_ram_size (e_m (sy_emu y)) = boot_ram_size n"
    "\<And>a. unat (boot_ram_size n) \<le> a \<Longrightarrow> e_ram (sy_emu y) a = e_ram (sy_emu y0) a"
    using boot_success [OF assms(1)] by metis
  have r: "run_inv (sy_emu y')" "host_mem (sy_emu y') = host_mem (sy_emu y)"
    using runs_reach [OF assms(2) n(1)] n(1) by (simp_all add: runs_def)
  have h: "e_map (sy_emu y') = e_map (sy_emu y)" "m_ram_size (e_m (sy_emu y')) = m_ram_size (e_m (sy_emu y))"
    "\<And>a. unat (m_ram_size (e_m (sy_emu y))) \<le> a \<Longrightarrow> e_ram (sy_emu y') a = e_ram (sy_emu y) a"
    using r(2) by (auto simp: host_mem_def fun_eq_iff) (metis not_less)
  then show ?thesis using r n by simp
qed


theorem machine_confined_witness:
  "\<forall>F j. \<exists>y r y'. rv_machine_init quiet_plat (Some 0x200000) boot_demo ram_demo = (0, y) \<and>
     run_turn \<lparr>x_plat = quiet_plat, x_fpu = F, x_junk = j\<rparr> 0 0 y = Some (r, y') \<and> run_inv (sy_emu y') \<and>
     e_ram (sy_emu y') 0x200000 = 0"
proof (intro allI)
  fix F j
  let ?E = "\<lparr>x_plat = quiet_plat, x_fpu = F, x_junk = j\<rparr>"
  obtain y where y: "rv_machine_init quiet_plat (Some 0x200000) boot_demo ram_demo = (0, y)" using boot_demo_boots by blast
  obtain n where n: "run_inv (sy_emu y)" "uart_ring_ok (sy_emu y)" "Some 0x200000 = Some n" "m_ram_size (e_m (sy_emu y)) = boot_ram_size n"
    using boot_success [OF y] by metis
  obtain r y' where t: "run_turn ?E 0 0 y = Some (r, y')" using turn_some [OF n(1,2)] by metis
  have "e_ram (sy_emu ram_demo) 0x200000 = 0" by (simp add: ram_demo_def)
  then show "\<exists>y r y'. rv_machine_init quiet_plat (Some 0x200000) boot_demo ram_demo = (0, y) \<and>
     run_turn ?E 0 0 y = Some (r, y') \<and> run_inv (sy_emu y') \<and> e_ram (sy_emu y') 0x200000 = 0"
    using y t machine_confined [OF y mr_turn [OF mr_start t]] n(3,4) boot_demo_ok(3) by auto
qed


text \<open>
  C3. A run with a time limit ends. On a platform whose clock passes the deadline once it has been
  read often enough, \<open>rv_machine_run_bounded()\<close> on a booted machine returns, whatever the guest does:
  0 or 1 because the guest has powered off or rebooted, or 2 because the instruction count has
  reached its limit or the last clock read its deadline. Each turn of the loop comes back, since the
  console drain and the interpreter's slice do.
\<close>

theorem run_bounded_returns:
  assumes "rv_machine_init (x_plat E) guest_ram img y0 = (0, y)"
    "us_limit \<noteq> 0" "deadline = po_now (x_plat E) (e_ev (sy_emu y)) + us_limit" "deadline \<noteq> 0"
    "\<forall>h. k \<le> now_count h \<longrightarrow> deadline \<le> po_now (x_plat E) h"
  shows "\<exists>r y'. rv_machine_run_bounded E insn_limit us_limit y = Some (r, y') \<and> run_ended E insn_limit deadline r y'"
proof -
  obtain t s where t: "rv_mtime (x_plat E) (sy_emu y) = (t, s)" by fastforce
  have "advances y (y\<lparr>sy_emu := s\<rparr>)" using advances_mem(3) [of y "x_plat E"] t by (simp add: riscv_host_rdtime_def)
  moreover have "run_inv (sy_emu y)" "uart_ring_ok (sy_emu y)" using boot_success [OF assms(1)] by metis+
  ultimately have i: "run_inv (sy_emu (y\<lparr>sy_emu := s\<rparr>))" "uart_ring_ok (sy_emu (y\<lparr>sy_emu := s\<rparr>))"
    using advances_inv by blast+
  obtain r y' where "run_loop E insn_limit deadline (y\<lparr>sy_emu := s\<rparr>) = Some (r, y')" "run_ended E insn_limit deadline r y'"
    using run_loop_returns [OF assms(4) _ i] assms(5) by blast
  then show ?thesis using assms(2,3) mtime_event [OF t] t by (auto simp: rv_machine_run_bounded_def Let_def)
qed

theorem run_bounded_returns_witness:
  "\<forall>F j. \<exists>y r y'. rv_machine_init (quiet_plat\<lparr>po_now := \<lambda>h. if length h < 3 then 0 else - 1\<rparr>) (Some 0x200000) boot_demo ram_demo = (0, y) \<and>
     rv_machine_run_bounded \<lparr>x_plat = quiet_plat\<lparr>po_now := \<lambda>h. if length h < 3 then 0 else - 1\<rparr>, x_fpu = F, x_junk = j\<rparr> 0 500 y
       = Some (r, y')"
proof (intro allI)
  fix F j
  let ?P = "quiet_plat\<lparr>po_now := \<lambda>h. if length h < 3 then 0 else - 1 :: u64\<rparr>"
  let ?E = "\<lparr>x_plat = ?P, x_fpu = F, x_junk = j\<rparr>"
  obtain y where y: "rv_machine_init ?P (Some 0x200000) boot_demo ram_demo = (0, y)" using boot_demo_boots .
  define dl where "dl = po_now ?P (e_ev (sy_emu y)) + 500"
  have dl: "dl \<noteq> 0" by (simp add: dl_def)
  have "\<not> length h < 3" if "3 \<le> now_count h" for h
    using that order_trans [OF that [unfolded now_count_def] length_filter_le] by simp
  then have "\<forall>h. 3 \<le> now_count h \<longrightarrow> dl \<le> po_now (x_plat ?E) h" by simp
  from run_bounded_returns [of ?E, OF _ _ _ dl this, of "Some 0x200000" boot_demo ram_demo y 500 0] y
  show "\<exists>y r y'. rv_machine_init ?P (Some 0x200000) boot_demo ram_demo = (0, y) \<and>
     rv_machine_run_bounded ?E 0 500 y = Some (r, y')" by (auto simp: dl_def)
qed


text \<open>
  C7. A slice of the interpreter ends within its budget: on any guest state that satisfies the
  invariant, \<open>riscv_cpu_interp()\<close> returns, the instruction counter has advanced by at most 4095 more
  than the \<open>n\<close> instructions asked for (a block of straight-line code runs to the end of its page),
  and by at least \<open>n\<close> unless the guest waits for an interrupt.
\<close>

theorem slice_budget:
  assumes "run_inv (sy_emu y)" "0 \<le> n" "n < 2147483648"
  shows "\<exists>y' e. riscv_cpu_interp E y n = Some y' \<and> 0 \<le> e \<and> e \<le> n + 4095 \<and>
    c_insn_counter (e_cpu (sy_emu y')) = c_insn_counter (e_cpu (sy_emu y)) + of_int e \<and>
    (e < n \<longrightarrow> c_power_down_flag (e_cpu (sy_emu y'))) \<and> run_inv (sy_emu y')"
proof -
  let ?t = "c_insn_counter (e_cpu (sy_emu y)) + of_int n"
  obtain y' where y': "riscv_cpu_interp E y n = Some y'" "advances y y'" using interp_some [OF assms(1)] .
  then obtain e where e: "-4095 \<le> e" "e \<le> n" "?t = c_insn_counter (e_cpu (sy_emu y')) + of_int e"
    "0 < e \<longrightarrow> c_power_down_flag (e_cpu (sy_emu y'))"
    using cpu_loop_budget [of n ?t y E y'] assms(2,3) by (auto simp: riscv_cpu_interp_def)
  have "c_insn_counter (e_cpu (sy_emu y')) = c_insn_counter (e_cpu (sy_emu y)) + of_int (n - e)"
    using e(3) by (simp add: algebra_simps)
  then show ?thesis
    using y' e assms(1) by (intro exI [of _ y'] exI [of _ "n - e"]) (auto simp: advances_def runs_def)
qed

theorem slice_budget_witness:
  "\<forall>F j. \<exists>y y' e. rv_machine_init quiet_plat (Some 0x200000) boot_demo ram_demo = (0, y) \<and>
     riscv_cpu_interp \<lparr>x_plat = quiet_plat, x_fpu = F, x_junk = j\<rparr> y (int RV_SLICE_INSNS) = Some y' \<and> e \<le> int RV_SLICE_INSNS + 4095 \<and>
     c_insn_counter (e_cpu (sy_emu y')) = c_insn_counter (e_cpu (sy_emu y)) + of_int e"
proof (intro allI)
  fix F j
  obtain y where y: "rv_machine_init quiet_plat (Some 0x200000) boot_demo ram_demo = (0, y)" using boot_demo_boots .
  have "run_inv (sy_emu y)" using boot_success [OF y] by metis
  from slice_budget [OF this, of "int RV_SLICE_INSNS" "\<lparr>x_plat = quiet_plat, x_fpu = F, x_junk = j\<rparr>"] y
  show "\<exists>y y' e. rv_machine_init quiet_plat (Some 0x200000) boot_demo ram_demo = (0, y) \<and>
     riscv_cpu_interp \<lparr>x_plat = quiet_plat, x_fpu = F, x_junk = j\<rparr> y (int RV_SLICE_INSNS) = Some y' \<and> e \<le> int RV_SLICE_INSNS + 4095 \<and>
     c_insn_counter (e_cpu (sy_emu y')) = c_insn_counter (e_cpu (sy_emu y)) + of_int e"
    by (auto simp: RV_SLICE_INSNS_def)
qed

end
