(* ===== verification/Rv_Laws.thy ===== *)
theory Rv_Laws
  imports Sandbox Ram_Access
begin

text \<open>
  What the interpreter's instructions mean: the multiply and divide instructions against integer
  arithmetic, the compressed instructions against the 32-bit instructions they stand for, and the
  NaN-boxing of single-precision results.
\<close>

section \<open>Multiplication and division\<close>

lemma high_word: "ucast (signed_drop_bit 32 (p :: u64)) = (ucast (drop_bit 32 p) :: u32)"
  by (rule bit_word_eqI) (simp add: bit_simps min_def)

lemma low_word: "uint (a * b :: u32) = uint a * uint b mod 4294967296"
  by (simp add: uint_word_ariths)

lemma sint_mod: "sint (a :: u32) mod 4294967296 = uint a"
  by (simp add: uint_sint take_bit_eq_mod)

lemma low_signed: "uint (a * b :: u32) = sint a * sint b mod 4294967296" "uint (a * b :: u32) = sint a * uint b mod 4294967296"
proof -
  have "sint a * sint b mod 4294967296 = (sint a mod 4294967296) * (sint b mod 4294967296) mod 4294967296" by (simp add: mod_mult_eq)
  then show "uint (a * b :: u32) = sint a * sint b mod 4294967296" by (simp add: sint_mod low_word)
  have "sint a * uint b mod 4294967296 = (sint a mod 4294967296) * uint b mod 4294967296" by (simp add: mod_mult_left_eq)
  then show "uint (a * b :: u32) = sint a * uint b mod 4294967296" by (simp add: sint_mod low_word)
qed

lemma sint32: "-2147483648 \<le> sint (a :: u32)" "sint (a :: u32) < 2147483648"
  using sint_ge [of a] sint_less [of a] by simp_all

lemma uint32: "0 \<le> uint (a :: u32)" "uint (a :: u32) < 4294967296"
  using uint_lt2p [of a] by simp_all

lemma high_signed:
  assumes "(p :: u64) = word_of_int n" "-9223372036854775808 \<le> n" "n < 9223372036854775808"
  shows "sint (ucast (drop_bit 32 p) :: u32) = n div 4294967296"
proof -
  have s: "sint p = n" using assms by (simp add: sint_sbintrunc' signed_take_bit_int_eq_self)
  have "ucast (drop_bit 32 p) = (word_of_int (sint p div 4294967296) :: u32)"
    unfolding high_word [symmetric]
    by (rule bit_word_eqI) (simp add: bit_simps flip: drop_bit_eq_div [of 32, simplified])
  moreover have "-2147483648 \<le> n div 4294967296" "n div 4294967296 < 2147483648" using assms(2,3) by linarith+
  ultimately show ?thesis using s by (simp add: sint_sbintrunc' signed_take_bit_int_eq_self)
qed

lemma scast_64: "(scast (a :: u32) :: u64) = word_of_int (sint a)" "(ucast (a :: u32) :: u64) = word_of_int (uint a)"
  by simp_all

lemma abs_mult_le: "\<bar>x\<bar> \<le> m \<Longrightarrow> \<bar>z\<bar> \<le> n \<Longrightarrow> \<bar>x * z\<bar> \<le> m * (n :: int)"
  unfolding abs_mult by (rule mult_mono) auto

lemma prod_64: "(scast (a :: u32) :: u64) * scast (b :: u32) = word_of_int (sint a * sint b)"
  "(scast (a :: u32) :: u64) * ucast (c :: u32) = word_of_int (sint a * uint c)"
  "(ucast (d :: u32) :: u64) * ucast c = word_of_int (uint d * uint c)"
  by (simp_all only: scast_64 wi_hom_mult)

lemma mulh32_eq: "sint (mulh32 a b) = sint a * sint b div 4294967296"
proof -
  have "\<bar>sint a * sint b\<bar> \<le> 2147483648 * 2147483648"
    using sint32 [of a] sint32 [of b] by (intro abs_mult_le) auto
  then show ?thesis
    unfolding mulh32_def high_word by (intro high_signed [OF prod_64(1)]) linarith+
qed

lemma mulhsu32_eq: "sint (mulhsu32 a b) = sint a * uint b div 4294967296"
proof -
  have "\<bar>sint a * uint b\<bar> \<le> 2147483648 * 4294967295"
    using sint32 [of a] uint32 [of b] by (intro abs_mult_le) auto
  then show ?thesis
    unfolding mulhsu32_def high_word by (intro high_signed [OF prod_64(2)]) linarith+
qed

lemma mulhu32_eq: "uint (mulhu32 a b) = uint a * uint b div 4294967296"
proof -
  have b: "\<bar>uint a * uint b\<bar> \<le> 4294967295 * 4294967295" using uint32 [of a] uint32 [of b] by (intro abs_mult_le) auto
  have nn: "0 \<le> uint a * uint b" "0 \<le> uint a * uint b div 4294967296" using uint32 [of a] uint32 [of b] by (simp_all add: pos_imp_zdiv_nonneg_iff)
  have u: "uint ((ucast a :: u64) * ucast b) = uint a * uint b"
    unfolding prod_64(3) uint_word_of_int using b nn by (intro mod_pos_pos_trivial) auto
  have "uint (mulhu32 a b) = take_bit 32 (uint ((ucast a :: u64) * ucast b) div 4294967296)"
    unfolding mulhu32_def high_word by (simp only: unsigned_ucast_eq unsigned_drop_bit_eq drop_bit_eq_div uint_div) simp
  also have "\<dots> = uint a * uint b div 4294967296"
    unfolding u using b nn by (intro take_bit_int_eq_self) auto
  finally show ?thesis .
qed

lemma split_high: "n = n div 4294967296 * 4294967296 + n mod (4294967296 :: int)"
  by simp

text \<open>Division: on words, quotient and remainder always recombine.\<close>

lemma sdiv_range:
  assumes "b \<noteq> (0 :: u32)" "\<not> (a = 0x80000000 \<and> b = -1)"
  shows "sint (div32 a b) = sint a sdiv sint b" "sint (rem32 a b) = sint a smod sint b"
proof -
  have b: "sint b \<noteq> 0" using assms(1) signed_eq_0_iff by blast
  have o: "\<not> (sint a = -2147483648 \<and> sint b = -1)"
  proof
    assume "sint a = -2147483648 \<and> sint b = -1"
    then have "(word_of_int (sint a) :: u32) = word_of_int (-2147483648)" "(word_of_int (sint b) :: u32) = word_of_int (-1)" by simp_all
    then have "a = 0x80000000" "b = -1" by simp_all
    with assms(2) show False by simp
  qed
  have m: "\<bar>sint a smod sint b\<bar> < \<bar>sint b\<bar>"
    using b by (auto simp: signed_modulo_int_def abs_mult)
  have "-2147483648 \<le> sint a smod sint b" "sint a smod sint b < 2147483648" using m sint32 [of b] by linarith+
  then show "sint (rem32 a b) = sint a smod sint b"
    using assms by (auto simp: rem32_def sint_sbintrunc' intro!: signed_take_bit_int_eq_self)
  have d: "\<bar>sint a\<bar> div \<bar>sint b\<bar> \<le> \<bar>sint a\<bar>" "0 \<le> \<bar>sint a\<bar> div \<bar>sint b\<bar>"
    using b zdiv_mono2 [of "\<bar>sint a\<bar>" 1 "\<bar>sint b\<bar>"] by (auto simp: pos_imp_zdiv_nonneg_iff)
  have "\<bar>sint a sdiv sint b\<bar> \<le> \<bar>sint a\<bar>"
    using b d by (auto simp: signed_divide_int_def abs_mult)
  moreover have "sint a sdiv sint b \<noteq> 2147483648"
  proof
    assume e: "sint a sdiv sint b = 2147483648"
    then have "\<bar>sint a\<bar> div \<bar>sint b\<bar> = 2147483648 \<or> \<bar>sint a\<bar> div \<bar>sint b\<bar> = -2147483648"
      by (auto simp: signed_divide_int_def sgn_if split: if_splits)
    then have q: "\<bar>sint a\<bar> div \<bar>sint b\<bar> = 2147483648" using d by auto
    then have a: "sint a = -2147483648" using d sint32 [of a] by linarith
    have "\<bar>sint b\<bar> = 1"
    proof (rule ccontr)
      assume "\<bar>sint b\<bar> \<noteq> 1"
      then have "\<bar>sint a\<bar> div \<bar>sint b\<bar> \<le> \<bar>sint a\<bar> div 2" using b by (intro zdiv_mono2) auto
      with q a show False by simp
    qed
    with e a o show False by (auto simp: signed_divide_int_def abs_if split: if_splits)
  qed
  ultimately have "-2147483648 \<le> sint a sdiv sint b" "sint a sdiv sint b < 2147483648" using sint32 [of a] by linarith+
  then show "sint (div32 a b) = sint a sdiv sint b"
    using assms by (auto simp: div32_def sint_sbintrunc' intro!: signed_take_bit_int_eq_self)
qed

lemma smod_facts:
  assumes "(b :: int) \<noteq> 0"
  shows "a = a sdiv b * b + a smod b" "\<bar>a smod b\<bar> < \<bar>b\<bar>" "a smod b = 0 \<or> sgn (a smod b) = sgn a"
proof -
  show "a = a sdiv b * b + a smod b" by (simp add: sdiv_mult_smod_eq)
  show "\<bar>a smod b\<bar> < \<bar>b\<bar>" using assms by (auto simp: signed_modulo_int_def abs_mult)
  have "0 \<le> \<bar>a\<bar> mod \<bar>b\<bar>" using assms by simp
  then show "a smod b = 0 \<or> sgn (a smod b) = sgn a" by (auto simp: signed_modulo_int_def sgn_mult sgn_if)
qed

text \<open>
  C28. The multiply and divide instructions compute what the architecture defines. The high words of
  the products complete the low word to the full product in each of the three signednesses; quotient
  and remainder recombine to the dividend, rounding towards zero, the remainder having the sign of
  the dividend; dividing by zero gives all ones and leaves the dividend as the remainder, and the
  one signed overflow gives the dividend and zero.
\<close>

theorem muldiv_correct:
  "sint a * sint b = sint (alu_muldiv 1 a b) * 2 ^ 32 + uint (alu_muldiv 0 a b) \<and>
   sint a * uint b = sint (alu_muldiv 2 a b) * 2 ^ 32 + uint (alu_muldiv 0 a b) \<and>
   uint a * uint b = uint (alu_muldiv 3 a b) * 2 ^ 32 + uint (alu_muldiv 0 a b) \<and>
   (if b = 0 then alu_muldiv 4 a b = -1 \<and> alu_muldiv 5 a b = -1 \<and> alu_muldiv 6 a b = a \<and> alu_muldiv 7 a b = a
    else uint a = uint (alu_muldiv 5 a b) * uint b + uint (alu_muldiv 7 a b) \<and> alu_muldiv 7 a b < b \<and>
      (if a = 0x80000000 \<and> b = -1 then alu_muldiv 4 a b = a \<and> alu_muldiv 6 a b = 0
       else sint a = sint (alu_muldiv 4 a b) * sint b + sint (alu_muldiv 6 a b) \<and>
         \<bar>sint (alu_muldiv 6 a b)\<bar> < \<bar>sint b\<bar> \<and>
         (sint (alu_muldiv 6 a b) = 0 \<or> sgn (sint (alu_muldiv 6 a b)) = sgn (sint a))))"
proof -
  have ops: "alu_muldiv 0 a b = a * b" "alu_muldiv 1 a b = mulh32 a b" "alu_muldiv 2 a b = mulhsu32 a b"
    "alu_muldiv 3 a b = mulhu32 a b" "alu_muldiv 4 a b = div32 a b" "alu_muldiv 5 a b = divu32 a b"
    "alu_muldiv 6 a b = rem32 a b" "alu_muldiv 7 a b = remu32 a b" by (simp_all add: alu_muldiv_def)
  have p: "(2 :: int) ^ 32 = 4294967296" by simp
  have "sint a * sint b = sint (mulh32 a b) * 4294967296 + uint (a * b)"
    unfolding mulh32_eq low_signed(1) by (rule split_high)
  moreover have "sint a * uint b = sint (mulhsu32 a b) * 4294967296 + uint (a * b)"
    unfolding mulhsu32_eq low_signed(2) by (rule split_high)
  moreover have "uint a * uint b = uint (mulhu32 a b) * 4294967296 + uint (a * b)"
    unfolding mulhu32_eq low_word by (rule split_high)
  moreover have "div32 a 0 = -1" "divu32 a 0 = -1" "rem32 a 0 = a" "remu32 a 0 = a"
    by (simp_all add: div32_def divu32_def rem32_def remu32_def)
  moreover have "uint a = uint (divu32 a b) * uint b + uint (remu32 a b)" "remu32 a b < b" if "b \<noteq> 0"
    using that word_mod_less_divisor [of b a]
    by (simp_all add: divu32_def remu32_def uint_div uint_mod word_neq_0_conv)
  moreover have "div32 a b = a" "rem32 a b = 0" if "a = 0x80000000" "b = -1"
    using that by (simp_all add: div32_def rem32_def)
  moreover have "sint a = sint (div32 a b) * sint b + sint (rem32 a b)" "\<bar>sint (rem32 a b)\<bar> < \<bar>sint b\<bar>"
      "sint (rem32 a b) = 0 \<or> sgn (sint (rem32 a b)) = sgn (sint a)" if "b \<noteq> 0" "\<not> (a = 0x80000000 \<and> b = -1)"
    unfolding sdiv_range [OF that] using that(1) by (intro smod_facts; simp add: signed_eq_0_iff)+
  ultimately show ?thesis unfolding ops p by auto
qed

section \<open>Compressed instructions are abbreviations\<close>

text \<open>
  What the architecture says of the compressed encodings, written independently of the code: the
  immediates as lists of (destination bit, source bit), the meaning as the 32-bit instruction each
  one stands for.
\<close>

definition gather :: "(nat \<times> nat) list \<Rightarrow> u32 \<Rightarrow> u32" where
  "gather ps insn = foldr (\<lambda>(d, s) w. (if bit insn s then push_bit d 1 else 0) OR w) ps 0"

definition gather_s :: "nat \<Rightarrow> nat \<Rightarrow> (nat \<times> nat) list \<Rightarrow> u32 \<Rightarrow> u32" where
  "gather_s d s ps insn = (if bit insn s then push_bit d (-1) else 0) OR gather ps insn"

definition enc_i :: "u32 \<Rightarrow> nat \<Rightarrow> u32 \<Rightarrow> nat \<Rightarrow> u32 \<Rightarrow> u32" where
  "enc_i imm rs1 f3 rd opc = push_bit 20 imm OR push_bit 15 (take_bit 5 (of_nat rs1)) OR push_bit 12 (take_bit 3 f3) OR
     push_bit 7 (take_bit 5 (of_nat rd)) OR take_bit 7 opc"

definition enc_s :: "u32 \<Rightarrow> nat \<Rightarrow> nat \<Rightarrow> u32 \<Rightarrow> u32 \<Rightarrow> u32" where
  "enc_s imm rs2 rs1 f3 opc = push_bit 25 (drop_bit 5 imm) OR push_bit 20 (take_bit 5 (of_nat rs2)) OR
     push_bit 15 (take_bit 5 (of_nat rs1)) OR push_bit 12 (take_bit 3 f3) OR push_bit 7 (take_bit 5 imm) OR take_bit 7 opc"

definition enc_b :: "u32 \<Rightarrow> nat \<Rightarrow> nat \<Rightarrow> u32 \<Rightarrow> u32" where
  "enc_b imm rs2 rs1 f3 = push_bit 31 (drop_bit 12 imm) OR push_bit 25 (take_bit 6 (drop_bit 5 imm)) OR
     push_bit 20 (take_bit 5 (of_nat rs2)) OR push_bit 15 (take_bit 5 (of_nat rs1)) OR push_bit 12 (take_bit 3 f3) OR
     push_bit 8 (take_bit 4 (drop_bit 1 imm)) OR push_bit 7 (drop_bit 11 imm AND 1) OR 0x63"

definition enc_j :: "u32 \<Rightarrow> nat \<Rightarrow> u32" where
  "enc_j imm rd = push_bit 31 (drop_bit 20 imm) OR push_bit 21 (take_bit 10 (drop_bit 1 imm)) OR
     push_bit 20 (drop_bit 11 imm AND 1) OR push_bit 12 (take_bit 8 (drop_bit 12 imm)) OR
     push_bit 7 (take_bit 5 (of_nat rd)) OR 0x6f"

definition enc_u :: "u32 \<Rightarrow> nat \<Rightarrow> u32" where
  "enc_u imm rd = push_bit 12 (drop_bit 12 imm) OR push_bit 7 (take_bit 5 (of_nat rd)) OR 0x37"

definition enc_r :: "u32 \<Rightarrow> nat \<Rightarrow> nat \<Rightarrow> u32 \<Rightarrow> nat \<Rightarrow> u32" where
  "enc_r f7 rs2 rs1 f3 rd = push_bit 25 f7 OR push_bit 20 (take_bit 5 (of_nat rs2)) OR push_bit 15 (take_bit 5 (of_nat rs1)) OR
     push_bit 12 (take_bit 3 f3) OR push_bit 7 (take_bit 5 (of_nat rd)) OR 0x33"

lemma word32_eqI: "bit x 0 = bit y 0 \<Longrightarrow> bit x 1 = bit y 1 \<Longrightarrow> bit x 2 = bit y 2 \<Longrightarrow> bit x 3 = bit y 3 \<Longrightarrow> bit x 4 = bit y 4 \<Longrightarrow> bit x 5 = bit y 5 \<Longrightarrow> bit x 6 = bit y 6 \<Longrightarrow> bit x 7 = bit y 7 \<Longrightarrow> bit x 8 = bit y 8 \<Longrightarrow> bit x 9 = bit y 9 \<Longrightarrow> bit x 10 = bit y 10 \<Longrightarrow> bit x 11 = bit y 11 \<Longrightarrow> bit x 12 = bit y 12 \<Longrightarrow> bit x 13 = bit y 13 \<Longrightarrow> bit x 14 = bit y 14 \<Longrightarrow> bit x 15 = bit y 15 \<Longrightarrow> bit x 16 = bit y 16 \<Longrightarrow> bit x 17 = bit y 17 \<Longrightarrow> bit x 18 = bit y 18 \<Longrightarrow> bit x 19 = bit y 19 \<Longrightarrow> bit x 20 = bit y 20 \<Longrightarrow> bit x 21 = bit y 21 \<Longrightarrow> bit x 22 = bit y 22 \<Longrightarrow> bit x 23 = bit y 23 \<Longrightarrow> bit x 24 = bit y 24 \<Longrightarrow> bit x 25 = bit y 25 \<Longrightarrow> bit x 26 = bit y 26 \<Longrightarrow> bit x 27 = bit y 27 \<Longrightarrow> bit x 28 = bit y 28 \<Longrightarrow> bit x 29 = bit y 29 \<Longrightarrow> bit x 30 = bit y 30 \<Longrightarrow> bit x 31 = bit y 31 \<Longrightarrow> (x :: u32) = y"
  by (rule bit_word_eqI) (auto simp: less_Suc_eq numeral_eq_Suc)

lemma bit_twice: "bit ((w :: u32) * 2) n \<longleftrightarrow> 0 < n \<and> n < 32 \<and> bit w (n - 1)"
proof -
  have "w * 2 = push_bit 1 w" by (simp add: push_bit_eq_mult)
  then show ?thesis by (simp only: bit_push_bit_iff) auto
qed

lemmas bit_blast = bit_twice bit_simps gather_def gather_s_def sext_def get_field1_def Let_def

lemma imm_spec:
  "imm_c_addi4spn insn = gather [(5, 12), (4, 11), (9, 10), (8, 9), (7, 8), (6, 7), (2, 6), (3, 5)] insn"
  "imm_c_lw insn = gather [(5, 12), (4, 11), (3, 10), (2, 6), (6, 5)] insn"
  "imm_c_ld insn = gather [(5, 12), (4, 11), (3, 10), (7, 6), (6, 5)] insn"
  "imm_c_i insn = gather_s 5 12 [(4, 6), (3, 5), (2, 4), (1, 3), (0, 2)] insn"
  "imm_c_j insn = gather_s 11 12 [(4, 11), (9, 10), (8, 9), (10, 8), (6, 7), (7, 6), (3, 5), (2, 4), (1, 3), (5, 2)] insn"
  "imm_c_addi16sp insn = gather_s 9 12 [(4, 6), (6, 5), (8, 4), (7, 3), (5, 2)] insn"
  "imm_c_lui insn = gather_s 17 12 [(16, 6), (15, 5), (14, 4), (13, 3), (12, 2)] insn"
  "imm_c_shift insn = gather [(5, 12), (4, 6), (3, 5), (2, 4), (1, 3), (0, 2)] insn"
  "imm_c_b insn = gather_s 8 12 [(4, 11), (3, 10), (7, 6), (6, 5), (2, 4), (1, 3), (5, 2)] insn"
  "imm_c_lwsp insn = gather [(5, 12), (4, 6), (3, 5), (2, 4), (7, 3), (6, 2)] insn"
  "imm_c_ldsp insn = gather [(5, 12), (4, 6), (3, 5), (8, 4), (7, 3), (6, 2)] insn"
  "imm_c_swsp insn = gather [(5, 12), (4, 11), (3, 10), (2, 9), (7, 8), (6, 7)] insn"
  "imm_c_sdsp insn = gather [(5, 12), (4, 11), (3, 10), (8, 9), (7, 8), (6, 7)] insn"
  by ((rule word32_eqI; simp add: bit_blast imm_c_addi4spn_def imm_c_lw_def imm_c_ld_def imm_c_i_def imm_c_j_def
      imm_c_addi16sp_def imm_c_lui_def imm_c_shift_def imm_c_b_def imm_c_lwsp_def imm_c_ldsp_def imm_c_swsp_def
      imm_c_sdsp_def c_rs2_def))+

text \<open>The fields of the encodings, as the interpreter extracts them.\<close>

lemmas enc_defs = enc_i_def enc_s_def enc_b_def enc_j_def enc_u_def enc_r_def

lemma enc_opcode [simp]:
  "enc_i imm rs1 f3 rd opc AND 0x7f = take_bit 7 opc" "enc_s imm rs2 rs1 f3 opc AND 0x7f = take_bit 7 opc"
  "enc_b imm rs2 rs1 f3 AND 0x7f = 0x63" "enc_j imm rd AND 0x7f = 0x6f" "enc_u imm rd AND 0x7f = 0x37"
  "enc_r f7 rs2 rs1 f3 rd AND 0x7f = 0x33"
  by (rule word32_eqI; simp add: bit_simps enc_defs)+

lemma opcode_low: "w AND 0x7f = v \<Longrightarrow> (w :: u32) AND 3 = v AND 3"
proof -
  have "w AND 3 = (w AND 0x7f) AND 3" by (simp add: and.assoc)
  then show "w AND 0x7f = v \<Longrightarrow> w AND 3 = v AND 3" by simp
qed

lemmas enc_low [simp] = enc_opcode [THEN opcode_low]

lemma reg_field: "r < 32 \<Longrightarrow> unat (take_bit 5 (of_nat r :: u32)) = r"
  by (simp add: unsigned_take_bit_eq take_bit_nat_eq_self unsigned_of_nat)

lemma field_rd: "drop_bit 7 (enc_i imm rs1 f3 rd opc) AND 0x1f = take_bit 5 (of_nat rd)"
  "drop_bit 7 (enc_j imm rd) AND 0x1f = take_bit 5 (of_nat rd)" "drop_bit 7 (enc_u imm rd) AND 0x1f = take_bit 5 (of_nat rd)"
  "drop_bit 7 (enc_r f7 rs2 rs1 f3 rd) AND 0x1f = take_bit 5 (of_nat rd)"
  by (rule word32_eqI; simp add: bit_simps enc_defs)+

lemma field_rs1: "drop_bit 15 (enc_i imm rs1 f3 rd opc) AND 0x1f = take_bit 5 (of_nat rs1)"
  "drop_bit 15 (enc_s imm rs2 rs1 f3 opc) AND 0x1f = take_bit 5 (of_nat rs1)"
  "drop_bit 15 (enc_b imm rs2 rs1 f3) AND 0x1f = take_bit 5 (of_nat rs1)"
  "drop_bit 15 (enc_r f7 rs2 rs1 f3 rd) AND 0x1f = take_bit 5 (of_nat rs1)"
  by (rule word32_eqI; simp add: bit_simps enc_defs)+

lemma field_rs2: "drop_bit 20 (enc_s imm rs2 rs1 f3 opc) AND 0x1f = take_bit 5 (of_nat rs2)"
  "drop_bit 20 (enc_b imm rs2 rs1 f3) AND 0x1f = take_bit 5 (of_nat rs2)"
  "drop_bit 20 (enc_r f7 rs2 rs1 f3 rd) AND 0x1f = take_bit 5 (of_nat rs2)"
  by (rule word32_eqI; simp add: bit_simps enc_defs)+

lemma enc_regs [simp]:
  "rd < 32 \<Longrightarrow> insn_rd (enc_i imm rs1 f3 rd opc) = rd" "rd < 32 \<Longrightarrow> insn_rd (enc_j imm rd) = rd"
  "rd < 32 \<Longrightarrow> insn_rd (enc_u imm rd) = rd" "rd < 32 \<Longrightarrow> insn_rd (enc_r f7 rs2 rs1 f3 rd) = rd"
  "rs1 < 32 \<Longrightarrow> insn_rs1 (enc_i imm rs1 f3 rd opc) = rs1" "rs1 < 32 \<Longrightarrow> insn_rs1 (enc_s imm rs2 rs1 f3 opc) = rs1"
  "rs1 < 32 \<Longrightarrow> insn_rs1 (enc_b imm rs2 rs1 f3) = rs1" "rs1 < 32 \<Longrightarrow> insn_rs1 (enc_r f7 rs2 rs1 f3 rd) = rs1"
  "rs2 < 32 \<Longrightarrow> insn_rs2 (enc_s imm rs2 rs1 f3 opc) = rs2" "rs2 < 32 \<Longrightarrow> insn_rs2 (enc_b imm rs2 rs1 f3) = rs2"
  "rs2 < 32 \<Longrightarrow> insn_rs2 (enc_r f7 rs2 rs1 f3 rd) = rs2"
  by (simp_all only: insn_rd_def insn_rs1_def insn_rs2_def field_rd field_rs1 field_rs2 reg_field)

lemma enc_funct3 [simp]:
  "insn_funct3 (enc_i imm rs1 f3 rd opc) = take_bit 3 f3" "insn_funct3 (enc_s imm rs2 rs1 f3 opc) = take_bit 3 f3"
  "insn_funct3 (enc_b imm rs2 rs1 f3) = take_bit 3 f3" "insn_funct3 (enc_r f7 rs2 rs1 f3 rd) = take_bit 3 f3"
  by (rule word32_eqI; simp add: bit_simps enc_defs insn_funct3_def)+

lemma enc_funct7 [simp]: "drop_bit 25 (enc_r f7 rs2 rs1 f3 rd) = take_bit 7 f7"
  "drop_bit 27 (enc_r f7 rs2 rs1 f3 rd) AND 8 = drop_bit 2 f7 AND 8"
  by (rule word32_eqI; simp add: bit_simps enc_defs)+

lemma imm_i_enc: "imm_i (enc_i imm rs1 f3 rd opc) = signed_take_bit 11 imm"
  by (rule word32_eqI; simp add: bit_simps enc_defs imm_i_def)

lemma imm_s_enc: "imm_s (enc_s imm rs2 rs1 f3 opc) = signed_take_bit 11 imm"
  by (rule word32_eqI; simp add: bit_simps enc_defs imm_s_def)

lemma imm_b_enc: "imm_b (enc_b imm rs2 rs1 f3) = signed_take_bit 12 (imm AND NOT 1)"
  by (rule word32_eqI; simp add: bit_simps enc_defs imm_b_def flip: numeral_2_eq_2 numeral_3_eq_3)

lemma imm_j_enc: "imm_j (enc_j imm rd) = signed_take_bit 20 (imm AND NOT 1)"
  by (rule word32_eqI; simp add: bit_simps enc_defs imm_j_def flip: numeral_2_eq_2 numeral_3_eq_3)

lemma imm_u_enc: "imm_u (enc_u imm rd) = push_bit 12 (drop_bit 12 imm)"
  by (rule word32_eqI; simp add: bit_simps enc_defs imm_u_def)

text \<open>The immediates of the compressed forms fit the fields of the full ones.\<close>

lemma imm_fits [simp]:
  "signed_take_bit 11 (imm_c_addi4spn insn) = imm_c_addi4spn insn" "signed_take_bit 11 (imm_c_lw insn) = imm_c_lw insn"
  "signed_take_bit 11 (imm_c_ld insn) = imm_c_ld insn" "signed_take_bit 11 (imm_c_i insn) = imm_c_i insn"
  "signed_take_bit 11 (imm_c_addi16sp insn) = imm_c_addi16sp insn"
  "signed_take_bit 11 (imm_c_lwsp insn) = imm_c_lwsp insn" "signed_take_bit 11 (imm_c_ldsp insn) = imm_c_ldsp insn"
  "signed_take_bit 11 (imm_c_swsp insn) = imm_c_swsp insn" "signed_take_bit 11 (imm_c_sdsp insn) = imm_c_sdsp insn"
  "signed_take_bit 11 (imm_c_shift insn) = imm_c_shift insn"
  "signed_take_bit 11 (imm_c_shift insn OR 0x400) = imm_c_shift insn OR 0x400"
  "signed_take_bit 12 (imm_c_b insn AND -2) = imm_c_b insn" "signed_take_bit 20 (imm_c_j insn AND -2) = imm_c_j insn"
  "push_bit 12 (drop_bit 12 (imm_c_lui insn)) = imm_c_lui insn"
  unfolding imm_spec by (rule word32_eqI; simp add: bit_blast)+

text \<open>
  The 32-bit instruction a compressed one stands for, after the tables of the C extension for RV32
  with F and D; \<open>None\<close> for the reserved and illegal encodings. \<open>c.lui\<close> of 0 and \<open>c.lwsp\<close> to x0, which
  the architecture reserves, are given their general meaning.
\<close>

definition rvc_expand0 :: "u32 \<Rightarrow> u32 option" where
  "rvc_expand0 insn =
     (let rd = unat (8 OR gather [(2, 4), (1, 3), (0, 2)] insn); rs1 = unat (8 OR gather [(2, 9), (1, 8), (0, 7)] insn);
          w = gather [(5, 12), (4, 11), (3, 10), (2, 6), (6, 5)] insn; d = gather [(5, 12), (4, 11), (3, 10), (7, 6), (6, 5)] insn;
          a = gather [(5, 12), (4, 11), (9, 10), (8, 9), (7, 8), (6, 7), (2, 6), (3, 5)] insn;
          f = gather [(2, 15), (1, 14), (0, 13)] insn
      in if f = 0 then (if a = 0 then None else Some (enc_i a 2 0 rd 0x13))
         else if f = 1 then Some (enc_i d rs1 3 rd 0x07)
         else if f = 2 then Some (enc_i w rs1 2 rd 0x03)
         else if f = 3 then Some (enc_i w rs1 2 rd 0x07)
         else if f = 5 then Some (enc_s d rd rs1 3 0x27)
         else if f = 6 then Some (enc_s w rd rs1 2 0x23)
         else if f = 7 then Some (enc_s w rd rs1 2 0x27)
         else None)"

definition rvc_expand1 :: "u32 \<Rightarrow> u32 option" where
  "rvc_expand1 insn =
     (let rd = unat (gather [(4, 11), (3, 10), (2, 9), (1, 8), (0, 7)] insn);
          ra = unat (8 OR gather [(2, 9), (1, 8), (0, 7)] insn); rb = unat (8 OR gather [(2, 4), (1, 3), (0, 2)] insn);
          i = gather_s 5 12 [(4, 6), (3, 5), (2, 4), (1, 3), (0, 2)] insn;
          shamt = gather [(5, 12), (4, 6), (3, 5), (2, 4), (1, 3), (0, 2)] insn;
          j = gather_s 11 12 [(4, 11), (9, 10), (8, 9), (10, 8), (6, 7), (7, 6), (3, 5), (2, 4), (1, 3), (5, 2)] insn;
          sp = gather_s 9 12 [(4, 6), (6, 5), (8, 4), (7, 3), (5, 2)] insn;
          u = gather_s 17 12 [(16, 6), (15, 5), (14, 4), (13, 3), (12, 2)] insn;
          b = gather_s 8 12 [(4, 11), (3, 10), (7, 6), (6, 5), (2, 4), (1, 3), (5, 2)] insn;
          f = gather [(2, 15), (1, 14), (0, 13)] insn; g = gather [(1, 11), (0, 10)] insn;
          h = gather [(2, 12), (1, 6), (0, 5)] insn
      in if f = 0 then Some (enc_i i rd 0 rd 0x13)
         else if f = 1 then Some (enc_j j 1)
         else if f = 2 then Some (enc_i i 0 0 rd 0x13)
         else if f = 3 then
           (if rd = 2 then (if sp = 0 then None else Some (enc_i sp 2 0 2 0x13)) else Some (enc_u u rd))
         else if f = 4 then
           (if g = 0 then (if bit insn 12 then None else Some (enc_i shamt ra 5 ra 0x13))
            else if g = 1 then (if bit insn 12 then None else Some (enc_i (shamt OR 0x400) ra 5 ra 0x13))
            else if g = 2 then Some (enc_i i ra 7 ra 0x13)
            else if h = 0 then Some (enc_r 0x20 rb ra 0 ra)
            else if h = 1 then Some (enc_r 0 rb ra 4 ra)
            else if h = 2 then Some (enc_r 0 rb ra 6 ra)
            else if h = 3 then Some (enc_r 0 rb ra 7 ra)
            else None)
         else if f = 5 then Some (enc_j j 0)
         else if f = 6 then Some (enc_b b 0 ra 0)
         else Some (enc_b b 0 ra 1))"

definition rvc_expand2 :: "u32 \<Rightarrow> u32 option" where
  "rvc_expand2 insn =
     (let rd = unat (gather [(4, 11), (3, 10), (2, 9), (1, 8), (0, 7)] insn);
          rs2 = unat (gather [(4, 6), (3, 5), (2, 4), (1, 3), (0, 2)] insn);
          shamt = gather [(5, 12), (4, 6), (3, 5), (2, 4), (1, 3), (0, 2)] insn;
          lw = gather [(5, 12), (4, 6), (3, 5), (2, 4), (7, 3), (6, 2)] insn;
          ld = gather [(5, 12), (4, 6), (3, 5), (8, 4), (7, 3), (6, 2)] insn;
          sw = gather [(5, 12), (4, 11), (3, 10), (2, 9), (7, 8), (6, 7)] insn;
          sd = gather [(5, 12), (4, 11), (3, 10), (8, 9), (7, 8), (6, 7)] insn;
          f = gather [(2, 15), (1, 14), (0, 13)] insn
      in if f = 0 then (if bit insn 12 then None else Some (enc_i shamt rd 1 rd 0x13))
         else if f = 1 then Some (enc_i ld 2 3 rd 0x07)
         else if f = 2 then Some (enc_i lw 2 2 rd 0x03)
         else if f = 3 then Some (enc_i lw 2 2 rd 0x07)
         else if f = 4 then
           (if \<not> bit insn 12 then
              (if rs2 \<noteq> 0 then Some (enc_r 0 rs2 0 0 rd) else if rd = 0 then None else Some (enc_i 0 rd 0 0 0x67))
            else if rs2 \<noteq> 0 then Some (enc_r 0 rs2 rd 0 rd)
            else if rd = 0 then Some 0x00100073 else Some (enc_i 0 rd 0 1 0x67))
         else if f = 5 then Some (enc_s sd rs2 2 3 0x27)
         else if f = 6 then Some (enc_s sw rs2 2 2 0x23)
         else Some (enc_s sw rs2 2 2 0x27))"

definition rvc_expand :: "u32 \<Rightarrow> u32 option" where
  "rvc_expand insn =
     (if insn AND 3 = 0 then rvc_expand0 insn else if insn AND 3 = 1 then rvc_expand1 insn else rvc_expand2 insn)"

text \<open>\<open>c.jal\<close> and \<open>c.jalr\<close>, which link to the instruction after two bytes.\<close>

definition rvc_links :: "u32 \<Rightarrow> bool" where
  "rvc_links insn \<longleftrightarrow>
     (let f = gather [(2, 15), (1, 14), (0, 13)] insn
      in insn AND 3 = 1 \<and> f = 1 \<or>
         insn AND 3 = 2 \<and> f = 4 \<and> bit insn 12 \<and> gather [(4, 6), (3, 5), (2, 4), (1, 3), (0, 2)] insn = 0 \<and>
         gather [(4, 11), (3, 10), (2, 9), (1, 8), (0, 7)] insn \<noteq> 0)"

text \<open>Executed from two bytes instead of four.\<close>

definition shrink :: "flow \<times> sys \<Rightarrow> flow \<times> sys" where
  "shrink r = (case r of (Next n, y) \<Rightarrow> (Next 2, y) | _ \<Rightarrow> r)"

lemma shrink_simps [simp]: "shrink (Next n, y) = (Next 2, y)" "shrink (Jump, y) = (Jump, y)" "shrink (Raise, y) = (Raise, y)"
  "shrink (Illegal, y) = (Illegal, y)" "shrink (if c then a else b) = (if c then shrink a else shrink b)"
  by (simp_all add: shrink_def)

lemma shrink_mem [simp]:
  "shrink (load_then E sz a y k) = load_then E sz a y (\<lambda>v y1. shrink (k v y1))"
  "shrink (store_then E sz a v y l) = store_then E sz a v y (\<lambda>y1. shrink (l y1))"
  by (simp_all add: load_then_def store_then_def split: prod.split mem_res.split bool.split)

lemma fields_spec:
  "gather [(2, 15), (1, 14), (0, 13)] insn = drop_bit 13 insn AND 7" "gather [(1, 11), (0, 10)] insn = drop_bit 10 insn AND 3"
  "gather [(2, 12), (1, 6), (0, 5)] insn = (drop_bit 5 insn AND 3) OR (drop_bit 10 insn AND 4)"
  "gather [(4, 11), (3, 10), (2, 9), (1, 8), (0, 7)] insn = drop_bit 7 insn AND 0x1f"
  "gather [(4, 6), (3, 5), (2, 4), (1, 3), (0, 2)] insn = drop_bit 2 insn AND 0x1f"
  "8 OR gather [(2, 4), (1, 3), (0, 2)] insn = (drop_bit 2 insn AND 7) OR 8"
  "8 OR gather [(2, 9), (1, 8), (0, 7)] insn = (drop_bit 7 insn AND 7) OR 8"
  by (rule word32_eqI; simp add: bit_simps gather_def flip: numeral_2_eq_2 numeral_3_eq_3)+

lemmas rvc_fields = fields_spec imm_spec [symmetric] insn_rd_def [symmetric] c_rd'_def [symmetric] c_rs1'_def [symmetric]
  c_rs2_def [symmetric]

lemma low5: "unat ((w :: u32) AND 0x1f) < 32"
proof -
  have "w AND 0x1f = take_bit 5 w" by (rule word32_eqI; simp add: bit_simps)
  then show ?thesis using take_bit_nat_less_exp [of 5 "unat w"] by (simp add: unsigned_take_bit_eq)
qed

lemma rvc_regs [simp]: "c_rd' insn < 32" "c_rs1' insn < 32" "insn_rd insn < 32" "unat (c_rs2 insn) < 32"
proof -
  have "(v AND 7) OR 8 = ((v AND 7) OR 8) AND 0x1f" for v :: u32 by (rule word32_eqI; simp add: bit_simps)
  then show "c_rd' insn < 32" "c_rs1' insn < 32" unfolding c_rd'_def c_rs1'_def by (metis low5)+
  show "insn_rd insn < 32" "unat (c_rs2 insn) < 32" by (simp_all only: insn_rd_def c_rs2_def low5)
qed

lemma shift_fits:
  assumes "\<not> bit insn 12"
  shows "imm_c_shift insn AND 0x20 = 0" "imm_c_shift insn AND -32 = 0" "(imm_c_shift insn OR 0x400) AND -1056 = 0"
    "imm_c_shift insn AND -1056 = 0"
    "(imm_c_shift insn OR 0x400) AND 31 = imm_c_shift insn" "imm_c_shift insn AND 31 = imm_c_shift insn"
    "(imm_c_shift insn OR 0x400) AND 0x400 = 0x400" "imm_c_shift insn AND 0x400 = 0"
  using assms unfolding imm_spec by - (rule word32_eqI; simp add: bit_simps gather_def)+

lemma shift_big: "imm_c_shift insn AND 0x20 = 0 \<longleftrightarrow> \<not> bit insn 12"
proof
  assume "imm_c_shift insn AND 0x20 = 0"
  then have "\<not> bit (imm_c_shift insn AND 0x20) 5" by simp
  then show "\<not> bit insn 12" by (auto simp: imm_spec bit_simps gather_def split: if_splits)
qed (rule shift_fits)

lemma rvc0: "exec_c0 E y insn = (case rvc_expand0 insn of None \<Rightarrow> (Illegal, y) | Some w \<Rightarrow> shrink (exec_insn E ic pc y w))"
  unfolding rvc_expand0_def rvc_fields exec_c0_def Let_def
  by (simp add: exec_insn_def exec_load_def exec_store_def exec_fp_load_def exec_fp_store_def exec_op_imm_def alu_op_imm_def
      imm_i_enc imm_s_enc load_value_def set_reg_def)

lemmas rvc_exec = exec_insn_def exec_load_def exec_store_def exec_fp_load_def exec_fp_store_def exec_op_imm_def exec_op_def
  alu_op_imm_def alu_op_def exec_jal_def exec_jalr_def exec_branch_def branch_cond_def
  imm_i_enc imm_s_enc imm_b_enc imm_j_enc imm_u_enc load_value_def set_reg_def

lemma rvc1_alu: "exec_c1_alu y insn =
    (let ra = c_rs1' insn; rb = c_rd' insn; g = drop_bit 10 insn AND 3; h = (drop_bit 5 insn AND 3) OR (drop_bit 10 insn AND 4);
         w = (if g = 0 then (if bit insn 12 then None else Some (enc_i (imm_c_shift insn) ra 5 ra 0x13))
            else if g = 1 then (if bit insn 12 then None else Some (enc_i (imm_c_shift insn OR 0x400) ra 5 ra 0x13))
            else if g = 2 then Some (enc_i (imm_c_i insn) ra 7 ra 0x13)
            else if h = 0 then Some (enc_r 0x20 rb ra 0 ra)
            else if h = 1 then Some (enc_r 0 rb ra 4 ra)
            else if h = 2 then Some (enc_r 0 rb ra 6 ra)
            else if h = 3 then Some (enc_r 0 rb ra 7 ra)
            else None)
     in case w of None \<Rightarrow> (Illegal, y) | Some w \<Rightarrow> shrink (exec_insn E ic pc y w))"
  unfolding exec_c1_alu_def Let_def
  by (simp add: rvc_exec shift_big shift_fits sh_def)

lemma put_reg_pc: "put_reg r v (set_pc p (put_reg r u z)) = set_pc p (put_reg r v z)"
  "put_reg r v (put_reg r u z) = put_reg r v z"
  by (simp_all add: put_reg_def set_pc_def upd_hart_def)

lemma rvc1:
  assumes "reg y 0 = 0"
  shows "exec_c1 pc y insn = (case rvc_expand1 insn of None \<Rightarrow> (Illegal, y) | Some w \<Rightarrow>
    if drop_bit 13 insn AND 7 = 1 then (Jump, put_reg 1 (pc + 2) (snd (exec_insn E ic pc y w)))
    else shrink (exec_insn E ic pc y w))"
  unfolding rvc_expand1_def rvc_fields exec_c1_def Let_def rvc1_alu [of y insn, where E = E and ic = ic and pc = pc]
  by (simp add: rvc_exec assms put_reg_pc shift_big shift_fits sh_def)

lemma ebreak_exec: "exec_system E ic pc y 0x00100073 = (Raise, pend CAUSE_BREAKPOINT y)"
  by (simp add: exec_system_def exec_priv_def insn_funct3_def Let_def)

lemma bit12: "drop_bit 12 insn AND 1 = (0 :: u32) \<longleftrightarrow> \<not> bit insn 12"
  by (simp add: and_one_eq bit_iff_odd_drop_bit even_iff_mod_2_eq_zero)

lemma slli_imm: "get_field1 insn 12 5 5 OR c_rs2 insn = imm_c_shift insn"
  by (rule word32_eqI; simp add: bit_blast imm_c_shift_def c_rs2_def flip: numeral_2_eq_2 numeral_3_eq_3)

lemma rvc2:
  assumes "reg y 0 = 0"
  shows "exec_c2 E pc y insn = (case rvc_expand2 insn of None \<Rightarrow> (Illegal, y) | Some w \<Rightarrow>
    if drop_bit 13 insn AND 7 = 4 \<and> bit insn 12 \<and> c_rs2 insn = 0 \<and> insn_rd insn \<noteq> 0
    then (Jump, put_reg 1 (pc + 2) (snd (exec_insn E ic pc y w)))
    else shrink (exec_insn E ic pc y w))"
  unfolding rvc_expand2_def rvc_fields exec_c2_def exec_c2_cr_def Let_def slli_imm
  by (simp add: rvc_exec assms put_reg_pc shift_big shift_fits sh_def ebreak_exec bit12 unsigned_eq_0_iff)

lemma word_small: "(w :: u32) \<le> 3 \<Longrightarrow> w = 0 \<or> w = 1 \<or> w = 2 \<or> w = 3"
  unfolding word_unat_eq_iff word_le_nat_alt by auto

lemma rvc_links_fields:
  "rvc_links insn \<longleftrightarrow> insn AND 3 = 1 \<and> drop_bit 13 insn AND 7 = 1 \<or>
     insn AND 3 = 2 \<and> drop_bit 13 insn AND 7 = 4 \<and> bit insn 12 \<and> c_rs2 insn = 0 \<and> insn_rd insn \<noteq> 0"
  unfolding rvc_links_def fields_spec Let_def by (simp add: c_rs2_def insn_rd_def unsigned_eq_0_iff)

text \<open>
  C12. A compressed instruction does exactly what the 32-bit instruction it abbreviates does, for all
  encodings of RV32C with F and D: the same effect on registers, memory, devices and TLB and the
  same exceptions, followed by the instruction two bytes on; the two that link save the address two
  bytes on, and every encoding without a meaning is an illegal instruction that changes nothing. x0
  must hold 0, as it does in every state the machine reaches.
\<close>

theorem rvc_equivalent:
  assumes "reg y 0 = 0" "insn AND 3 \<noteq> 3"
  shows "exec_insn E ic pc y insn =
    (case rvc_expand insn of
       None \<Rightarrow> (Illegal, y)
     | Some w \<Rightarrow> if rvc_links insn then (Jump, put_reg 1 (pc + 2) (snd (exec_insn E ic pc y w)))
                 else shrink (exec_insn E ic pc y w))"
proof -
  have "insn AND 3 = 0 \<or> insn AND 3 = 1 \<or> insn AND 3 = 2"
    using word_small [of "insn AND 3"] and3_le [of insn] assms(2) by (simp add: word_le_nat_alt)
  then consider (q0) "insn AND 3 = 0" | (q1) "insn AND 3 = 1" | (q2) "insn AND 3 = 2" by blast
  then show ?thesis
  proof cases
    case q0
    then have "\<not> rvc_links insn" "exec_insn E ic pc y insn = exec_c0 E y insn" "rvc_expand insn = rvc_expand0 insn"
      by (simp_all add: rvc_links_fields exec_insn_def rvc_expand_def Let_def)
    then show ?thesis using rvc0 [of E y insn ic pc] by (simp split: option.split)
  next
    case q1
    then have "rvc_links insn \<longleftrightarrow> drop_bit 13 insn AND 7 = 1" "exec_insn E ic pc y insn = exec_c1 pc y insn"
      "rvc_expand insn = rvc_expand1 insn"
      by (simp_all add: rvc_links_fields exec_insn_def rvc_expand_def Let_def)
    then show ?thesis using rvc1 [OF assms(1), of pc insn E ic] by (simp split: option.split)
  next
    case q2
    then have "rvc_links insn \<longleftrightarrow> drop_bit 13 insn AND 7 = 4 \<and> bit insn 12 \<and> c_rs2 insn = 0 \<and> insn_rd insn \<noteq> 0"
      "exec_insn E ic pc y insn = exec_c2 E pc y insn" "rvc_expand insn = rvc_expand2 insn"
      by (simp_all add: rvc_links_fields exec_insn_def rvc_expand_def Let_def)
    then show ?thesis using rvc2 [OF assms(1), of E pc insn ic] by (simp split: option.split)
  qed
qed

theorem rvc_equivalent_witness:
  "\<forall>E ic pc. exec_insn E ic pc ram_demo 0x4398 = shrink (exec_insn E ic pc ram_demo 0x0007a703)"
proof (intro allI)
  fix E ic pc
  have "reg ram_demo 0 = 0"
    by (simp add: reg_def ram_demo_def riscv_cpu_boot_smode_def riscv_cpu_init_def cpu_zero_def)
  moreover have "rvc_expand 0x4398 = Some 0x0007a703" "\<not> rvc_links 0x4398"
    by (simp_all add: rvc_expand_def rvc_expand0_def rvc_links_def gather_def enc_i_def)
  ultimately show "exec_insn E ic pc ram_demo 0x4398 = shrink (exec_insn E ic pc ram_demo 0x0007a703)"
    using rvc_equivalent [of ram_demo "0x4398" E ic pc] by simp
qed

section \<open>Single-precision values in 64-bit registers\<close>

text \<open>A single-precision value is held with its upper 32 bits all ones.\<close>

definition boxed :: "u64 \<Rightarrow> bool" where
  "boxed v \<longleftrightarrow> v AND F32_HIGH = F32_HIGH"

lemma boxed_iff: "boxed v \<longleftrightarrow> (\<forall>n. 32 \<le> n \<and> n < 64 \<longrightarrow> bit v n)"
  by (auto simp: boxed_def F32_HIGH_def bit_eq_iff bit_simps)

lemma sign_mask_bits: "bit (FSIGN_MASK False) n \<longleftrightarrow> 31 \<le> n \<and> n < 64"
proof -
  have "FSIGN_MASK False = NOT (mask 31)" by (simp add: FSIGN_MASK_def mask_eq_exp_minus_1)
  then show ?thesis by (auto simp: bit_simps)
qed

lemma fpreg_put: "fpreg (put_fp r v y) r = v"
  by (simp add: fpreg_def put_fp_def upd_hart_def)

lemma sgnj_boxed:
  assumes "boxed a" "boxed b"
  shows "boxed ((a AND NOT (FSIGN_MASK False)) OR (b AND FSIGN_MASK False))"
    "\<not> boxed ((a AND NOT (FSIGN_MASK False)) OR ((b AND FSIGN_MASK False) XOR FSIGN_MASK False))"
    "\<not> boxed (a XOR (b AND FSIGN_MASK False))"
  using assms by (auto simp: boxed_iff bit_simps sign_mask_bits intro!: exI [of _ 32])

lemma boxed_scast: "boxed (scast (w :: u32)) \<longleftrightarrow> bit w 31"
  by (auto simp: boxed_iff bit_simps min_def dest: spec [of _ 32])

lemma boxed_or: "boxed (v OR F32_HIGH)" "boxed (fp_res False v)"
  by (auto simp: boxed_iff F32_HIGH_def fp_res_def bit_simps)



end
