(* ===== verification/Slots.thy ===== *)
theory Slots
  imports Emu_Prelude
begin

text \<open>
  Image storage: the two slots of the NOR flash as the board describes them (\<open>src/platform_zephyr.c\<close>
  and its devicetree), the on-flash container (\<open>src/image.h\<close>), the length a push may have
  (\<open>img_max_len()\<close>) and the check of a slot at boot (\<open>slot_check()\<close> and the kernel tests in
  \<open>src/main.c\<close>). Flash is read through the memory-mapped window, a function from flash offsets to
  bytes; \<open>crc32_ieee()\<close>, a function of the kernel's library, is an argument.
\<close>

section \<open>Geometry\<close>

definition PLAT_SLOT_KERNEL :: int where "PLAT_SLOT_KERNEL = 0"
definition PLAT_SLOT_ROOTFS :: int where "PLAT_SLOT_ROOTFS = 1"
definition PLAT_SLOT_COUNT :: int where "PLAT_SLOT_COUNT = 2"
definition OSPI_MMAP_BASE :: u32 where "OSPI_MMAP_BASE = 0x90000000"
definition OSPI_ERASE_SZ :: u32 where "OSPI_ERASE_SZ = 256 * 1024"
definition OSPI_SIZE :: u32 where "OSPI_SIZE = 64 * 1024 * 1024"
definition OSPI_WRITABLE_END :: u32 where "OSPI_WRITABLE_END = OSPI_SIZE - OSPI_ERASE_SZ"
definition IMG_HDR_SIZE :: u32 where "IMG_HDR_SIZE = 16"
definition IMG_PAYLOAD_OFF :: u32 where "IMG_PAYLOAD_OFF = 4096"
definition IMG_KERNEL_RAM_RESERVE :: u32 where "IMG_KERNEL_RAM_RESERVE = 0x100000"
definition FLASH_ECC_UNIT :: u32 where "FLASH_ECC_UNIT = 16"

lemmas slot_consts = PLAT_SLOT_KERNEL_def PLAT_SLOT_ROOTFS_def PLAT_SLOT_COUNT_def OSPI_MMAP_BASE_def
  OSPI_ERASE_SZ_def OSPI_SIZE_def OSPI_WRITABLE_END_def IMG_HDR_SIZE_def IMG_PAYLOAD_OFF_def
  IMG_KERNEL_RAM_RESERVE_def FLASH_ECC_UNIT_def

text \<open>Offset and size of each slot, from the devicetree.\<close>

definition slots :: "(u32 \<times> u32) list" where
  "slots = [(0x40000, 0x800000), (0x840000, 0x37c0000)]"

definition plat_slot_base :: "int \<Rightarrow> u32 option \<times> u32" where
  "plat_slot_base slot =
     (if slot < 0 \<or> slot \<ge> PLAT_SLOT_COUNT then (None, 0)
      else (Some (OSPI_MMAP_BASE + fst (slots ! nat slot)), snd (slots ! nat slot)))"

text \<open>The offset, and the size a push may use: the last erase block of the chip is never handed out.\<close>

definition plat_slot_offset :: "int \<Rightarrow> u32 \<times> u32" where
  "plat_slot_offset slot =
     (if slot < 0 \<or> slot \<ge> PLAT_SLOT_COUNT then (0xFFFFFFFF, 0)
      else let off = fst (slots ! nat slot); end0 = off + snd (slots ! nat slot);
               end1 = (if end0 > OSPI_WRITABLE_END then OSPI_WRITABLE_END else end0)
           in (off, if end1 > off then end1 - off else 0))"

definition plat_flash_erase_size :: u32 where
  "plat_flash_erase_size = OSPI_ERASE_SZ"

text \<open>\<open>ROUND_UP()\<close> on 32-bit longs, which wraps.\<close>

definition round_up :: "u32 \<Rightarrow> u32 \<Rightarrow> u32" where
  "round_up x a = ((x + (a - 1)) div a) * a"

definition img_max_len :: "u32 \<Rightarrow> int \<Rightarrow> u32" where
  "img_max_len ram_size slot =
     (let writable = snd (plat_slot_offset slot)
      in if writable \<le> IMG_PAYLOAD_OFF then 0
         else let cap = writable - IMG_PAYLOAD_OFF;
                  ram_cap = (if ram_size > IMG_KERNEL_RAM_RESERVE then ram_size - IMG_KERNEL_RAM_RESERVE else 0)
              in if slot = PLAT_SLOT_KERNEL \<and> cap > ram_cap then ram_cap else cap)"

definition img_accept_len :: "u32 \<Rightarrow> int \<Rightarrow> u32 \<Rightarrow> bool" where
  "img_accept_len ram_size slot len \<longleftrightarrow> \<not> (len = 0 \<or> len > img_max_len ram_size slot)"

section \<open>The container\<close>

definition chr :: "string \<Rightarrow> u8 list" where
  "chr s = map (\<lambda>c. of_nat (of_char c)) s"

definition img_slot_magic :: "int \<Rightarrow> u8 list" where
  "img_slot_magic slot =
     (if slot = PLAT_SLOT_KERNEL then chr ''RA8LINUX'' else if slot = PLAT_SLOT_ROOTFS then chr ''RA8ROOTF'' else [])"

definition img_slot_name :: "int \<Rightarrow> u8 list" where
  "img_slot_name slot =
     (if slot = PLAT_SLOT_KERNEL then chr ''kernel'' else if slot = PLAT_SLOT_ROOTFS then chr ''rootfs'' else chr ''?'')"

record img_hdr =
  ih_magic :: "u8 list"
  ih_len :: u32
  ih_crc :: u32

definition img_hdr_bytes :: "img_hdr \<Rightarrow> u8 list" where
  "img_hdr_bytes h = ih_magic h @ le_bytes 4 (ih_len h) @ le_bytes 4 (ih_crc h)"

text \<open>A header read in place through the window at a flash offset.\<close>

definition img_hdr_at :: "block \<Rightarrow> nat \<Rightarrow> img_hdr" where
  "img_hdr_at w off = \<lparr>ih_magic = mem_read w off 8, ih_len = of_le (mem_read w (off + 8) 4),
     ih_crc = of_le (mem_read w (off + 12) 4)\<rparr>"

text \<open>\<open>slot_check()\<close> at boot: the payload's flash offset and length.\<close>

definition slot_check :: "(u8 list \<Rightarrow> u32) \<Rightarrow> block \<Rightarrow> int \<Rightarrow> bool \<Rightarrow> (nat \<times> u32) option" where
  "slot_check crc w slot verify =
     (let (base, slot_size) = plat_slot_base slot
      in case base of
           None \<Rightarrow> None
         | Some p \<Rightarrow>
             if slot_size \<le> IMG_PAYLOAD_OFF then None
             else let off = unat (p - OSPI_MMAP_BASE); h = img_hdr_at w off; payload = off + unat IMG_PAYLOAD_OFF
                  in if ih_magic h \<noteq> img_slot_magic slot then None
                     else if ih_len h = 0 \<or> ih_len h > slot_size - IMG_PAYLOAD_OFF then None
                     else if verify \<and> crc (mem_read w payload (unat (ih_len h))) \<noteq> ih_crc h then None
                     else Some (payload, ih_len h))"

text \<open>The pusher's own check of what it wrote: 0, or the negative reason; the length when 0.\<close>

definition img_check :: "(u8 list \<Rightarrow> u32) \<Rightarrow> u32 \<Rightarrow> block \<Rightarrow> int \<Rightarrow> bool \<Rightarrow> int \<times> u32" where
  "img_check crc ram_size w slot verify =
     (case fst (plat_slot_base slot) of
        None \<Rightarrow> (- 1, 0)
      | Some p \<Rightarrow>
          (let off = unat (p - OSPI_MMAP_BASE); h = img_hdr_at w off; body = off + unat IMG_PAYLOAD_OFF
           in if ih_magic h \<noteq> img_slot_magic slot then (- 1, 0)
              else if ih_len h = 0 \<or> ih_len h > img_max_len ram_size slot then (- 2, 0)
              else if verify \<and> crc (mem_read w body (unat (ih_len h))) \<noteq> ih_crc h then (- 3, 0)
              else (0, ih_len h)))"

text \<open>What \<open>main()\<close> makes of a kernel slot that checks out: the RISC-V Image tests.\<close>

definition RV_IMAGE_MAGIC2 :: u32 where "RV_IMAGE_MAGIC2 = 0x05435352"
definition RV_IMAGE_MAGIC2_OFF :: nat where "RV_IMAGE_MAGIC2_OFF = 56"
definition RV_IMAGE_TEXTOFF_OFF :: nat where "RV_IMAGE_TEXTOFF_OFF = 8"
definition RV_IMAGE_MMODE_TEXT_OFFSET :: u32 where "RV_IMAGE_MMODE_TEXT_OFFSET = 0"

definition kernel_bootable :: "block \<Rightarrow> nat \<Rightarrow> u32 \<Rightarrow> bool" where
  "kernel_bootable w kern klen =
     (let magic2 = (if klen \<ge> 64 then of_le (mem_read w (kern + RV_IMAGE_MAGIC2_OFF) 4) else 0);
          mmode = (magic2 = RV_IMAGE_MAGIC2 \<and> klen \<ge> 64 \<and>
            of_le (mem_read w (kern + RV_IMAGE_TEXTOFF_OFF) 4) = RV_IMAGE_MMODE_TEXT_OFFSET)
      in \<not> mmode \<and> magic2 = RV_IMAGE_MAGIC2)"

text \<open>
  The images of a boot: kernel and rootfs as payloads of the two slots; without a bootable kernel
  the built-in self-test runs and the rootfs is not used.
\<close>

definition boot_slots :: "(u8 list \<Rightarrow> u32) \<Rightarrow> bool \<Rightarrow> bool \<Rightarrow> block \<Rightarrow> (nat \<times> u32) option \<times> (nat \<times> u32) option" where
  "boot_slots crc force_selftest crc_rootfs w =
     (let kern0 = (if force_selftest then None else slot_check crc w PLAT_SLOT_KERNEL True);
          rootfs = slot_check crc w PLAT_SLOT_ROOTFS crc_rootfs;
          kern = (case kern0 of None \<Rightarrow> None | Some (p, l) \<Rightarrow> if kernel_bootable w p l then Some (p, l) else None)
      in case kern of None \<Rightarrow> (None, None) | Some k \<Rightarrow> (Some k, rootfs))"

section \<open>Bounds\<close>

definition slot_ok :: "int \<Rightarrow> bool" where
  "slot_ok slot \<longleftrightarrow> slot = PLAT_SLOT_KERNEL \<or> slot = PLAT_SLOT_ROOTFS"

lemma slot_cases: "slot_ok slot \<longleftrightarrow> 0 \<le> slot \<and> slot < PLAT_SLOT_COUNT"
  by (auto simp: slot_ok_def slot_consts)

lemma plat_slot_offset_values:
  "plat_slot_offset PLAT_SLOT_KERNEL = (0x40000, 0x800000)"
  "plat_slot_offset PLAT_SLOT_ROOTFS = (0x840000, 0x3780000)"
  by (simp_all add: plat_slot_offset_def slots_def slot_consts)

lemmas slot_numbers = PLAT_SLOT_KERNEL_def PLAT_SLOT_ROOTFS_def
lemmas plat_slot_offset_at = plat_slot_offset_values [unfolded slot_numbers]

lemma plat_slot_base_values:
  "plat_slot_base PLAT_SLOT_KERNEL = (Some 0x90040000, 0x800000)"
  "plat_slot_base PLAT_SLOT_ROOTFS = (Some 0x90840000, 0x37c0000)"
  by (simp_all add: plat_slot_base_def slots_def slot_consts)

text \<open>Where a push may write: flash offsets of each slot, the end excluded.\<close>

definition slot_lo :: "int \<Rightarrow> nat" where
  "slot_lo slot = unat (fst (plat_slot_offset slot))"

definition slot_hi :: "int \<Rightarrow> nat" where
  "slot_hi slot = slot_lo slot + unat (snd (plat_slot_offset slot))"

lemma slot_bounds:
  "slot_lo PLAT_SLOT_KERNEL = 0x40000" "slot_hi PLAT_SLOT_KERNEL = 0x840000"
  "slot_lo PLAT_SLOT_ROOTFS = 0x840000" "slot_hi PLAT_SLOT_ROOTFS = 0x3FC0000"
  by (simp_all add: slot_lo_def slot_hi_def plat_slot_offset_values)

lemmas slot_bounds_at = slot_bounds [unfolded slot_numbers]

lemma slot_bounds_common:
  assumes "slot_ok slot"
  shows "slot_lo slot mod 0x40000 = 0" "slot_hi slot mod 0x40000 = 0" "slot_lo slot < slot_hi slot"
    "slot_hi slot \<le> unat OSPI_WRITABLE_END"
  using assms by (auto simp: slot_ok_def slot_bounds) (simp_all add: slot_consts)

lemma img_max_len_le:
  assumes "slot_ok slot"
  shows "unat (img_max_len ram_size slot) + 4096 \<le> slot_hi slot - slot_lo slot"
proof -
  consider "slot = PLAT_SLOT_KERNEL" | "slot = PLAT_SLOT_ROOTFS" using assms by (auto simp: slot_ok_def)
  then show ?thesis
  proof cases
    case 1
    have "img_max_len ram_size slot \<le> 0x7FF000"
      by (auto simp: 1 img_max_len_def plat_slot_offset_at slot_consts Let_def)
    then have "unat (img_max_len ram_size slot) \<le> 0x7FF000" by (simp add: word_le_nat_alt)
    then show ?thesis by (simp add: 1 slot_bounds)
  next
    case 2
    then show ?thesis by (simp add: img_max_len_def plat_slot_offset_at slot_bounds_at slot_consts Let_def)
  qed
qed

lemma round_up_nat:
  assumes "unat x + unat a \<le> 2 ^ 32" "0 < unat a"
  shows "unat (round_up x a) = (unat x + unat a - 1) div unat a * unat a"
proof -
  have a1: "unat (a - 1) = unat a - 1" using assms(2) by (simp add: unat_minus_one unat_gt_0)
  have s: "unat (x + (a - 1)) = unat x + unat a - 1"
    using assms a1 by (simp add: unat_word_ariths)
  have "(unat x + unat a - 1) div unat a * unat a \<le> unat x + unat a - 1" by simp
  also have "\<dots> < 2 ^ 32" using assms by simp
  finally have r: "(unat x + unat a - 1) div unat a * unat a < 2 ^ 32" .
  have "unat ((x + (a - 1)) div a) = (unat x + unat a - 1) div unat a" by (simp only: unat_div s)
  with r show ?thesis unfolding round_up_def by (simp only: unat_word_ariths) simp
qed

lemma nat_round_up:
  fixes x B :: nat
  assumes "0 < B"
  shows "x \<le> (x + B - 1) div B * B" "x \<le> m * B \<Longrightarrow> (x + B - 1) div B * B \<le> m * B" "(x + B - 1) div B * B < x + B"
    "(x + B - 1) div B * B mod B = 0"
proof -
  have e: "(x + B - 1) div B * B + (x + B - 1) mod B = x + B - 1" by simp
  have "(x + B - 1) mod B < B" using assms by simp
  then show "x \<le> (x + B - 1) div B * B" "(x + B - 1) div B * B < x + B" using e assms by linarith+
  show "(x + B - 1) div B * B mod B = 0" by simp
  assume "x \<le> m * B"
  then have "x + B - 1 < Suc m * B" using assms by simp
  then have "(x + B - 1) div B < Suc m" by (rule less_mult_imp_div_less)
  then show "(x + B - 1) div B * B \<le> m * B" by simp
qed

text \<open>
  An accepted length is erased inside its slot: the span \<open>img_erase()\<close> computes does not wrap,
  is a whole number of erase blocks, covers header and payload, and stays inside the writable part of
  the slot, below the reserved last block of the chip; the spans of the two slots do not meet.
\<close>

lemma push_span:
  assumes "slot_ok slot" "img_accept_len ram_size slot len"
  shows "let need = unat (round_up (len + IMG_PAYLOAD_OFF) plat_flash_erase_size) in
    need mod 0x40000 = 0 \<and> unat len + 4096 \<le> need \<and> slot_lo slot mod 0x40000 = 0 \<and>
    slot_lo slot + need \<le> slot_hi slot \<and> slot_hi slot \<le> unat OSPI_WRITABLE_END \<and>
    slot_hi PLAT_SLOT_KERNEL \<le> slot_lo PLAT_SLOT_ROOTFS"
proof -
  let ?need = "unat (round_up (len + IMG_PAYLOAD_OFF) plat_flash_erase_size)"
  let ?room = "slot_hi slot - slot_lo slot"
  have "unat len \<le> unat (img_max_len ram_size slot)"
    using assms(2) by (simp add: img_accept_len_def word_le_nat_alt not_less)
  then have len: "unat len + 4096 \<le> ?room" using img_max_len_le [OF assms(1), of ram_size] by simp
  have room: "?room \<le> 0x4000000" "?room mod 0x40000 = 0" using assms(1) by (auto simp: slot_ok_def slot_bounds)
  have "unat (len + IMG_PAYLOAD_OFF) = unat len + 4096"
    using len room(1) by (simp add: unat_word_ariths IMG_PAYLOAD_OFF_def)
  then have need: "?need = (unat len + 4096 + 0x40000 - 1) div 0x40000 * 0x40000"
    using round_up_nat [of "len + IMG_PAYLOAD_OFF" plat_flash_erase_size] len room(1)
    by (simp add: plat_flash_erase_size_def OSPI_ERASE_SZ_def)
  obtain m where m: "?room = m * 0x40000" using room(2) by (auto elim!: dvdE simp: mod_eq_0_iff_dvd mult.commute)
  have "?need mod 0x40000 = 0" "unat len + 4096 \<le> ?need" "?need \<le> ?room"
    unfolding need m using nat_round_up(1,4) [of "0x40000" "unat len + 4096"] nat_round_up(2) [of "0x40000" "unat len + 4096" m] len m
    by simp_all
  moreover have "slot_lo slot + ?room = slot_hi slot" using slot_bounds_common(3) [OF assms(1)] by simp
  ultimately show ?thesis unfolding Let_def
    using slot_bounds_common [OF assms(1)] slot_bounds(2,3) by (intro conjI) linarith+
qed

end
