(* ===== verification/Flash_Writer.thy ===== *)
theory Flash_Writer
  imports Slots
begin

text \<open>
  The payload phase of a push (\<open>nl_push()\<close> and \<open>nl_writer()\<close> in \<open>src/pusher.c\<close>): the listener
  fills one of two buffers from the socket while the writer thread programs the other, with two
  counting semaphores between them and a zero-length buffer as the end. Each blocking call, receive
  and program is one action; a schedule is any list of actions, and an action that is not possible
  (a thread that is blocked) changes nothing.
\<close>

section \<open>Actions\<close>

definition NL_BUF :: nat where "NL_BUF = 8192"
definition NL_UNIT :: nat where "NL_UNIT = 16"

text \<open>What a push does that can be seen from outside, in the order it happens.\<close>

datatype push_ev =
    N_Sent "u8 list"
  | N_Poll
  | N_Recv "u8 list"                \<comment> \<open>payload bytes\<close>
  | N_Header "u8 list"              \<comment> \<open>bytes of the ten-byte request\<close>
  | Clock
  | H_Poweroff                      \<comment> \<open>\<open>rv_request_poweroff()\<close>\<close>
  | H_Stopped                       \<comment> \<open>the run loop is known to have returned\<close>
  | B_Suspend                       \<comment> \<open>\<open>rvt_netbridge_suspend()\<close>\<close>
  | F_Erase nat nat int
  | F_Write nat "u8 list" int
  | F_Inval                         \<comment> \<open>\<open>sys_cache_data_invd_range()\<close>\<close>

text \<open>
  Where the listener is (waiting for a buffer, filling it, out of the loop with a buffer in hand,
  joining the writer; given up waiting for a buffer, joined, given up joining) and where the writer is.
\<close>

datatype nl_prod = PP_Top | PP_Fill | PP_Exit | PP_Join | PP_Stalled | PP_Done | PP_Lost
datatype nl_wr = WR_Wait | WR_Busy | WR_Exit

text \<open>
  \<open>nl_buf\<close> holds the bytes stored so far in each buffer. The last two fields are ghosts: buffers
  handed over and buffers handed back.
\<close>

record nl_st =
  nl_off :: nat
  nl_i :: nat
  nl_buf :: "nat \<Rightarrow> u8 list"
  nl_blen :: "nat \<Rightarrow> nat"
  nl_boff :: "nat \<Rightarrow> nat"
  nl_free :: nat
  nl_filled :: nat
  nl_wrc :: bool
  nl_failed :: bool
  nl_p :: nl_prod
  nl_w :: nat
  nl_wr :: nl_wr
  nl_ev :: "push_ev list"
  nl_k :: nat
  nl_d :: nat

datatype nl_act =
    A_Take | A_Timeout | A_Recv "u8 list" bool | A_Rx_Fail | A_Hand | A_Sentinel | A_Join | A_Join_Timeout
  | W_Take | W_Done int

definition nl_start :: nl_st where
  "nl_start = \<lparr>nl_off = 0, nl_i = 0, nl_buf = (\<lambda>_. []), nl_blen = (\<lambda>_. 0), nl_boff = (\<lambda>_. 0), nl_free = 2, nl_filled = 0,
     nl_wrc = False, nl_failed = False, nl_p = PP_Top, nl_w = 0, nl_wr = WR_Wait, nl_ev = [], nl_k = 0, nl_d = 0\<rparr>"

definition nl_want :: "nat \<Rightarrow> nl_st \<Rightarrow> nat" where
  "nl_want len q = min NL_BUF (len - nl_off q)"

definition nl_round :: "nat \<Rightarrow> nat" where
  "nl_round n = (n + (NL_UNIT - 1)) div NL_UNIT * NL_UNIT"

text \<open>\<open>base\<close> is the flash offset of the payload, \<open>len\<close> its length.\<close>

fun nl_do :: "nat \<Rightarrow> nat \<Rightarrow> nl_act \<Rightarrow> nl_st \<Rightarrow> nl_st option" where
  "nl_do base len A_Take q =
     (if nl_p q = PP_Top \<and> nl_free q > 0
      then Some (if nl_off q \<ge> len \<or> nl_wrc q then q\<lparr>nl_free := nl_free q - 1, nl_p := PP_Exit\<rparr>
                 else q\<lparr>nl_free := nl_free q - 1, nl_p := PP_Fill, nl_buf := (nl_buf q)(nl_i q := [])\<rparr>)
      else None)"
| "nl_do base len A_Timeout q =
     (if nl_p q = PP_Top \<and> nl_free q = 0 then Some (q\<lparr>nl_p := PP_Stalled, nl_failed := True\<rparr>) else None)"
| "nl_do base len (A_Recv bs late) q =
     (let have0 = length (nl_buf q (nl_i q))
      in if nl_p q = PP_Fill \<and> have0 < nl_want len q \<and> bs \<noteq> [] \<and> length bs \<le> nl_want len q - have0
         then let q1 = q\<lparr>nl_buf := (nl_buf q)(nl_i q := nl_buf q (nl_i q) @ bs), nl_ev := nl_ev q @ [N_Recv bs]\<rparr>
              in Some (if late then q1\<lparr>nl_failed := True, nl_p := PP_Exit\<rparr> else q1)
         else None)"
| "nl_do base len A_Rx_Fail q =
     (if nl_p q = PP_Fill \<and> length (nl_buf q (nl_i q)) < nl_want len q
      then Some (q\<lparr>nl_failed := True, nl_p := PP_Exit\<rparr>) else None)"
| "nl_do base len A_Hand q =
     (let i = nl_i q; have0 = length (nl_buf q i); n = nl_round have0
      in if nl_p q = PP_Fill \<and> have0 = nl_want len q
         then Some (q\<lparr>nl_blen := (nl_blen q)(i := n), nl_buf := (nl_buf q)(i := nl_buf q i @ replicate (n - have0) 0xFF),
                nl_boff := (nl_boff q)(i := base + nl_off q), nl_filled := min 2 (nl_filled q + 1),
                nl_off := nl_off q + have0, nl_i := 1 - i, nl_p := PP_Top, nl_k := nl_k q + 1\<rparr>)
         else None)"
| "nl_do base len A_Sentinel q =
     (if nl_p q = PP_Exit
      then Some (q\<lparr>nl_blen := (nl_blen q)(nl_i q := 0), nl_filled := min 2 (nl_filled q + 1), nl_p := PP_Join\<rparr>) else None)"
| "nl_do base len A_Join q = (if nl_p q = PP_Join \<and> nl_wr q = WR_Exit then Some (q\<lparr>nl_p := PP_Done\<rparr>) else None)"
| "nl_do base len A_Join_Timeout q = (if nl_p q = PP_Join \<and> nl_wr q \<noteq> WR_Exit then Some (q\<lparr>nl_p := PP_Lost\<rparr>) else None)"
| "nl_do base len W_Take q =
     (if nl_wr q = WR_Wait \<and> nl_filled q > 0
      then Some (q\<lparr>nl_filled := nl_filled q - 1, nl_wr := (if nl_blen q (nl_w q) = 0 then WR_Exit else WR_Busy)\<rparr>) else None)"
| "nl_do base len (W_Done rc) q =
     (if nl_wr q = WR_Busy
      then let w = nl_w q;
               q1 = (if nl_wrc q then q
                     else q\<lparr>nl_ev := nl_ev q @ [F_Write (nl_boff q w) (take (nl_blen q w) (nl_buf q w)) rc], nl_wrc := rc \<noteq> 0\<rparr>)
           in Some (q1\<lparr>nl_free := min 2 (nl_free q + 1), nl_w := 1 - w, nl_wr := WR_Wait, nl_d := nl_d q + 1\<rparr>)
      else None)"

fun nl_run :: "nat \<Rightarrow> nat \<Rightarrow> nl_act list \<Rightarrow> nl_st \<Rightarrow> nl_st" where
  "nl_run base len [] q = q"
| "nl_run base len (a # as) q = nl_run base len as (case nl_do base len a q of None \<Rightarrow> q | Some q' \<Rightarrow> q')"

section \<open>The invariant\<close>

definition ev_recv :: "push_ev list \<Rightarrow> u8 list" where
  "ev_recv es = concat (map (\<lambda>e. case e of N_Recv bs \<Rightarrow> bs | _ \<Rightarrow> []) es)"

definition ev_writes :: "push_ev list \<Rightarrow> (nat \<times> u8 list) list" where
  "ev_writes es = concat (map (\<lambda>e. case e of F_Write a bs rc \<Rightarrow> [(a, bs)] | _ \<Rightarrow> []) es)"

definition ev_rcs :: "push_ev list \<Rightarrow> int list" where
  "ev_rcs es = concat (map (\<lambda>e. case e of F_Write a bs rc \<Rightarrow> [rc] | _ \<Rightarrow> []) es)"

lemma ev_append [simp]:
  "ev_recv [] = []" "ev_recv (xs @ ys) = ev_recv xs @ ev_recv ys" "ev_writes [] = []" "ev_writes (xs @ ys) = ev_writes xs @ ev_writes ys"
  "ev_rcs [] = []" "ev_rcs (xs @ ys) = ev_rcs xs @ ev_rcs ys"
  "ev_recv [N_Recv bs] = bs" "ev_writes [N_Recv bs] = []" "ev_rcs [N_Recv bs] = []"
  "ev_recv [F_Write a bs rc] = []" "ev_writes [F_Write a bs rc] = [(a, bs)]" "ev_rcs [F_Write a bs rc] = [rc]"
  by (simp_all add: ev_recv_def ev_writes_def ev_rcs_def)

text \<open>Buffer \<open>c\<close> of a stream, as it must be programmed: its bytes, padded with 255 to the ECC unit.\<close>

definition pad_unit :: "u8 list \<Rightarrow> u8 list" where
  "pad_unit bs = bs @ replicate (nl_round (length bs) - length bs) 0xFF"

definition nl_chunk :: "nat \<Rightarrow> u8 list \<Rightarrow> nat \<Rightarrow> nat \<times> u8 list" where
  "nl_chunk base st c = (base + c * NL_BUF, pad_unit (take NL_BUF (drop (c * NL_BUF) st)))"

definition nl_hold :: "nl_st \<Rightarrow> nat" where
  "nl_hold q = (if nl_p q = PP_Top \<or> nl_p q = PP_Stalled then 0 else 1)"

definition nl_sent :: "nl_st \<Rightarrow> nat" where
  "nl_sent q = (if nl_p q \<in> {PP_Join, PP_Done, PP_Lost} then 1 else 0)"

definition nl_queue_ok :: "nl_st \<Rightarrow> bool" where
  "nl_queue_ok q \<longleftrightarrow> nl_d q \<le> nl_k q \<and> nl_i q = nl_k q mod 2 \<and> nl_w q = nl_d q mod 2 \<and>
     nl_free q + nl_k q + nl_hold q = 2 + nl_d q \<and>
     (case nl_wr q of
        WR_Wait \<Rightarrow> nl_filled q + nl_d q = nl_k q + nl_sent q
      | WR_Busy \<Rightarrow> nl_filled q + nl_d q + 1 = nl_k q + nl_sent q \<and> nl_d q < nl_k q
      | WR_Exit \<Rightarrow> nl_filled q = 0 \<and> nl_k q = nl_d q \<and> nl_sent q = 1) \<and>
     (nl_p q = PP_Done \<longrightarrow> nl_wr q = WR_Exit) \<and>
     (nl_sent q = 1 \<longrightarrow> nl_blen q (nl_i q) = 0)"

definition nl_bufs_ok :: "nat \<Rightarrow> nat \<Rightarrow> nl_st \<Rightarrow> bool" where
  "nl_bufs_ok base len q \<longleftrightarrow>
     (\<forall>c. nl_d q \<le> c \<and> c < nl_k q \<longrightarrow>
        (nl_boff q (c mod 2), nl_buf q (c mod 2)) = nl_chunk base (ev_recv (nl_ev q)) c \<and>
        nl_blen q (c mod 2) = length (nl_buf q (c mod 2)) \<and> nl_buf q (c mod 2) \<noteq> []) \<and>
     nl_off q = min len (nl_k q * NL_BUF) \<and> (nl_k q > 0 \<longrightarrow> (nl_k q - 1) * NL_BUF < len) \<and>
     nl_off q \<le> length (ev_recv (nl_ev q)) \<and> length (ev_recv (nl_ev q)) \<le> len"

definition nl_phase_ok :: "nat \<Rightarrow> nl_st \<Rightarrow> bool" where
  "nl_phase_ok len q \<longleftrightarrow>
     (nl_p q = PP_Fill \<longrightarrow> nl_off q < len \<and> \<not> nl_failed q \<and> drop (nl_off q) (ev_recv (nl_ev q)) = nl_buf q (nl_i q) \<and>
        length (nl_buf q (nl_i q)) \<le> nl_want len q) \<and>
     (nl_p q \<noteq> PP_Fill \<longrightarrow> \<not> nl_failed q \<longrightarrow> length (ev_recv (nl_ev q)) = nl_off q) \<and>
     (nl_p q = PP_Top \<longrightarrow> \<not> nl_failed q) \<and>
     (nl_p q \<notin> {PP_Top, PP_Fill} \<longrightarrow> \<not> nl_failed q \<longrightarrow> nl_wrc q \<or> nl_off q \<ge> len)"

definition nl_data_ok :: "nat \<Rightarrow> nat \<Rightarrow> nl_st \<Rightarrow> bool" where
  "nl_data_ok base len q \<longleftrightarrow> nl_bufs_ok base len q \<and> nl_phase_ok len q"

lemmas nl_data_defs = nl_data_ok_def nl_bufs_ok_def nl_phase_ok_def

definition nl_log_ok :: "nat \<Rightarrow> nl_st \<Rightarrow> bool" where
  "nl_log_ok base q \<longleftrightarrow>
     (\<exists>m \<le> nl_d q. ev_writes (nl_ev q) = map (nl_chunk base (ev_recv (nl_ev q))) [0..<m] \<and>
        (\<not> nl_wrc q \<longrightarrow> m = nl_d q \<and> (\<forall>rc \<in> set (ev_rcs (nl_ev q)). rc = 0)))"

definition nl_inv :: "nat \<Rightarrow> nat \<Rightarrow> nl_st \<Rightarrow> bool" where
  "nl_inv base len q \<longleftrightarrow> nl_queue_ok q \<and> nl_data_ok base len q \<and> nl_log_ok base q"

lemma nl_inv_start: "nl_inv base len nl_start"
  by (simp add: nl_inv_def nl_queue_ok_def nl_data_defs nl_log_ok_def nl_start_def nl_hold_def nl_sent_def)

lemma chunk_stable: "(c + 1) * NL_BUF \<le> length st \<Longrightarrow> nl_chunk base (st @ bs) c = nl_chunk base st c"
  by (simp add: nl_chunk_def)

lemma parity: "1 - k mod 2 = Suc k mod 2" "c < k \<Longrightarrow> k \<le> c + 1 \<Longrightarrow> c mod 2 \<noteq> k mod 2"
  by presburger+

lemma nl_round_ge: "n \<le> nl_round n" "n \<le> m * NL_UNIT \<Longrightarrow> nl_round n \<le> m * NL_UNIT" "nl_round n mod NL_UNIT = 0"
  using nat_round_up(1,4) [of NL_UNIT n] nat_round_up(2) [of NL_UNIT n m] by (simp_all add: nl_round_def NL_UNIT_def)

lemma length_pad_unit: "length (pad_unit bs) = nl_round (length bs)"
  using nl_round_ge(1) [of "length bs"] by (simp add: pad_unit_def)

text \<open>While the listener fills a buffer, all earlier buffers were full.\<close>

lemma nl_fill_full:
  assumes "nl_data_ok base len q" "nl_off q < len"
  shows "nl_off q = nl_k q * NL_BUF"
  using assms by (auto simp: nl_data_defs min_def split: if_splits)

lemma nl_other:
  assumes "nl_queue_ok q" "nl_hold q = 1" "nl_d q \<le> c" "c < nl_k q"
  shows "c mod 2 \<noteq> nl_i q" "c = nl_d q" "nl_k q = Suc c"
proof -
  have e: "nl_free q + nl_k q + 1 = 2 + nl_d q" and i: "nl_i q = nl_k q mod 2"
    using assms(1,2) by (simp_all add: nl_queue_ok_def)
  then show "c = nl_d q" "nl_k q = Suc c" using assms(3,4) by linarith+
  then show "c mod 2 \<noteq> nl_i q" using i parity(2) [of c "nl_k q"] by simp
qed

lemma nl_fill_facts:
  assumes "nl_inv base len q" "nl_p q = PP_Fill"
  shows "nl_off q < len" "\<not> nl_failed q" "drop (nl_off q) (ev_recv (nl_ev q)) = nl_buf q (nl_i q)"
    "nl_off q \<le> length (ev_recv (nl_ev q))"
  using assms unfolding nl_inv_def nl_data_defs by blast+

lemma nl_outstanding:
  assumes "nl_data_ok base len q" "nl_d q \<le> c" "c < nl_k q"
  shows "(nl_boff q (c mod 2), nl_buf q (c mod 2)) = nl_chunk base (ev_recv (nl_ev q)) c"
    "nl_blen q (c mod 2) = length (nl_buf q (c mod 2))" "nl_buf q (c mod 2) \<noteq> []"
  using assms unfolding nl_data_defs by blast+

lemma nl_recv_stable:
  assumes "nl_inv base len q" "nl_off q < len" "c < nl_k q"
  shows "nl_chunk base (ev_recv (nl_ev q) @ bs) c = nl_chunk base (ev_recv (nl_ev q)) c"
proof (rule chunk_stable)
  have "nl_off q = nl_k q * NL_BUF" using assms(1,2) nl_fill_full by (auto simp: nl_inv_def)
  moreover have "(c + 1) * NL_BUF \<le> nl_k q * NL_BUF" using assms(3) by (intro mult_le_mono1) simp
  ultimately show "(c + 1) * NL_BUF \<le> length (ev_recv (nl_ev q))"
    using assms(1) by (simp add: nl_inv_def nl_data_defs)
qed

lemma nl_inv_recv:
  assumes "nl_inv base len q" "nl_do base len (A_Recv bs late) q = Some q'"
  shows "nl_inv base len q'"
proof -
  let ?i = "nl_i q" and ?st = "ev_recv (nl_ev q)"
  from assms(2) have p: "nl_p q = PP_Fill" "length (nl_buf q ?i) < nl_want len q" "bs \<noteq> []"
      "length bs \<le> nl_want len q - length (nl_buf q ?i)"
    and q': "q' = (let q1 = q\<lparr>nl_buf := (nl_buf q)(?i := nl_buf q ?i @ bs), nl_ev := nl_ev q @ [N_Recv bs]\<rparr>
       in if late then q1\<lparr>nl_failed := True, nl_p := PP_Exit\<rparr> else q1)"
    by (auto simp: Let_def split: if_splits)
  have off: "nl_off q < len" and buf: "drop (nl_off q) ?st = nl_buf q ?i" "nl_off q \<le> length ?st"
    using nl_fill_facts [OF assms(1) p(1)] by blast+
  have st: "\<And>c. c < nl_k q \<Longrightarrow> nl_chunk base (?st @ bs) c = nl_chunk base ?st c"
    by (rule nl_recv_stable [OF assms(1) off])
  have len: "length (?st @ bs) \<le> len" using buf p off by (auto simp: nl_want_def dest: arg_cong [of _ _ length])
  have ne: "c mod 2 \<noteq> ?i" if "nl_d q \<le> c" "c < nl_k q" for c
    using nl_other [OF _ _ that] assms(1) p(1) by (simp add: nl_inv_def nl_hold_def)
  have want: "length (nl_buf q ?i @ bs) \<le> nl_want len q" using p(2,4) by simp
  have "nl_queue_ok q'" using assms(1) p(1) unfolding q' nl_inv_def nl_queue_ok_def nl_hold_def nl_sent_def
    by (auto simp: Let_def split: nl_wr.splits)
  moreover have "nl_data_ok base len q'"
    using assms(1) p(1) off buf len ne st want unfolding q' nl_inv_def nl_data_defs
    by (simp add: Let_def nl_want_def)
  moreover have "nl_log_ok base q'"
  proof -
    obtain m where m: "m \<le> nl_d q" "ev_writes (nl_ev q) = map (nl_chunk base ?st) [0..<m]"
      "\<not> nl_wrc q \<longrightarrow> m = nl_d q \<and> (\<forall>rc \<in> set (ev_rcs (nl_ev q)). rc = 0)"
      using assms(1) by (auto simp: nl_inv_def nl_log_ok_def)
    have "m \<le> nl_k q" using m(1) assms(1) by (auto simp: nl_inv_def nl_queue_ok_def)
    then have "map (nl_chunk base ?st) [0..<m] = map (nl_chunk base (?st @ bs)) [0..<m]" using st by auto
    with m show ?thesis unfolding q' nl_log_ok_def by (auto simp: Let_def)
  qed
  ultimately show ?thesis by (simp add: nl_inv_def)
qed

lemma nl_inv_hand:
  assumes "nl_inv base len q" "nl_do base len A_Hand q = Some q'"
  shows "nl_inv base len q'"
proof -
  let ?i = "nl_i q" and ?st = "ev_recv (nl_ev q)" and ?b = "nl_buf q (nl_i q)"
  from assms(2) have p: "nl_p q = PP_Fill" "length ?b = nl_want len q"
    and q': "q' = q\<lparr>nl_blen := (nl_blen q)(?i := nl_round (length ?b)), nl_buf := (nl_buf q)(?i := pad_unit ?b),
       nl_boff := (nl_boff q)(?i := base + nl_off q), nl_filled := min 2 (nl_filled q + 1),
       nl_off := nl_off q + length ?b, nl_i := 1 - ?i, nl_p := PP_Top, nl_k := nl_k q + 1\<rparr>"
    by (auto simp: Let_def pad_unit_def split: if_splits)
  have off: "nl_off q < len" and buf: "drop (nl_off q) ?st = ?b" "nl_off q \<le> length ?st" and nf: "\<not> nl_failed q"
    using nl_fill_facts [OF assms(1) p(1)] by blast+
  have dl: "length ?b = length ?st - nl_off q" using buf(1) by (metis length_drop)
  have full: "nl_off q = nl_k q * NL_BUF" using assms(1) off nl_fill_full by (auto simp: nl_inv_def)
  have want: "length ?b = min NL_BUF (len - nl_off q)" using p(2) by (simp add: nl_want_def)
  have stlen: "length ?st = nl_off q + length ?b" using buf(2) dl by simp
  have ne: "c mod 2 \<noteq> ?i" if "nl_d q \<le> c" "c < nl_k q" for c
    using nl_other [OF _ _ that] assms(1) p(1) by (simp add: nl_inv_def nl_hold_def)
  have i: "?i = nl_k q mod 2" using assms(1) by (simp add: nl_inv_def nl_queue_ok_def)
  have new: "nl_chunk base ?st (nl_k q) = (base + nl_off q, pad_unit ?b)"
    using buf(1) want by (simp add: nl_chunk_def full [symmetric])
  have pos: "pad_unit ?b \<noteq> []" using want off by (auto simp: NL_BUF_def pad_unit_def)
  have "nl_queue_ok q'"
    using assms(1) p(1) parity(1) unfolding q' nl_inv_def nl_queue_ok_def nl_hold_def nl_sent_def
    by (auto split: nl_wr.splits)
  moreover have "nl_data_ok base len q'"
  proof -
    have "(nl_boff q' (c mod 2), nl_buf q' (c mod 2)) = nl_chunk base ?st c \<and>
        nl_blen q' (c mod 2) = length (nl_buf q' (c mod 2)) \<and> nl_buf q' (c mod 2) \<noteq> []" if "nl_d q \<le> c" "c < nl_k q + 1" for c
    proof (cases "c = nl_k q")
      case True
      then show ?thesis using new pos i by (simp add: q' length_pad_unit)
    next
      case False
      with that have c: "nl_d q \<le> c" "c < nl_k q" by simp_all
      from assms(1) have "nl_data_ok base len q" by (simp add: nl_inv_def)
      from nl_outstanding [OF this c] ne [OF c] show ?thesis by (simp add: q')
    qed
    moreover have "nl_off q + length ?b = min len ((nl_k q + 1) * NL_BUF)"
      using want off full by (auto simp: min_def)
    ultimately show ?thesis using assms(1) off stlen nf want full
      unfolding nl_data_defs nl_inv_def by (simp add: q')
  qed
  moreover have "nl_log_ok base q'" using assms(1) unfolding nl_inv_def nl_log_ok_def by (simp add: q')
  ultimately show ?thesis by (simp add: nl_inv_def)
qed

text \<open>The actions that move only the semaphores and the two threads.\<close>

lemma nl_inv_take:
  assumes "nl_inv base len q" "nl_do base len A_Take q = Some q'"
  shows "nl_inv base len q'"
proof -
  from assms(2) have p: "nl_p q = PP_Top" "0 < nl_free q"
    and q': "q' = (if nl_off q \<ge> len \<or> nl_wrc q then q\<lparr>nl_free := nl_free q - 1, nl_p := PP_Exit\<rparr>
       else q\<lparr>nl_free := nl_free q - 1, nl_p := PP_Fill, nl_buf := (nl_buf q)(nl_i q := [])\<rparr>)"
    by (auto split: if_splits)
  have d: "nl_data_ok base len q" "nl_queue_ok q" "nl_log_ok base q" using assms(1) by (simp_all add: nl_inv_def)
  have top: "\<not> nl_failed q" "length (ev_recv (nl_ev q)) = nl_off q" using d(1) p(1) unfolding nl_data_defs by auto
  have queue: "nl_queue_ok q'"
    using d(2) p unfolding q' nl_queue_ok_def nl_hold_def nl_sent_def by (auto split: nl_wr.splits)
  have same: "nl_d q' = nl_d q" "nl_k q' = nl_k q" "nl_i q' = nl_i q" "nl_hold q' = 1" "nl_ev q' = nl_ev q" "nl_wrc q' = nl_wrc q"
    by (simp_all add: q' nl_hold_def)
  have ne: "c mod 2 \<noteq> nl_i q" if "nl_d q \<le> c" "c < nl_k q" for c
    using nl_other(1) [OF queue, of c] that same by simp
  have "nl_data_ok base len q'"
  proof (cases "nl_off q \<ge> len \<or> nl_wrc q")
    case True
    then show ?thesis using d(1) p top unfolding q' nl_data_defs by auto
  next
    case False
    then show ?thesis using d(1) p top ne unfolding q' nl_data_defs by (auto simp: nl_want_def)
  qed
  moreover have "nl_log_ok base q'" using d(3) by (simp only: nl_log_ok_def same)
  ultimately show ?thesis using queue by (simp add: nl_inv_def)
qed

lemma nl_log_move: "nl_ev q' = nl_ev q \<Longrightarrow> nl_wrc q' = nl_wrc q \<Longrightarrow> nl_d q' = nl_d q \<Longrightarrow> nl_log_ok base q' = nl_log_ok base q"
  by (simp only: nl_log_ok_def)

lemma nl_inv_timeout:
  assumes "nl_inv base len q" "nl_do base len A_Timeout q = Some q'"
  shows "nl_inv base len q'"
proof -
  from assms(2) have p: "nl_p q = PP_Top"
    and q': "q' = q\<lparr>nl_p := PP_Stalled, nl_failed := True\<rparr>"
    by (simp_all split: if_splits)
  have d: "nl_bufs_ok base len q" "nl_phase_ok len q" "nl_queue_ok q" "nl_log_ok base q"
    using assms(1) by (simp_all add: nl_inv_def nl_data_ok_def)
  have "nl_bufs_ok base len q' = nl_bufs_ok base len q" by (simp add: q' nl_bufs_ok_def)
  moreover have "nl_phase_ok len q'" using d(2) p(1) by (simp add: q' nl_phase_ok_def)
  moreover have "nl_queue_ok q'"
    using d(3) p unfolding q' nl_queue_ok_def nl_hold_def nl_sent_def by (auto split: nl_wr.splits)
  moreover have "nl_log_ok base q' = nl_log_ok base q" by (rule nl_log_move) (simp_all add: q')
  ultimately show ?thesis using d(1,4) by (simp add: nl_inv_def nl_data_ok_def)
qed

lemma nl_inv_rx_fail:
  assumes "nl_inv base len q" "nl_do base len A_Rx_Fail q = Some q'"
  shows "nl_inv base len q'"
proof -
  from assms(2) have p: "nl_p q = PP_Fill"
    and q': "q' = q\<lparr>nl_failed := True, nl_p := PP_Exit\<rparr>"
    by (simp_all split: if_splits)
  have d: "nl_bufs_ok base len q" "nl_phase_ok len q" "nl_queue_ok q" "nl_log_ok base q"
    using assms(1) by (simp_all add: nl_inv_def nl_data_ok_def)
  have "nl_bufs_ok base len q' = nl_bufs_ok base len q" by (simp add: q' nl_bufs_ok_def)
  moreover have "nl_phase_ok len q'" using d(2) p(1) by (simp add: q' nl_phase_ok_def)
  moreover have "nl_queue_ok q'"
    using d(3) p unfolding q' nl_queue_ok_def nl_hold_def nl_sent_def by (auto split: nl_wr.splits)
  moreover have "nl_log_ok base q' = nl_log_ok base q" by (rule nl_log_move) (simp_all add: q')
  ultimately show ?thesis using d(1,4) by (simp add: nl_inv_def nl_data_ok_def)
qed

lemma nl_inv_sentinel:
  assumes "nl_inv base len q" "nl_do base len A_Sentinel q = Some q'"
  shows "nl_inv base len q'"
proof -
  from assms(2) have p: "nl_p q = PP_Exit"
    and q': "q' = q\<lparr>nl_blen := (nl_blen q)(nl_i q := 0), nl_filled := min 2 (nl_filled q + 1), nl_p := PP_Join\<rparr>"
    by (simp_all split: if_splits)
  have d: "nl_bufs_ok base len q" "nl_phase_ok len q" "nl_queue_ok q" "nl_log_ok base q"
    using assms(1) by (simp_all add: nl_inv_def nl_data_ok_def)
  have ne: "c mod 2 \<noteq> nl_i q" if "nl_d q \<le> c" "c < nl_k q" for c
    using nl_other [OF d(3) _ that] p(1) by (simp add: nl_hold_def)
  have "nl_bufs_ok base len q'" using d(1) ne unfolding q' nl_bufs_ok_def by auto
  moreover have "nl_phase_ok len q'" using d(2) p(1) by (simp add: q' nl_phase_ok_def)
  moreover have "nl_queue_ok q'"
    using d(3) p unfolding q' nl_queue_ok_def nl_hold_def nl_sent_def by (auto split: nl_wr.splits)
  moreover have "nl_log_ok base q' = nl_log_ok base q" by (rule nl_log_move) (simp_all add: q')
  ultimately show ?thesis using d(1,4) by (simp add: nl_inv_def nl_data_ok_def)
qed

lemma nl_inv_join:
  assumes "nl_inv base len q" "nl_do base len A_Join q = Some q'"
  shows "nl_inv base len q'"
proof -
  from assms(2) have p: "nl_p q = PP_Join" "nl_wr q = WR_Exit"
    and q': "q' = q\<lparr>nl_p := PP_Done\<rparr>"
    by (simp_all split: if_splits)
  have d: "nl_bufs_ok base len q" "nl_phase_ok len q" "nl_queue_ok q" "nl_log_ok base q"
    using assms(1) by (simp_all add: nl_inv_def nl_data_ok_def)
  have "nl_bufs_ok base len q' = nl_bufs_ok base len q" by (simp add: q' nl_bufs_ok_def)
  moreover have "nl_phase_ok len q'" using d(2) p(1) by (simp add: q' nl_phase_ok_def)
  moreover have "nl_queue_ok q'"
    using d(3) p unfolding q' nl_queue_ok_def nl_hold_def nl_sent_def by (auto split: nl_wr.splits)
  moreover have "nl_log_ok base q' = nl_log_ok base q" by (rule nl_log_move) (simp_all add: q')
  ultimately show ?thesis using d(1,4) by (simp add: nl_inv_def nl_data_ok_def)
qed

lemma nl_inv_join_timeout:
  assumes "nl_inv base len q" "nl_do base len A_Join_Timeout q = Some q'"
  shows "nl_inv base len q'"
proof -
  from assms(2) have p: "nl_p q = PP_Join"
    and q': "q' = q\<lparr>nl_p := PP_Lost\<rparr>"
    by (simp_all split: if_splits)
  have d: "nl_bufs_ok base len q" "nl_phase_ok len q" "nl_queue_ok q" "nl_log_ok base q"
    using assms(1) by (simp_all add: nl_inv_def nl_data_ok_def)
  have "nl_bufs_ok base len q' = nl_bufs_ok base len q" by (simp add: q' nl_bufs_ok_def)
  moreover have "nl_phase_ok len q'" using d(2) p(1) by (simp add: q' nl_phase_ok_def)
  moreover have "nl_queue_ok q'"
    using d(3) p unfolding q' nl_queue_ok_def nl_hold_def nl_sent_def by (auto split: nl_wr.splits)
  moreover have "nl_log_ok base q' = nl_log_ok base q" by (rule nl_log_move) (simp_all add: q')
  ultimately show ?thesis using d(1,4) by (simp add: nl_inv_def nl_data_ok_def)
qed

text \<open>The writer takes a buffer that holds a chunk, or the sentinel when no chunk is left.\<close>

lemma nl_inv_w_take:
  assumes "nl_inv base len q" "nl_do base len W_Take q = Some q'"
  shows "nl_inv base len q'"
proof -
  from assms(2) have p: "nl_wr q = WR_Wait" "0 < nl_filled q"
    and q': "q' = q\<lparr>nl_filled := nl_filled q - 1, nl_wr := (if nl_blen q (nl_w q) = 0 then WR_Exit else WR_Busy)\<rparr>"
    by (auto split: if_splits)
  have d: "nl_data_ok base len q" "nl_queue_ok q" "nl_log_ok base q" using assms(1) by (simp_all add: nl_inv_def)
  have w: "nl_w q = nl_d q mod 2" "nl_i q = nl_k q mod 2" "nl_filled q + nl_d q = nl_k q + nl_sent q" "nl_d q \<le> nl_k q"
    using d(2) p(1) by (simp_all add: nl_queue_ok_def)
  have "nl_blen q (nl_w q) = 0 \<longleftrightarrow> nl_d q = nl_k q"
  proof
    assume "nl_d q = nl_k q"
    then have "nl_sent q = 1" using p(2) w(3) by (auto simp: nl_sent_def split: if_splits)
    with \<open>nl_d q = nl_k q\<close> show "nl_blen q (nl_w q) = 0" using d(2) w(1,2) by (simp add: nl_queue_ok_def)
  next
    assume z: "nl_blen q (nl_w q) = 0"
    show "nl_d q = nl_k q"
    proof (rule ccontr)
      assume "nl_d q \<noteq> nl_k q"
      then have "nl_d q < nl_k q" using w(4) by simp
      from nl_outstanding(2,3) [OF d(1) order_refl this] z w(1) show False by simp
    qed
  qed
  then have "nl_queue_ok q'"
    using d(2) p w unfolding q' nl_queue_ok_def nl_hold_def nl_sent_def by (auto split: if_splits)
  moreover have "nl_data_ok base len q' = nl_data_ok base len q" by (simp add: q' nl_data_defs nl_want_def)
  moreover have "nl_log_ok base q'" using d(3) unfolding q' nl_log_ok_def by simp
  ultimately show ?thesis using d(1) by (simp add: nl_inv_def)
qed

lemma nl_inv_w_done:
  assumes "nl_inv base len q" "nl_do base len (W_Done rc) q = Some q'"
  shows "nl_inv base len q'"
proof -
  let ?w = "nl_w q" and ?st = "ev_recv (nl_ev q)"
  define q1 where "q1 = (if nl_wrc q then q
     else q\<lparr>nl_ev := nl_ev q @ [F_Write (nl_boff q ?w) (take (nl_blen q ?w) (nl_buf q ?w)) rc], nl_wrc := rc \<noteq> 0\<rparr>)"
  from assms(2) have p: "nl_wr q = WR_Busy"
    and q': "q' = q1\<lparr>nl_free := min 2 (nl_free q + 1), nl_w := 1 - ?w, nl_wr := WR_Wait, nl_d := nl_d q + 1\<rparr>"
    by (auto simp: q1_def Let_def split: if_splits)
  have d: "nl_data_ok base len q" "nl_queue_ok q" "nl_log_ok base q" using assms(1) by (simp_all add: nl_inv_def)
  have w: "?w = nl_d q mod 2" "nl_d q < nl_k q" using d(2) p by (simp_all add: nl_queue_ok_def)
  have st: "ev_recv (nl_ev q1) = ?st" by (simp add: q1_def)
  from nl_outstanding [OF d(1) order_refl w(2)] w(1)
  have wr: "(nl_boff q ?w, take (nl_blen q ?w) (nl_buf q ?w)) = nl_chunk base ?st (nl_d q)" by simp
  have same: "nl_off q1 = nl_off q" "nl_i q1 = nl_i q" "nl_buf q1 = nl_buf q" "nl_blen q1 = nl_blen q" "nl_boff q1 = nl_boff q"
    "nl_free q1 = nl_free q" "nl_filled q1 = nl_filled q" "nl_failed q1 = nl_failed q" "nl_p q1 = nl_p q" "nl_k q1 = nl_k q"
    "nl_d q1 = nl_d q" "nl_wrc q \<Longrightarrow> nl_wrc q1"
    by (simp_all add: q1_def)
  have "nl_free q + 1 \<le> 2" using d(2) w(2) by (simp add: nl_queue_ok_def)
  then have free: "min 2 (nl_free q + 1) = nl_free q + 1" by simp
  have hs: "nl_hold q' = nl_hold q" "nl_sent q' = nl_sent q" by (simp_all add: q' nl_hold_def nl_sent_def same)
  have "nl_i q = nl_k q mod 2" "nl_sent q = 1 \<longrightarrow> nl_blen q (nl_i q) = 0" "nl_p q \<noteq> PP_Done"
    "nl_free q + nl_k q + nl_hold q = 2 + nl_d q" "nl_filled q + nl_d q + 1 = nl_k q + nl_sent q"
    using d(2) p unfolding nl_queue_ok_def by auto
  then have "nl_queue_ok q'"
    using w parity(1) [of "nl_d q"] unfolding nl_queue_ok_def hs by (simp add: q' free same)
  moreover have "nl_bufs_ok base len q'"
    using d(1) unfolding q' nl_data_ok_def nl_bufs_ok_def by (simp add: same st)
  moreover have "nl_phase_ok len q'"
    using d(1) same(12) unfolding q' nl_data_ok_def nl_phase_ok_def by (simp add: same(1-11) st nl_want_def) blast
  moreover have "nl_log_ok base q'"
  proof (cases "nl_wrc q")
    case True
    then show ?thesis using d(3) unfolding q' nl_log_ok_def by (auto simp: q1_def intro: le_SucI)
  next
    case False
    with d(3) have "ev_writes (nl_ev q) = map (nl_chunk base ?st) [0..<nl_d q]" "\<forall>rc \<in> set (ev_rcs (nl_ev q)). rc = 0"
      by (auto simp: nl_log_ok_def)
    then show ?thesis using False wr unfolding q' nl_log_ok_def
      by (intro exI [of _ "nl_d q + 1"]) (simp add: q1_def)
  qed
  ultimately show ?thesis by (simp add: nl_inv_def nl_data_ok_def)
qed

lemma nl_inv_do: "nl_inv base len q \<Longrightarrow> nl_do base len a q = Some q' \<Longrightarrow> nl_inv base len q'"
  by (cases a) (auto simp del: nl_do.simps intro: nl_inv_recv nl_inv_hand nl_inv_take nl_inv_timeout nl_inv_rx_fail nl_inv_sentinel nl_inv_join nl_inv_join_timeout nl_inv_w_take nl_inv_w_done)

lemma nl_inv_run: "nl_inv base len q \<Longrightarrow> nl_inv base len (nl_run base len as q)"
  by (induction as arbitrary: q) (auto simp del: nl_do.simps split: option.splits dest: nl_inv_do)

section \<open>What reaches the flash\<close>

lemma nl_run_inv: "nl_inv base len (nl_run base len as nl_start)"
  by (rule nl_inv_run [OF nl_inv_start])

text \<open>The program buffers of a stream, one after the other, are the stream and its padding.\<close>

lemma pad_unit_full: "length bs = NL_BUF \<Longrightarrow> pad_unit bs = bs"
  by (simp add: pad_unit_def nl_round_def NL_BUF_def NL_UNIT_def)

lemma nl_round_add: "nl_round (NL_BUF + n) = NL_BUF + nl_round n"
proof -
  have "(8192 + n + 15) div 16 = 512 + (n + 15) div 16" by presburger
  then show ?thesis by (simp add: nl_round_def NL_BUF_def NL_UNIT_def)
qed

lemma chunks_stream:
  "length st \<le> k * NL_BUF \<Longrightarrow> k > 0 \<longrightarrow> (k - 1) * NL_BUF < length st \<Longrightarrow>
   concat (map (\<lambda>c. snd (nl_chunk base st c)) [0..<k]) = pad_unit st"
proof (induction k arbitrary: st base)
  case 0
  then show ?case by (simp add: pad_unit_def nl_round_def NL_UNIT_def)
next
  case (Suc k)
  let ?hd = "take NL_BUF st" and ?tl = "drop NL_BUF st"
  have shift: "snd (nl_chunk base st (Suc c)) = snd (nl_chunk base ?tl c)" for c
    by (simp add: nl_chunk_def add.commute)
  have split: "concat (map (\<lambda>c. snd (nl_chunk base st c)) [0..<Suc k]) =
      pad_unit ?hd @ concat (map (\<lambda>c. snd (nl_chunk base ?tl c)) [0..<k])"
    by (simp add: upt_conv_Cons map_Suc_upt [symmetric] shift o_def del: upt_Suc) (simp add: nl_chunk_def)
  show ?case
  proof (cases "k = 0")
    case True
    with Suc.prems show ?thesis by (simp add: nl_chunk_def)
  next
    case False
    with Suc.prems(2) have big: "NL_BUF + (k - 1) * NL_BUF < length st" by (cases k) auto
    then have tl: "concat (map (\<lambda>c. snd (nl_chunk base ?tl c)) [0..<k]) = pad_unit ?tl"
      using Suc.prems(1) False by (intro Suc.IH) simp_all
    have "length st = NL_BUF + length ?tl" using big by simp
    then have "nl_round (length st) = NL_BUF + nl_round (length ?tl)" by (metis nl_round_add)
    then have "nl_round (length st) - length st = nl_round (length ?tl) - length ?tl" using big by simp
    then have "pad_unit st = (?hd @ ?tl) @ replicate (nl_round (length ?tl) - length ?tl) 0xFF"
      by (simp only: pad_unit_def append_take_drop_id)
    then have "pad_unit st = ?hd @ pad_unit ?tl" by (simp only: pad_unit_def append_assoc)
    with split tl pad_unit_full [of ?hd] big show ?thesis by simp
  qed
qed

lemma pipeline_order:
  assumes "q = nl_run base len as nl_start"
  shows "\<exists>m. ev_writes (nl_ev q) = map (nl_chunk base (ev_recv (nl_ev q))) [0..<m] \<and>
    (m > 0 \<longrightarrow> (m - 1) * NL_BUF < len) \<and> length (ev_recv (nl_ev q)) \<le> len \<and>
    (nl_p q = PP_Done \<and> \<not> nl_failed q \<and> \<not> nl_wrc q \<longrightarrow>
       length (ev_recv (nl_ev q)) = len \<and> concat (map snd (ev_writes (nl_ev q))) = pad_unit (ev_recv (nl_ev q)) \<and>
       (\<forall>rc \<in> set (ev_rcs (nl_ev q)). rc = 0))"
proof -
  let ?st = "ev_recv (nl_ev q)"
  have "nl_inv base len q" using assms nl_run_inv by simp
  then have d: "nl_bufs_ok base len q" "nl_phase_ok len q" "nl_queue_ok q" "nl_log_ok base q"
    by (simp_all add: nl_inv_def nl_data_ok_def)
  from d(4) obtain m where m: "m \<le> nl_d q" "ev_writes (nl_ev q) = map (nl_chunk base ?st) [0..<m]"
    "\<not> nl_wrc q \<longrightarrow> m = nl_d q \<and> (\<forall>rc \<in> set (ev_rcs (nl_ev q)). rc = 0)" by (auto simp: nl_log_ok_def)
  have k: "nl_d q \<le> nl_k q" "nl_k q > 0 \<longrightarrow> (nl_k q - 1) * NL_BUF < len" "nl_off q = min len (nl_k q * NL_BUF)"
    and len: "length ?st \<le> len"
    using d(1,3) unfolding nl_bufs_ok_def nl_queue_ok_def by blast+
  have "(m - 1) * NL_BUF \<le> (nl_k q - 1) * NL_BUF" using m(1) k(1) by (intro mult_le_mono1) simp
  then have "m > 0 \<longrightarrow> (m - 1) * NL_BUF < len" using m(1) k(1,2) by (intro impI) (erule le_less_trans, simp)
  moreover have "length ?st = len \<and> concat (map snd (ev_writes (nl_ev q))) = pad_unit ?st" if
    fin: "nl_p q = PP_Done" "\<not> nl_failed q" "\<not> nl_wrc q"
  proof -
    have off: "length ?st = nl_off q" "nl_off q \<ge> len" using d(2) fin by (auto simp: nl_phase_ok_def)
    then have full: "length ?st = len" "len \<le> nl_k q * NL_BUF" using len k(3) by auto
    have "nl_wr q = WR_Exit" using d(3) fin(1) by (simp add: nl_queue_ok_def)
    then have "nl_k q = nl_d q" using d(3) by (simp add: nl_queue_ok_def)
    then have "m = nl_k q" using m(3) fin(3) by simp
    then show ?thesis
      using chunks_stream [of ?st "nl_k q" base] full k(2) by (simp add: m(2) o_def)
  qed
  ultimately show ?thesis using m len by blast
qed

text \<open>
  C14. The two threads program the stream: under every schedule of listener, writer, socket and
  flash, the programs that were started are the first buffers of the bytes received, in order, each
  at its own place from the payload's start and padded with 255 to a 16-byte unit; no more than the
  announced length is ever taken; and when the writer has been joined with neither side reporting a
  failure, exactly that many bytes were received and all of them were programmed successfully.
\<close>

theorem pipeline_in_order:
  assumes "q = nl_run base len as nl_start"
  shows "\<exists>m. ev_writes (nl_ev q) = map (nl_chunk base (ev_recv (nl_ev q))) [0..<m] \<and>
    (m > 0 \<longrightarrow> (m - 1) * NL_BUF < len) \<and> length (ev_recv (nl_ev q)) \<le> len \<and>
    (nl_p q = PP_Done \<and> \<not> nl_failed q \<and> \<not> nl_wrc q \<longrightarrow>
       length (ev_recv (nl_ev q)) = len \<and> concat (map snd (ev_writes (nl_ev q))) = pad_unit (ev_recv (nl_ev q)) \<and>
       (\<forall>rc \<in> set (ev_rcs (nl_ev q)). rc = 0))"
  by (rule pipeline_order [OF assms])

text \<open>Three bytes, received in two parts and programmed while the listener is already joining.\<close>

definition nl_demo :: "nl_act list" where
  "nl_demo = [A_Take, A_Recv [1, 2] False, A_Recv [3] False, A_Hand, W_Take, A_Take, A_Sentinel, W_Done 0, W_Take, A_Join]"

lemma nl_demo_run:
  "nl_p (nl_run 4096 3 nl_demo nl_start) = PP_Done \<and> \<not> nl_failed (nl_run 4096 3 nl_demo nl_start) \<and>
   \<not> nl_wrc (nl_run 4096 3 nl_demo nl_start) \<and>
   nl_ev (nl_run 4096 3 nl_demo nl_start) = [N_Recv [1, 2], N_Recv [3], F_Write 4096 ([1, 2, 3] @ replicate 13 255) 0]"
  by (simp add: nl_demo_def nl_start_def nl_want_def nl_round_def NL_BUF_def NL_UNIT_def Let_def)

theorem pipeline_in_order_witness:
  "length (ev_recv (nl_ev (nl_run 4096 3 nl_demo nl_start))) = 3 \<and>
   concat (map snd (ev_writes (nl_ev (nl_run 4096 3 nl_demo nl_start)))) = pad_unit [1, 2, 3]"
proof -
  have r: "ev_recv (nl_ev (nl_run 4096 3 nl_demo nl_start)) = [1, 2, 3]" by (simp add: nl_demo_run ev_recv_def)
  from pipeline_in_order [OF refl, of 4096 3 nl_demo] nl_demo_run show ?thesis unfolding r by auto
qed

text \<open>
  C29. The handshake cannot deadlock: in every state a schedule reaches before the listener is done
  or has given up, some thread can act without a time-out - the listener can take, fill, hand over,
  end or join, or the writer can take a buffer or come back from the flash - so the bounded waits
  expire only when the flash or the peer does not answer.
\<close>

theorem pipeline_no_deadlock:
  assumes "q = nl_run base len as nl_start" "nl_p q \<in> {PP_Top, PP_Fill, PP_Exit, PP_Join}"
  shows "\<exists>a. a \<notin> {A_Timeout, A_Rx_Fail, A_Join_Timeout} \<and> nl_do base len a q \<noteq> None"
proof -
  have "nl_inv base len q" using assms nl_run_inv by simp
  then have d: "nl_phase_ok len q" "nl_queue_ok q" by (simp_all add: nl_inv_def nl_data_ok_def)
  have wait: ?thesis if "nl_wr q = WR_Wait" "0 < nl_filled q" using that by (intro exI [of _ W_Take]) simp
  have busy: ?thesis if "nl_wr q = WR_Busy" using that by (intro exI [of _ "W_Done 0"]) (simp add: Let_def)
  consider "nl_p q = PP_Top" | "nl_p q = PP_Fill" | "nl_p q = PP_Exit" | "nl_p q = PP_Join" using assms(2) by auto
  then show ?thesis
  proof cases
    case 1
    show ?thesis
    proof (cases "nl_free q")
      case 0
      with 1 d(2) have "nl_k q = nl_d q + 2" by (simp add: nl_queue_ok_def nl_hold_def)
      with d(2) wait busy show ?thesis by (cases "nl_wr q") (simp_all add: nl_queue_ok_def)
    qed (use 1 in \<open>intro exI [of _ A_Take], simp\<close>)
  next
    case 2
    show ?thesis
    proof (cases "length (nl_buf q (nl_i q)) = nl_want len q")
      case True
      with 2 show ?thesis by (intro exI [of _ A_Hand]) (simp add: Let_def)
    next
      case False
      with 2 d(1) have "length (nl_buf q (nl_i q)) < nl_want len q" by (simp add: nl_phase_ok_def)
      with 2 show ?thesis by (intro exI [of _ "A_Recv [0] False"]) (simp add: Let_def)
    qed
  next
    case 3
    then show ?thesis by (intro exI [of _ A_Sentinel]) simp
  next
    case 4
    show ?thesis
    proof (cases "nl_wr q")
      case WR_Exit
      with 4 show ?thesis by (intro exI [of _ A_Join]) simp
    next
      case WR_Wait
      with 4 d(2) have "nl_filled q + nl_d q = nl_k q + 1" "nl_d q \<le> nl_k q" by (simp_all add: nl_queue_ok_def nl_sent_def)
      with WR_Wait wait show ?thesis by simp
    qed (rule busy)
  qed
qed

theorem pipeline_no_deadlock_witness:
  "\<exists>a. a \<notin> {A_Timeout, A_Rx_Fail, A_Join_Timeout} \<and>
    nl_do 4096 3 a (nl_run 4096 3 [A_Take, A_Recv [1, 2] False] nl_start) \<noteq> None"
  by (rule pipeline_no_deadlock [OF refl])
    (simp add: nl_start_def nl_want_def NL_BUF_def Let_def)

end
