(* ===== verification/Spsc.thy ===== *)
theory Spsc
  imports Fifo
begin

text \<open>
  The two lock-free rings of the telnet console (\<open>struct spsc\<close> in \<open>src/telnet.c\<close>), between the
  emulator's thread and the socket's. First put and get as functions, as the contract \<open>byte_fifo\<close>;
  then what the two threads do between their loads and stores, as a step relation.
\<close>

section \<open>The rings\<close>

text \<open>\<open>struct spsc\<close>: the consumer owns \<open>head\<close>, the producer \<open>tail\<close>.\<close>

record spsc =
  sp_buf :: "nat \<Rightarrow> u8"
  sp_mask :: u32
  sp_head :: u32
  sp_tail :: u32

definition spsc_put :: "spsc \<Rightarrow> u8 \<Rightarrow> bool \<times> spsc" where
  "spsc_put r b =
     (let t = sp_tail r; n = (t + 1) AND sp_mask r
      in if n = sp_head r then (False, r) else (True, r\<lparr>sp_buf := (sp_buf r)(unat t := b), sp_tail := n\<rparr>))"

definition spsc_get :: "spsc \<Rightarrow> int \<times> spsc" where
  "spsc_get r =
     (let h = sp_head r
      in if h = sp_tail r then (- 1, r) else (uint (sp_buf r (unat h)), r\<lparr>sp_head := (h + 1) AND sp_mask r\<rparr>))"

definition spsc_reset :: "spsc \<Rightarrow> spsc" where
  "spsc_reset r = r\<lparr>sp_head := 0, sp_tail := 0\<rparr>"

text \<open>The build asserts that the sizes are powers of two: \<open>2 ^ k\<close> bytes here.\<close>

definition spsc_ok :: "nat \<Rightarrow> spsc \<Rightarrow> bool" where
  "spsc_ok k r \<longleftrightarrow> k < 32 \<and> sp_mask r = mask k \<and> unat (sp_head r) < 2 ^ k \<and> unat (sp_tail r) < 2 ^ k"

definition spsc_contents :: "spsc \<Rightarrow> u8 list" where
  "spsc_contents r = ring_list (Suc (unat (sp_mask r))) (sp_buf r) (unat (sp_tail r)) (unat (sp_head r))"

definition spsc_push :: "spsc \<Rightarrow> u8 \<Rightarrow> spsc" where
  "spsc_push r b = snd (spsc_put r b)"

definition spsc_pop :: "spsc \<Rightarrow> u8 option \<times> spsc" where
  "spsc_pop r = (case spsc_get r of (c, r') \<Rightarrow> (if c < 0 then None else Some (word_of_int c), r'))"

lemma spsc_size: "spsc_ok k r \<Longrightarrow> Suc (unat (sp_mask r)) = 2 ^ k"
proof -
  assume ok: "spsc_ok k r"
  then have "unat (sp_mask r) = nat (mask k)"
    by (simp add: spsc_ok_def uint_mask_eq min_def flip: nat_uint_eq)
  then show ?thesis using one_le_power [of "2 :: nat" k] by (simp add: nat_mask_eq mask_nat_def)
qed

lemma spsc_next:
  assumes "spsc_ok k r" "unat i < 2 ^ k"
  shows "unat ((i + 1) AND sp_mask r) = Suc (unat i) mod 2 ^ k"
proof -
  have "unat i < 2 ^ 31" using assms power_increasing [of k 31 "2 :: nat"] by (auto simp: spsc_ok_def)
  then have "unat (i + 1) = Suc (unat i)" by (simp add: unat_word_ariths)
  moreover have "(i + 1) AND sp_mask r = take_bit k (i + 1)" using assms(1) by (simp add: spsc_ok_def take_bit_eq_mask)
  ultimately have "unat ((i + 1) AND sp_mask r) = take_bit k (Suc (unat i))" by (simp only: unsigned_take_bit_eq)
  then show ?thesis by (simp add: take_bit_eq_mod)
qed

lemma spsc_put_facts:
  assumes "spsc_ok k r"
  shows "spsc_ok k (spsc_push r b)"
    and "fst (spsc_put r b) \<longleftrightarrow> length (spsc_contents r) < 2 ^ k - 1"
    and "spsc_contents (spsc_push r b) = (if length (spsc_contents r) < 2 ^ k - 1 then spsc_contents r @ [b] else spsc_contents r)"
proof -
  let ?h = "unat (sp_head r)" and ?t = "unat (sp_tail r)"
  have ht: "?h < 2 ^ k" "?t < 2 ^ k" using assms by (simp_all add: spsc_ok_def)
  have n: "unat ((sp_tail r + 1) AND sp_mask r) = Suc ?t mod 2 ^ k" by (rule spsc_next [OF assms ht(2)])
  then have full: "(sp_tail r + 1) AND sp_mask r = sp_head r \<longleftrightarrow> Suc ?t mod 2 ^ k = ?h" by (simp add: word_unat_eq_iff)
  have len: "length (spsc_contents r) \<noteq> 2 ^ k - 1 \<longleftrightarrow> length (spsc_contents r) < 2 ^ k - 1"
    using ring_count_less [of "2 ^ k" ?t ?h] by (auto simp: spsc_contents_def spsc_size [OF assms])
  show "spsc_ok k (spsc_push r b)"
    using assms n by (simp add: spsc_push_def spsc_put_def Let_def) (simp add: spsc_ok_def)
  show put: "fst (spsc_put r b) \<longleftrightarrow> length (spsc_contents r) < 2 ^ k - 1"
    unfolding len [symmetric] using ring_full_iff [OF ht(2,1)] full
    by (simp add: spsc_put_def Let_def spsc_contents_def spsc_size [OF assms])
  show "spsc_contents (spsc_push r b) = (if length (spsc_contents r) < 2 ^ k - 1 then spsc_contents r @ [b] else spsc_contents r)"
    unfolding put [symmetric]
    using ring_list_put [OF ht(2,1), of "sp_buf r" b] full n
    by (simp add: spsc_push_def spsc_put_def Let_def spsc_contents_def spsc_size [OF assms])
qed

lemma spsc_get_facts:
  assumes "spsc_ok k r"
  shows "spsc_ok k (snd (spsc_get r))"
    and "spsc_contents r = [] \<Longrightarrow> spsc_get r = (- 1, r)"
    and "spsc_contents r = b # bs \<Longrightarrow> fst (spsc_get r) = uint b \<and> spsc_contents (snd (spsc_get r)) = bs"
proof -
  let ?h = "unat (sp_head r)" and ?t = "unat (sp_tail r)"
  have ht: "?h < 2 ^ k" "?t < 2 ^ k" using assms by (simp_all add: spsc_ok_def)
  have n: "unat ((sp_head r + 1) AND sp_mask r) = Suc ?h mod 2 ^ k" by (rule spsc_next [OF assms ht(1)])
  show "spsc_ok k (snd (spsc_get r))" using assms n by (simp add: spsc_get_def Let_def) (simp add: spsc_ok_def)
  show "spsc_contents r = [] \<Longrightarrow> spsc_get r = (- 1, r)"
    using ht by (simp add: spsc_get_def Let_def spsc_contents_def spsc_size [OF assms]) (simp add: word_unat_eq_iff)
  assume c: "spsc_contents r = b # bs"
  then have "spsc_contents r \<noteq> []" by simp
  then have ne: "?t \<noteq> ?h" using ring_list_empty [OF ht(2,1), of "sp_buf r"]
    by (simp only: spsc_contents_def spsc_size [OF assms]) simp
  have "b # bs = sp_buf r ?h # ring_list (2 ^ k) (sp_buf r) ?t (Suc ?h mod 2 ^ k)"
    using c ring_list_get [OF ht(2,1) ne, of "sp_buf r"] by (simp only: spsc_contents_def spsc_size [OF assms])
  moreover have "spsc_get r = (uint (sp_buf r ?h), r\<lparr>sp_head := (sp_head r + 1) AND sp_mask r\<rparr>)"
    using ne by (auto simp: spsc_get_def Let_def)
  ultimately show "fst (spsc_get r) = uint b \<and> spsc_contents (snd (spsc_get r)) = bs"
    by (simp add: spsc_contents_def spsc_size [OF assms] n)
qed

lemma spsc_fifo: "byte_fifo spsc_push spsc_pop spsc_contents (spsc_ok k) (2 ^ k - 1)"
proof
  fix r b bs assume ok: "spsc_ok k r"
  show "spsc_ok k (spsc_push r b)" by (rule spsc_put_facts [OF ok])
  show "spsc_ok k (snd (spsc_pop r))" using spsc_get_facts(1) [OF ok] by (simp add: spsc_pop_def case_prod_beta)
  show "spsc_contents (spsc_push r b) = (if length (spsc_contents r) < 2 ^ k - 1 then spsc_contents r @ [b] else spsc_contents r)"
    by (rule spsc_put_facts [OF ok])
  show "spsc_contents r = [] \<Longrightarrow> fst (spsc_pop r) = None \<and> spsc_contents (snd (spsc_pop r)) = []"
    using spsc_get_facts(2) [OF ok] by (simp add: spsc_pop_def)
  show "spsc_contents r = b # bs \<Longrightarrow> fst (spsc_pop r) = Some b \<and> spsc_contents (snd (spsc_pop r)) = bs"
    using spsc_get_facts(3) [OF ok] by (simp add: spsc_pop_def case_prod_beta)
qed

text \<open>The two rings at their configured sizes, 8192 and 1024 bytes.\<close>

interpretation tx_ring: byte_fifo spsc_push spsc_pop spsc_contents "spsc_ok 13" "2 ^ 13 - 1" by (rule spsc_fifo)
interpretation rx_ring: byte_fifo spsc_push spsc_pop spsc_contents "spsc_ok 10" "2 ^ 10 - 1" by (rule spsc_fifo)

section \<open>The rings without a lock\<close>

text \<open>
  Producer and consumer between their loads and stores. The barriers keep each side's data access
  and its index store in program order. \<open>cc_in\<close> are the bytes whose put has returned true, \<open>cc_out\<close>
  those a get has returned.
\<close>

datatype producer = P_Idle | P_Room u8 u32 u32 | P_Stored u8 u32
datatype consumer = C_Idle | C_Avail u32 | C_Read u32 u8

record spsc_conc =
  cc_ring :: spsc
  cc_p :: producer
  cc_c :: consumer
  cc_in :: "u8 list"
  cc_out :: "u8 list"

inductive spsc_step :: "spsc_conc \<Rightarrow> spsc_conc \<Rightarrow> bool" where
  p_room: "cc_p c = P_Idle \<Longrightarrow> t = sp_tail (cc_ring c) \<Longrightarrow> n = (t + 1) AND sp_mask (cc_ring c) \<Longrightarrow>
    n \<noteq> sp_head (cc_ring c) \<Longrightarrow> spsc_step c (c\<lparr>cc_p := P_Room b t n\<rparr>)"
| p_store: "cc_p c = P_Room b t n \<Longrightarrow>
    spsc_step c (c\<lparr>cc_ring := (cc_ring c)\<lparr>sp_buf := (sp_buf (cc_ring c))(unat t := b)\<rparr>, cc_p := P_Stored b n\<rparr>)"
| p_publish: "cc_p c = P_Stored b n \<Longrightarrow>
    spsc_step c (c\<lparr>cc_ring := (cc_ring c)\<lparr>sp_tail := n\<rparr>, cc_p := P_Idle, cc_in := cc_in c @ [b]\<rparr>)"
| c_avail: "cc_c c = C_Idle \<Longrightarrow> h = sp_head (cc_ring c) \<Longrightarrow> h \<noteq> sp_tail (cc_ring c) \<Longrightarrow> spsc_step c (c\<lparr>cc_c := C_Avail h\<rparr>)"
| c_load: "cc_c c = C_Avail h \<Longrightarrow> spsc_step c (c\<lparr>cc_c := C_Read h (sp_buf (cc_ring c) (unat h))\<rparr>)"
| c_publish: "cc_c c = C_Read h b \<Longrightarrow>
    spsc_step c (c\<lparr>cc_ring := (cc_ring c)\<lparr>sp_head := (h + 1) AND sp_mask (cc_ring c)\<rparr>, cc_c := C_Idle, cc_out := cc_out c @ [b]\<rparr>)"

definition spsc_inv :: "nat \<Rightarrow> spsc_conc \<Rightarrow> bool" where
  "spsc_inv k c \<longleftrightarrow> (let r = cc_ring c in spsc_ok k r \<and> cc_in c = cc_out c @ spsc_contents r \<and>
     (case cc_p c of
        P_Idle \<Rightarrow> True
      | P_Room b t n \<Rightarrow> t = sp_tail r \<and> n = (t + 1) AND sp_mask r \<and> length (spsc_contents r) < 2 ^ k - 1
      | P_Stored b n \<Rightarrow> n = (sp_tail r + 1) AND sp_mask r \<and> length (spsc_contents r) < 2 ^ k - 1 \<and>
          sp_buf r (unat (sp_tail r)) = b) \<and>
     (case cc_c c of
        C_Idle \<Rightarrow> True
      | C_Avail h \<Rightarrow> h = sp_head r \<and> spsc_contents r \<noteq> []
      | C_Read h b \<Rightarrow> h = sp_head r \<and> spsc_contents r \<noteq> [] \<and> b = hd (spsc_contents r)))"

text \<open>Each step against the bytes in the ring.\<close>

lemma spsc_put_eq:
  assumes "spsc_ok k r" "length (spsc_contents r) < 2 ^ k - 1"
  shows "spsc_put r b = (True, r\<lparr>sp_buf := (sp_buf r)(unat (sp_tail r) := b), sp_tail := (sp_tail r + 1) AND sp_mask r\<rparr>)"
  using spsc_put_facts(2) [OF assms(1), of b] assms(2) by (auto simp: spsc_put_def Let_def split: if_splits)

lemma spsc_room:
  assumes "spsc_ok k r"
  shows "(sp_tail r + 1) AND sp_mask r \<noteq> sp_head r \<longleftrightarrow> length (spsc_contents r) < 2 ^ k - 1"
  using spsc_put_facts(2) [OF assms, of 0] by (simp add: spsc_put_def Let_def split: if_splits)

lemma spsc_avail:
  assumes "spsc_ok k r"
  shows "sp_head r \<noteq> sp_tail r \<longleftrightarrow> spsc_contents r \<noteq> []"
proof -
  have "unat (sp_head r) < 2 ^ k" "unat (sp_tail r) < 2 ^ k" using assms by (simp_all add: spsc_ok_def)
  then have "spsc_contents r = [] \<longleftrightarrow> unat (sp_tail r) = unat (sp_head r)"
    by (simp only: spsc_contents_def spsc_size [OF assms] ring_list_empty)
  then show ?thesis by (simp add: eq_commute word_unat_eq_iff)
qed

lemma spsc_store_keeps:
  assumes "spsc_ok k r"
  shows "spsc_contents (r\<lparr>sp_buf := (sp_buf r)(unat (sp_tail r) := b)\<rparr>) = spsc_contents r"
    and "spsc_ok k (r\<lparr>sp_buf := (sp_buf r)(unat (sp_tail r) := b)\<rparr>)"
proof -
  let ?h = "unat (sp_head r)" and ?t = "unat (sp_tail r)"
  have "(?h + i) mod 2 ^ k \<noteq> ?t" if "i < ring_count (2 ^ k) ?t ?h" for i
    using ring_slot_ne [OF _ _ that] assms by (simp add: spsc_ok_def)
  then show "spsc_contents (r\<lparr>sp_buf := (sp_buf r)(unat (sp_tail r) := b)\<rparr>) = spsc_contents r"
    by (simp add: spsc_contents_def spsc_size [OF assms] ring_list_def)
  show "spsc_ok k (r\<lparr>sp_buf := (sp_buf r)(unat (sp_tail r) := b)\<rparr>)" using assms by (simp add: spsc_ok_def)
qed

lemma spsc_publish:
  assumes "spsc_ok k r" "length (spsc_contents r) < 2 ^ k - 1" "sp_buf r (unat (sp_tail r)) = b"
  shows "spsc_contents (r\<lparr>sp_tail := (sp_tail r + 1) AND sp_mask r\<rparr>) = spsc_contents r @ [b]"
    and "spsc_ok k (r\<lparr>sp_tail := (sp_tail r + 1) AND sp_mask r\<rparr>)"
proof -
  have "spsc_push r b = r\<lparr>sp_tail := (sp_tail r + 1) AND sp_mask r\<rparr>"
    using spsc_put_eq [OF assms(1,2), of b] assms(3) by (auto simp: spsc_push_def fun_upd_idem)
  then show "spsc_contents (r\<lparr>sp_tail := (sp_tail r + 1) AND sp_mask r\<rparr>) = spsc_contents r @ [b]"
    "spsc_ok k (r\<lparr>sp_tail := (sp_tail r + 1) AND sp_mask r\<rparr>)"
    using spsc_put_facts(1,3) [OF assms(1), of b] assms(2) by simp_all
qed

lemma spsc_take:
  assumes "spsc_ok k r" "spsc_contents r \<noteq> []"
  shows "spsc_contents (r\<lparr>sp_head := (sp_head r + 1) AND sp_mask r\<rparr>) = tl (spsc_contents r)"
    and "spsc_ok k (r\<lparr>sp_head := (sp_head r + 1) AND sp_mask r\<rparr>)"
    and "sp_buf r (unat (sp_head r)) = hd (spsc_contents r)"
proof -
  from assms(2) obtain b bs where c: "spsc_contents r = b # bs" by (cases "spsc_contents r") auto
  have "sp_head r \<noteq> sp_tail r" using spsc_avail [OF assms(1)] assms(2) by simp
  then have "spsc_get r = (uint (sp_buf r (unat (sp_head r))), r\<lparr>sp_head := (sp_head r + 1) AND sp_mask r\<rparr>)"
    by (simp add: spsc_get_def Let_def)
  then show "spsc_contents (r\<lparr>sp_head := (sp_head r + 1) AND sp_mask r\<rparr>) = tl (spsc_contents r)"
    "spsc_ok k (r\<lparr>sp_head := (sp_head r + 1) AND sp_mask r\<rparr>)" "sp_buf r (unat (sp_head r)) = hd (spsc_contents r)"
    using spsc_get_facts(1,3) [OF assms(1)] c by (auto simp: word_uint_eq_iff)
qed

text \<open>The invariant of the interleaving: what is in the ring is what was put and not yet taken.\<close>

lemma spsc_step_inv: "spsc_step c c' \<Longrightarrow> spsc_inv k c \<Longrightarrow> spsc_inv k c'"
proof (induction rule: spsc_step.induct)
  case (p_room c t n b)
  then show ?case using spsc_room [of k "cc_ring c"] by (simp add: spsc_inv_def Let_def)
next
  case (p_store c b t n)
  then show ?case using spsc_store_keeps [of k "cc_ring c" b] spsc_take(3) [of k "cc_ring c"]
    by (simp add: spsc_inv_def Let_def split: consumer.splits)
next
  case (p_publish c b n)
  then show ?case using spsc_publish [of k "cc_ring c" b]
    by (auto simp: spsc_inv_def Let_def split: consumer.splits)
next
  case (c_avail c h)
  then show ?case using spsc_avail [of k "cc_ring c"] by (simp add: spsc_inv_def Let_def)
next
  case (c_load c h)
  then show ?case using spsc_take(3) [of k "cc_ring c"] by (simp add: spsc_inv_def Let_def)
next
  case (c_publish c h b)
  then show ?case using spsc_take(1,2) [of k "cc_ring c"]
    by (auto simp: spsc_inv_def Let_def split: producer.splits)
qed

lemma spsc_inv_init: "spsc_ok k (cc_ring c) \<Longrightarrow> spsc_contents (cc_ring c) = [] \<Longrightarrow> cc_p c = P_Idle \<Longrightarrow> cc_c c = C_Idle \<Longrightarrow>
    cc_in c = [] \<Longrightarrow> cc_out c = [] \<Longrightarrow> spsc_inv k c"
  by (simp add: spsc_inv_def)

lemma spsc_reset_facts:
  assumes "spsc_ok k r"
  shows "spsc_ok k (spsc_reset r)" and "spsc_contents (spsc_reset r) = []"
  using assms by (simp_all add: spsc_ok_def spsc_reset_def spsc_contents_def)

text \<open>
  C20. The ring needs no lock: from an empty ring, in every interleaving of the loads and stores of
  one producer and one consumer, the bytes taken and then the bytes in the ring are exactly the
  bytes whose put returned true, in order, and the ring never holds more than its size less one.
\<close>

definition spsc_start :: "spsc \<Rightarrow> spsc_conc" where
  "spsc_start r = \<lparr>cc_ring = spsc_reset r, cc_p = P_Idle, cc_c = C_Idle, cc_in = [], cc_out = []\<rparr>"

lemma spsc_steps_inv: "spsc_step\<^sup>*\<^sup>* c c' \<Longrightarrow> spsc_inv k c \<Longrightarrow> spsc_inv k c'"
  by (induction rule: rtranclp_induct) (auto intro: spsc_step_inv)

lemma spsc_contents_less: "spsc_ok k r \<Longrightarrow> length (spsc_contents r) < 2 ^ k"
  by (simp add: spsc_contents_def spsc_size ring_count_less)

theorem spsc_linearizable:
  assumes "spsc_ok k r" "spsc_step\<^sup>*\<^sup>* (spsc_start r) c"
  shows "cc_in c = cc_out c @ spsc_contents (cc_ring c) \<and> length (spsc_contents (cc_ring c)) < 2 ^ k"
proof -
  have "spsc_inv k (spsc_start r)"
    using spsc_reset_facts [OF assms(1)] by (simp add: spsc_inv_init spsc_start_def)
  then have "spsc_inv k c" using assms(2) spsc_steps_inv by blast
  then show ?thesis by (simp add: spsc_inv_def Let_def spsc_contents_less)
qed

text \<open>A ring of eight bytes: a put and, half-way through the next one, a get.\<close>

definition spsc_demo :: spsc where
  "spsc_demo = \<lparr>sp_buf = (\<lambda>_. 0), sp_mask = 7, sp_head = 0, sp_tail = 0\<rparr>"

lemma spsc_demo_ok: "spsc_ok 3 spsc_demo"
  by (simp add: spsc_ok_def spsc_demo_def mask_eq_exp_minus_1)

definition spsc_demo_end :: spsc_conc where
  "spsc_demo_end =
     \<lparr>cc_ring = \<lparr>sp_buf = (\<lambda>_. 0)(0 := 65, 1 := 66), sp_mask = 7, sp_head = 1, sp_tail = 1\<rparr>,
      cc_p = P_Stored 66 2, cc_c = C_Idle, cc_in = [65], cc_out = [65]\<rparr>"

lemma spsc_demo_run: "spsc_step\<^sup>*\<^sup>* (spsc_start spsc_demo) spsc_demo_end"
proof -
  let ?r = "\<lambda>b h t. \<lparr>sp_buf = b, sp_mask = 7, sp_head = h, sp_tail = t\<rparr>"
  let ?z = "\<lambda>_. 0 :: u8"
  let ?c = "\<lambda>r p c i out. \<lparr>cc_ring = r, cc_p = p, cc_c = c, cc_in = i, cc_out = out\<rparr>"
  have s1: "spsc_step (?c (?r ?z 0 0) P_Idle C_Idle [] []) (?c (?r ?z 0 0) (P_Room 65 0 1) C_Idle [] [])"
    using p_room [of "?c (?r ?z 0 0) P_Idle C_Idle [] []" 0 1 65] by simp
  have s2: "spsc_step (?c (?r ?z 0 0) (P_Room 65 0 1) C_Idle [] []) (?c (?r (?z(0 := 65)) 0 0) (P_Stored 65 1) C_Idle [] [])"
    using p_store [of "?c (?r ?z 0 0) (P_Room 65 0 1) C_Idle [] []"] by simp
  have s3: "spsc_step (?c (?r (?z(0 := 65)) 0 0) (P_Stored 65 1) C_Idle [] []) (?c (?r (?z(0 := 65)) 0 1) P_Idle C_Idle [65] [])"
    using p_publish [of "?c (?r (?z(0 := 65)) 0 0) (P_Stored 65 1) C_Idle [] []"] by simp
  have s4: "spsc_step (?c (?r (?z(0 := 65)) 0 1) P_Idle C_Idle [65] []) (?c (?r (?z(0 := 65)) 0 1) (P_Room 66 1 2) C_Idle [65] [])"
    using p_room [of "?c (?r (?z(0 := 65)) 0 1) P_Idle C_Idle [65] []" 1 2 66] by simp
  have s5: "spsc_step (?c (?r (?z(0 := 65)) 0 1) (P_Room 66 1 2) C_Idle [65] []) (?c (?r (?z(0 := 65)) 0 1) (P_Room 66 1 2) (C_Avail 0) [65] [])"
    using c_avail [of "?c (?r (?z(0 := 65)) 0 1) (P_Room 66 1 2) C_Idle [65] []" 0] by simp
  have s6: "spsc_step (?c (?r (?z(0 := 65)) 0 1) (P_Room 66 1 2) (C_Avail 0) [65] []) (?c (?r (?z(0 := 65, 1 := 66)) 0 1) (P_Stored 66 2) (C_Avail 0) [65] [])"
    using p_store [of "?c (?r (?z(0 := 65)) 0 1) (P_Room 66 1 2) (C_Avail 0) [65] []"] by simp
  have s7: "spsc_step (?c (?r (?z(0 := 65, 1 := 66)) 0 1) (P_Stored 66 2) (C_Avail 0) [65] []) (?c (?r (?z(0 := 65, 1 := 66)) 0 1) (P_Stored 66 2) (C_Read 0 65) [65] [])"
    using c_load [of "?c (?r (?z(0 := 65, 1 := 66)) 0 1) (P_Stored 66 2) (C_Avail 0) [65] []"] by simp
  have s8: "spsc_step (?c (?r (?z(0 := 65, 1 := 66)) 0 1) (P_Stored 66 2) (C_Read 0 65) [65] []) (?c (?r (?z(0 := 65, 1 := 66)) 1 1) (P_Stored 66 2) C_Idle [65] [65])"
    using c_publish [of "?c (?r (?z(0 := 65, 1 := 66)) 0 1) (P_Stored 66 2) (C_Read 0 65) [65] []"] by simp
  have start: "spsc_start spsc_demo = ?c (?r ?z 0 0) P_Idle C_Idle [] []"
    by (simp add: spsc_start_def spsc_reset_def spsc_demo_def)
  show ?thesis unfolding start spsc_demo_end_def
    by ((rule converse_rtranclp_into_rtranclp, rule s1 s2 s3 s4 s5 s6 s7 s8)+, rule rtranclp.rtrancl_refl)
qed

theorem spsc_linearizable_witness:
  "cc_in spsc_demo_end = cc_out spsc_demo_end @ spsc_contents (cc_ring spsc_demo_end) \<and>
   length (spsc_contents (cc_ring spsc_demo_end)) < 2 ^ 3"
  by (rule spsc_linearizable [OF spsc_demo_ok spsc_demo_run])

text \<open>
  What a session start must not meet: if \<open>spsc_reset()\<close> comes while a put is between its store
  and its publishing, the index then published makes the ring hold stale bytes of the session
  before, from the start of the buffer up to the slot of the put.
\<close>

lemma spsc_reset_midput:
  assumes "spsc_ok k r" "spsc_step\<^sup>*\<^sup>* (spsc_start r) c" "cc_p c = P_Stored b n"
  shows "spsc_contents ((spsc_reset (cc_ring c))\<lparr>sp_tail := n\<rparr>) = map (sp_buf (cc_ring c)) [0..<unat n]"
proof -
  let ?r = "cc_ring c"
  have "spsc_inv k c"
    using spsc_steps_inv [OF assms(2)] spsc_reset_facts [OF assms(1)] by (simp add: spsc_inv_init spsc_start_def)
  then have ok: "spsc_ok k ?r" and n: "n = (sp_tail ?r + 1) AND sp_mask ?r"
    using assms(3) by (simp_all add: spsc_inv_def Let_def)
  then have "unat n < 2 ^ k" using spsc_next [OF ok, of "sp_tail ?r"] by (simp add: spsc_ok_def)
  then show ?thesis
    using ok by (simp add: spsc_contents_def spsc_reset_def spsc_size ring_list_def ring_count_cases cong: map_cong)
qed

end
