(* ===== verification/Telnet.thy ===== *)
theory Telnet
  imports Spsc "HOL-Library.Sublist"
begin

text \<open>
  The guest's console over TCP (\<open>src/telnet.c\<close>): the negotiation filter between client and guest,
  a session of the socket thread, and the two hooks of the emulator's thread. The rings are those
  of \<open>Spsc\<close>, whose interleaving theorem is what lets a put and a get be one step here.
\<close>

section \<open>The negotiation filter\<close>

definition TN_IAC :: u8 where "TN_IAC = 255"
definition TN_DONT :: u8 where "TN_DONT = 254"
definition TN_DO :: u8 where "TN_DO = 253"
definition TN_WONT :: u8 where "TN_WONT = 252"
definition TN_WILL :: u8 where "TN_WILL = 251"
definition TN_SB :: u8 where "TN_SB = 250"
definition TN_SE :: u8 where "TN_SE = 240"
definition TN_OPT_ECHO :: u8 where "TN_OPT_ECHO = 1"
definition TN_OPT_SGA :: u8 where "TN_OPT_SGA = 3"

lemmas tn_consts = TN_IAC_def TN_DONT_def TN_DO_def TN_WONT_def TN_WILL_def TN_SB_def TN_SE_def
  TN_OPT_ECHO_def TN_OPT_SGA_def

datatype tn_state = TN_S_DATA | TN_S_IAC | TN_S_OPT | TN_S_SB | TN_S_SB_IAC

record telnet =
  tn_st :: tn_state
  tn_verb :: u8
  tn_saw_cr :: bool
  tn_said_echo :: bool
  tn_said_sga :: bool
  tn_tx :: spsc
  tn_rx :: spsc
  tn_active :: bool
  tn_dropped :: u32
  tn_sessions :: u32

definition tn_hello :: "u8 list" where
  "tn_hello = [TN_IAC, TN_WILL, TN_OPT_ECHO, TN_IAC, TN_WILL, TN_OPT_SGA, TN_IAC, TN_DO, TN_OPT_SGA]"

text \<open>\<open>tn_rx_byte()\<close>: the reply buffer and its count are a list.\<close>

definition tn_rx_data :: "u8 \<Rightarrow> telnet \<Rightarrow> telnet" where
  "tn_rx_data b t =
     (if b = TN_IAC then t\<lparr>tn_st := TN_S_IAC\<rparr>
      else if tn_saw_cr t \<and> (b = 0x00 \<or> b = 0x0a) then t\<lparr>tn_saw_cr := False\<rparr>
      else t\<lparr>tn_saw_cr := (b = 0x0d), tn_rx := spsc_push (tn_rx t) b\<rparr>)"

definition tn_rx_iac :: "u8 \<Rightarrow> telnet \<Rightarrow> telnet" where
  "tn_rx_iac b t =
     (if b = TN_IAC then t\<lparr>tn_st := TN_S_DATA, tn_saw_cr := False, tn_rx := spsc_push (tn_rx t) TN_IAC\<rparr>
      else if b = TN_WILL \<or> b = TN_WONT \<or> b = TN_DO \<or> b = TN_DONT then t\<lparr>tn_verb := b, tn_st := TN_S_OPT\<rparr>
      else if b = TN_SB then t\<lparr>tn_st := TN_S_SB\<rparr>
      else t\<lparr>tn_st := TN_S_DATA\<rparr>)"

definition tn_rx_opt :: "u8 \<Rightarrow> telnet \<times> u8 list \<Rightarrow> telnet \<times> u8 list" where
  "tn_rx_opt b = (\<lambda>(t0, reply).
     (let t = t0\<lparr>tn_st := TN_S_DATA\<rparr>
      in if tn_verb t = TN_DO then
           (if b = TN_OPT_ECHO \<and> \<not> tn_said_echo t then (t\<lparr>tn_said_echo := True\<rparr>, reply @ [TN_IAC, TN_WILL, b])
            else if b = TN_OPT_SGA \<and> \<not> tn_said_sga t then (t\<lparr>tn_said_sga := True\<rparr>, reply @ [TN_IAC, TN_WILL, b])
            else if b \<noteq> TN_OPT_ECHO \<and> b \<noteq> TN_OPT_SGA then (t, reply @ [TN_IAC, TN_WONT, b])
            else (t, reply))
         else if tn_verb t = TN_WILL then
           (t, reply @ [TN_IAC, if b = TN_OPT_SGA then TN_DO else TN_DONT, b])
         else (t, reply)))"

definition tn_rx_byte :: "u8 \<Rightarrow> telnet \<times> u8 list \<Rightarrow> telnet \<times> u8 list" where
  "tn_rx_byte b = (\<lambda>(t, reply).
     case tn_st t of
       TN_S_DATA \<Rightarrow> (tn_rx_data b t, reply)
     | TN_S_IAC \<Rightarrow> (tn_rx_iac b t, reply)
     | TN_S_OPT \<Rightarrow> tn_rx_opt b (t, reply)
     | TN_S_SB \<Rightarrow> (if b = TN_IAC then t\<lparr>tn_st := TN_S_SB_IAC\<rparr> else t, reply)
     | TN_S_SB_IAC \<Rightarrow> (t\<lparr>tn_st := (if b = TN_SE then TN_S_DATA else TN_S_SB)\<rparr>, reply))"

definition tn_filter :: "u8 list \<Rightarrow> telnet \<times> u8 list \<Rightarrow> telnet \<times> u8 list" where
  "tn_filter bs s = fold tn_rx_byte bs s"

section \<open>What a client means\<close>

text \<open>
  The wire as RFC 854 reads it: data with 255 doubled, two-byte commands, negotiations, and
  subnegotiations with their own doubling.
\<close>

datatype tn_item = I_Data u8 | I_Cmd u8 | I_Neg u8 u8 | I_Sub "u8 list"

definition tn_esc :: "u8 \<Rightarrow> u8 list" where
  "tn_esc b = (if b = TN_IAC then [TN_IAC, TN_IAC] else [b])"

fun tn_enc :: "tn_item \<Rightarrow> u8 list" where
  "tn_enc (I_Data b) = tn_esc b"
| "tn_enc (I_Cmd c) = [TN_IAC, c]"
| "tn_enc (I_Neg v opt) = [TN_IAC, v, opt]"
| "tn_enc (I_Sub bs) = [TN_IAC, TN_SB] @ concat (map tn_esc bs) @ [TN_IAC, TN_SE]"

definition tn_verbs :: "u8 set" where
  "tn_verbs = {TN_WILL, TN_WONT, TN_DO, TN_DONT}"

fun tn_item_ok :: "tn_item \<Rightarrow> bool" where
  "tn_item_ok (I_Cmd c) \<longleftrightarrow> c \<noteq> TN_IAC \<and> c \<noteq> TN_SB \<and> c \<notin> tn_verbs"
| "tn_item_ok (I_Neg v opt) \<longleftrightarrow> v \<in> tn_verbs"
| "tn_item_ok _ \<longleftrightarrow> True"

definition tn_wire :: "tn_item list \<Rightarrow> u8 list" where
  "tn_wire its = concat (map tn_enc its)"

text \<open>The bytes the guest must see: a NUL or LF right after a CR is dropped.\<close>

fun tn_typed :: "bool \<Rightarrow> tn_item list \<Rightarrow> u8 list" where
  "tn_typed cr [] = []"
| "tn_typed cr (I_Data b # its) =
     (if cr \<and> (b = 0 \<or> b = 10) then tn_typed False its else b # tn_typed (b = 13) its)"
| "tn_typed cr (_ # its) = tn_typed cr its"

fun tn_cr_after :: "bool \<Rightarrow> tn_item list \<Rightarrow> bool" where
  "tn_cr_after cr [] = cr"
| "tn_cr_after cr (I_Data b # its) = tn_cr_after (\<not> (cr \<and> (b = 0 \<or> b = 10)) \<and> b = 13) its"
| "tn_cr_after cr (_ # its) = tn_cr_after cr its"

text \<open>The answers it must get: each own option once on request, a refusal for every other.\<close>

fun tn_answers :: "u8 set \<Rightarrow> tn_item list \<Rightarrow> tn_item list" where
  "tn_answers said [] = []"
| "tn_answers said (I_Neg v opt # its) =
     (if v = TN_DO then
        (if opt \<in> {TN_OPT_ECHO, TN_OPT_SGA}
         then (if opt \<in> said then [] else [I_Neg TN_WILL opt]) @ tn_answers (insert opt said) its
         else I_Neg TN_WONT opt # tn_answers said its)
      else if v = TN_WILL then I_Neg (if opt = TN_OPT_SGA then TN_DO else TN_DONT) opt # tn_answers said its
      else tn_answers said its)"
| "tn_answers said (_ # its) = tn_answers said its"

definition tn_said :: "telnet \<Rightarrow> u8 set" where
  "tn_said t = (if tn_said_echo t then {TN_OPT_ECHO} else {}) \<union> (if tn_said_sga t then {TN_OPT_SGA} else {})"

fun tn_push_all :: "spsc \<Rightarrow> u8 list \<Rightarrow> spsc" where
  "tn_push_all r [] = r"
| "tn_push_all r (b # bs) = tn_push_all (spsc_push r b) bs"

lemma tn_filter_simps [simp]:
  "tn_filter [] s = s" "tn_filter (b # bs) s = tn_filter bs (tn_rx_byte b s)"
  "tn_filter (xs @ ys) s = tn_filter ys (tn_filter xs s)"
  by (simp_all add: tn_filter_def)

lemma tn_filter_sub:
  "tn_st t = TN_S_SB \<Longrightarrow> tn_filter (concat (map tn_esc bs) @ rest) (t, reply) = tn_filter rest (t, reply)"
proof (induction bs)
  case (Cons b bs)
  have "tn_filter (tn_esc b) (t, reply) = (t, reply)"
    using Cons.prems by (cases t) (simp add: tn_esc_def tn_rx_byte_def tn_consts)
  with Cons show ?case by simp
qed simp

lemma tn_distinct:
  "TN_DO \<noteq> TN_WILL" "TN_WILL \<noteq> TN_DO" "TN_WONT \<noteq> TN_DO" "TN_WONT \<noteq> TN_WILL" "TN_DONT \<noteq> TN_DO" "TN_DONT \<noteq> TN_WILL"
  "TN_OPT_ECHO \<noteq> TN_OPT_SGA" "TN_OPT_SGA \<noteq> TN_OPT_ECHO"
  by (simp_all add: tn_consts)

text \<open>The option of a negotiation, by who asks and for what.\<close>

lemma tn_said_simps [simp]:
  "TN_OPT_ECHO \<in> tn_said t \<longleftrightarrow> tn_said_echo t" "TN_OPT_SGA \<in> tn_said t \<longleftrightarrow> tn_said_sga t"
  "tn_said (t\<lparr>tn_st := st\<rparr>) = tn_said t" "tn_said (t\<lparr>tn_verb := v\<rparr>) = tn_said t"
  "tn_said (t\<lparr>tn_saw_cr := c\<rparr>) = tn_said t" "tn_said (t\<lparr>tn_rx := r\<rparr>) = tn_said t"
  "tn_said (t\<lparr>tn_said_echo := True\<rparr>) = insert TN_OPT_ECHO (tn_said t)"
  "tn_said (t\<lparr>tn_said_sga := True\<rparr>) = insert TN_OPT_SGA (tn_said t)"
  by (auto simp: tn_said_def tn_distinct)

lemma tn_rx_opt_answers:
  "\<exists>t'. tn_rx_opt opt (t, reply) = (t', reply @ tn_wire (tn_answers (tn_said t) [I_Neg (tn_verb t) opt])) \<and>
    tn_st t' = TN_S_DATA \<and> tn_saw_cr t' = tn_saw_cr t \<and> tn_rx t' = tn_rx t \<and> tn_tx t' = tn_tx t \<and>
    tn_active t' = tn_active t \<and> tn_dropped t' = tn_dropped t \<and> tn_sessions t' = tn_sessions t \<and>
    tn_said t' = (if tn_verb t = TN_DO \<and> opt \<in> {TN_OPT_ECHO, TN_OPT_SGA} then insert opt (tn_said t) else tn_said t)"
proof -
  consider "tn_verb t = TN_DO" "opt = TN_OPT_ECHO" | "tn_verb t = TN_DO" "opt = TN_OPT_SGA"
    | "tn_verb t = TN_DO" "opt \<noteq> TN_OPT_ECHO" "opt \<noteq> TN_OPT_SGA" | "tn_verb t \<noteq> TN_DO" by blast
  then show ?thesis
    by cases (simp_all add: tn_rx_opt_def tn_wire_def tn_distinct insert_absorb)
qed

text \<open>One item through the filter.\<close>

lemma tn_filter_item:
  assumes "tn_st t = TN_S_DATA" "tn_item_ok it"
  shows "\<exists>t'. tn_filter (tn_enc it) (t, reply) = (t', reply @ tn_wire (tn_answers (tn_said t) [it])) \<and>
    tn_st t' = TN_S_DATA \<and> tn_saw_cr t' = tn_cr_after (tn_saw_cr t) [it] \<and>
    tn_rx t' = tn_push_all (tn_rx t) (tn_typed (tn_saw_cr t) [it]) \<and>
    (\<forall>its. tn_answers (tn_said t) (it # its) = tn_answers (tn_said t) [it] @ tn_answers (tn_said t') its)"
proof (cases it)
  case (I_Data b)
  with assms(1) show ?thesis
    by (simp add: tn_esc_def tn_rx_byte_def tn_rx_data_def tn_rx_iac_def tn_wire_def) (auto simp: tn_consts)
next
  case (I_Cmd c)
  with assms show ?thesis
    by (simp add: tn_rx_byte_def tn_rx_data_def tn_rx_iac_def tn_wire_def tn_verbs_def)
next
  case (I_Neg v opt)
  define t1 where "t1 = t\<lparr>tn_verb := v, tn_st := TN_S_OPT\<rparr>"
  have v: "v \<in> tn_verbs" "v \<noteq> TN_IAC" using assms(2) I_Neg by (auto simp: tn_verbs_def tn_consts)
  then have step: "tn_filter (tn_enc it) (t, reply) = tn_rx_opt opt (t1, reply)"
    using assms(1) I_Neg by (simp add: t1_def tn_rx_byte_def tn_rx_data_def tn_rx_iac_def tn_verbs_def)
  have s: "tn_said t1 = tn_said t" "tn_verb t1 = v" by (simp_all add: t1_def)
  from tn_rx_opt_answers [of opt t1 reply] show ?thesis
    unfolding step s by (elim exE conjE) (simp add: I_Neg t1_def)
next
  case (I_Sub bs)
  define t1 where "t1 = t\<lparr>tn_st := TN_S_SB\<rparr>"
  have "tn_filter (tn_enc it) (t, reply) = tn_filter [TN_IAC, TN_SE] (t1, reply)"
    using assms(1) I_Sub
    by (simp add: tn_rx_byte_def tn_rx_data_def tn_rx_iac_def t1_def
        tn_filter_sub [where rest = "[]", simplified]) (simp add: tn_consts)
  also have "\<dots> = (t1\<lparr>tn_st := TN_S_DATA\<rparr>, reply)"
    by (simp add: t1_def tn_rx_byte_def)
  finally show ?thesis using I_Sub by (simp add: t1_def tn_wire_def)
qed

lemma tn_push_all_append: "tn_push_all r (xs @ ys) = tn_push_all (tn_push_all r xs) ys"
  by (induction xs arbitrary: r) auto

lemma tn_push_all_fold: "tn_push_all r bs = tx_ring.put_all r bs"
  by (induction bs arbitrary: r) auto

lemma tn_typed_append: "tn_typed cr (xs @ ys) = tn_typed cr xs @ tn_typed (tn_cr_after cr xs) ys"
  by (induction cr xs rule: tn_typed.induct) auto

lemma tn_typed_Cons: "tn_typed cr (it # its) = tn_typed cr [it] @ tn_typed (tn_cr_after cr [it]) its"
  using tn_typed_append [of cr "[it]" its] by simp

lemma tn_cr_after_Cons: "tn_cr_after cr (it # its) = tn_cr_after (tn_cr_after cr [it]) its"
  by (cases it) auto

lemma tn_wire_simps [simp]: "tn_wire [] = []" "tn_wire (it # its) = tn_enc it @ tn_wire its"
  "tn_wire (xs @ ys) = tn_wire xs @ tn_wire ys"
  by (simp_all add: tn_wire_def)


definition telnet_demo :: telnet where
  "telnet_demo = \<lparr>tn_st = TN_S_DATA, tn_verb = 0, tn_saw_cr = False, tn_said_echo = False, tn_said_sga = False,
     tn_tx = \<lparr>sp_buf = (\<lambda>_. 0), sp_mask = 8191, sp_head = 0, sp_tail = 0\<rparr>,
     tn_rx = \<lparr>sp_buf = (\<lambda>_. 0), sp_mask = 1023, sp_head = 0, sp_tail = 0\<rparr>,
     tn_active = False, tn_dropped = 0, tn_sessions = 0\<rparr>"

text \<open>An answer to our WILL ECHO, an offer of a terminal type, its subnegotiation, and \<open>ls\<close> with Enter.\<close>

definition telnet_demo_items :: "tn_item list" where
  "telnet_demo_items = [I_Neg 253 1, I_Neg 251 24, I_Sub [24, 0, 255], I_Data 0x6c, I_Data 0x73, I_Data 13, I_Data 0, I_Data 255]"


section \<open>The emulator's hooks\<close>

text \<open>\<open>mirror\<close> is \<open>CONFIG_RVT_TELNET_MIRROR_UART\<close>, off by default.\<close>

definition rvt_console_out :: "bool \<Rightarrow> u8 \<Rightarrow> telnet \<Rightarrow> bool \<times> telnet" where
  "rvt_console_out mirror c t =
     (if \<not> tn_active t then (False, t)
      else (\<not> mirror,
        (case spsc_put (tn_tx t) c of
           (True, r) \<Rightarrow> t\<lparr>tn_tx := r\<rparr>
         | (False, r) \<Rightarrow> t\<lparr>tn_tx := r, tn_dropped := tn_dropped t + 1\<rparr>)))"

definition rvt_console_in :: "telnet \<Rightarrow> int \<times> telnet" where
  "rvt_console_in t =
     (if \<not> tn_active t then (- 1, t) else (case spsc_get (tn_rx t) of (c, r) \<Rightarrow> (c, t\<lparr>tn_rx := r\<rparr>)))"

section \<open>A session\<close>

text \<open>
  The socket and the emulator are functions of the history: what a send takes, what a poll and a
  receive return, and what the emulator does to the console while the socket's thread is blocked in
  one of these calls (it has the lower priority and runs at no other time). The history keeps each
  byte's fate: sent, put in the ring, dropped, or left to the UART.
\<close>

datatype emu_op = Emu_Out u8 | Emu_In

datatype tn_ev =
    Ev_Sent "u8 list"            \<comment> \<open>\<open>zsock_send()\<close>: the bytes it took\<close>
  | Ev_Poll
  | Ev_Recv "u8 list"
  | Ev_Put u8                    \<comment> \<open>a byte of the guest in the ring\<close>
  | Ev_Drop u8
  | Ev_Uart u8
  | Ev_In int                    \<comment> \<open>what \<open>rvt_console_in()\<close> returned\<close>
  | Ev_Start u32                 \<comment> \<open>the line on the UART, with the session's number\<close>
  | Ev_Gone u32                  \<comment> \<open>and the one with the count of dropped bytes\<close>

record tn_env =
  te_send :: "tn_ev list \<Rightarrow> u8 list \<Rightarrow> int"
  te_poll :: "tn_ev list \<Rightarrow> int \<times> bool \<times> bool"   \<comment> \<open>result, error or hang-up, readable\<close>
  te_recv :: "tn_ev list \<Rightarrow> int \<times> u8 list"
  te_emu :: "tn_ev list \<Rightarrow> emu_op list"
  te_mirror :: bool

record tn_sys =
  ts_t :: telnet
  ts_h :: "tn_ev list"

definition ts_log :: "tn_ev \<Rightarrow> tn_sys \<Rightarrow> tn_sys" where
  "ts_log ev s = s\<lparr>ts_h := ts_h s @ [ev]\<rparr>"

text \<open>\<open>plat_putc()\<close> and \<open>plat_getc()\<close> as far as the telnet client goes.\<close>

definition tn_putc :: "tn_env \<Rightarrow> u8 \<Rightarrow> tn_sys \<Rightarrow> tn_sys" where
  "tn_putc e c s =
     (let t = ts_t s; (taken, t') = rvt_console_out (te_mirror e) c t;
          s1 = (if tn_active t then ts_log (if tn_dropped t' = tn_dropped t then Ev_Put c else Ev_Drop c) s else s)\<lparr>ts_t := t'\<rparr>
      in if taken then s1 else ts_log (Ev_Uart c) s1)"

definition tn_getc :: "tn_sys \<Rightarrow> tn_sys" where
  "tn_getc s = (case rvt_console_in (ts_t s) of (c, t) \<Rightarrow> ts_log (Ev_In c) (s\<lparr>ts_t := t\<rparr>))"

fun tn_emu :: "tn_env \<Rightarrow> emu_op list \<Rightarrow> tn_sys \<Rightarrow> tn_sys" where
  "tn_emu e [] s = s"
| "tn_emu e (Emu_Out c # ops) s = tn_emu e ops (tn_putc e c s)"
| "tn_emu e (Emu_In # ops) s = tn_emu e ops (tn_getc s)"

definition tn_blocked :: "tn_env \<Rightarrow> tn_sys \<Rightarrow> tn_sys" where
  "tn_blocked e s = tn_emu e (te_emu e (ts_h s)) s"

text \<open>A send takes no more than it is offered.\<close>

function tn_send_all :: "tn_env \<Rightarrow> u8 list \<Rightarrow> tn_sys \<Rightarrow> bool \<times> tn_sys" where
  "tn_send_all e p s =
     (if p = [] then (True, s)
      else let w = te_send e (ts_h s) p; s1 = tn_blocked e (ts_log (Ev_Sent (take (nat w) p)) s)
           in if w \<le> 0 then (False, s1) else tn_send_all e (drop (nat w) p) s1)"
  by pat_completeness auto

termination by (relation "measure (\<lambda>(e, p, s). length p)") auto

declare tn_send_all.simps [simp del]

text \<open>\<open>tn_flush()\<close>: a batch of at most 256 bytes, 255 doubled, until the ring is empty.\<close>

function tn_batch :: "u8 list \<Rightarrow> spsc \<Rightarrow> u8 list \<times> spsc" where
  "tn_batch out r =
     (if length out < 255
      then case spsc_pop r of
             (None, r') \<Rightarrow> (out, r')
           | (Some c, r') \<Rightarrow> tn_batch (out @ tn_esc c) r'
      else (out, r))"
  by pat_completeness auto

termination by (relation "measure (\<lambda>(out, r). 255 - length out)") (auto simp: tn_esc_def)

declare tn_batch.simps [simp del]

datatype tn_flow = Go | Gone | Cut

fun tn_flush :: "tn_env \<Rightarrow> nat \<Rightarrow> tn_sys \<Rightarrow> tn_flow \<times> tn_sys" where
  "tn_flush e 0 s = (Cut, s)"
| "tn_flush e (Suc n) s =
     (case tn_batch [] (tn_tx (ts_t s)) of
        (out, r) \<Rightarrow>
          (let s1 = s\<lparr>ts_t := (ts_t s)\<lparr>tn_tx := r\<rparr>\<rparr>
           in if out = [] then (Go, s1)
              else case tn_send_all e out s1 of (True, s2) \<Rightarrow> tn_flush e n s2 | (False, s2) \<Rightarrow> (Gone, s2)))"

text \<open>
  The bytes of one receive, with the reply buffer of 64 bytes sent before it can overrun. None
  would be the overrun.
\<close>

fun tn_rx_all :: "tn_env \<Rightarrow> u8 list \<Rightarrow> u8 list \<Rightarrow> tn_sys \<Rightarrow> (bool \<times> tn_sys) option" where
  "tn_rx_all e [] reply s = Some (if reply = [] then (True, s) else tn_send_all e reply s)"
| "tn_rx_all e (b # bs) reply s =
     (case tn_rx_byte b (ts_t s, reply) of
        (t, reply') \<Rightarrow>
          (let s1 = s\<lparr>ts_t := t\<rparr>
           in if length reply' > 64 then None
              else if length reply' > 64 - 3
              then (case tn_send_all e reply' s1 of (True, s2) \<Rightarrow> tn_rx_all e bs [] s2 | (False, s2) \<Rightarrow> Some (False, s2))
              else tn_rx_all e bs reply' s1))"

text \<open>One turn of the loop of \<open>tn_serve()\<close>: poll, receive, filter, flush.\<close>

definition tn_turn :: "tn_env \<Rightarrow> nat \<Rightarrow> tn_sys \<Rightarrow> (tn_flow \<times> tn_sys) option" where
  "tn_turn e n s0 =
     (let (pr, err, readable) = te_poll e (ts_h s0); s = tn_blocked e (ts_log Ev_Poll s0)
      in if pr < 0 then Some (Gone, s)
         else if pr > 0 \<and> err then Some (Gone, s)
         else if pr > 0 \<and> readable then
           (let (got, bytes) = te_recv e (ts_h s); data = take (min 128 (nat got)) bytes;
                s1 = tn_blocked e (ts_log (Ev_Recv data) s)
            in if got \<le> 0 then Some (Gone, s1)
               else case tn_rx_all e data [] s1 of
                      None \<Rightarrow> None
                    | Some (False, s2) \<Rightarrow> Some (Gone, s2)
                    | Some (True, s2) \<Rightarrow> Some (tn_flush e n s2))
         else Some (tn_flush e n s))"

fun tn_turns :: "tn_env \<Rightarrow> nat \<Rightarrow> tn_sys \<Rightarrow> (tn_flow \<times> tn_sys) option" where
  "tn_turns e 0 s = Some (Cut, s)"
| "tn_turns e (Suc n) s =
     (case tn_turn e n s of
        Some (Go, s') \<Rightarrow> tn_turns e n s'
      | r \<Rightarrow> r)"

text \<open>
  \<open>tn_serve()\<close>. A session may last forever and is cut after \<open>n\<close> turns; what is then proved of the
  state holds at every point a session reaches.
\<close>

definition tn_reset :: "telnet \<Rightarrow> telnet" where
  "tn_reset t = t\<lparr>tn_st := TN_S_DATA, tn_saw_cr := False, tn_said_echo := False, tn_said_sga := False,
     tn_tx := spsc_reset (tn_tx t), tn_rx := spsc_reset (tn_rx t)\<rparr>"

definition tn_open :: "tn_env \<Rightarrow> tn_sys \<Rightarrow> bool \<times> tn_sys" where
  "tn_open e s =
     (case tn_send_all e tn_hello (s\<lparr>ts_t := tn_reset (ts_t s)\<rparr>) of
        (False, s1) \<Rightarrow> (False, s1)
      | (True, s1) \<Rightarrow>
          (let t = (ts_t s1)\<lparr>tn_sessions := tn_sessions (ts_t s1) + 1, tn_dropped := 0\<rparr>;
               t2 = t\<lparr>tn_active := True, tn_rx := spsc_push (tn_rx t) 13\<rparr>
           in (True, (ts_log (Ev_Start (tn_sessions t)) s1)\<lparr>ts_t := t2\<rparr>)))"

text \<open>The loop that empties a ring; its size is fuel enough (\<open>spsc_drain_empty\<close>).\<close>

fun spsc_drain :: "nat \<Rightarrow> spsc \<Rightarrow> spsc" where
  "spsc_drain 0 r = r"
| "spsc_drain (Suc n) r = (case spsc_get r of (c, r') \<Rightarrow> if c \<ge> 0 then spsc_drain n r' else r')"

definition tn_close :: "tn_sys \<Rightarrow> tn_sys" where
  "tn_close s =
     (let s1 = ts_log (Ev_Gone (tn_dropped (ts_t s))) s; t = ts_t s1
      in s1\<lparr>ts_t := t\<lparr>tn_active := False,
           tn_tx := spsc_drain (Suc (unat (sp_mask (tn_tx t)))) (tn_tx t)\<rparr>\<rparr>)"

definition tn_serve :: "tn_env \<Rightarrow> nat \<Rightarrow> tn_sys \<Rightarrow> (tn_flow \<times> tn_sys) option" where
  "tn_serve e n s =
     (case tn_open e s of
        (False, s1) \<Rightarrow> Some (Gone, s1)
      | (True, s1) \<Rightarrow>
          (case tn_turns e n s1 of
             None \<Rightarrow> None
           | Some (Gone, s2) \<Rightarrow> Some (Gone, tn_close s2)
           | Some (fl, s2) \<Rightarrow> Some (fl, s2)))"

section \<open>What the client reads\<close>

definition ev_wire :: "tn_ev list \<Rightarrow> u8 list" where
  "ev_wire h = concat (map (\<lambda>ev. case ev of Ev_Sent p \<Rightarrow> p | _ \<Rightarrow> []) h)"

definition ev_puts :: "tn_ev list \<Rightarrow> u8 list" where
  "ev_puts h = concat (map (\<lambda>ev. case ev of Ev_Put c \<Rightarrow> [c] | _ \<Rightarrow> []) h)"

text \<open>A client's side of RFC 854, on the bytes it has received so far.\<close>

function nvt :: "u8 list \<Rightarrow> u8 list" where
  "nvt [] = []"
| "nvt [b] = (if b = TN_IAC then [] else [b])"
| "nvt (b # c # bs) =
     (if b \<noteq> TN_IAC then b # nvt (c # bs)
      else if c = TN_IAC then TN_IAC # nvt bs
      else if c \<in> tn_verbs then nvt (drop 1 bs)
      else nvt bs)"
  by pat_completeness auto

termination by (relation "measure length") auto

definition tn_out_item :: "tn_item \<Rightarrow> bool" where
  "tn_out_item it \<longleftrightarrow> (case it of I_Data b \<Rightarrow> True | I_Neg v opt \<Rightarrow> v \<in> tn_verbs | _ \<Rightarrow> False)"

definition tn_data :: "tn_item list \<Rightarrow> u8 list" where
  "tn_data its = concat (map (\<lambda>it. case it of I_Data b \<Rightarrow> [b] | _ \<Rightarrow> []) its)"

lemma ev_simps [simp]:
  "ev_wire [] = []" "ev_wire (g @ h) = ev_wire g @ ev_wire h" "ev_puts [] = []" "ev_puts (g @ h) = ev_puts g @ ev_puts h"
  "ev_wire (Ev_Sent p # h) = p @ ev_wire h" "ev_puts (Ev_Sent p # h) = ev_puts h"
  "ev_wire (Ev_Poll # h) = ev_wire h" "ev_puts (Ev_Poll # h) = ev_puts h"
  "ev_wire (Ev_Recv p # h) = ev_wire h" "ev_puts (Ev_Recv p # h) = ev_puts h"
  "ev_wire (Ev_Put c # h) = ev_wire h" "ev_puts (Ev_Put c # h) = c # ev_puts h"
  "ev_wire (Ev_Drop c # h) = ev_wire h" "ev_puts (Ev_Drop c # h) = ev_puts h"
  "ev_wire (Ev_Uart c # h) = ev_wire h" "ev_puts (Ev_Uart c # h) = ev_puts h"
  "ev_wire (Ev_In i # h) = ev_wire h" "ev_puts (Ev_In i # h) = ev_puts h"
  "ev_wire (Ev_Start k # h) = ev_wire h" "ev_puts (Ev_Start k # h) = ev_puts h"
  "ev_wire (Ev_Gone k # h) = ev_wire h" "ev_puts (Ev_Gone k # h) = ev_puts h"
  by (simp_all add: ev_wire_def ev_puts_def)

lemma tn_data_simps [simp]:
  "tn_data [] = []" "tn_data (xs @ ys) = tn_data xs @ tn_data ys" "tn_data (I_Data b # its) = b # tn_data its"
  "tn_data (I_Neg v opt # its) = tn_data its" "tn_data (map I_Data cs) = cs"
  by (simp_all add: tn_data_def) (induction cs, simp_all)

lemma tn_wire_data: "tn_wire (map I_Data cs) = concat (map tn_esc cs)"
  by (induction cs) simp_all

lemma nvt_Cons: "b \<noteq> TN_IAC \<Longrightarrow> nvt (b # bs) = b # nvt bs"
  by (cases bs) simp_all

text \<open>A client that has read a part of the stream has read a part of the data.\<close>

lemma nvt_prefix:
  "\<forall>it \<in> set its. tn_out_item it \<Longrightarrow> prefix w (tn_wire its) \<Longrightarrow> prefix (nvt w) (tn_data its)"
proof (induction its arbitrary: w)
  case (Cons it its)
  show ?case
  proof (cases it)
    case (I_Data b)
    show ?thesis
    proof (cases "b = TN_IAC")
      case True
      with Cons.prems I_Data have "prefix w (TN_IAC # TN_IAC # tn_wire its)" by (simp add: tn_esc_def)
      then consider "w = []" | "w = [TN_IAC]" | w' where "w = TN_IAC # TN_IAC # w'" "prefix w' (tn_wire its)"
        by (auto simp: prefix_Cons)
      then show ?thesis using Cons I_Data True by cases auto
    next
      case False
      with Cons.prems I_Data have "prefix w (b # tn_wire its)" by (simp add: tn_esc_def)
      then consider "w = []" | w' where "w = b # w'" "prefix w' (tn_wire its)" by (auto simp: prefix_Cons)
      then show ?thesis using Cons I_Data False by cases (auto simp: nvt_Cons)
    qed
  next
    case (I_Neg v opt)
    with Cons.prems have v: "v \<in> tn_verbs" "v \<noteq> TN_IAC" by (auto simp: tn_out_item_def tn_verbs_def tn_consts)
    from Cons.prems I_Neg have "prefix w (TN_IAC # v # opt # tn_wire its)" by simp
    then consider "w = []" | "w = [TN_IAC]" | "w = [TN_IAC, v]" | w' where "w = TN_IAC # v # opt # w'" "prefix w' (tn_wire its)"
      by (auto simp: prefix_Cons)
    then show ?thesis using Cons I_Neg v by cases auto
  qed (use Cons.prems in \<open>auto simp: tn_out_item_def\<close>)
qed simp

lemma nvt_wire: "\<forall>it \<in> set its. tn_out_item it \<Longrightarrow> nvt (tn_wire its) = tn_data its"
proof (induction its)
  case (Cons it its)
  then show ?case
    by (cases it) (auto simp: tn_esc_def nvt_Cons tn_out_item_def tn_verbs_def tn_consts)
qed simp

section \<open>The invariant of a session\<close>

text \<open>
  \<open>p\<close> are the bytes of the current send still to go out: with them, the wire is a stream of whole
  items, whose data followed by the ring's bytes are what the guest has put.
\<close>

definition tn_out_inv :: "u8 list \<Rightarrow> tn_sys \<Rightarrow> bool" where
  "tn_out_inv p s \<longleftrightarrow> spsc_ok 13 (tn_tx (ts_t s)) \<and>
     (\<exists>its. (\<forall>it \<in> set its. tn_out_item it) \<and> ev_wire (ts_h s) @ p = tn_wire its \<and>
        tn_data its @ spsc_contents (tn_tx (ts_t s)) = ev_puts (ts_h s))"

lemma ts_log_simps [simp]: "ts_t (ts_log ev s) = ts_t s" "ts_h (ts_log ev s) = ts_h s @ [ev]"
  by (simp_all add: ts_log_def)

lemma tn_out_log:
  "ev_wire [ev] = [] \<Longrightarrow> ev_puts [ev] = [] \<Longrightarrow> tn_out_inv p (ts_log ev s) = tn_out_inv p s"
  by (simp add: tn_out_inv_def)

lemma tn_out_upd:
  "tn_tx t = tn_tx (ts_t s) \<Longrightarrow> tn_out_inv p (s\<lparr>ts_t := t\<rparr>) = tn_out_inv p s"
  by (simp add: tn_out_inv_def)

lemma tn_out_putc:
  assumes "tn_out_inv p s"
  shows "tn_out_inv p (tn_putc e c s)"
proof (cases "tn_active (ts_t s)")
  case True
  from assms have ok: "spsc_ok 13 (tn_tx (ts_t s))" by (simp add: tn_out_inv_def)
  obtain put r where pr: "spsc_put (tn_tx (ts_t s)) c = (put, r)" by fastforce
  have r: "spsc_ok 13 r" "spsc_contents r = spsc_contents (tn_tx (ts_t s)) @ (if put then [c] else [])"
    using spsc_put_facts [OF ok, of c] pr by (simp_all add: spsc_push_def)
  obtain its where its: "\<forall>it \<in> set its. tn_out_item it" "ev_wire (ts_h s) @ p = tn_wire its"
    "tn_data its @ spsc_contents (tn_tx (ts_t s)) = ev_puts (ts_h s)"
    using assms by (auto simp: tn_out_inv_def)
  show ?thesis unfolding tn_out_inv_def
    using True pr r its(1,2) its(3) [symmetric]
    by (auto simp: tn_putc_def rvt_console_out_def Let_def split: bool.splits intro!: exI [of _ its])
qed (use assms in \<open>simp add: tn_putc_def rvt_console_out_def Let_def tn_out_log\<close>)

lemma tn_out_getc: "tn_out_inv p s \<Longrightarrow> tn_out_inv p (tn_getc s)"
  by (simp add: tn_getc_def rvt_console_in_def tn_out_log tn_out_upd split: prod.splits)

lemma tn_out_emu: "tn_out_inv p s \<Longrightarrow> tn_out_inv p (tn_emu e ops s)"
  by (induction e ops s rule: tn_emu.induct) (simp_all add: tn_out_putc tn_out_getc)

lemma tn_out_blocked: "tn_out_inv p s \<Longrightarrow> tn_out_inv p (tn_blocked e s)"
  by (simp add: tn_blocked_def tn_out_emu)

lemma tn_out_send_all:
  "tn_out_inv p s \<Longrightarrow> tn_send_all e p s = (b, s') \<Longrightarrow> \<exists>q. tn_out_inv q s' \<and> (b \<longrightarrow> q = [])"
proof (induction e p s rule: tn_send_all.induct)
  case (1 e p s)
  define w where "w = te_send e (ts_h s) p"
  define s1 where "s1 = tn_blocked e (ts_log (Ev_Sent (take (nat w) p)) s)"
  have "tn_out_inv (drop (nat w) p) (ts_log (Ev_Sent (take (nat w) p)) s)"
    using "1.prems"(1) by (simp add: tn_out_inv_def)
  then have s1: "tn_out_inv (drop (nat w) p) s1" unfolding s1_def by (rule tn_out_blocked)
  show ?case
  proof (cases "p = [] \<or> w \<le> 0")
    case True
    then show ?thesis using "1.prems" s1
      by (subst (asm) tn_send_all.simps) (auto simp: Let_def s1_def w_def split: if_splits)
  next
    case False
    then have "tn_send_all e (drop (nat w) p) s1 = (b, s')"
      using "1.prems"(2) by (subst (asm) tn_send_all.simps) (auto simp: Let_def s1_def w_def)
    then show ?thesis using False "1.IH" [OF _ w_def s1_def] s1 by auto
  qed
qed

lemma tn_batch_takes:
  "spsc_ok 13 r \<Longrightarrow> tn_batch out r = (out', r') \<Longrightarrow>
   \<exists>cs. out' = out @ concat (map tn_esc cs) \<and> spsc_contents r = cs @ spsc_contents r' \<and> spsc_ok 13 r' \<and>
     (length out < 255 \<longrightarrow> cs = [] \<longrightarrow> spsc_contents r' = [])"
proof (induction out r rule: tn_batch.induct)
  case (1 out r)
  show ?case
  proof (cases "length out < 255 \<and> spsc_contents r \<noteq> []")
    case True
    then obtain c cs where c: "spsc_contents r = c # cs" by (cases "spsc_contents r") auto
    obtain r1 where r1: "spsc_pop r = (Some c, r1)" "spsc_contents r1 = cs" "spsc_ok 13 r1"
      using tx_ring.get_cons [OF "1.prems"(1) c] tx_ring.get_ok [OF "1.prems"(1)] by (cases "spsc_pop r") auto
    then have "tn_batch (out @ tn_esc c) r1 = (out', r')"
      using "1.prems"(2) True by (subst (asm) tn_batch.simps) simp
    with "1.IH" [OF _ r1(1) [symmetric] refl] True r1 obtain ds where
      "out' = out @ tn_esc c @ concat (map tn_esc ds)" "spsc_contents r1 = ds @ spsc_contents r'" "spsc_ok 13 r'" by auto
    then show ?thesis using c r1 by (intro exI [of _ "c # ds"]) simp
  next
    case False
    have "out' = out \<and> spsc_contents r' = spsc_contents r \<and> spsc_ok 13 r'"
    proof (cases "length out < 255")
      case True
      with False obtain r1 where "spsc_pop r = (None, r1)" "spsc_contents r1 = []" "spsc_ok 13 r1"
        using tx_ring.get_empty [OF "1.prems"(1)] tx_ring.get_ok [OF "1.prems"(1)] by (cases "spsc_pop r") auto
      then show ?thesis using "1.prems"(2) True False by (subst (asm) tn_batch.simps) simp
    qed (use "1.prems" in \<open>subst (asm) tn_batch.simps, simp\<close>)
    with False show ?thesis by (intro exI [of _ "[]"]) auto
  qed
qed

lemma tn_batch_size: "length out \<le> 256 \<Longrightarrow> length (fst (tn_batch out r)) \<le> 256"
proof (induction out r rule: tn_batch.induct)
  case (1 out r)
  then show ?case
    by (subst tn_batch.simps) (auto simp: tn_esc_def split: option.splits prod.splits)
qed

lemma tn_out_flush:
  "tn_out_inv [] s \<Longrightarrow> tn_flush e n s = (fl, s') \<Longrightarrow> \<exists>q. tn_out_inv q s' \<and> (fl \<noteq> Gone \<longrightarrow> q = [])"
proof (induction n arbitrary: s)
  case (Suc n)
  obtain out r where b: "tn_batch [] (tn_tx (ts_t s)) = (out, r)" by fastforce
  define s1 where "s1 = s\<lparr>ts_t := (ts_t s)\<lparr>tn_tx := r\<rparr>\<rparr>"
  obtain its where its: "\<forall>it \<in> set its. tn_out_item it" "ev_wire (ts_h s) = tn_wire its"
    "tn_data its @ spsc_contents (tn_tx (ts_t s)) = ev_puts (ts_h s)" "spsc_ok 13 (tn_tx (ts_t s))"
    using Suc.prems(1) by (auto simp: tn_out_inv_def)
  obtain cs where cs: "out = concat (map tn_esc cs)" "spsc_contents (tn_tx (ts_t s)) = cs @ spsc_contents r" "spsc_ok 13 r"
    using tn_batch_takes [OF its(4) b] by auto
  have s1: "tn_out_inv out s1"
    unfolding tn_out_inv_def using its cs
    by (auto simp: s1_def tn_wire_data tn_out_item_def intro!: exI [of _ "its @ map I_Data cs"])
  show ?case
  proof (cases "out = []")
    case True
    then show ?thesis using Suc.prems(2) b s1 by (auto simp: s1_def Let_def)
  next
    case False
    obtain ok s2 where s2: "tn_send_all e out s1 = (ok, s2)" by fastforce
    from tn_out_send_all [OF s1 s2] obtain q where q: "tn_out_inv q s2" "ok \<longrightarrow> q = []" by blast
    show ?thesis
    proof (cases ok)
      case True
      with Suc.IH [of s2] q Suc.prems(2) b s2 False show ?thesis by (simp add: s1_def Let_def)
    qed (use q Suc.prems(2) b s2 False in \<open>auto simp: s1_def Let_def\<close>)
  qed
qed auto

text \<open>A received byte answers with at most one negotiation, and leaves the ring to the client alone.\<close>

lemma tn_rx_byte_reply:
  "\<exists>t' x. tn_rx_byte b (t, reply) = (t', reply @ tn_wire x) \<and> tn_tx t' = tn_tx t \<and>
     (\<forall>it \<in> set x. tn_out_item it) \<and> tn_data x = [] \<and> length (tn_wire x) \<le> 3"
proof (cases "tn_st t")
  case TN_S_OPT
  let ?x = "tn_answers (tn_said t) [I_Neg (tn_verb t) b]"
  have "(\<forall>it \<in> set ?x. tn_out_item it) \<and> tn_data ?x = [] \<and> length (tn_wire ?x) \<le> 3"
    by (simp add: tn_out_item_def tn_verbs_def)
  moreover obtain t' where "tn_rx_opt b (t, reply) = (t', reply @ tn_wire ?x)" "tn_tx t' = tn_tx t"
    using tn_rx_opt_answers [of b t reply] by blast
  ultimately show ?thesis using TN_S_OPT
    by (intro exI [of _ t'] exI [of _ ?x]) (simp add: tn_rx_byte_def)
qed (intro exI [of _ "fst (tn_rx_byte b (t, reply))"] exI [of _ "[]"],
    simp add: tn_rx_byte_def tn_rx_data_def tn_rx_iac_def)+

lemma tn_out_rx_all:
  "tn_out_inv [] s \<Longrightarrow> reply = tn_wire x \<Longrightarrow> \<forall>it \<in> set x. tn_out_item it \<Longrightarrow> tn_data x = [] \<Longrightarrow> length reply \<le> 61 \<Longrightarrow>
   \<exists>ok s' q. tn_rx_all e bs reply s = Some (ok, s') \<and> tn_out_inv q s' \<and> (ok \<longrightarrow> q = [])"
proof (induction bs arbitrary: s reply x)
  have reply: "tn_out_inv (tn_wire x) s" if "tn_out_inv [] s" "\<forall>it \<in> set x. tn_out_item it" "tn_data x = []" for s x
  proof -
    from that(1) obtain its where "\<forall>it \<in> set its. tn_out_item it" "ev_wire (ts_h s) = tn_wire its"
      "tn_data its @ spsc_contents (tn_tx (ts_t s)) = ev_puts (ts_h s)" "spsc_ok 13 (tn_tx (ts_t s))"
      by (auto simp: tn_out_inv_def)
    then show ?thesis using that(2,3) unfolding tn_out_inv_def
      by (auto intro!: exI [of _ "its @ x"])
  qed
  {
    case Nil
    obtain ok s' where s': "tn_send_all e reply s = (ok, s')" by fastforce
    have "tn_out_inv reply s" using reply [of s x] Nil by simp
    from tn_out_send_all [OF this s'] obtain q where "tn_out_inv q s'" "ok \<longrightarrow> q = []" by blast
    then show ?case using Nil(1) s' by (cases "reply = []") auto
  next
    case (Cons b bs)
    obtain t' y where y: "tn_rx_byte b (ts_t s, reply) = (t', reply @ tn_wire y)" "tn_tx t' = tn_tx (ts_t s)"
      "\<forall>it \<in> set y. tn_out_item it" "tn_data y = []" "length (tn_wire y) \<le> 3"
      using tn_rx_byte_reply [of b "ts_t s" reply] by blast
    define s1 where "s1 = s\<lparr>ts_t := t'\<rparr>"
    have s1: "tn_out_inv [] s1" using Cons.prems(1) y(2) by (simp add: s1_def tn_out_upd)
    have xy: "reply @ tn_wire y = tn_wire (x @ y)" "\<forall>it \<in> set (x @ y). tn_out_item it" "tn_data (x @ y) = []"
      using Cons.prems y by auto
    show ?case
    proof (cases "length (reply @ tn_wire y) > 61")
      case True
      obtain ok s2 where s2: "tn_send_all e (tn_wire (x @ y)) s1 = (ok, s2)" by fastforce
      from tn_out_send_all [OF reply [OF s1 xy(2,3)] s2] obtain q where q: "tn_out_inv q s2" "ok \<longrightarrow> q = []" by blast
      have eq: "tn_rx_all e (b # bs) reply s = (if ok then tn_rx_all e bs [] s2 else Some (False, s2))"
        using True y(5) Cons.prems(5) by (simp add: y(1) Let_def s1_def [symmetric] s2 [unfolded xy(1) [symmetric]] split: bool.splits)
      show ?thesis
      proof (cases ok)
        case True
        with Cons.IH [of s2 "[]" "[]"] q eq show ?thesis by simp
      qed (use q eq in auto)
    next
      case False
      then have "tn_rx_all e (b # bs) reply s = tn_rx_all e bs (tn_wire (x @ y)) s1"
        by (simp add: y(1) Let_def s1_def [symmetric] xy(1) del: tn_wire_simps)
      with Cons.IH [of s1 "tn_wire (x @ y)" "x @ y"] s1 xy False show ?thesis by simp
    qed
  }
qed

lemma tn_out_turn:
  assumes "tn_out_inv [] s"
  shows "\<exists>fl s' q. tn_turn e n s = Some (fl, s') \<and> tn_out_inv q s' \<and> (fl \<noteq> Gone \<longrightarrow> q = [])"
proof -
  obtain pr err rd where poll: "te_poll e (ts_h s) = (pr, err, rd)" by (cases "te_poll e (ts_h s)")
  define s1 where "s1 = tn_blocked e (ts_log Ev_Poll s)"
  have s1: "tn_out_inv [] s1" unfolding s1_def using assms by (simp add: tn_out_blocked tn_out_log)
  have flush: "\<exists>fl s' q. Some (tn_flush e n s2) = Some (fl, s') \<and> tn_out_inv q s' \<and> (fl \<noteq> Gone \<longrightarrow> q = [])"
    if "tn_out_inv [] s2" for s2
    using tn_out_flush [OF that, of e n] by (cases "tn_flush e n s2") auto
  obtain got bytes where recv: "te_recv e (ts_h s1) = (got, bytes)" by fastforce
  define data where "data = take (min 128 (nat got)) bytes"
  define s2 where "s2 = tn_blocked e (ts_log (Ev_Recv data) s1)"
  have s2: "tn_out_inv [] s2" unfolding s2_def using s1 by (simp add: tn_out_blocked tn_out_log)
  obtain ok s3 q where s3: "tn_rx_all e data [] s2 = Some (ok, s3)" "tn_out_inv q s3" "ok \<longrightarrow> q = []"
    using tn_out_rx_all [OF s2, of "[]" "[]" e data] by auto
  have turn: "tn_turn e n s =
     (if pr < 0 \<or> pr > 0 \<and> err then Some (Gone, s1)
      else if pr > 0 \<and> rd then
        (if got \<le> 0 then Some (Gone, s2) else if ok then Some (tn_flush e n s3) else Some (Gone, s3))
      else Some (tn_flush e n s1))"
    unfolding tn_turn_def poll Let_def prod.case s1_def [symmetric] recv data_def [symmetric] s2_def [symmetric] s3(1)
    by (cases ok) simp_all
  show ?thesis unfolding turn
    using flush [OF s1] flush [of s3] s1 s2 s3(2,3) by auto
qed

lemma tn_out_turns:
  "tn_out_inv [] s \<Longrightarrow> \<exists>fl s' q. tn_turns e n s = Some (fl, s') \<and> tn_out_inv q s' \<and> (fl \<noteq> Gone \<longrightarrow> q = [])"
proof (induction n arbitrary: s)
  case (Suc n)
  from tn_out_turn [OF Suc.prems] obtain fl s1 q where
    s1: "tn_turn e n s = Some (fl, s1)" "tn_out_inv q s1" "fl \<noteq> Gone \<longrightarrow> q = []" by blast
  then show ?case using Suc.IH [of s1] by (cases fl) auto
qed auto

lemma tn_out_open:
  assumes "spsc_ok 13 (tn_tx (ts_t s))" "ts_h s = []" "tn_open e s = (b, s')"
  shows "\<exists>q. tn_out_inv q s' \<and> (b \<longrightarrow> q = [])"
proof -
  define s0 where "s0 = s\<lparr>ts_t := tn_reset (ts_t s)\<rparr>"
  have s0: "tn_out_inv tn_hello s0"
    unfolding tn_out_inv_def using assms(1,2) spsc_reset_facts [OF assms(1)]
    by (intro conjI exI [of _ "[I_Neg TN_WILL TN_OPT_ECHO, I_Neg TN_WILL TN_OPT_SGA, I_Neg TN_DO TN_OPT_SGA]"])
      (simp_all add: s0_def tn_reset_def tn_hello_def tn_out_item_def tn_verbs_def)
  obtain ok s1 where s1: "tn_send_all e tn_hello s0 = (ok, s1)" by fastforce
  from tn_out_send_all [OF s0 s1] obtain q where "tn_out_inv q s1" "ok \<longrightarrow> q = []" by blast
  with assms(3) s1 show ?thesis
    by (auto simp: tn_open_def s0_def Let_def tn_out_log tn_out_upd split: bool.splits)
qed

lemma spsc_drain_empty:
  assumes "spsc_ok k r" "length (spsc_contents r) < n"
  shows "spsc_ok k (spsc_drain n r) \<and> spsc_contents (spsc_drain n r) = []"
  using assms
proof (induction n arbitrary: r)
  case (Suc n)
  show ?case
  proof (cases "spsc_contents r")
    case Nil
    with spsc_get_facts(2) [OF Suc.prems(1)] Suc.prems show ?thesis by simp
  next
    case (Cons b bs)
    obtain c r' where g: "spsc_get r = (c, r')" by fastforce
    with spsc_get_facts(1,3) [OF Suc.prems(1)] Cons have "c = uint b" "spsc_contents r' = bs" "spsc_ok k r'" by auto
    with Suc.IH [of r'] Suc.prems Cons g show ?thesis by simp
  qed
qed simp

text \<open>Before a session is announced the emulator does not touch the console's state.\<close>

lemma tn_idle_emu: "\<not> tn_active (ts_t s) \<Longrightarrow> ts_t (tn_emu e ops s) = ts_t s"
proof (induction e ops s rule: tn_emu.induct)
  case (2 e c ops s)
  then have "ts_t (tn_putc e c s) = ts_t s" by (simp add: tn_putc_def rvt_console_out_def)
  with 2 show ?case by simp
next
  case (3 e ops s)
  then have "ts_t (tn_getc s) = ts_t s" by (simp add: tn_getc_def rvt_console_in_def)
  with 3 show ?case by simp
qed simp

lemma tn_idle_send_all: "\<not> tn_active (ts_t s) \<Longrightarrow> ts_t (snd (tn_send_all e p s)) = ts_t s"
proof (induction e p s rule: tn_send_all.induct)
  case (1 e p s)
  define s1 where "s1 = tn_blocked e (ts_log (Ev_Sent (take (nat (te_send e (ts_h s) p)) p)) s)"
  have "ts_t s1 = ts_t s" unfolding s1_def using "1.prems" by (simp add: tn_blocked_def tn_idle_emu)
  with "1.IH" [OF _ refl s1_def] "1.prems" show ?case
    unfolding tn_send_all.simps [of e p s] Let_def s1_def [symmetric] by simp
qed

lemma tn_open_fails:
  assumes "spsc_ok 13 (tn_tx (ts_t s))" "\<not> tn_active (ts_t s)" "tn_open e s = (False, s')"
  shows "spsc_contents (tn_tx (ts_t s')) = [] \<and> \<not> tn_active (ts_t s')"
proof -
  define s0 where "s0 = s\<lparr>ts_t := tn_reset (ts_t s)\<rparr>"
  obtain ok s1 where s1: "tn_send_all e tn_hello s0 = (ok, s1)" by fastforce
  have "ts_t s1 = ts_t s0" using tn_idle_send_all [of s0 e tn_hello] assms(2) s1 by (simp add: s0_def tn_reset_def)
  then show ?thesis using assms s1 spsc_reset_facts [OF assms(1)]
    by (auto simp: tn_open_def s0_def [symmetric] Let_def s0_def tn_reset_def split: bool.splits)
qed

lemma tn_close_empty:
  assumes "tn_out_inv q s"
  shows "spsc_contents (tn_tx (ts_t (tn_close s))) = [] \<and> \<not> tn_active (ts_t (tn_close s)) \<and>
    ev_wire (ts_h (tn_close s)) = ev_wire (ts_h s) \<and> ev_puts (ts_h (tn_close s)) = ev_puts (ts_h s)"
proof -
  have ok: "spsc_ok 13 (tn_tx (ts_t s))" using assms by (simp add: tn_out_inv_def)
  then have "length (spsc_contents (tn_tx (ts_t s))) < Suc (unat (sp_mask (tn_tx (ts_t s))))"
    using spsc_contents_less [OF ok] spsc_size [OF ok] by simp
  from spsc_drain_empty [OF ok this] show ?thesis by (simp add: tn_close_def Let_def del: spsc_drain.simps)
qed


text \<open>
  A session at work: the guest prints two bytes, one of them 255, while the thread polls; the client
  sends an \<open>a\<close>; the socket takes everything; then the connection is lost.
\<close>

definition telnet_demo_env :: tn_env where
  "telnet_demo_env = \<lparr>te_send = (\<lambda>h p. int (length p)),
     te_poll = (\<lambda>h. if length h < 4 then (1, False, True) else (- 1, False, False)),
     te_recv = (\<lambda>h. (1, [0x61])),
     te_emu = (\<lambda>h. if last h = Ev_Poll then [Emu_Out 255, Emu_Out 0x62] else []),
     te_mirror = False\<rparr>"

definition telnet_demo_sys :: tn_sys where
  "telnet_demo_sys = \<lparr>ts_t = telnet_demo, ts_h = []\<rparr>"


section \<open>Flushing ends when the guest is quiet\<close>

lemma tn_send_all_quiet:
  "(\<And>h. te_emu e h = []) \<Longrightarrow> (\<And>h p. p \<noteq> [] \<Longrightarrow> te_send e h p > 0) \<Longrightarrow>
   \<exists>s'. tn_send_all e p s = (True, s') \<and> ts_t s' = ts_t s \<and> ev_wire (ts_h s') = ev_wire (ts_h s) @ p"
proof (induction e p s rule: tn_send_all.induct)
  case (1 e p s)
  define w where "w = te_send e (ts_h s) p"
  define s1 where "s1 = tn_blocked e (ts_log (Ev_Sent (take (nat w) p)) s)"
  have s1: "ts_t s1 = ts_t s" "ev_wire (ts_h s1) = ev_wire (ts_h s) @ take (nat w) p"
    using "1.prems"(1) by (simp_all add: s1_def tn_blocked_def)
  show ?case
  proof (cases "p = []")
    case False
    then have w: "w > 0" using "1.prems"(2) by (simp add: w_def)
    then obtain s' where s': "tn_send_all e (drop (nat w) p) s1 = (True, s')" "ts_t s' = ts_t s1"
      "ev_wire (ts_h s') = ev_wire (ts_h s1) @ drop (nat w) p"
      using "1.IH" [OF False w_def s1_def] "1.prems" by auto
    then have "tn_send_all e p s = (True, s')"
      unfolding tn_send_all.simps [of e p s] Let_def w_def [symmetric] s1_def [symmetric] using False w by simp
    with s' s1 show ?thesis by simp
  qed (simp add: tn_send_all.simps)
qed

text \<open>
  When the socket takes bytes and the guest prints nothing more, a flush comes back: with fuel
  for each byte in the ring it returns with the ring empty, having sent those bytes with every 255
  doubled, and no batch is longer than its buffer of 256 bytes.
\<close>

lemma telnet_flush_drains:
  assumes "\<And>h. te_emu e h = []" "\<And>h p. p \<noteq> [] \<Longrightarrow> te_send e h p > 0"
    and "spsc_ok 13 (tn_tx (ts_t s))" "length (spsc_contents (tn_tx (ts_t s))) < n"
  shows "\<exists>s'. tn_flush e n s = (Go, s') \<and> spsc_contents (tn_tx (ts_t s')) = [] \<and>
    ev_wire (ts_h s') = ev_wire (ts_h s) @ concat (map tn_esc (spsc_contents (tn_tx (ts_t s)))) \<and>
    length (fst (tn_batch [] (tn_tx (ts_t s)))) \<le> 256"
proof -
  have "\<exists>s'. tn_flush e n s = (Go, s') \<and> spsc_contents (tn_tx (ts_t s')) = [] \<and>
    ev_wire (ts_h s') = ev_wire (ts_h s) @ concat (map tn_esc (spsc_contents (tn_tx (ts_t s))))"
    using assms(3,4)
  proof (induction n arbitrary: s)
    case (Suc n)
    obtain out r where b: "tn_batch [] (tn_tx (ts_t s)) = (out, r)" by fastforce
    obtain cs where cs: "out = concat (map tn_esc cs)" "spsc_contents (tn_tx (ts_t s)) = cs @ spsc_contents r" "spsc_ok 13 r"
      "cs = [] \<longrightarrow> spsc_contents r = []"
      using tn_batch_takes [OF Suc.prems(1) b] by auto
    have out: "out = [] \<longleftrightarrow> cs = []" by (cases cs) (auto simp: cs(1) tn_esc_def)
    show ?case
    proof (cases "cs = []")
      case True
      with b cs out show ?thesis by simp
    next
      case False
      obtain s2 where s2: "tn_send_all e out (s\<lparr>ts_t := (ts_t s)\<lparr>tn_tx := r\<rparr>\<rparr>) = (True, s2)"
        "tn_tx (ts_t s2) = r" "ev_wire (ts_h s2) = ev_wire (ts_h s) @ out"
        using tn_send_all_quiet [OF assms(1,2), of out "s\<lparr>ts_t := (ts_t s)\<lparr>tn_tx := r\<rparr>\<rparr>"] by auto
      have "length (spsc_contents r) < n" using Suc.prems(2) cs(2) False by (cases cs) auto
      with Suc.IH [of s2] s2 cs(1,2,3) b out False show ?thesis by (auto simp: Let_def)
    qed
  qed simp
  then show ?thesis using tn_batch_size [of "[]" "tn_tx (ts_t s)"] by simp
qed

section \<open>The hooks, the listener and the lines on the UART\<close>

text \<open>Every byte the guest prints has one fate: the ring, the drop counter or (no session) the UART.\<close>

lemma console_out_fate:
  assumes "spsc_ok 13 (tn_tx t)"
  shows "rvt_console_out False c t =
    (if \<not> tn_active t then (False, t)
     else if length (spsc_contents (tn_tx t)) < 2 ^ 13 - 1 then (True, t\<lparr>tn_tx := spsc_push (tn_tx t) c\<rparr>)
     else (True, t\<lparr>tn_dropped := tn_dropped t + 1\<rparr>))"
proof -
  have "spsc_put (tn_tx t) c = (True, spsc_push (tn_tx t) c)" if "length (spsc_contents (tn_tx t)) < 2 ^ 13 - 1"
    using spsc_put_facts(2) [OF assms, of c] that by (cases "spsc_put (tn_tx t) c") (simp add: spsc_push_def)
  moreover have "spsc_put (tn_tx t) c = (False, tn_tx t)" if "\<not> length (spsc_contents (tn_tx t)) < 2 ^ 13 - 1"
    using spsc_put_facts(2) [OF assms, of c] that by (auto simp: spsc_put_def Let_def split: if_splits)
  ultimately show ?thesis by (simp add: rvt_console_out_def)
qed

lemma console_in_takes:
  "tn_active t \<Longrightarrow> spsc_ok 10 (tn_rx t) \<Longrightarrow> spsc_contents (tn_rx t) = b # bs \<Longrightarrow>
   \<exists>r. rvt_console_in t = (uint b, t\<lparr>tn_rx := r\<rparr>) \<and> spsc_contents r = bs \<and> spsc_ok 10 r"
  using spsc_get_facts [of 10 "tn_rx t"] by (cases "spsc_get (tn_rx t)") (auto simp: rvt_console_in_def)

text \<open>
  An accepted connection: served, or turned away when a session is active. Since the same thread
  serves and accepts, the second never happens.
\<close>

definition tn_client :: "tn_env \<Rightarrow> nat \<Rightarrow> u8 list \<Rightarrow> tn_sys \<Rightarrow> (tn_flow \<times> tn_sys) option" where
  "tn_client e n busy s =
     (if tn_active (ts_t s) then Some (Gone, snd (tn_send_all e busy s)) else tn_serve e n s)"

lemma tn_client_never_busy:
  assumes "spsc_ok 13 (tn_tx (ts_t s))" "ts_h s = []" "\<not> tn_active (ts_t s)" "tn_client e n busy s = Some (Gone, s')"
  shows "\<not> tn_active (ts_t s')"
proof -
  obtain b s1 where s1: "tn_open e s = (b, s1)" by fastforce
  obtain q where q: "tn_out_inv q s1" "b \<longrightarrow> q = []" using tn_out_open [OF assms(1,2) s1] by blast
  show ?thesis
  proof (cases b)
    case False
    with tn_open_fails [OF assms(1,3)] s1 assms(3,4) show ?thesis by (auto simp: tn_client_def tn_serve_def)
  next
    case True
    with q obtain fl s2 q2 where s2: "tn_turns e n s1 = Some (fl, s2)" "tn_out_inv q2 s2"
      using tn_out_turns [of s1 e n] by auto
    show ?thesis using True s1 s2(1) tn_close_empty [OF s2(2)] assms(3,4)
      by (cases fl) (auto simp: tn_client_def tn_serve_def)
  qed
qed

text \<open>
  The hello announces WILL ECHO, and the flags that stop a second announcement start false: a client
  that confirms with DO ECHO is told WILL ECHO once more.
\<close>

lemma telnet_reannounces:
  "take 3 tn_hello = [TN_IAC, TN_WILL, TN_OPT_ECHO] \<and>
   snd (tn_filter [TN_IAC, TN_DO, TN_OPT_ECHO] (tn_reset t, [])) = [TN_IAC, TN_WILL, TN_OPT_ECHO]"
  by (simp add: tn_hello_def tn_reset_def tn_rx_byte_def tn_rx_data_def tn_rx_iac_def tn_rx_opt_def tn_distinct)
    (simp add: tn_consts)

text \<open>\<open>udec()\<close>: decimal digits into a buffer, printed backwards; here at 32 bits and 12 digits.\<close>

fun udec_digits :: "nat \<Rightarrow> 'a::len word \<Rightarrow> u8 list" where
  "udec_digits 0 v = []"
| "udec_digits (Suc n) v = (if v > 0 then (48 + ucast (v mod 10)) # udec_digits n (v div 10) else [])"

definition udec :: "nat \<Rightarrow> 'a::len word \<Rightarrow> u8 list" where
  "udec n v = (if v = 0 then [48] else rev (udec_digits n v))"

fun udec_value :: "u8 list \<Rightarrow> nat" where
  "udec_value [] = 0"
| "udec_value (d # ds) = (unat d - 48) + 10 * udec_value ds"

lemma udec_digits_value:
  "unat (v :: u32) < 10 ^ n \<Longrightarrow> udec_value (udec_digits n v) = unat v"
proof (induction n arbitrary: v)
  case (Suc n)
  have d: "unat (v div 10) = unat v div 10" "unat (v mod 10) = unat v mod 10"
    by (simp_all add: unat_div unat_mod)
  have "unat (48 + ucast (v mod 10) :: u8) = 48 + unat v mod 10"
    by (simp add: unat_word_ariths d unsigned_ucast_eq take_bit_eq_mod)
  moreover have "unat v div 10 < 10 ^ n" using Suc.prems by (simp add: less_mult_imp_div_less)
  ultimately show ?case using Suc.IH [of "v div 10"] d
    by (auto simp: word_gt_0)
qed (simp add: unat_eq_0)

lemma udec_correct: "udec_value (rev (udec 12 (v :: u32))) = unat v"
proof -
  have "unat v < 10 ^ 12" by (rule unsigned_less [THEN order_less_le_trans]) simp
  then show ?thesis using udec_digits_value [of v 12] by (simp add: udec_def)
qed

text \<open>\<open>print_ipv4()\<close>\<close>

definition print_ipv4 :: "u8 \<times> u8 \<times> u8 \<times> u8 \<Rightarrow> u8 list" where
  "print_ipv4 = (\<lambda>(a, b, c, d). let dec = (\<lambda>x. udec 12 (ucast x :: u32))
     in dec a @ [46] @ dec b @ [46] @ dec c @ [46] @ dec d)"

end
