(* ===== verification/Pusher.thy ===== *)
theory Pusher
  imports Flash_Writer Telnet
begin

text \<open>
  The image pusher (\<open>src/pusher.c\<close>): one push over a TCP connection, from the banner to the
  verified commit, around the payload phase of \<open>Flash_Writer\<close>, and what the listener does between
  pushes. Socket, flash driver, clock, the window and the emulator's stop are functions of the
  history of events.
\<close>

section \<open>The environment\<close>

record push_env =
  pe_send :: "push_ev list \<Rightarrow> u8 list \<Rightarrow> int"
  pe_poll :: "push_ev list \<Rightarrow> int \<times> bool"           \<comment> \<open>result, error or hang-up\<close>
  pe_recv :: "push_ev list \<Rightarrow> nat \<Rightarrow> u8 list"        \<comment> \<open>nothing when closed or in error\<close>
  pe_uptime :: "push_ev list \<Rightarrow> int"
  pe_stopped :: "push_ev list \<Rightarrow> bool"              \<comment> \<open>the flag \<open>guest_stopped\<close>\<close>
  pe_ack :: "push_ev list \<Rightarrow> bool"                  \<comment> \<open>\<open>halt_ack\<close> given within 100 ms\<close>
  pe_ready :: bool
  pe_erase :: "push_ev list \<Rightarrow> nat \<Rightarrow> nat \<Rightarrow> int"
  pe_write :: "push_ev list \<Rightarrow> nat \<Rightarrow> u8 list \<Rightarrow> int"
  pe_window :: "push_ev list \<Rightarrow> block"
  pe_sched :: "push_ev list \<Rightarrow> nl_act list"
  pe_crc :: "u8 list \<Rightarrow> u32"
  pe_ram :: u32
  pe_blank :: bool                               \<comment> \<open>\<open>CONFIG_RVT_PUSHER_BLANK_CHECK\<close>\<close>

record push_st =
  ps_h :: "push_ev list"
  ps_halt_by_pusher :: bool
  ps_writer_lost :: bool
  ps_armed :: bool
  ps_reboot_at :: int

definition ps_log :: "push_ev \<Rightarrow> push_st \<Rightarrow> push_st" where
  "ps_log ev s = s\<lparr>ps_h := ps_h s @ [ev]\<rparr>"

definition k_uptime_get :: "push_env \<Rightarrow> push_st \<Rightarrow> int \<times> push_st" where
  "k_uptime_get e s = (pe_uptime e (ps_h s), ps_log Clock s)"

section \<open>The socket helpers\<close>

function nl_send_str :: "push_env \<Rightarrow> u8 list \<Rightarrow> push_st \<Rightarrow> bool \<times> push_st" where
  "nl_send_str e p s =
     (if p = [] then (True, s)
      else let w = pe_send e (ps_h s) p; s1 = ps_log (N_Sent (take (nat w) p)) s
           in if w \<le> 0 then (False, s1) else nl_send_str e (drop (nat w) p) s1)"
  by pat_completeness auto

termination by (relation "measure (\<lambda>(e, p, s). length p)") auto

declare nl_send_str.simps [simp del]

definition nl_say :: "push_env \<Rightarrow> string \<Rightarrow> push_st \<Rightarrow> push_st" where
  "nl_say e msg s = snd (nl_send_str e (chr msg @ [10]) s)"

definition nl_send_banner :: "push_env \<Rightarrow> push_st \<Rightarrow> bool \<times> push_st" where
  "nl_send_banner e s =
     (let slot = (\<lambda>i. chr '' '' @ img_slot_name i @ chr '':'' @ udec 12 (fst (plat_slot_offset i)) @ chr '':'' @
            udec 12 (img_max_len (pe_ram e) i))
      in nl_send_str e (chr ''RA8LDR 1'' @ slot PLAT_SLOT_KERNEL @ slot PLAT_SLOT_ROOTFS @ [10]) s)"

text \<open>Bytes read and their number; 0 on a time-out, -1 on an error or a close.\<close>

definition nl_recv :: "push_env \<Rightarrow> nat \<Rightarrow> push_st \<Rightarrow> int \<times> u8 list \<times> push_st" where
  "nl_recv e n s =
     (let (pr, err) = pe_poll e (ps_h s); s1 = ps_log N_Poll s
      in if pr = 0 then (0, [], s1)
         else if pr < 0 \<or> err then (- 1, [], s1)
         else let bs = take n (pe_recv e (ps_h s1) n)
              in if bs = [] then (- 1, [], s1) else (int (length bs), bs, ps_log (N_Header bs) s1))"

function nl_recv_exact :: "push_env \<Rightarrow> nat \<Rightarrow> push_st \<Rightarrow> u8 list option \<times> push_st" where
  "nl_recv_exact e n s =
     (if n = 0 then (Some [], s)
      else case nl_recv e n s of
             (got, bs, s1) \<Rightarrow>
               if got \<le> 0 then (None, s1)
               else case nl_recv_exact e (n - length bs) s1 of
                      (None, s2) \<Rightarrow> (None, s2)
                    | (Some rest, s2) \<Rightarrow> (Some (bs @ rest), s2))"
  by pat_completeness auto

termination
  by (relation "measure (\<lambda>(e, n, s). n)")
    (auto simp: nl_recv_def Let_def split: if_splits prod.splits)

declare nl_recv_exact.simps [simp del]

section \<open>Stopping the guest\<close>

definition HALT_MS :: int where "HALT_MS = 5000"

text \<open>The loop asks, waits 100 ms, and looks at the clock; \<open>n\<close> rounds are the fuel.\<close>

fun halt_loop :: "push_env \<Rightarrow> nat \<Rightarrow> int \<Rightarrow> push_st \<Rightarrow> bool option \<times> push_st" where
  "halt_loop e 0 deadline s = (None, s)"
| "halt_loop e (Suc n) deadline s =
     (let s1 = ps_log H_Poweroff s
      in if pe_ack e (ps_h s1) then (Some True, ps_log B_Suspend (ps_log H_Stopped s1))
         else let (t, s2) = k_uptime_get e s1
              in if t < deadline then halt_loop e n deadline s2 else (Some False, s2))"

definition halt_guest :: "push_env \<Rightarrow> nat \<Rightarrow> push_st \<Rightarrow> bool option \<times> push_st" where
  "halt_guest e n s =
     (let (t, s1) = k_uptime_get e s; deadline = t + HALT_MS; (t0, s2) = k_uptime_get e s1
      in if pe_stopped e (ps_h s2) then (Some True, ps_log H_Stopped s2)
         else halt_loop e n deadline (s2\<lparr>ps_halt_by_pusher := True\<rparr>))"

section \<open>Erase, commit\<close>

definition ERASE_SZ :: nat where "ERASE_SZ = unat plat_flash_erase_size"

definition blank_block :: "block \<Rightarrow> nat \<Rightarrow> bool" where
  "blank_block w a \<longleftrightarrow> (\<forall>i \<in> set [0..<ERASE_SZ div 4]. (of_le (mem_read w (a + 4 * i) 4) :: u32) = 0xFFFFFFFF)"

fun erase_blocks :: "push_env \<Rightarrow> nat \<Rightarrow> nat list \<Rightarrow> push_st \<Rightarrow> bool \<times> push_st" where
  "erase_blocks e off [] s = (True, s)"
| "erase_blocks e off (b # bs) s =
     (let a = off + b * ERASE_SZ; rc = pe_erase e (ps_h s) a ERASE_SZ; s1 = ps_log (F_Erase a ERASE_SZ rc) s
      in if rc \<noteq> 0 then (False, s1)
         else if pe_blank e then
           (let s2 = ps_log F_Inval s1
            in if blank_block (pe_window e (ps_h s2)) a then erase_blocks e off bs s2 else (False, s2))
         else erase_blocks e off bs s1)"

definition img_need :: "u32 \<Rightarrow> u32" where
  "img_need len = round_up (len + IMG_PAYLOAD_OFF) plat_flash_erase_size"

definition img_erase :: "push_env \<Rightarrow> int \<Rightarrow> u32 \<Rightarrow> push_st \<Rightarrow> bool \<times> push_st" where
  "img_erase e slot len s =
     (if \<not> pe_ready e then (False, s)
      else erase_blocks e (slot_lo slot) [0..<unat (img_need len) div ERASE_SZ] s)"

definition VERIFY_ATTEMPTS :: nat where "VERIFY_ATTEMPTS = 3"

text \<open>\<open>n\<close> attempts are left; what is cached is dropped between two of them.\<close>

fun verify_loop :: "push_env \<Rightarrow> int \<Rightarrow> u32 \<Rightarrow> nat \<Rightarrow> push_st \<Rightarrow> bool \<times> push_st" where
  "verify_loop e slot len 0 s = (False, s)"
| "verify_loop e slot len (Suc n) s =
     (let (vrc, vlen) = img_check (pe_crc e) (pe_ram e) (pe_window e (ps_h s)) slot True
      in if vrc = 0 \<and> vlen = len then (True, s)
         else verify_loop e slot len n (if n > 0 then ps_log F_Inval s else s))"

definition hdr_block :: "int \<Rightarrow> u32 \<Rightarrow> u32 \<Rightarrow> u8 list" where
  "hdr_block slot len crc =
     (let h = img_hdr_bytes \<lparr>ih_magic = img_slot_magic slot, ih_len = len, ih_crc = crc\<rparr>
      in h @ replicate (unat IMG_PAYLOAD_OFF - length h) 0xFF)"

definition img_commit :: "push_env \<Rightarrow> int \<Rightarrow> u32 \<Rightarrow> u32 \<Rightarrow> push_st \<Rightarrow> bool \<times> push_st" where
  "img_commit e slot len crc s =
     (let off = slot_lo slot; blk = hdr_block slot len crc; wrc = pe_write e (ps_h s) off blk;
          s1 = ps_log (F_Write off blk wrc) s
      in if wrc \<noteq> 0 then (False, s1) else verify_loop e slot len VERIFY_ATTEMPTS (ps_log F_Inval s1))"

section \<open>The report of block checksums\<close>

definition IMG_DIAG_BLK :: nat where "IMG_DIAG_BLK = 64 * 1024"

definition hex_digit :: "u32 \<Rightarrow> u8" where
  "hex_digit d = (if d < 10 then 48 + ucast d else 97 + ucast d - 10)"

definition hex8 :: "u32 \<Rightarrow> u8 list" where
  "hex8 v = map (\<lambda>i. hex_digit (drop_bit i v AND 0xf)) [28, 24, 20, 16, 12, 8, 4, 0]"

text \<open>\<open>line\<close> is what the buffer of 160 bytes holds; \<open>rest\<close> are the blocks still to go.\<close>

fun blkcrc_loop :: "push_env \<Rightarrow> nat \<Rightarrow> nat \<Rightarrow> nat list \<Rightarrow> u8 list \<Rightarrow> push_st \<Rightarrow> bool \<times> push_st" where
  "blkcrc_loop e body len [] line s = (True, s)"
| "blkcrc_loop e body len (b # rest) line s =
     (let off = b * IMG_DIAG_BLK; sz = min IMG_DIAG_BLK (len - off);
          line1 = line @ hex8 (pe_crc e (mem_read (pe_window e (ps_h s)) (body + off) sz)) @ [32]
      in if length line1 > 160 - 12 \<or> rest = [] then
           (case nl_send_str e (line1 @ [10]) s of
              (True, s1) \<Rightarrow> blkcrc_loop e body len rest [] s1
            | (False, s1) \<Rightarrow> (False, s1))
         else blkcrc_loop e body len rest line1 s)"

definition nl_send_blkcrc :: "push_env \<Rightarrow> int \<Rightarrow> u32 \<Rightarrow> push_st \<Rightarrow> push_st" where
  "nl_send_blkcrc e slot len s =
     (let nblk = (unat len + IMG_DIAG_BLK - 1) div IMG_DIAG_BLK
      in case nl_send_str e (chr ''BLKCRC '' @ udec 12 (of_nat IMG_DIAG_BLK :: u32) @ chr '' '' @
             udec 12 (of_nat nblk :: u32) @ [10]) s of
           (False, s1) \<Rightarrow> s1
         | (True, s1) \<Rightarrow>
             (case blkcrc_loop e (slot_lo slot + unat IMG_PAYLOAD_OFF) (unat len) [0..<nblk] [] s1 of
                (False, s2) \<Rightarrow> s2
              | (True, s2) \<Rightarrow> nl_say e ''ENDCRC'' s2))"

section \<open>A push\<close>

datatype push_res = Pushed | Refused | Unfinished

text \<open>After the erase: the payload phase, the join and the commit.\<close>

definition push_payload :: "push_env \<Rightarrow> int \<Rightarrow> u32 \<Rightarrow> u32 \<Rightarrow> push_st \<Rightarrow> push_res \<times> push_st" where
  "push_payload e slot len crc s =
     (let q = nl_run (slot_lo slot + unat IMG_PAYLOAD_OFF) (unat len) (pe_sched e (ps_h s)) nl_start;
          s1 = s\<lparr>ps_h := ps_h s @ nl_ev q\<rparr>
      in if nl_p q = PP_Stalled \<or> nl_p q = PP_Lost then
           (Refused, nl_say e ''ERR writer stalled, reset the board'' (s1\<lparr>ps_writer_lost := True\<rparr>))
         else if nl_p q \<noteq> PP_Done then (Unfinished, s1)
         else if nl_wrc q then (Refused, nl_say e ''ERR flash write failed'' s1)
         else if nl_failed q \<or> nl_off q \<noteq> unat len then (Refused, nl_say e ''ERR short transfer'' s1)
         else case img_commit e slot len crc s1 of
                (False, s2) \<Rightarrow> (Refused, nl_say e ''ERR verify failed'' (nl_send_blkcrc e slot len s2))
              | (True, s2) \<Rightarrow> (Pushed, (nl_say e ''OK committed'' s2)\<lparr>ps_armed := True\<rparr>))"

text \<open>After the header: bound, stop, erase.\<close>

definition push_slot :: "push_env \<Rightarrow> nat \<Rightarrow> int \<Rightarrow> u32 \<Rightarrow> u32 \<Rightarrow> push_st \<Rightarrow> push_res \<times> push_st" where
  "push_slot e n slot len crc s =
     (if \<not> img_accept_len (pe_ram e) slot len then (Refused, nl_say e ''ERR length out of range'' s)
      else case halt_guest e n s of
             (None, s1) \<Rightarrow> (Unfinished, s1)
           | (Some False, s1) \<Rightarrow> (Refused, nl_say e ''ERR guest would not stop, reset the board'' s1)
           | (Some True, s1) \<Rightarrow>
               (case nl_send_str e (chr ''OK header'' @ [10]) s1 of
                  (False, s2) \<Rightarrow> (Refused, s2)
                | (True, s2) \<Rightarrow>
                    (case img_erase e slot len s2 of
                       (False, s3) \<Rightarrow> (Refused, nl_say e ''ERR erase failed'' s3)
                     | (True, s3) \<Rightarrow>
                         (case nl_send_str e (chr ''OK erased'' @ [10]) s3 of
                            (False, s4) \<Rightarrow> (Refused, s4)
                          | (True, s4) \<Rightarrow> push_payload e slot len crc s4))))"

text \<open>The request: \<open>S\<close>, slot, length and checksum, both little-endian.\<close>

definition push_req :: "u8 list \<Rightarrow> int \<times> u32 \<times> u32" where
  "push_req hdr = (uint (hdr ! 1), of_le (take 4 (drop 2 hdr)), of_le (take 4 (drop 6 hdr)))"

definition nl_push :: "push_env \<Rightarrow> nat \<Rightarrow> push_st \<Rightarrow> push_res \<times> push_st" where
  "nl_push e n s =
     (if ps_writer_lost s then (Refused, nl_say e ''ERR loader disabled, reset the board'' s)
      else case nl_send_banner e s of
             (False, s1) \<Rightarrow> (Refused, s1)
           | (True, s1) \<Rightarrow>
               (case nl_recv_exact e 10 s1 of
                  (None, s2) \<Rightarrow> (Refused, s2)
                | (Some hdr, s2) \<Rightarrow>
                    if hdr ! 0 \<noteq> 0x53 then (Refused, nl_say e ''ERR bad magic'' s2)
                    else case push_req hdr of
                           (slot, len, crc) \<Rightarrow>
                             if slot < 0 \<or> slot \<ge> PLAT_SLOT_COUNT then (Refused, nl_say e ''ERR bad slot'' s2)
                             else push_slot e n slot len crc s2))"

section \<open>The listener between pushes\<close>

definition REBOOT_DELAY_S :: int where "REBOOT_DELAY_S = 30"

datatype nl_next = Reboot | Listen

text \<open>Before waiting for a client: the deferred reboot, or the time left for the poll (-1 is forever).\<close>

definition nl_wait :: "push_env \<Rightarrow> push_st \<Rightarrow> nl_next \<times> int \<times> push_st" where
  "nl_wait e s =
     (if ps_armed s \<and> REBOOT_DELAY_S > 0
      then let (t, s1) = k_uptime_get e s; left = ps_reboot_at s - t in (if left \<le> 0 then Reboot else Listen, left, s1)
      else (Listen, - 1, s))"

definition arm_reboot :: "push_env \<Rightarrow> push_st \<Rightarrow> push_st" where
  "arm_reboot e s = (case k_uptime_get e s of (t, s1) \<Rightarrow> s1\<lparr>ps_reboot_at := t + REBOOT_DELAY_S * 1000\<rparr>)"

text \<open>A connection: the push, and whether to reboot now or later.\<close>

definition nl_client :: "push_env \<Rightarrow> nat \<Rightarrow> push_st \<Rightarrow> nl_next \<times> push_st" where
  "nl_client e n s =
     (case nl_push e n s of
        (r, s1) \<Rightarrow>
          if ps_writer_lost s1 then (Reboot, s1)
          else if ps_armed s1 \<and> REBOOT_DELAY_S > 0 then (Listen, arm_reboot e s1)
          else (Listen, s1))"

section \<open>The flash operations of a push\<close>

definition flash_ev :: "push_ev \<Rightarrow> bool" where
  "flash_ev ev \<longleftrightarrow> (case ev of F_Erase a n rc \<Rightarrow> True | F_Write a bs rc \<Rightarrow> True | _ \<Rightarrow> False)"

definition flash_of :: "push_ev list \<Rightarrow> push_ev list" where
  "flash_of es = filter flash_ev es"

text \<open>Events of the network alone, and those that touch neither flash nor payload.\<close>

definition net_ev :: "push_ev \<Rightarrow> bool" where
  "net_ev ev \<longleftrightarrow> (case ev of N_Sent p \<Rightarrow> True | N_Poll \<Rightarrow> True | N_Header p \<Rightarrow> True | _ \<Rightarrow> False)"

definition idle_ev :: "push_ev \<Rightarrow> bool" where
  "idle_ev ev \<longleftrightarrow> (case ev of N_Recv p \<Rightarrow> False | _ \<Rightarrow> \<not> flash_ev ev)"

definition say_ev :: "push_ev \<Rightarrow> bool" where
  "say_ev ev \<longleftrightarrow> (case ev of N_Sent p \<Rightarrow> True | _ \<Rightarrow> False)"

lemmas ev_kinds = flash_ev_def net_ev_def idle_ev_def say_ev_def

lemma net_idle: "net_ev ev \<Longrightarrow> idle_ev ev"
  by (cases ev) (simp_all add: ev_kinds)

lemma flash_of_append [simp]: "flash_of [] = []" "flash_of (xs @ ys) = flash_of xs @ flash_of ys"
  by (simp_all add: flash_of_def)

lemma idle_none: "(\<forall>ev \<in> set es. idle_ev ev) \<Longrightarrow> flash_of es = [] \<and> ev_recv es = [] \<and> ev_writes es = []"
  by (induction es) (auto simp: flash_of_def ev_recv_def ev_writes_def idle_ev_def flash_ev_def split: push_ev.splits)

text \<open>\<open>s'\<close> is \<open>s\<close> with events of one kind added.\<close>

definition ps_ext :: "(push_ev \<Rightarrow> bool) \<Rightarrow> push_st \<Rightarrow> push_st \<Rightarrow> bool" where
  "ps_ext ok s s' \<longleftrightarrow> (\<exists>es. s' = s\<lparr>ps_h := ps_h s @ es\<rparr> \<and> (\<forall>ev \<in> set es. ok ev))"

lemma ps_ext_refl [simp]: "ps_ext ok s s"
  by (auto simp: ps_ext_def intro!: exI [of _ "[]"])

lemma ps_ext_log: "ok ev \<Longrightarrow> ps_ext ok s (ps_log ev s)"
  by (auto simp: ps_ext_def ps_log_def)

lemma ps_ext_trans: "ps_ext ok s s1 \<Longrightarrow> ps_ext ok s1 s2 \<Longrightarrow> ps_ext ok s s2"
proof -
  assume "ps_ext ok s s1" "ps_ext ok s1 s2"
  then obtain es fs where "s1 = s\<lparr>ps_h := ps_h s @ es\<rparr>" "\<forall>ev \<in> set es. ok ev" "s2 = s1\<lparr>ps_h := ps_h s1 @ fs\<rparr>" "\<forall>ev \<in> set fs. ok ev"
    by (auto simp: ps_ext_def)
  then show "ps_ext ok s s2" unfolding ps_ext_def by (intro exI [of _ "es @ fs"]) auto
qed

lemma ps_ext_mono: "ps_ext net_ev s s' \<Longrightarrow> ps_ext idle_ev s s'"
  by (auto simp: ps_ext_def net_idle)

lemma nl_send_str_ext: "ps_ext say_ev s (snd (nl_send_str e p s))"
proof (induction e p s rule: nl_send_str.induct)
  case (1 e p s)
  define w where "w = pe_send e (ps_h s) p"
  define s1 where "s1 = ps_log (N_Sent (take (nat w) p)) s"
  have s1: "ps_ext say_ev s s1" unfolding s1_def by (rule ps_ext_log) (simp add: say_ev_def)
  have "ps_ext say_ev s1 (snd (nl_send_str e (drop (nat w) p) s1))" if "p \<noteq> []" "\<not> w \<le> 0"
    using "1.IH" [OF that(1) w_def s1_def that(2)] .
  with s1 show ?case
    unfolding nl_send_str.simps [of e p s] Let_def w_def [symmetric] s1_def [symmetric]
    by (auto intro: ps_ext_trans)
qed

lemma nl_send_ext: "nl_send_str e p s = (b, s') \<Longrightarrow> ps_ext say_ev s s'"
  using nl_send_str_ext [of s e p] by simp

lemma nl_say_ext: "ps_ext say_ev s (nl_say e m s)"
  by (simp add: nl_say_def nl_send_str_ext)

lemma nl_recv_ext: "nl_recv e n s = (got, bs, s') \<Longrightarrow> ps_ext net_ev s s'"
proof -
  assume r: "nl_recv e n s = (got, bs, s')"
  have p: "ps_ext net_ev s (ps_log N_Poll s)" by (rule ps_ext_log) (simp add: net_ev_def)
  have h: "ps_ext net_ev (ps_log N_Poll s) (ps_log (N_Header bs) (ps_log N_Poll s))"
    by (rule ps_ext_log) (simp add: net_ev_def)
  from r p ps_ext_trans [OF p h] show ?thesis
    by (auto simp: nl_recv_def Let_def split: prod.splits if_splits)
qed

lemma nl_recv_exact_ext: "ps_ext net_ev s (snd (nl_recv_exact e n s))"
proof (induction e n s rule: nl_recv_exact.induct)
  case (1 e n s)
  obtain got bs s1 where r: "nl_recv e n s = (got, bs, s1)" by (cases "nl_recv e n s")
  have s1: "ps_ext net_ev s s1" by (rule nl_recv_ext [OF r])
  have "ps_ext net_ev s1 (snd (nl_recv_exact e (n - length bs) s1))" if "n \<noteq> 0" "\<not> got \<le> 0"
    using "1.IH" [OF that(1) r [symmetric] refl that(2)] by simp
  with s1 r show ?case
    by (subst nl_recv_exact.simps) (auto intro: ps_ext_trans split: prod.splits option.splits)
qed

text \<open>The header bytes a push has read are those of its events.\<close>

definition ev_header :: "push_ev list \<Rightarrow> u8 list" where
  "ev_header es = concat (map (\<lambda>e. case e of N_Header bs \<Rightarrow> bs | _ \<Rightarrow> []) es)"

lemma ev_header_append [simp]: "ev_header [] = []" "ev_header (xs @ ys) = ev_header xs @ ev_header ys"
  by (simp_all add: ev_header_def)

lemma nl_recv_exact_header:
  "nl_recv_exact e n s = (Some bs, s') \<Longrightarrow> ev_header (ps_h s') = ev_header (ps_h s) @ bs \<and> length bs = n"
proof (induction e n s arbitrary: bs s' rule: nl_recv_exact.induct)
  case (1 e n s)
  obtain got xs s1 where r: "nl_recv e n s = (got, xs, s1)" by (cases "nl_recv e n s")
  show ?case
  proof (cases "n = 0")
    case True
    then show ?thesis using "1.prems" by (subst (asm) nl_recv_exact.simps) simp
  next
    case False
    with "1.prems" r obtain ys where y: "\<not> got \<le> 0" "nl_recv_exact e (n - length xs) s1 = (Some ys, s')" "bs = xs @ ys"
      by (subst (asm) nl_recv_exact.simps) (auto split: if_splits prod.splits option.splits)
    have xs: "ev_header (ps_h s1) = ev_header (ps_h s) @ xs" "length xs \<le> n"
      using r y(1) by (auto simp: nl_recv_def Let_def ps_log_def ev_header_def split: prod.splits if_splits)
    from "1.IH" [OF False r [symmetric] refl y(1,2)] xs y(3) show ?thesis by simp
  qed
qed

text \<open>Stopping the guest adds no flash operation, and says so when it has worked.\<close>

definition h_ext :: "push_st \<Rightarrow> push_st \<Rightarrow> push_ev list \<Rightarrow> bool" where
  "h_ext s s' es \<longleftrightarrow> ps_h s' = ps_h s @ es \<and> (\<forall>ev \<in> set es. idle_ev ev)"

lemma halt_loop_ext:
  "halt_loop e n d s = (r, s') \<Longrightarrow> \<exists>es. h_ext s s' es \<and> ev_header es = [] \<and> (r = Some True \<longrightarrow> H_Stopped \<in> set es) \<and> ps_armed s' = ps_armed s"
proof (induction n arbitrary: s)
  case (Suc n)
  define s1 where "s1 = ps_log H_Poweroff s"
  show ?case
  proof (cases "pe_ack e (ps_h s1)")
    case True
    then show ?thesis using Suc.prems
      by (auto simp: s1_def [symmetric] Let_def h_ext_def intro!: exI [of _ "[H_Poweroff, H_Stopped, B_Suspend]"])
        (auto simp: s1_def ps_log_def ev_kinds ev_header_def)
  next
    case False
    define s2 where "s2 = ps_log Clock s1"
    have s2: "ps_h s2 = ps_h s @ [H_Poweroff, Clock]" "ps_armed s2 = ps_armed s" by (simp_all add: s2_def s1_def ps_log_def)
    show ?thesis
    proof (cases "pe_uptime e (ps_h s1) < d")
      case True
      with False Suc.prems have "halt_loop e n d s2 = (r, s')"
        by (simp add: s1_def [symmetric] Let_def k_uptime_get_def s2_def)
      from Suc.IH [OF this] obtain es where "h_ext s2 s' es" "ev_header es = []" "r = Some True \<longrightarrow> H_Stopped \<in> set es"
        "ps_armed s' = ps_armed s2" by blast
      then show ?thesis using s2
        by (intro exI [of _ "[H_Poweroff, Clock] @ es"]) (auto simp: h_ext_def ev_kinds ev_header_def)
    next
      case F: False
      with False Suc.prems have "r = Some False" "s' = s2"
        by (auto simp: s1_def [symmetric] Let_def k_uptime_get_def s2_def)
      then show ?thesis using s2
        by (intro exI [of _ "[H_Poweroff, Clock]"]) (auto simp: h_ext_def ev_kinds ev_header_def)
    qed
  qed
qed (auto simp: h_ext_def intro!: exI [of _ "[]"])

lemma halt_guest_ext:
  assumes "halt_guest e n s = (r, s')"
  shows "\<exists>es. h_ext s s' es \<and> ev_header es = [] \<and> (r = Some True \<longrightarrow> H_Stopped \<in> set es) \<and> ps_armed s' = ps_armed s"
proof -
  define s2 where "s2 = ps_log Clock (ps_log Clock s)"
  have s2: "ps_h s2 = ps_h s @ [Clock, Clock]" "ps_armed s2 = ps_armed s" by (simp_all add: s2_def ps_log_def)
  show ?thesis
  proof (cases "pe_stopped e (ps_h s2)")
    case True
    with assms have "r = Some True" "s' = ps_log H_Stopped s2" by (simp_all add: halt_guest_def k_uptime_get_def Let_def s2_def)
    then show ?thesis using s2
      by (intro exI [of _ "[Clock, Clock, H_Stopped]"]) (auto simp: h_ext_def ps_log_def ev_kinds ev_header_def)
  next
    case False
    with assms obtain d where "halt_loop e n d (s2\<lparr>ps_halt_by_pusher := True\<rparr>) = (r, s')"
      by (simp add: halt_guest_def k_uptime_get_def Let_def s2_def)
    from halt_loop_ext [OF this] obtain es where "h_ext (s2\<lparr>ps_halt_by_pusher := True\<rparr>) s' es" "ev_header es = []"
      "r = Some True \<longrightarrow> H_Stopped \<in> set es" "ps_armed s' = ps_armed s2" by auto
    then show ?thesis using s2
      by (intro exI [of _ "[Clock, Clock] @ es"]) (auto simp: h_ext_def ev_kinds ev_header_def)
  qed
qed

text \<open>The erases of a slot, in order, the last of them failed or all of them good.\<close>

definition er_ok :: "nat \<Rightarrow> nat \<Rightarrow> push_ev" where
  "er_ok off b = F_Erase (off + b * ERASE_SZ) ERASE_SZ 0"

lemma erase_blocks_trace:
  "erase_blocks e off bs s = (ok, s') \<Longrightarrow>
   \<exists>es. ps_h s' = ps_h s @ es \<and> ev_recv es = [] \<and> ev_header es = [] \<and> ps_armed s' = ps_armed s \<and>
     (if ok then flash_of es = map (er_ok off) bs
      else \<exists>j rc. flash_of es = map (er_ok off) (take j bs) \<or>
        j < length bs \<and> rc \<noteq> 0 \<and> flash_of es = map (er_ok off) (take j bs) @ [F_Erase (off + (bs ! j) * ERASE_SZ) ERASE_SZ rc])"
proof (induction bs arbitrary: s)
  case (Cons b bs)
  define a where "a = off + b * ERASE_SZ"
  define rc where "rc = pe_erase e (ps_h s) a ERASE_SZ"
  define s1 where "s1 = ps_log (F_Erase a ERASE_SZ rc) s"
  have s1: "ps_h s1 = ps_h s @ [F_Erase a ERASE_SZ rc]" "ps_armed s1 = ps_armed s" by (simp_all add: s1_def ps_log_def)
  have f: "flash_of [F_Erase a ERASE_SZ rc] = [F_Erase a ERASE_SZ rc]" "flash_of [F_Erase a ERASE_SZ rc, F_Inval] = [F_Erase a ERASE_SZ rc]"
    "ev_recv [F_Erase a ERASE_SZ rc] = []" "ev_header [F_Erase a ERASE_SZ rc] = []"
    "ev_recv [F_Erase a ERASE_SZ rc, F_Inval] = []" "ev_header [F_Erase a ERASE_SZ rc, F_Inval] = []"
    by (simp_all add: flash_of_def flash_ev_def ev_recv_def ev_header_def)
  show ?case
  proof (cases "rc = 0")
    case False
    then have "ok = False" "s' = s1" using Cons.prems by (auto simp: Let_def a_def rc_def s1_def)
    then show ?thesis using s1 f False
      by (intro exI [of _ "[F_Erase a ERASE_SZ rc]"]) (auto simp: a_def intro!: exI [of _ 0] exI [of _ rc])
  next
    case True
    define s2 where "s2 = (if pe_blank e then ps_log F_Inval s1 else s1)"
    define fs where "fs = (if pe_blank e then [F_Erase a ERASE_SZ rc, F_Inval] else [F_Erase a ERASE_SZ rc])"
    have fs: "ps_h s2 = ps_h s @ fs" "flash_of fs = [er_ok off b]" "ev_recv fs = []" "ev_header fs = []" "ps_armed s2 = ps_armed s"
      using s1 f True by (simp_all add: s2_def fs_def ps_log_def er_ok_def a_def)
    show ?thesis
    proof (cases "pe_blank e \<and> \<not> blank_block (pe_window e (ps_h s2)) a")
      case bad: True
      then have "ok = False" "s' = s2" using Cons.prems True by (auto simp: Let_def a_def rc_def s1_def s2_def)
      then show ?thesis using fs
        by (intro exI [of _ fs]) (auto intro!: exI [of _ 1])
    next
      case False
      then have "erase_blocks e off bs s2 = (ok, s')" using Cons.prems True
        by (auto simp: Let_def a_def rc_def s1_def s2_def split: if_splits)
      from Cons.IH [OF this] obtain es where es: "ps_h s' = ps_h s2 @ es" "ev_recv es = []" "ev_header es = []" "ps_armed s' = ps_armed s2"
        "if ok then flash_of es = map (er_ok off) bs
         else \<exists>j rc. flash_of es = map (er_ok off) (take j bs) \<or>
           j < length bs \<and> rc \<noteq> 0 \<and> flash_of es = map (er_ok off) (take j bs) @ [F_Erase (off + (bs ! j) * ERASE_SZ) ERASE_SZ rc]" by blast
      have "if ok then flash_of (fs @ es) = map (er_ok off) (b # bs)
         else \<exists>j rc. flash_of (fs @ es) = map (er_ok off) (take j (b # bs)) \<or>
           j < length (b # bs) \<and> rc \<noteq> 0 \<and> flash_of (fs @ es) = map (er_ok off) (take j (b # bs)) @ [F_Erase (off + ((b # bs) ! j) * ERASE_SZ) ERASE_SZ rc]"
      proof (cases ok)
        case False
        with es(5) obtain j rc where "flash_of es = map (er_ok off) (take j bs) \<or>
           j < length bs \<and> rc \<noteq> 0 \<and> flash_of es = map (er_ok off) (take j bs) @ [F_Erase (off + (bs ! j) * ERASE_SZ) ERASE_SZ rc]" by auto
        with fs(2) False show ?thesis by (auto intro!: exI [of _ "Suc j"])
      qed (use es(5) fs(2) in simp)
      then show ?thesis using es fs by (intro exI [of _ "fs @ es"]) simp
    qed
  qed
qed (auto intro!: exI [of _ "[]"])

text \<open>The commit: one program of the header block, then reads only.\<close>

lemma verify_loop_trace:
  "verify_loop e slot len n s = (ok, s') \<Longrightarrow>
   \<exists>es. ps_h s' = ps_h s @ es \<and> (\<forall>ev \<in> set es. ev = F_Inval) \<and> ps_armed s' = ps_armed s \<and>
     (ok \<longrightarrow> img_check (pe_crc e) (pe_ram e) (pe_window e (ps_h s')) slot True = (0, len))"
proof (induction n arbitrary: s)
  case (Suc n)
  obtain vrc vlen where v: "img_check (pe_crc e) (pe_ram e) (pe_window e (ps_h s)) slot True = (vrc, vlen)" by fastforce
  show ?case
  proof (cases "vrc = 0 \<and> vlen = len")
    case True
    with Suc.prems v show ?thesis by (auto intro!: exI [of _ "[]"])
  next
    case False
    define s1 where "s1 = (if n > 0 then ps_log F_Inval s else s)"
    from False Suc.prems v have "verify_loop e slot len n s1 = (ok, s')" by (auto simp: s1_def)
    from Suc.IH [OF this] obtain es where "ps_h s' = ps_h s1 @ es" "\<forall>ev \<in> set es. ev = F_Inval" "ps_armed s' = ps_armed s1"
      "ok \<longrightarrow> img_check (pe_crc e) (pe_ram e) (pe_window e (ps_h s')) slot True = (0, len)" by blast
    then show ?thesis by (intro exI [of _ "(if n > 0 then [F_Inval] else []) @ es"]) (auto simp: s1_def ps_log_def)
  qed
qed (auto intro!: exI [of _ "[]"])

lemma img_commit_trace:
  assumes "img_commit e slot len crc s = (ok, s')"
  shows "\<exists>rc es. ps_h s' = ps_h s @ F_Write (slot_lo slot) (hdr_block slot len crc) rc # es \<and> (\<forall>ev \<in> set es. ev = F_Inval) \<and>
    ps_armed s' = ps_armed s \<and>
    (ok \<longrightarrow> rc = 0 \<and> img_check (pe_crc e) (pe_ram e) (pe_window e (ps_h s')) slot True = (0, len))"
proof -
  define rc where "rc = pe_write e (ps_h s) (slot_lo slot) (hdr_block slot len crc)"
  define s1 where "s1 = ps_log (F_Write (slot_lo slot) (hdr_block slot len crc) rc) s"
  show ?thesis
  proof (cases "rc = 0")
    case False
    then have "ok = False" "s' = s1" using assms by (auto simp: img_commit_def Let_def rc_def s1_def)
    then show ?thesis by (intro exI [of _ rc] exI [of _ "[]"]) (simp add: s1_def ps_log_def)
  next
    case True
    then have "verify_loop e slot len VERIFY_ATTEMPTS (ps_log F_Inval s1) = (ok, s')"
      using assms by (auto simp: img_commit_def Let_def rc_def s1_def)
    from verify_loop_trace [OF this] obtain es where "ps_h s' = ps_h (ps_log F_Inval s1) @ es" "\<forall>ev \<in> set es. ev = F_Inval"
      "ps_armed s' = ps_armed (ps_log F_Inval s1)" "ok \<longrightarrow> img_check (pe_crc e) (pe_ram e) (pe_window e (ps_h s')) slot True = (0, len)" by blast
    with True show ?thesis by (intro exI [of _ rc] exI [of _ "F_Inval # es"]) (auto simp: s1_def ps_log_def)
  qed
qed

section \<open>The trace of a push\<close>

text \<open>
  All flash operations of a push to a slot, in order: erases of its blocks, programs of the buffers,
  the header block. Nothing is programmed unless every erase has succeeded; the header only after
  every byte announced has been received and programmed.
\<close>

definition slot_blocks :: "u32 \<Rightarrow> nat" where
  "slot_blocks len = unat (img_need len) div ERASE_SZ"

definition erase_part :: "int \<Rightarrow> u32 \<Rightarrow> push_ev list \<Rightarrow> bool" where
  "erase_part slot len E \<longleftrightarrow> (\<exists>j \<le> slot_blocks len. E = map (er_ok (slot_lo slot)) [0..<j] \<or>
     (\<exists>rc. j < slot_blocks len \<and> rc \<noteq> 0 \<and> E = map (er_ok (slot_lo slot)) [0..<j] @ [F_Erase (slot_lo slot + j * ERASE_SZ) ERASE_SZ rc]))"

definition write_part :: "int \<Rightarrow> u32 \<Rightarrow> u8 list \<Rightarrow> push_ev list \<Rightarrow> bool" where
  "write_part slot len st W \<longleftrightarrow> (\<forall>ev \<in> set W. \<exists>a bs rc. ev = F_Write a bs rc) \<and> length st \<le> unat len \<and>
     (\<exists>m. ev_writes W = map (nl_chunk (slot_lo slot + 4096) st) [0..<m] \<and> (m > 0 \<longrightarrow> (m - 1) * NL_BUF < unat len))"

definition header_part :: "int \<Rightarrow> u32 \<Rightarrow> u32 \<Rightarrow> push_res \<Rightarrow> u8 list \<Rightarrow> push_ev list \<Rightarrow> push_ev list \<Rightarrow> bool" where
  "header_part slot len crc r st W H \<longleftrightarrow>
     H = [] \<and> r \<noteq> Pushed \<or>
     (\<exists>rc. H = [F_Write (slot_lo slot) (hdr_block slot len crc) rc] \<and> (r = Pushed \<longrightarrow> rc = 0) \<and> length st = unat len \<and>
        concat (map snd (ev_writes W)) = pad_unit st \<and> (\<forall>rc \<in> set (ev_rcs W). rc = 0))"

definition slot_trace :: "int \<Rightarrow> u32 \<Rightarrow> u32 \<Rightarrow> push_res \<Rightarrow> push_ev list \<Rightarrow> bool" where
  "slot_trace slot len crc r es \<longleftrightarrow>
     (\<exists>E W H. flash_of es = E @ W @ H \<and> erase_part slot len E \<and> write_part slot len (ev_recv es) W \<and>
        header_part slot len crc r (ev_recv es) W H \<and>
        (W @ H \<noteq> [] \<or> r = Pushed \<longrightarrow> E = map (er_ok (slot_lo slot)) [0..<slot_blocks len]))"

lemma ERASE_SZ_value: "ERASE_SZ = 0x40000"
  by (simp add: ERASE_SZ_def plat_flash_erase_size_def OSPI_ERASE_SZ_def)

lemma slot_trace_erases:
  assumes "erase_part slot len E" "flash_of es = E" "ev_recv es = []" "r \<noteq> Pushed"
  shows "slot_trace slot len crc r es"
  unfolding slot_trace_def using assms
  by (intro exI [of _ E] exI [of _ "[]"]) (auto simp: write_part_def header_part_def)

lemma nl_run_events:
  "(\<forall>ev \<in> set (nl_ev q). (\<exists>bs. ev = N_Recv bs) \<or> (\<exists>a bs rc. ev = F_Write a bs rc)) \<Longrightarrow>
   \<forall>ev \<in> set (nl_ev (nl_run base len as q)). (\<exists>bs. ev = N_Recv bs) \<or> (\<exists>a bs rc. ev = F_Write a bs rc)"
proof (induction as arbitrary: q)
  case (Cons a as)
  show ?case
  proof (cases "nl_do base len a q")
    case None
    with Cons show ?thesis by simp
  next
    case (Some q')
    then have "\<forall>ev \<in> set (nl_ev q'). (\<exists>bs. ev = N_Recv bs) \<or> (\<exists>a bs rc. ev = F_Write a bs rc)"
      using Cons.prems by (cases a) (auto simp: Let_def split: if_splits)
    with Cons.IH Some show ?thesis by simp
  qed
qed simp

lemma payload_events:
  assumes "\<forall>ev \<in> set es. (\<exists>bs. ev = N_Recv bs) \<or> (\<exists>a bs rc. ev = F_Write a bs rc)"
  shows "\<forall>ev \<in> set (flash_of es). \<exists>a bs rc. ev = F_Write a bs rc" "ev_writes (flash_of es) = ev_writes es"
    "ev_rcs (flash_of es) = ev_rcs es" "ev_header es = []"
  using assms by (induction es) (auto simp: flash_of_def flash_ev_def ev_writes_def ev_rcs_def ev_header_def)

lemma ps_say:
  "ps_ext say_ev s s' \<Longrightarrow> \<exists>es. ps_h s' = ps_h s @ es \<and> (\<forall>ev \<in> set es. idle_ev ev) \<and> ev_header es = [] \<and> ps_armed s' = ps_armed s"
proof -
  assume "ps_ext say_ev s s'"
  then obtain es where es: "s' = s\<lparr>ps_h := ps_h s @ es\<rparr>" "\<forall>ev \<in> set es. say_ev ev" by (auto simp: ps_ext_def)
  from es(2) have "ev_header es = []" by (induction es) (auto simp: ev_header_def say_ev_def split: push_ev.splits)
  moreover have "\<forall>ev \<in> set es. idle_ev ev" using es(2) by (auto simp: ev_kinds split: push_ev.splits)
  ultimately show ?thesis using es(1) by auto
qed

text \<open>The payload phase and the commit, after all erases.\<close>

lemma blkcrc_loop_ext: "ps_ext say_ev s (snd (blkcrc_loop e body len bs line s))"
proof (induction e body len bs line s rule: blkcrc_loop.induct)
  case (2 e body len b rest line s)
  define line1 where "line1 = line @ hex8 (pe_crc e (mem_read (pe_window e (ps_h s)) (body + b * IMG_DIAG_BLK)
    (min IMG_DIAG_BLK (len - b * IMG_DIAG_BLK)))) @ [32]"
  obtain ok s1 where s1: "nl_send_str e (line1 @ [10]) s = (ok, s1)" by fastforce
  have a: "ps_ext say_ev s s1" by (rule nl_send_ext [OF s1])
  show ?case
  proof (cases "length line1 > 160 - 12 \<or> rest = []")
    case True
    have b: "ok \<Longrightarrow> ps_ext say_ev s1 (snd (blkcrc_loop e body len rest [] s1))"
      using "2.IH"(1) [OF refl refl line1_def True s1 [symmetric]] by simp
    from True a ps_ext_trans [OF a b] show ?thesis
      unfolding blkcrc_loop.simps Let_def line1_def [symmetric] s1 by (cases ok) auto
  next
    case False
    with "2.IH"(2) [OF refl refl line1_def False] show ?thesis
      unfolding blkcrc_loop.simps Let_def line1_def [symmetric] by simp
  qed
qed simp

lemma nl_send_blkcrc_ext: "ps_ext say_ev s (nl_send_blkcrc e slot len s)"
proof -
  let ?msg = "chr ''BLKCRC '' @ udec 12 (of_nat IMG_DIAG_BLK :: u32) @ chr '' '' @
    udec 12 (of_nat ((unat len + IMG_DIAG_BLK - 1) div IMG_DIAG_BLK) :: u32) @ [10]"
  obtain ok s1 where s1: "nl_send_str e ?msg s = (ok, s1)" by fastforce
  obtain ok2 s2 where s2: "blkcrc_loop e (slot_lo slot + unat IMG_PAYLOAD_OFF) (unat len)
      [0..<(unat len + IMG_DIAG_BLK - 1) div IMG_DIAG_BLK] [] s1 = (ok2, s2)" by fastforce
  have a: "ps_ext say_ev s s1" by (rule nl_send_ext [OF s1])
  have b: "ps_ext say_ev s1 s2" using blkcrc_loop_ext [of s1 e] s2 by (metis snd_conv)
  have c: "ps_ext say_ev s2 (nl_say e ''ENDCRC'' s2)" by (rule nl_say_ext)
  show ?thesis unfolding nl_send_blkcrc_def Let_def s1 prod.case s2
    by (cases ok; cases ok2) (simp_all add: a ps_ext_trans [OF a b] ps_ext_trans [OF ps_ext_trans [OF a b] c])
qed

lemma push_payload_trace:
  assumes "push_payload e slot len crc s = (r, s')"
  shows "\<exists>es W H. ps_h s' = ps_h s @ es \<and> flash_of es = W @ H \<and> write_part slot len (ev_recv es) W \<and>
    header_part slot len crc r (ev_recv es) W H \<and> ev_header es = [] \<and> (r \<noteq> Pushed \<longrightarrow> ps_armed s' = ps_armed s) \<and>
    (r = Pushed \<longrightarrow> ps_armed s' \<and> (\<exists>g. flash_of g = flash_of es \<and>
       img_check (pe_crc e) (pe_ram e) (pe_window e (ps_h s @ g)) slot True = (0, len)))"
proof -
  define q where "q = nl_run (slot_lo slot + unat IMG_PAYLOAD_OFF) (unat len) (pe_sched e (ps_h s)) nl_start"
  define s1 where "s1 = s\<lparr>ps_h := ps_h s @ nl_ev q\<rparr>"
  let ?st = "ev_recv (nl_ev q)" and ?W = "flash_of (nl_ev q)"
  have off4: "unat IMG_PAYLOAD_OFF = 4096" by (simp add: IMG_PAYLOAD_OFF_def)
  have q4: "q = nl_run (slot_lo slot + 4096) (unat len) (pe_sched e (ps_h s)) nl_start" by (simp only: q_def off4)
  have evs: "\<forall>ev \<in> set (nl_ev q). (\<exists>bs. ev = N_Recv bs) \<or> (\<exists>a bs rc. ev = F_Write a bs rc)"
    unfolding q_def by (rule nl_run_events) (simp add: nl_start_def)
  note W = payload_events [OF evs]
  obtain m where m: "ev_writes (nl_ev q) = map (nl_chunk (slot_lo slot + 4096) ?st) [0..<m]"
    "m > 0 \<longrightarrow> (m - 1) * NL_BUF < unat len" "length ?st \<le> unat len"
    "nl_p q = PP_Done \<and> \<not> nl_failed q \<and> \<not> nl_wrc q \<longrightarrow> length ?st = unat len \<and>
       concat (map snd (ev_writes (nl_ev q))) = pad_unit ?st \<and> (\<forall>rc \<in> set (ev_rcs (nl_ev q)). rc = 0)"
    using pipeline_order [OF q4] by blast
  have wp: "write_part slot len ?st ?W" unfolding write_part_def W(2) using W(1) m by blast
  have ev1: "ps_h s1 = ps_h s @ nl_ev q" "ps_armed s1 = ps_armed s" by (simp_all add: s1_def)
  have early: ?thesis if say: "ps_ext say_ev t s'" and t: "ps_h t = ps_h s1" "ps_armed t = ps_armed s1" and r: "r \<noteq> Pushed" for t
  proof -
    from ps_say [OF say] obtain es where es: "ps_h s' = ps_h t @ es" "\<forall>ev \<in> set es. idle_ev ev" "ev_header es = []" "ps_armed s' = ps_armed t"
      by blast
    then show ?thesis using ev1 t wp r W(4) idle_none [OF es(2)]
      by - (rule exI [of _ "nl_ev q @ es"], rule exI [of _ ?W], rule exI [of _ "[]"], simp add: header_part_def)
  qed
  have unfinished: ?thesis if "s' = s1" "r \<noteq> Pushed"
    using early [of s1] that by simp
  show ?thesis
  proof (cases "nl_p q = PP_Done \<and> \<not> nl_wrc q \<and> \<not> nl_failed q \<and> nl_off q = unat len")
    case False
    show ?thesis
    proof (cases "nl_p q = PP_Stalled \<or> nl_p q = PP_Lost")
      case True
      then have "r = Refused" "s' = nl_say e ''ERR writer stalled, reset the board'' (s1\<lparr>ps_writer_lost := True\<rparr>)"
        using assms by (auto simp: push_payload_def q_def [symmetric] s1_def [symmetric] Let_def)
      then show ?thesis using early [of "s1\<lparr>ps_writer_lost := True\<rparr>"] by (simp add: nl_say_ext)
    next
      case F: False
      show ?thesis
      proof (cases "nl_p q = PP_Done")
        case True
        with F False assms have "r = Refused \<and> (\<exists>m. s' = nl_say e m s1)"
          by (auto simp: push_payload_def q_def [symmetric] s1_def [symmetric] Let_def split: if_splits)
        then show ?thesis using early [of s1] nl_say_ext by auto
      next
        case False
        with F assms have "r = Unfinished" "s' = s1"
          by (auto simp: push_payload_def q_def [symmetric] s1_def [symmetric] Let_def)
        then show ?thesis using unfinished by simp
      qed
    qed
  next
    case True
    obtain ok s2 where c: "img_commit e slot len crc s1 = (ok, s2)" by fastforce
    from img_commit_trace [OF c] obtain rc es where es: "ps_h s2 = ps_h s1 @ F_Write (slot_lo slot) (hdr_block slot len crc) rc # es"
      "\<forall>ev \<in> set es. ev = F_Inval" "ps_armed s2 = ps_armed s1"
      "ok \<longrightarrow> rc = 0 \<and> img_check (pe_crc e) (pe_ram e) (pe_window e (ps_h s2)) slot True = (0, len)" by blast
    have es0: "flash_of es = []" "ev_recv es = []" "ev_header es = []"
      using es(2) by (induction es) (auto simp: flash_of_def flash_ev_def ev_recv_def ev_header_def)
    let ?H = "[F_Write (slot_lo slot) (hdr_block slot len crc) rc]"
    have hw: "flash_of (F_Write (slot_lo slot) (hdr_block slot len crc) rc # es) = ?H"
      "ev_recv (F_Write (slot_lo slot) (hdr_block slot len crc) rc # es) = []"
      "ev_header (F_Write (slot_lo slot) (hdr_block slot len crc) rc # es) = []"
      using es0 by (simp_all add: flash_of_def flash_ev_def ev_recv_def ev_header_def)
    define s3 where "s3 = (if ok then nl_say e ''OK committed'' s2 else nl_say e ''ERR verify failed'' (nl_send_blkcrc e slot len s2))"
    have "ps_ext say_ev s2 s3"
      unfolding s3_def using ps_ext_trans [OF nl_send_blkcrc_ext nl_say_ext] by (simp add: nl_say_ext)
    from ps_say [OF this] obtain fs where fs: "ps_h s3 = ps_h s2 @ fs" "\<forall>ev \<in> set fs. idle_ev ev" "ev_header fs = []" "ps_armed s3 = ps_armed s2"
      by blast
    have res: "r = (if ok then Pushed else Refused)" "ps_h s' = ps_h s3" "ps_armed s' = (ok \<or> ps_armed s3)"
      using assms True c
      by (auto simp: push_payload_def q_def [symmetric] s1_def [symmetric] Let_def s3_def split: bool.splits)
    have hp: "header_part slot len crc r ?st ?W ?H"
      unfolding header_part_def W(2,3) using True m(4) es(4) res(1) by auto
    let ?es = "nl_ev q @ F_Write (slot_lo slot) (hdr_block slot len crc) rc # es @ fs"
    have fl: "flash_of ?es = ?W @ ?H" "ev_recv ?es = ?st" "ev_header ?es = []"
      using hw idle_none [OF fs(2)] fs(3) W(4) ev_append(2) [of "nl_ev q"]
      by (simp_all flip: append_Cons)
    let ?g = "nl_ev q @ F_Write (slot_lo slot) (hdr_block slot len crc) rc # es"
    have a: "ps_h s' = ps_h s @ ?es" using res(2) fs(1) es(1) ev1(1) by simp
    have b: "r \<noteq> Pushed \<longrightarrow> ps_armed s' = ps_armed s" "r = Pushed \<longrightarrow> ps_armed s'"
      using res(1,3) fs(4) es(3) ev1(2) by simp_all
    have g: "ps_h s2 = ps_h s @ ?g" "flash_of ?g = ?W @ ?H" using es(1) ev1(1) hw(1) by simp_all
    have c: "r = Pushed \<longrightarrow> (\<exists>g. flash_of g = ?W @ ?H \<and> img_check (pe_crc e) (pe_ram e) (pe_window e (ps_h s @ g)) slot True = (0, len))"
    proof
      assume "r = Pushed"
      then have "img_check (pe_crc e) (pe_ram e) (pe_window e (ps_h s2)) slot True = (0, len)"
        using res(1) es(4) by (cases ok) simp_all
      then show "\<exists>g. flash_of g = ?W @ ?H \<and> img_check (pe_crc e) (pe_ram e) (pe_window e (ps_h s @ g)) slot True = (0, len)"
        using g by metis
    qed
    show ?thesis
      by (rule exI [of _ ?es], rule exI [of _ ?W], rule exI [of _ ?H]) (simp only: fl wp hp a simp_thms, use b c in blast)
  qed
qed

text \<open>A push to a slot: idle until the guest has stopped, then the flash operations.\<close>

definition push_trace :: "push_env \<Rightarrow> int \<Rightarrow> u32 \<Rightarrow> u32 \<Rightarrow> push_res \<Rightarrow> push_st \<Rightarrow> push_st \<Rightarrow> push_ev list \<Rightarrow> push_ev list \<Rightarrow> bool" where
  "push_trace e slot len crc r s s' pre es \<longleftrightarrow> ps_h s' = ps_h s @ pre @ es \<and> (\<forall>ev \<in> set pre. idle_ev ev) \<and>
     (flash_of es \<noteq> [] \<longrightarrow> H_Stopped \<in> set pre) \<and> slot_trace slot len crc r es \<and> ev_header es = [] \<and>
     (r \<noteq> Pushed \<longrightarrow> ps_armed s' = ps_armed s) \<and>
     (r = Pushed \<longrightarrow> ps_armed s' \<and> (\<exists>g. flash_of g = flash_of es \<and>
        img_check (pe_crc e) (pe_ram e) (pe_window e (ps_h s @ pre @ g)) slot True = (0, len)))"

lemma push_trace_idle:
  assumes "ps_h s' = ps_h s @ pre" "\<forall>ev \<in> set pre. idle_ev ev" "ps_armed s' = ps_armed s" "r \<noteq> Pushed"
  shows "push_trace e slot len crc r s s' pre []"
  using assms slot_trace_erases [of slot len "[]" "[]" r crc] by (auto simp: push_trace_def erase_part_def)

lemma push_slot_trace:
  assumes "push_slot e n slot len crc s = (r, s')" "img_accept_len (pe_ram e) slot len"
  shows "\<exists>pre es. push_trace e slot len crc r s s' pre es \<and> ev_header pre = []"
proof -
  obtain h s1 where h: "halt_guest e n s = (h, s1)" by fastforce
  from halt_guest_ext [OF h] obtain hs where hs: "ps_h s1 = ps_h s @ hs" "\<forall>ev \<in> set hs. idle_ev ev" "ev_header hs = []"
    "h = Some True \<longrightarrow> H_Stopped \<in> set hs" "ps_armed s1 = ps_armed s" by (auto simp: h_ext_def)
  have idle: ?thesis if "ps_ext say_ev s1 s'" "r \<noteq> Pushed"
  proof -
    from ps_say [OF that(1)] obtain es where "ps_h s' = ps_h s1 @ es" "\<forall>ev \<in> set es. idle_ev ev" "ev_header es = []"
      "ps_armed s' = ps_armed s1" by blast
    then show ?thesis using hs that(2)
      by - (rule exI [of _ "hs @ es"], rule exI [of _ "[]"], intro conjI push_trace_idle, auto)
  qed
  show ?thesis
  proof (cases "h = Some True")
    case False
    then have "r \<noteq> Pushed \<and> (s' = s1 \<or> (\<exists>m. s' = nl_say e m s1))"
      using assms h by (auto simp: push_slot_def split: option.splits bool.splits)
    then show ?thesis using idle nl_say_ext by auto
  next
    case True
    obtain ok1 s2 where o1: "nl_send_str e (chr ''OK header'' @ [10]) s1 = (ok1, s2)" by fastforce
    from ps_say [OF nl_send_ext [OF o1]] obtain p1 where p1: "ps_h s2 = ps_h s1 @ p1" "\<forall>ev \<in> set p1. idle_ev ev"
      "ev_header p1 = []" "ps_armed s2 = ps_armed s1" by blast
    obtain er s3 where e3: "img_erase e slot len s2 = (er, s3)" by fastforce
    show ?thesis
    proof (cases ok1)
      case False
      then have "r \<noteq> Pushed" "s' = s2" using assms h True o1 by (auto simp: push_slot_def)
      then show ?thesis using idle nl_send_ext [OF o1] by simp
    next
      case ok1: True
      obtain es3 where es3: "ps_h s3 = ps_h s2 @ es3" "ev_recv es3 = []" "ev_header es3 = []" "ps_armed s3 = ps_armed s2"
        "erase_part slot len (flash_of es3)" "er \<longrightarrow> flash_of es3 = map (er_ok (slot_lo slot)) [0..<slot_blocks len]"
      proof (cases "pe_ready e")
        case False
        with e3 have "er = False" "s3 = s2" by (auto simp: img_erase_def)
        with that [of "[]"] show thesis by (auto simp: erase_part_def)
      next
        case True
        with e3 have "erase_blocks e (slot_lo slot) [0..<slot_blocks len] s2 = (er, s3)" by (simp add: img_erase_def slot_blocks_def)
        from erase_blocks_trace [OF this] obtain es where es: "ps_h s3 = ps_h s2 @ es" "ev_recv es = []" "ev_header es = []" "ps_armed s3 = ps_armed s2"
          "if er then flash_of es = map (er_ok (slot_lo slot)) [0..<slot_blocks len]
           else \<exists>j rc. flash_of es = map (er_ok (slot_lo slot)) (take j [0..<slot_blocks len]) \<or>
             j < length [0..<slot_blocks len] \<and> rc \<noteq> 0 \<and> flash_of es = map (er_ok (slot_lo slot)) (take j [0..<slot_blocks len]) @
               [F_Erase (slot_lo slot + ([0..<slot_blocks len] ! j) * ERASE_SZ) ERASE_SZ rc]" by blast
        have "erase_part slot len (flash_of es)"
        proof (cases er)
          case False
          with es(5) obtain j rc where j: "flash_of es = map (er_ok (slot_lo slot)) (take j [0..<slot_blocks len]) \<or>
             j < slot_blocks len \<and> rc \<noteq> 0 \<and> flash_of es = map (er_ok (slot_lo slot)) (take j [0..<slot_blocks len]) @
               [F_Erase (slot_lo slot + ([0..<slot_blocks len] ! j) * ERASE_SZ) ERASE_SZ rc]" by auto
          have t: "take j [0..<slot_blocks len] = [0..<min j (slot_blocks len)]" by (simp add: min_def)
          from j show ?thesis unfolding erase_part_def t
            by (intro exI [of _ "min j (slot_blocks len)"]) auto
        qed (use es(5) in \<open>auto simp: erase_part_def\<close>)
        with es show thesis by (intro that [of es]) auto
      qed
      have pre: "\<forall>ev \<in> set (hs @ p1). idle_ev ev" "H_Stopped \<in> set (hs @ p1)" "ev_header (hs @ p1) = []"
        "ps_h s2 = ps_h s @ hs @ p1" "ps_armed s2 = ps_armed s"
        using hs p1 True by auto
      have stop: ?thesis if say: "ps_ext say_ev s3 s'" and r: "r \<noteq> Pushed"
      proof -
        from ps_say [OF say] obtain p2 where p2: "ps_h s' = ps_h s3 @ p2" "\<forall>ev \<in> set p2. idle_ev ev" "ev_header p2 = []"
          "ps_armed s' = ps_armed s3" by blast
        have "slot_trace slot len crc r (es3 @ p2)"
          using es3(2,5) r idle_none [OF p2(2)] by (intro slot_trace_erases [of slot len "flash_of es3"]) auto
        then show ?thesis using pre es3 p2 r
          by - (rule exI [of _ "hs @ p1"], rule exI [of _ "es3 @ p2"], simp add: push_trace_def)
      qed
      obtain ok2 s4 where o2: "nl_send_str e (chr ''OK erased'' @ [10]) s3 = (ok2, s4)" by fastforce
      show ?thesis
      proof (cases "er \<and> ok2")
        case False
        then have "r \<noteq> Pushed \<and> (s' = s4 \<or> (\<exists>m. s' = nl_say e m s3))"
          using assms h True o1 ok1 e3 o2 by (auto simp: push_slot_def split: bool.splits)
        then show ?thesis using stop nl_say_ext nl_send_ext [OF o2] by auto
      next
        case both: True
        then have pp: "push_payload e slot len crc s4 = (r, s')" using assms h True o1 ok1 e3 o2 by (simp add: push_slot_def)
        from ps_say [OF nl_send_ext [OF o2]] obtain p2 where p2: "ps_h s4 = ps_h s3 @ p2" "\<forall>ev \<in> set p2. idle_ev ev"
          "ev_header p2 = []" "ps_armed s4 = ps_armed s3" by blast
        from push_payload_trace [OF pp] obtain es W H where es: "ps_h s' = ps_h s4 @ es" "flash_of es = W @ H" "write_part slot len (ev_recv es) W"
          "header_part slot len crc r (ev_recv es) W H" "ev_header es = []" "r \<noteq> Pushed \<longrightarrow> ps_armed s' = ps_armed s4"
          "r = Pushed \<longrightarrow> ps_armed s' \<and> (\<exists>g. flash_of g = flash_of es \<and>
             img_check (pe_crc e) (pe_ram e) (pe_window e (ps_h s4 @ g)) slot True = (0, len))" by blast
        let ?es = "es3 @ p2 @ es"
        have fl: "flash_of ?es = flash_of es3 @ W @ H" "ev_recv ?es = ev_recv es" using es(2) es3(2) idle_none [OF p2(2)] by simp_all
        have "slot_trace slot len crc r ?es" unfolding slot_trace_def fl
          using es(3,4) es3(5,6) both by blast
        moreover have "r = Pushed \<longrightarrow> ps_armed s' \<and> (\<exists>g. flash_of g = flash_of ?es \<and>
           img_check (pe_crc e) (pe_ram e) (pe_window e (ps_h s @ (hs @ p1) @ g)) slot True = (0, len))"
        proof
          assume "r = Pushed"
          with es(7) obtain g where g: "ps_armed s'" "flash_of g = flash_of es"
            "img_check (pe_crc e) (pe_ram e) (pe_window e (ps_h s4 @ g)) slot True = (0, len)" by blast
          then show "ps_armed s' \<and> (\<exists>g. flash_of g = flash_of ?es \<and>
              img_check (pe_crc e) (pe_ram e) (pe_window e (ps_h s @ (hs @ p1) @ g)) slot True = (0, len))"
            using pre(4) es3(1) p2(1) by (intro conjI exI [of _ "es3 @ p2 @ g"]) simp_all
        qed
        ultimately show ?thesis using pre es3 p2 es
          by - (rule exI [of _ "hs @ p1"], rule exI [of _ ?es], simp add: push_trace_def)
      qed
    qed
  qed
qed

lemma nl_push_trace:
  assumes "nl_push e n s = (r, s')"
  shows "r \<noteq> Pushed \<and> ps_armed s' = ps_armed s \<and> (\<exists>es. ps_h s' = ps_h s @ es \<and> (\<forall>ev \<in> set es. net_ev ev)) \<or>
    (\<exists>slot len crc pre es. slot_ok slot \<and> img_accept_len (pe_ram e) slot len \<and> ev_header pre ! 0 = 0x53 \<and>
       push_req (ev_header pre) = (slot, len, crc) \<and> push_trace e slot len crc r s s' pre es)"
proof -
  have idle: ?thesis if "ps_ext net_ev s s'" "r \<noteq> Pushed" using that by (auto simp: ps_ext_def)
  have net: "ps_ext net_ev t t'" if "ps_ext say_ev t t'" for t t'
    using that by (fastforce simp: ps_ext_def ev_kinds split: push_ev.splits)
  obtain ok s1 where b: "nl_send_banner e s = (ok, s1)" by fastforce
  have b1: "ps_ext say_ev s s1" using b nl_send_ext by (auto simp: nl_send_banner_def Let_def)
  obtain ho s2 where h: "nl_recv_exact e 10 s1 = (ho, s2)" by fastforce
  have h1: "ps_ext net_ev s s2" using ps_ext_trans [OF net [OF b1]] nl_recv_exact_ext [of s1 e 10] h by simp
  have said: "ps_ext net_ev s (nl_say e m s2)" for m using ps_ext_trans [OF h1 net [OF nl_say_ext]] .
  show ?thesis
  proof (cases "ps_writer_lost s")
    case True
    with assms have "r \<noteq> Pushed" "\<exists>m. s' = nl_say e m s" by (auto simp: nl_push_def)
    then show ?thesis using idle net nl_say_ext by auto
  next
    case lost: False
    show ?thesis
    proof (cases "ok \<and> (\<exists>hdr. ho = Some hdr \<and> hdr ! 0 = 0x53)")
      case False
      then have "r \<noteq> Pushed \<and> (s' = s1 \<or> s' = s2 \<or> (\<exists>m. s' = nl_say e m s2))"
        using assms lost b h by (auto simp: nl_push_def split: bool.splits option.splits if_splits)
      then show ?thesis using idle net [OF b1] h1 said by auto
    next
      case True
      then obtain hdr where hdr: "ok" "ho = Some hdr" "hdr ! 0 = 0x53" by blast
      obtain slot len crc where req: "push_req hdr = (slot, len, crc)" by (cases "push_req hdr")
      show ?thesis
      proof (cases "slot_ok slot \<and> img_accept_len (pe_ram e) slot len")
        case False
        then have "r \<noteq> Pushed \<and> (\<exists>m. s' = nl_say e m s2)"
          using assms lost b h hdr req by (auto simp: nl_push_def push_slot_def slot_cases split: if_splits)
        then show ?thesis using idle said by auto
      next
        case ok: True
        then have p: "push_slot e n slot len crc s2 = (r, s')"
          using assms lost b h hdr req by (auto simp: nl_push_def slot_cases)
        from push_slot_trace [OF p] ok obtain pre es where t: "push_trace e slot len crc r s2 s' pre es" "ev_header pre = []" by blast
        obtain fs where fs: "s1 = s\<lparr>ps_h := ps_h s @ fs\<rparr>" "\<forall>ev \<in> set fs. say_ev ev" using b1 by (auto simp: ps_ext_def)
        have hfs: "ev_header fs = []" using fs(2) by (induction fs) (auto simp: ev_header_def say_ev_def split: push_ev.splits)
        obtain gs where gs: "s2 = s1\<lparr>ps_h := ps_h s1 @ gs\<rparr>" "\<forall>ev \<in> set gs. net_ev ev"
          using nl_recv_exact_ext [of s1 e 10] h by (auto simp: ps_ext_def)
        have "ev_header (ps_h s2) = ev_header (ps_h s1) @ hdr" using nl_recv_exact_header [of e 10 s1 hdr s2] h hdr(2) by simp
        then have hgs: "ev_header gs = hdr" using gs(1) by simp
        have idle_all: "\<forall>ev \<in> set (fs @ gs). idle_ev ev" using fs(2) gs(2) by (auto simp: net_idle ev_kinds split: push_ev.splits)
        have st: "ps_h s2 = ps_h s @ fs @ gs" "ps_armed s2 = ps_armed s" using fs(1) gs(1) by simp_all
        have "push_trace e slot len crc r s s' (fs @ gs @ pre) es"
          using t(1) idle_all st by (auto simp: push_trace_def)
        moreover have "ev_header (fs @ gs @ pre) = hdr" using hfs hgs t(2) by simp
        ultimately show ?thesis using ok hdr(3) req by metis
      qed
    qed
  qed
qed

section \<open>Where the flash is touched\<close>

text \<open>The span a push may touch, and the flash operations that stay inside it.\<close>

definition inside :: "nat \<Rightarrow> nat \<Rightarrow> push_ev \<Rightarrow> bool" where
  "inside lo hi ev \<longleftrightarrow> (case ev of F_Erase a n rc \<Rightarrow> lo \<le> a \<and> a + n \<le> hi | F_Write a bs rc \<Rightarrow> lo \<le> a \<and> a + length bs \<le> hi | _ \<Rightarrow> True)"

lemma span_facts:
  assumes "slot_ok slot" "img_accept_len ram slot len"
  shows "slot_blocks len * ERASE_SZ = unat (img_need len)" "slot_lo slot + unat (img_need len) \<le> slot_hi slot"
    "unat len + 4096 \<le> unat (img_need len)" "nl_round (unat len) + 4096 \<le> unat (img_need len)"
proof -
  let ?need = "unat (img_need len)"
  have n: "?need mod 0x40000 = 0" "unat len + 4096 \<le> ?need" "slot_lo slot + ?need \<le> slot_hi slot"
    using push_span [OF assms] by (simp_all add: img_need_def Let_def)
  obtain k where k: "?need = k * 0x40000" using n(1) by (auto elim!: dvdE simp: mod_eq_0_iff_dvd mult.commute)
  then show "slot_blocks len * ERASE_SZ = ?need" by (simp add: slot_blocks_def ERASE_SZ_value)
  from n show "slot_lo slot + ?need \<le> slot_hi slot" "unat len + 4096 \<le> ?need" by simp_all
  have e: "(k * 0x4000 - 256) * NL_UNIT = ?need - 4096" by (simp add: k NL_UNIT_def diff_mult_distrib)
  have "unat len \<le> ?need - 4096" using n(2) by linarith
  then have "nl_round (unat len) \<le> ?need - 4096" unfolding e [symmetric] by (rule nl_round_ge(2))
  then show "nl_round (unat len) + 4096 \<le> ?need" using n(2) by linarith
qed

lemma length_hdr_block: "slot_ok slot \<Longrightarrow> length (hdr_block slot len crc) = 4096"
  by (auto simp: hdr_block_def img_hdr_bytes_def Let_def slot_ok_def img_slot_magic_def chr_def slot_consts)

lemma nl_round_mono: "m \<le> n \<Longrightarrow> nl_round m \<le> nl_round n"
  by (simp add: nl_round_def div_le_mono mult_le_mono1)

lemma nl_round_shift: "nl_round (c * NL_BUF + x) = c * NL_BUF + nl_round x"
  by (induction c) (simp_all add: nl_round_add add.assoc)

lemma chunk_span:
  assumes "length st \<le> len" "c * NL_BUF < len" "nl_chunk base st c = (a, bs)"
  shows "a = base + c * NL_BUF" "length bs \<le> NL_BUF" "length bs mod 16 = 0" "a + length bs \<le> base + nl_round len"
proof -
  let ?x = "length (take NL_BUF (drop (c * NL_BUF) st))"
  have ab: "a = base + c * NL_BUF" "length bs = nl_round ?x" using assms(3) by (auto simp: nl_chunk_def length_pad_unit)
  then show "a = base + c * NL_BUF" by simp
  show "length bs \<le> NL_BUF" unfolding ab(2) using nl_round_ge(2) [of ?x 512] by (simp add: NL_BUF_def NL_UNIT_def)
  show "length bs mod 16 = 0" unfolding ab(2) using nl_round_ge(3) [of ?x] by (simp add: NL_UNIT_def)
  have "c * NL_BUF + ?x \<le> len" using assms(1,2) by auto
  from nl_round_mono [OF this] show "a + length bs \<le> base + nl_round len" using ab by (simp add: nl_round_shift)
qed

lemma nl_chunk_addr: "(a, bs) = nl_chunk base st c \<Longrightarrow> a = base + c * NL_BUF"
  by (simp add: nl_chunk_def)

lemma write_part_chunk:
  assumes "write_part slot len st W" "F_Write a bs rc \<in> set W"
  shows "\<exists>c. c * NL_BUF < unat len \<and> nl_chunk (slot_lo slot + 4096) st c = (a, bs)"
proof -
  have "(a, bs) \<in> set (ev_writes W)" using assms(2) by (force simp: ev_writes_def)
  moreover obtain m where m: "ev_writes W = map (nl_chunk (slot_lo slot + 4096) st) [0..<m]" "m > 0 \<longrightarrow> (m - 1) * NL_BUF < unat len"
    using assms(1) by (auto simp: write_part_def)
  ultimately obtain c where c: "c < m" "nl_chunk (slot_lo slot + 4096) st c = (a, bs)" by auto
  have "c * NL_BUF \<le> (m - 1) * NL_BUF" using c(1) by (intro mult_le_mono1) simp
  moreover have "(m - 1) * NL_BUF < unat len" using m(2) c(1) by simp
  ultimately have "c * NL_BUF < unat len" by (rule le_less_trans)
  with c(2) show ?thesis by blast
qed

lemma slot_trace_inside:
  assumes "slot_trace slot len crc r es" "slot_ok slot" "img_accept_len ram slot len" "ev \<in> set es"
  shows "inside (slot_lo slot) (slot_hi slot) ev"
proof (cases "flash_ev ev")
  case True
  note span = span_facts [OF assms(2,3)]
  obtain E W H where t: "flash_of es = E @ W @ H" "erase_part slot len E" "write_part slot len (ev_recv es) W"
    "header_part slot len crc r (ev_recv es) W H" using assms(1) by (auto simp: slot_trace_def)
  have "ev \<in> set (flash_of es)" using True assms(4) by (simp add: flash_of_def)
  then consider "ev \<in> set E" | "ev \<in> set W" | "ev \<in> set H" using t(1) by auto
  then show ?thesis
  proof cases
    case 1
    then have "\<exists>b < slot_blocks len. \<exists>rc. ev = F_Erase (slot_lo slot + b * ERASE_SZ) ERASE_SZ rc"
      using t(2) by (auto simp: erase_part_def er_ok_def ERASE_SZ_value intro: less_le_trans)
    then obtain b rc where b: "b < slot_blocks len" "ev = F_Erase (slot_lo slot + b * ERASE_SZ) ERASE_SZ rc" by blast
    have "(b + 1) * ERASE_SZ \<le> slot_blocks len * ERASE_SZ" using b(1) by (intro mult_le_mono1) simp
    then show ?thesis using span by (simp add: b(2) inside_def)
  next
    case 2
    then obtain a bs rc where ev: "ev = F_Write a bs rc" using t(3) by (auto simp: write_part_def)
    with 2 t(3) obtain c where c: "c * NL_BUF < unat len" "nl_chunk (slot_lo slot + 4096) (ev_recv es) c = (a, bs)"
      using write_part_chunk by blast
    have "length (ev_recv es) \<le> unat len" using t(3) by (simp add: write_part_def)
    from chunk_span [OF this c] span show ?thesis by (simp add: ev inside_def)
  next
    case 3
    then obtain rc where "ev = F_Write (slot_lo slot) (hdr_block slot len crc) rc" using t(4) by (auto simp: header_part_def)
    then show ?thesis using span length_hdr_block [OF assms(2)] by (simp add: inside_def)
  qed
qed (auto simp: inside_def flash_ev_def split: push_ev.splits)

text \<open>
  The rule of the flash part: no 16-byte unit is programmed twice without an erase between, and every
  program starts and ends on a unit. \<open>P\<close> are the units programmed since they were erased.
\<close>

definition units :: "nat \<Rightarrow> nat \<Rightarrow> nat set" where
  "units a n = {u. a \<le> u * 16 \<and> u * 16 < a + n}"

fun ecc_after :: "nat set \<Rightarrow> push_ev list \<Rightarrow> nat set" where
  "ecc_after P [] = P"
| "ecc_after P (F_Erase a n rc # es) = ecc_after (if rc = 0 then P - units a n else P) es"
| "ecc_after P (F_Write a bs rc # es) = ecc_after (P \<union> units a (length bs)) es"
| "ecc_after P (_ # es) = ecc_after P es"

fun ecc_ok :: "nat set \<Rightarrow> push_ev list \<Rightarrow> bool" where
  "ecc_ok P [] \<longleftrightarrow> True"
| "ecc_ok P (F_Erase a n rc # es) \<longleftrightarrow> ecc_ok (if rc = 0 then P - units a n else P) es"
| "ecc_ok P (F_Write a bs rc # es) \<longleftrightarrow> a mod 16 = 0 \<and> length bs mod 16 = 0 \<and> P \<inter> units a (length bs) = {} \<and>
     ecc_ok (P \<union> units a (length bs)) es"
| "ecc_ok P (_ # es) \<longleftrightarrow> ecc_ok P es"

lemma ecc_append: "ecc_after P (xs @ ys) = ecc_after (ecc_after P xs) ys"
  "ecc_ok P (xs @ ys) \<longleftrightarrow> ecc_ok P xs \<and> ecc_ok (ecc_after P xs) ys"
  by (induction P xs rule: ecc_after.induct) auto

lemma ecc_flash: "ecc_after P (flash_of es) = ecc_after P es" "ecc_ok P (flash_of es) = ecc_ok P es"
  by (induction P es rule: ecc_after.induct) (auto simp: flash_of_def flash_ev_def)

lemma units_apart: "a + n \<le> b \<or> b + m \<le> a \<Longrightarrow> units a n \<inter> units b m = {}"
  by (auto simp: units_def)

lemma units_sub: "b \<le> a \<Longrightarrow> a + n \<le> b + m \<Longrightarrow> units a n \<subseteq> units b m"
  by (auto simp: units_def)

lemma ecc_erases:
  "ecc_ok P (map (er_ok lo) [0..<j]) \<and> ecc_after P (map (er_ok lo) [0..<j]) \<inter> units lo (j * ERASE_SZ) = {} \<and>
   ecc_after P (map (er_ok lo) [0..<j]) \<subseteq> P"
proof (induction j)
  case (Suc j)
  have "units lo (Suc j * ERASE_SZ) \<subseteq> units lo (j * ERASE_SZ) \<union> units (lo + j * ERASE_SZ) ERASE_SZ"
    by (auto simp: units_def)
  with Suc show ?case by (auto simp: ecc_append er_ok_def)
qed (auto simp: units_def)

lemma ecc_erase_part: "erase_part slot len E \<Longrightarrow> ecc_ok P E"
  using ecc_erases [of P "slot_lo slot"] by (auto simp: erase_part_def ecc_append)

text \<open>Programs at consecutive buffers of a clear span.\<close>

lemma ecc_chunks:
  assumes "\<forall>ev \<in> set W. \<exists>a bs rc. ev = F_Write a bs rc" "ev_writes W = map (nl_chunk base st) [0..<m]"
    "m > 0 \<longrightarrow> (m - 1) * NL_BUF < len" "length st \<le> len" "base mod 16 = 0" "P \<inter> units base (nl_round len) = {}"
  shows "ecc_ok P W \<and> ecc_after P W \<subseteq> P \<union> units base (min (m * NL_BUF) (nl_round len))"
  using assms(1,2,3)
proof (induction m arbitrary: W)
  case 0
  then show ?case by (cases W) (auto simp: ev_writes_def)
next
  case (Suc m)
  obtain V ev where W: "W = V @ [ev]" using Suc.prems(2) by (cases W rule: rev_cases) (auto simp: ev_writes_def)
  obtain a bs rc where ev: "ev = F_Write a bs rc" using Suc.prems(1) W by auto
  have V: "\<forall>ev \<in> set V. \<exists>a bs rc. ev = F_Write a bs rc" "ev_writes V = map (nl_chunk base st) [0..<m]"
    and c: "nl_chunk base st m = (a, bs)"
    using Suc.prems(1,2) by (auto simp: W ev)
  have lt: "m * NL_BUF < len" using Suc.prems(3) by simp
  have "(m - 1) * NL_BUF \<le> m * NL_BUF" by simp
  then have "m > 0 \<longrightarrow> (m - 1) * NL_BUF < len" using lt by (meson le_less_trans)
  from Suc.IH [OF V this] have IH: "ecc_ok P V" "ecc_after P V \<subseteq> P \<union> units base (min (m * NL_BUF) (nl_round len))" by blast+
  note sp = chunk_span [OF assms(4) lt c]
  have al: "a mod 16 = 0" using sp(1) assms(5) by (simp add: NL_BUF_def mod_add_eq [of base 16 "m * 8192", symmetric])
  have lo: "units base (min (m * NL_BUF) (nl_round len)) \<inter> units a (length bs) = {}" by (rule units_apart) (simp add: sp(1))
  have hi: "units a (length bs) \<subseteq> units base (min (Suc m * NL_BUF) (nl_round len))"
    using sp by (intro units_sub) auto
  have "units a (length bs) \<subseteq> units base (nl_round len)" using sp by (intro units_sub) auto
  then have "P \<inter> units a (length bs) = {}" using assms(6) by blast
  with IH lo sp(3) al have "ecc_ok P W" by (auto simp: W ev ecc_append)
  moreover have "units base (min (m * NL_BUF) (nl_round len)) \<subseteq> units base (min (Suc m * NL_BUF) (nl_round len))"
    by (intro units_sub) auto
  then have "ecc_after P W \<subseteq> P \<union> units base (min (Suc m * NL_BUF) (nl_round len))"
    using IH(2) hi by (auto simp: W ev ecc_append)
  ultimately show ?case by blast
qed

lemma slot_trace_ecc:
  assumes "slot_trace slot len crc r es" "slot_ok slot" "img_accept_len ram slot len"
  shows "ecc_ok P es"
proof -
  note span = span_facts [OF assms(2,3)]
  let ?lo = "slot_lo slot" and ?L = "nl_round (unat len)"
  obtain E W H where t: "flash_of es = E @ W @ H" "erase_part slot len E" "write_part slot len (ev_recv es) W"
    "header_part slot len crc r (ev_recv es) W H"
    "W @ H \<noteq> [] \<longrightarrow> E = map (er_ok ?lo) [0..<slot_blocks len]" using assms(1) by (auto simp: slot_trace_def)
  obtain m where m: "ev_writes W = map (nl_chunk (?lo + 4096) (ev_recv es)) [0..<m]" "m > 0 \<longrightarrow> (m - 1) * NL_BUF < unat len"
    and W: "\<forall>ev \<in> set W. \<exists>a bs rc. ev = F_Write a bs rc" and st: "length (ev_recv es) \<le> unat len"
    using t(3) by (auto simp: write_part_def)
  have lo16: "?lo mod 16 = 0" "(?lo + 4096) mod 16 = 0" using assms(2) by (auto simp: slot_ok_def slot_bounds)
  show ?thesis
  proof (cases "W @ H = []")
    case True
    with t(1,2) ecc_erase_part show ?thesis by (auto simp: ecc_flash [symmetric, of _ es])
  next
    case False
    define P1 where "P1 = ecc_after P E"
    have E: "ecc_ok P E" "P1 \<inter> units ?lo (unat (img_need len)) = {}"
      using ecc_erases [of P ?lo "slot_blocks len"] t(5) False span(1) by (auto simp: P1_def)
    have "units (?lo + 4096) ?L \<subseteq> units ?lo (unat (img_need len))" using span(4) by (intro units_sub) auto
    then have "P1 \<inter> units (?lo + 4096) ?L = {}" using E(2) by blast
    from ecc_chunks [OF W m(1) _ st lo16(2) this] m(2)
    have ok: "ecc_ok P1 W" "ecc_after P1 W \<subseteq> P1 \<union> units (?lo + 4096) (min (m * NL_BUF) ?L)" by auto
    have "ecc_ok (ecc_after P1 W) H"
    proof (cases H)
      case (Cons ev H')
      then obtain rc where H: "H = [F_Write ?lo (hdr_block slot len crc) rc]" using t(4) by (auto simp: header_part_def)
      have "units ?lo 4096 \<subseteq> units ?lo (unat (img_need len))" using span(3) by (intro units_sub) auto
      moreover have "units (?lo + 4096) (min (m * NL_BUF) ?L) \<inter> units ?lo 4096 = {}" by (rule units_apart) simp
      ultimately have "ecc_after P1 W \<inter> units ?lo 4096 = {}" using E(2) ok(2) by blast
      then show ?thesis using lo16(1) by (simp add: H length_hdr_block [OF assms(2)])
    qed simp
    with E(1) ok(1) have "ecc_ok P (flash_of es)" by (simp add: t(1) ecc_append P1_def)
    then show ?thesis by (simp add: ecc_flash)
  qed
qed

section \<open>What the flash holds\<close>

text \<open>
  NOR flash, as the part behaves when an operation succeeds: an erase sets its span to 255, a program
  can only clear bits.
\<close>

fun nor :: "block \<Rightarrow> push_ev list \<Rightarrow> block" where
  "nor f [] = f"
| "nor f (F_Erase a n rc # es) = nor (if rc = 0 then (\<lambda>i. if a \<le> i \<and> i < a + n then 0xFF else f i) else f) es"
| "nor f (F_Write a bs rc # es) =
     nor (if rc = 0 then (\<lambda>i. if a \<le> i \<and> i < a + length bs then f i AND bs ! (i - a) else f i) else f) es"
| "nor f (_ # es) = nor f es"

lemma nor_append: "nor f (xs @ ys) = nor (nor f xs) ys"
  by (induction f xs rule: nor.induct) auto

lemma nor_flash: "nor f (flash_of es) = nor f es"
  by (induction f es rule: nor.induct) (auto simp: flash_of_def flash_ev_def)

lemma nor_inside:
  "\<forall>ev \<in> set es. inside lo hi ev \<Longrightarrow> i < lo \<or> hi \<le> i \<Longrightarrow> nor f es i = f i"
  by (induction f es rule: nor.induct) (auto simp: inside_def)

lemma nor_erases: "nor f (map (er_ok lo) [0..<j]) i = (if lo \<le> i \<and> i < lo + j * ERASE_SZ then 0xFF else f i)"
  by (induction j) (auto simp: nor_append er_ok_def)

text \<open>Programs at consecutive addresses leave what one program of all the bytes leaves.\<close>

lemma nor_write: "nor f [F_Write a bs 0] i = (if a \<le> i \<and> i < a + length bs then f i AND bs ! (i - a) else f i)"
  by simp

lemma chunks_length:
  assumes "m > 0 \<longrightarrow> (m - 1) * NL_BUF < length st" "m * NL_BUF < length st"
  shows "length (concat (map snd (map (nl_chunk base st) [0..<m]))) = m * NL_BUF"
  using assms
proof (induction m)
  case (Suc m)
  have "m * NL_BUF < length st" "Suc m * NL_BUF \<le> length st" using Suc.prems by simp_all
  then have "length (snd (nl_chunk base st m)) = nl_round NL_BUF" by (simp add: nl_chunk_def length_pad_unit)
  moreover have "nl_round NL_BUF = NL_BUF" by (simp add: nl_round_def NL_BUF_def NL_UNIT_def)
  moreover have "m > 0 \<longrightarrow> (m - 1) * NL_BUF < length st"
    using le_less_trans [OF mult_le_mono1 [of "m - 1" m NL_BUF] \<open>m * NL_BUF < length st\<close>] by simp
  ultimately show ?case using Suc.IH \<open>m * NL_BUF < length st\<close> by simp
qed simp

lemma nor_chunks:
  assumes "\<forall>ev \<in> set W. \<exists>a bs rc. ev = F_Write a bs rc" "\<forall>rc \<in> set (ev_rcs W). rc = 0"
    "ev_writes W = map (nl_chunk base st) [0..<m]" "m > 0 \<longrightarrow> (m - 1) * NL_BUF < length st"
  shows "nor f W = nor f [F_Write base (concat (map snd (ev_writes W))) 0]"
  using assms
proof (induction m arbitrary: W)
  case 0
  then show ?case by (cases W) (auto simp: ev_writes_def fun_eq_iff)
next
  case (Suc m)
  obtain V ev where W: "W = V @ [ev]" using Suc.prems(3) by (cases W rule: rev_cases) (auto simp: ev_writes_def)
  obtain a bs rc where ev: "ev = F_Write a bs rc" using Suc.prems(1) W by auto
  have V: "\<forall>ev \<in> set V. \<exists>a bs rc. ev = F_Write a bs rc" "\<forall>rc \<in> set (ev_rcs V). rc = 0"
    "ev_writes V = map (nl_chunk base st) [0..<m]" and c: "nl_chunk base st m = (a, bs)" and rc: "rc = 0"
    using Suc.prems(1,2,3) by (auto simp: W ev)
  have lt: "m * NL_BUF < length st" using Suc.prems(4) by simp
  have pre: "m > 0 \<longrightarrow> (m - 1) * NL_BUF < length st" using le_less_trans [OF mult_le_mono1 [of "m - 1" m NL_BUF] lt] by simp
  let ?bs = "concat (map snd (ev_writes V))"
  have len: "length ?bs = m * NL_BUF" unfolding V(3) by (rule chunks_length [OF pre lt])
  have a: "a = base + length ?bs" using nl_chunk_addr [OF c [symmetric]] len by simp
  have "nor f W = nor (nor f [F_Write base ?bs 0]) [F_Write a bs 0]"
    using Suc.IH [OF V pre] by (simp add: W ev rc nor_append)
  also have "\<dots> = nor f [F_Write base (?bs @ bs) 0]"
    by (rule ext) (auto simp only: nor_write a nth_append length_append split: if_splits, auto simp: diff_diff_left add.commute)
  finally show ?case by (simp add: W ev)
qed

lemma and_blank [simp]: "(0xFF :: u8) AND b = b"
proof -
  have "(0xFF :: u8) = - 1" by simp
  then show ?thesis by (simp only: and.left_neutral)
qed

text \<open>After a push that succeeded the slot is header block, payload, filler; the rest is as it was.\<close>

lemma slot_trace_nor:
  assumes "slot_trace slot len crc Pushed es" "slot_ok slot" "img_accept_len ram slot len"
  shows "length (ev_recv es) = unat len" "mem_read (nor f es) (slot_lo slot) 4096 = hdr_block slot len crc"
    "mem_read (nor f es) (slot_lo slot + 4096) (unat len) = ev_recv es"
    "i < slot_lo slot \<or> slot_hi slot \<le> i \<Longrightarrow> nor f es i = f i"
proof -
  let ?lo = "slot_lo slot" and ?st = "ev_recv es" and ?f = "nor f es"
  note span = span_facts [OF assms(2,3)]
  obtain E W rc where t: "flash_of es = E @ W @ [F_Write ?lo (hdr_block slot len crc) 0]" "write_part slot len ?st W"
    "E = map (er_ok ?lo) [0..<slot_blocks len]" and st: "length ?st = unat len" "concat (map snd (ev_writes W)) = pad_unit ?st"
    "\<forall>rc \<in> set (ev_rcs W). rc = 0" using assms(1) by (auto simp: slot_trace_def header_part_def)
  from st show "length ?st = unat len" by simp
  obtain m where m: "ev_writes W = map (nl_chunk (?lo + 4096) ?st) [0..<m]" "m > 0 \<longrightarrow> (m - 1) * NL_BUF < length ?st"
    and W: "\<forall>ev \<in> set W. \<exists>a bs rc. ev = F_Write a bs rc" using t(2) st(1) by (auto simp: write_part_def)
  let ?g = "nor f E"
  have g: "?g i = 0xFF" if "?lo \<le> i" "i < ?lo + unat (img_need len)" for i
    using that span(1) by (simp add: t(3) nor_erases)
  have n: "?f = nor (nor ?g [F_Write (?lo + 4096) (pad_unit ?st) 0]) [F_Write ?lo (hdr_block slot len crc) 0]"
    using nor_chunks [OF W st(3) m, of ?g] st(2) nor_flash [of f es] by (simp add: t(1) nor_append)
  have hl: "length (hdr_block slot len crc) = 4096" by (rule length_hdr_block [OF assms(2)])
  show "mem_read ?f ?lo 4096 = hdr_block slot len crc"
    by (rule nth_equalityI) (use hl span(3) g in \<open>simp_all add: nth_mem_read n nor_write del: nor.simps\<close>)
  have "?f (?lo + 4096 + i) = ?st ! i" if "i < unat len" for i
  proof -
    have "i < length (pad_unit ?st)" "pad_unit ?st ! i = ?st ! i" using that st(1) by (simp_all add: pad_unit_def nth_append)
    then show ?thesis using g [of "?lo + 4096 + i"] that span(3) by (simp add: n nor_write hl del: nor.simps)
  qed
  then show "mem_read ?f (?lo + 4096) (unat len) = ?st"
    by (intro nth_equalityI) (simp_all add: st(1) nth_mem_read)
  show "?f i = f i" if "i < ?lo \<or> slot_hi slot \<le> i"
    by (rule nor_inside [OF _ that]) (use slot_trace_inside [OF assms] in blast)
qed

section \<open>A push that succeeds\<close>

text \<open>Four bytes pushed to the kernel slot of a flash of zeros, received in two pieces.\<close>

definition demo_request :: "u8 list" where
  "demo_request = [0x53, 0, 4, 0, 0, 0, 10, 0, 0, 0]"

definition demo_push :: push_env where
  "demo_push = \<lparr>pe_send = (\<lambda>h p. int (length p)), pe_poll = (\<lambda>h. (1, False)), pe_recv = (\<lambda>h n. drop (length (ev_header h)) demo_request),
     pe_uptime = (\<lambda>h. 7), pe_stopped = (\<lambda>h. False), pe_ack = (\<lambda>h. True), pe_ready = True,
     pe_erase = (\<lambda>h a n. 0), pe_write = (\<lambda>h a bs. 0), pe_window = nor (\<lambda>_. 0),
     pe_sched = (\<lambda>h. [A_Take, A_Recv [1, 2, 3] False, A_Recv [4] False, A_Hand, A_Take, W_Take, W_Done 0, A_Sentinel, W_Take, A_Join]),
     pe_crc = (\<lambda>bs. foldr (\<lambda>b a. ucast b + a) bs 0), pe_ram = 0x4000000, pe_blank = False\<rparr>"

definition demo_idle :: push_st where
  "demo_idle = \<lparr>ps_h = [], ps_halt_by_pusher = False, ps_writer_lost = False, ps_armed = False, ps_reboot_at = 0\<rparr>"




definition demo_written :: "push_ev list" where
  "demo_written = [F_Erase 0x40000 ERASE_SZ 0, F_Write 0x41000 ([1, 2, 3, 4] @ replicate 12 0xFF) 0, F_Write 0x40000 (hdr_block 0 4 10) 0]"

lemma demo_send: "nl_send_str demo_push p s = (True, if p = [] then s else ps_log (N_Sent p) s)"
proof (cases "p = []")
  case False
  then have "nl_send_str demo_push p s = nl_send_str demo_push [] (ps_log (N_Sent p) s)"
    by (subst nl_send_str.simps) (simp add: demo_push_def Let_def)
  with False show ?thesis by (simp add: nl_send_str.simps)
qed (simp add: nl_send_str.simps)

lemma ev_header_one [simp]: "ev_header [N_Poll] = []" "ev_header [N_Sent p] = []"
  by (simp_all add: ev_header_def)

lemma demo_recv:
  assumes "ev_header (ps_h s) = []"
  shows "nl_recv_exact demo_push 10 s = (Some demo_request, ps_log (N_Header demo_request) (ps_log N_Poll s))"
proof -
  have "nl_recv demo_push 10 s = (10, demo_request, ps_log (N_Header demo_request) (ps_log N_Poll s))"
    using assms ev_header_append(2) [of "ps_h s" "[N_Poll]"] by (simp add: nl_recv_def demo_push_def ps_log_def ev_header_one demo_request_def Let_def)
  then show ?thesis by (simp add: nl_recv_exact.simps [of _ 10] nl_recv_exact.simps [of _ 0] demo_request_def)
qed

lemma demo_run:
  "q = nl_run b 4 [A_Take, A_Recv [1, 2, 3] False, A_Recv [4] False, A_Hand, A_Take, W_Take, W_Done 0, A_Sentinel, W_Take, A_Join] nl_start \<Longrightarrow>
   nl_p q = PP_Done \<and> \<not> nl_wrc q \<and> \<not> nl_failed q \<and> nl_off q = 4 \<and>
     nl_ev q = [N_Recv [1, 2, 3], N_Recv [4], F_Write b ([1, 2, 3, 4] @ replicate 12 0xFF) 0]"
  by (simp add: nl_start_def nl_want_def NL_BUF_def NL_UNIT_def nl_round_def Let_def)

lemma demo_hdr: "take 16 (hdr_block 0 4 10) = [0x52, 0x41, 0x38, 0x4c, 0x49, 0x4e, 0x55, 0x58, 4, 0, 0, 0, 10, 0, 0, 0]"
proof -
  have "le_bytes 4 (4 :: u32) = [4, 0, 0, 0]" "le_bytes 4 (10 :: u32) = [10, 0, 0, 0]" by code_simp+
  then show ?thesis by (simp add: hdr_block_def img_hdr_bytes_def img_slot_magic_def slot_consts chr_def Let_def)
qed

lemma demo_sched: "pe_sched demo_push h = [A_Take, A_Recv [1, 2, 3] False, A_Recv [4] False, A_Hand, A_Take, W_Take, W_Done 0, A_Sentinel,
    W_Take, A_Join]"
  by (simp add: demo_push_def)

lemma demo_slot:
  assumes "w = nor (\<lambda>_. 0) demo_written"
  shows "mem_read w 0x40000 8 = chr ''RA8LINUX''" "mem_read w 0x40008 4 = [4, 0, 0, 0]"
    "mem_read w 0x4000C 4 = [10, 0, 0, 0]" "mem_read w 0x41000 4 = [1, 2, 3, 4]"
proof -
  have l: "length (hdr_block 0 4 10) = 4096" by (rule length_hdr_block) (simp add: slot_ok_def slot_consts)
  have h: "mem_read w 0x40000 16 = take 16 (hdr_block 0 4 10)"
    by (rule nth_equalityI) (auto simp: l assms demo_written_def nth_mem_read ERASE_SZ_value)
  show "mem_read w 0x40000 8 = chr ''RA8LINUX''" "mem_read w 0x40008 4 = [4, 0, 0, 0]" "mem_read w 0x4000C 4 = [10, 0, 0, 0]"
    using mem_read_sub [of 0 8 16 w "0x40000"] mem_read_sub [of 8 4 16 w "0x40000"] mem_read_sub [of 12 4 16 w "0x40000"]
    by (simp_all add: h demo_hdr chr_def)
  show "mem_read w 0x41000 4 = [1, 2, 3, 4]"
    by (simp add: mem_read_def upt_rec assms demo_written_def l ERASE_SZ_value)
qed

lemma demo_check: "img_check (pe_crc demo_push) (pe_ram demo_push) (nor (\<lambda>_. 0) demo_written) 0 True = (0, 4)"
proof -
  have "of_le [4, 0, 0, 0] = (4 :: u32)" "of_le [10, 0, 0, 0] = (10 :: u32)" by code_simp+
  then show ?thesis using demo_slot [OF refl]
    by (simp add: img_check_def img_hdr_at_def plat_slot_base_values [unfolded slot_numbers] Let_def slot_consts img_slot_magic_def
      img_max_len_def plat_slot_offset_at demo_push_def)
qed

lemma demo_pushed: "\<exists>s. nl_push demo_push 1 demo_idle = (Pushed, s)"
proof -
  obtain s1 p where s1: "nl_send_banner demo_push demo_idle = (True, s1)" "ps_h s1 = [N_Sent p]"
    by (simp add: nl_send_banner_def Let_def demo_send chr_def ps_log_def demo_idle_def)
  define s2 where "s2 = ps_log (N_Header demo_request) (ps_log N_Poll s1)"
  have s2: "nl_recv_exact demo_push 10 s1 = (Some demo_request, s2)" using demo_recv [of s1] s1(2) by (simp add: s2_def)
  have req: "push_req demo_request = (0, 4, 10)" by code_simp
  define s3 where "s3 = ps_log B_Suspend (ps_log H_Stopped (ps_log H_Poweroff ((ps_log Clock (ps_log Clock s2))\<lparr>ps_halt_by_pusher := True\<rparr>)))"
  have s3: "halt_guest demo_push 1 s2 = (Some True, s3)"
    by (simp add: halt_guest_def k_uptime_get_def Let_def demo_push_def s3_def)
  define s4 where "s4 = ps_log (N_Sent (chr ''OK header'' @ [10])) s3"
  have bl: "[0..<unat (img_need 4) div ERASE_SZ] = [0]"
    by (simp add: img_need_def round_up_def plat_flash_erase_size_def ERASE_SZ_value slot_consts)
  define s5 where "s5 = ps_log (F_Erase 0x40000 ERASE_SZ 0) s4"
  have s5: "img_erase demo_push 0 4 s4 = (True, s5)"
    unfolding img_erase_def bl by (simp add: demo_push_def Let_def s5_def slot_bounds_at)
  define s6 where "s6 = ps_log (N_Sent (chr ''OK erased'' @ [10])) s5"
  define q where "q = nl_run 0x41000 4 (pe_sched demo_push []) nl_start"
  have q: "nl_p q = PP_Done \<and> \<not> nl_wrc q \<and> \<not> nl_failed q \<and> nl_off q = 4 \<and>
     nl_ev q = [N_Recv [1, 2, 3], N_Recv [4], F_Write 0x41000 ([1, 2, 3, 4] @ replicate 12 0xFF) 0]"
    by (rule demo_run [OF q_def [unfolded demo_sched]])
  define s7 where "s7 = s6\<lparr>ps_h := ps_h s6 @ nl_ev q\<rparr>"
  define s8 where "s8 = ps_log F_Inval (ps_log (F_Write 0x40000 (hdr_block 0 4 10) 0) s7)"
  have "flash_of (ps_h s8) = demo_written"
    using q s1(2) by (simp add: s8_def s7_def s6_def s5_def s4_def s3_def s2_def ps_log_def flash_of_def flash_ev_def demo_written_def)
  then have "pe_window demo_push (ps_h s8) = nor (\<lambda>_. 0) demo_written"
    using nor_flash [of "\<lambda>_. 0" "ps_h s8"] by (simp add: demo_push_def)
  then have v: "verify_loop demo_push 0 4 VERIFY_ATTEMPTS s8 = (True, s8)"
    using demo_check by (simp add: VERIFY_ATTEMPTS_def eval_nat_numeral)
  have "img_commit demo_push 0 4 10 s7 = (True, s8)"
    using v by (simp add: img_commit_def Let_def slot_bounds_at demo_push_def s8_def)
  then have "\<exists>s. push_payload demo_push 0 4 10 s6 = (Pushed, s)"
  proof -
    assume c: "img_commit demo_push 0 4 10 s7 = (True, s8)"
    have "nl_run (slot_lo 0 + unat IMG_PAYLOAD_OFF) (unat (4 :: u32)) (pe_sched demo_push (ps_h s6)) nl_start = q"
      by (simp add: q_def demo_sched slot_bounds_at IMG_PAYLOAD_OFF_def del: nl_run.simps)
    then show ?thesis using q c unfolding push_payload_def by (simp add: Let_def s7_def)
  qed
  moreover have "img_accept_len (pe_ram demo_push) 0 4"
    by (simp add: img_accept_len_def img_max_len_def plat_slot_offset_at slot_consts Let_def demo_push_def)
  ultimately show ?thesis using s1(1) s2 req s3 s5
    by (simp add: nl_push_def push_slot_def demo_send s4_def s6_def chr_def demo_request_def slot_consts demo_idle_def)
qed

section \<open>The push\<close>

lemma push_confined_aux:
  assumes "nl_push e n s = (r, s')"
  shows "\<exists>pre es. ps_h s' = ps_h s @ pre @ es \<and> flash_of pre = [] \<and>
    (flash_of es = [] \<or> H_Stopped \<in> set pre \<and> (\<exists>slot len crc. push_req (ev_header pre) = (slot, len, crc) \<and> slot_ok slot \<and>
       img_accept_len (pe_ram e) slot len \<and> (\<forall>ev \<in> set es. inside (slot_lo slot) (slot_hi slot) ev)))"
  using nl_push_trace [OF assms]
proof (elim disjE conjE exE)
  fix es assume "ps_h s' = ps_h s @ es" "\<forall>ev \<in> set es. net_ev ev"
  then show ?thesis using idle_none [of es] net_idle by (intro exI [of _ es] exI [of _ "[]"]) auto
next
  fix slot len crc pre es
  assume a: "slot_ok slot" "img_accept_len (pe_ram e) slot len" "push_req (ev_header pre) = (slot, len, crc)"
    "push_trace e slot len crc r s s' pre es"
  then have t: "slot_trace slot len crc r es" "ps_h s' = ps_h s @ pre @ es" "flash_of pre = []" "flash_of es \<noteq> [] \<longrightarrow> H_Stopped \<in> set pre"
    using idle_none [of pre] by (auto simp: push_trace_def)
  have "\<forall>ev \<in> set es. inside (slot_lo slot) (slot_hi slot) ev" using slot_trace_inside [OF t(1) a(1,2)] by blast
  with t a show ?thesis by blast
qed

lemma push_ecc_aux:
  assumes "nl_push e n s = (r, s')" "ecc_ok P (ps_h s)"
  shows "ecc_ok P (ps_h s')"
  using nl_push_trace [OF assms(1)]
proof (elim disjE conjE exE)
  fix es assume es: "ps_h s' = ps_h s @ es" "\<forall>ev \<in> set es. net_ev ev"
  then have "flash_of es = []" using idle_none [of es] net_idle by auto
  with es(1) assms(2) show ?thesis using ecc_flash(2) [of _ es] by (simp add: ecc_append)
next
  fix slot len crc pre es
  assume a: "slot_ok slot" "img_accept_len (pe_ram e) slot len" "push_trace e slot len crc r s s' pre es"
  then have t: "slot_trace slot len crc r es" "ps_h s' = ps_h s @ pre @ es" "flash_of pre = []"
    using idle_none [of pre] by (auto simp: push_trace_def)
  have "ecc_ok Q pre \<and> ecc_ok Q es" for Q using t(3) ecc_flash(2) [of _ pre] slot_trace_ecc [OF t(1) a(1,2)] by simp
  with t(2) assms(2) show ?thesis by (simp add: ecc_append)
qed

lemma pushed_trace:
  assumes "nl_push e n s = (Pushed, s')"
  obtains slot len crc pre es g where "slot_ok slot" "img_accept_len (pe_ram e) slot len" "push_req (ev_header pre) = (slot, len, crc)"
    "ps_h s' = ps_h s @ pre @ es" "flash_of pre = []" "slot_trace slot len crc Pushed es" "ev_recv pre = []" "ps_armed s'"
    "flash_of g = flash_of es" "img_check (pe_crc e) (pe_ram e) (pe_window e (ps_h s @ pre @ g)) slot True = (0, len)"
proof -
  from nl_push_trace [OF assms] obtain slot len crc pre es where a: "slot_ok slot" "img_accept_len (pe_ram e) slot len"
    "push_req (ev_header pre) = (slot, len, crc)" "push_trace e slot len crc Pushed s s' pre es" by blast
  from a(4) have pre: "\<forall>ev \<in> set pre. idle_ev ev" and t: "ps_h s' = ps_h s @ pre @ es" "slot_trace slot len crc Pushed es" "ps_armed s'"
    "\<exists>g. flash_of g = flash_of es \<and> img_check (pe_crc e) (pe_ram e) (pe_window e (ps_h s @ pre @ g)) slot True = (0, len)"
    unfolding push_trace_def by blast+
  from t(4) idle_none [OF pre] show thesis using that [OF a(1-3) t(1) _ t(2) _ t(3)] by blast
qed

text \<open>A slot's check reads the slot only.\<close>

lemma slot_check_cong:
  assumes "slot_ok slot" "\<And>i. slot_lo slot \<le> i \<Longrightarrow> i < slot_lo slot + unat (snd (plat_slot_base slot)) \<Longrightarrow> w i = w' i"
  shows "slot_check crc w slot v = slot_check crc w' slot v"
proof -
  define lo sz where "lo = slot_lo slot" and "sz = snd (plat_slot_base slot)"
  have sz: "sz > 0x1000" "IMG_PAYLOAD_OFF = 0x1000" and base: "fst (plat_slot_base slot) = Some (OSPI_MMAP_BASE + of_nat lo)"
    and off: "unat (OSPI_MMAP_BASE + of_nat lo - OSPI_MMAP_BASE) = lo"
    using assms(1) by (auto simp: slot_ok_def sz_def lo_def plat_slot_base_values slot_bounds) (simp_all add: slot_consts)
  have sub: "mem_read w (lo + k) n = mem_read w' (lo + k) n" if "k + n \<le> unat sz" for k n
    using that assms(2) by (intro nth_equalityI) (auto simp: nth_mem_read sz_def lo_def)
  have "unat sz > 0x1000" using sz(1) by (simp add: word_less_nat_alt)
  then have h: "img_hdr_at w lo = img_hdr_at w' lo"
    using sub [of 0 8] sub [of 8 4] sub [of 12 4] by (simp add: img_hdr_at_def)
  have p: "mem_read w (lo + 0x1000) (unat l) = mem_read w' (lo + 0x1000) (unat l)" if "\<not> l > sz - 0x1000" for l
  proof (rule sub)
    have "unat l \<le> unat (sz - 0x1000)" using that by (simp add: word_le_nat_alt not_less)
    also have "\<dots> = unat sz - 0x1000" using sz(1) by (simp add: unat_sub word_le_nat_alt word_less_nat_alt)
    finally show "0x1000 + unat l \<le> unat sz" using \<open>unat sz > 0x1000\<close> by linarith
  qed
  show ?thesis
    unfolding slot_check_def Let_def prod.case_eq_if base sz_def [symmetric] option.case off h sz(2)
    using p [of "ih_len (img_hdr_at w' lo)"] by simp
qed

text \<open>What the pusher's check accepts, the boot's check accepts.\<close>

lemma img_check_boots:
  assumes "slot_ok slot" "img_check crc ram w slot True = (0, len)"
  shows "slot_check crc w slot v = Some (slot_lo slot + 4096, len)"
proof -
  have "slot_hi slot - slot_lo slot \<le> unat (snd (plat_slot_base slot))" "unat (snd (plat_slot_base slot)) > 4096"
    "fst (plat_slot_base slot) = Some (OSPI_MMAP_BASE + of_nat (slot_lo slot))"
    "unat (OSPI_MMAP_BASE + of_nat (slot_lo slot) - OSPI_MMAP_BASE) = slot_lo slot"
    using assms(1) by (auto simp: slot_ok_def plat_slot_base_values slot_bounds) (simp_all add: slot_consts)
  note b = this
  have p: "unat IMG_PAYLOAD_OFF = 4096" by (simp add: IMG_PAYLOAD_OFF_def)
  have s: "\<not> snd (plat_slot_base slot) \<le> IMG_PAYLOAD_OFF" using b(2) by (simp add: word_le_nat_alt p)
  have "unat (img_max_len ram slot) \<le> unat (snd (plat_slot_base slot) - IMG_PAYLOAD_OFF)"
    using img_max_len_le [OF assms(1), of ram] b(1) s by (simp add: unat_sub word_le_nat_alt p)
  then have m: "\<not> l > snd (plat_slot_base slot) - IMG_PAYLOAD_OFF" if "\<not> l > img_max_len ram slot" for l
    using that by (simp add: word_less_nat_alt not_less)
  show ?thesis using assms(2) m s
    unfolding img_check_def slot_check_def Let_def prod.case_eq_if b(3) option.case b(4) p
    by (auto split: if_splits)
qed

lemma hdr_block_head:
  "slot_ok slot \<Longrightarrow> take 16 (hdr_block slot len crc) = img_hdr_bytes \<lparr>ih_magic = img_slot_magic slot, ih_len = len, ih_crc = crc\<rparr>"
  by (auto simp: hdr_block_def img_hdr_bytes_def Let_def slot_ok_def img_slot_magic_def chr_def slot_consts)

lemma slot_apart:
  "slot_ok slot \<Longrightarrow> slot_lo (1 - slot) + unat (snd (plat_slot_base (1 - slot))) \<le> slot_lo slot \<or> slot_hi slot \<le> slot_lo (1 - slot)"
  by (auto simp: slot_ok_def slot_consts slot_bounds_at plat_slot_base_values [unfolded slot_numbers])

text \<open>
  C2. A push touches the flash only inside the slot it names: every erase and every program of a push,
  whatever its outcome, lies between the first and last byte of the slot in the request, whose
  length has been accepted, and the guest is known to have stopped before the first of them.
\<close>

theorem push_confined:
  assumes "nl_push e n s = (r, s')"
  shows "\<exists>pre es. ps_h s' = ps_h s @ pre @ es \<and> flash_of pre = [] \<and>
    (flash_of es = [] \<or> H_Stopped \<in> set pre \<and> (\<exists>slot len crc. push_req (ev_header pre) = (slot, len, crc) \<and> slot_ok slot \<and>
       img_accept_len (pe_ram e) slot len \<and> (\<forall>ev \<in> set es. inside (slot_lo slot) (slot_hi slot) ev)))"
  by (rule push_confined_aux [OF assms])

theorem push_confined_witness:
  "\<exists>s'. nl_push demo_push 1 demo_idle = (Pushed, s') \<and> (\<exists>pre es. ps_h s' = ps_h demo_idle @ pre @ es \<and> flash_of pre = [] \<and>
    (flash_of es = [] \<or> H_Stopped \<in> set pre \<and> (\<exists>slot len crc. push_req (ev_header pre) = (slot, len, crc) \<and> slot_ok slot \<and>
       img_accept_len (pe_ram demo_push) slot len \<and> (\<forall>ev \<in> set es. inside (slot_lo slot) (slot_hi slot) ev))))"
proof -
  obtain s' where s': "nl_push demo_push 1 demo_idle = (Pushed, s')" using demo_pushed by blast
  show ?thesis by (rule exI [of _ s'], rule conjI, rule s', rule push_confined [OF s'])
qed

text \<open>
  C25. The flash part's rule is kept across pushes: every program is aligned to and a multiple of the
  16-byte ECC unit, and no unit is programmed a second time without an erase in between.
\<close>

theorem push_ecc_discipline:
  assumes "nl_push e n s = (r, s')" "ecc_ok P (ps_h s)"
  shows "ecc_ok P (ps_h s')"
  by (rule push_ecc_aux [OF assms])

theorem push_ecc_discipline_witness:
  "\<exists>s'. nl_push demo_push 1 demo_idle = (Pushed, s') \<and> ecc_ok UNIV (ps_h s')"
proof -
  obtain s' where s': "nl_push demo_push 1 demo_idle = (Pushed, s')" using demo_pushed by blast
  have "ecc_ok UNIV (ps_h demo_idle)" by (simp add: demo_idle_def)
  from push_ecc_discipline [OF s' this] s' show ?thesis by blast
qed

text \<open>
  C8. A push that reports success has installed the image: the slot begins with the header of the
  request, the payload area holds exactly the bytes received, as many as announced, and nothing
  outside the slot has changed, whatever the flash held before.
\<close>

theorem push_installs:
  assumes "nl_push e n s = (Pushed, s')"
  shows "\<exists>slot len crc pre es. slot_ok slot \<and> push_req (ev_header pre) = (slot, len, crc) \<and> ps_h s' = ps_h s @ pre @ es \<and>
    flash_of pre = [] \<and> length (ev_recv es) = unat len \<and>
    (\<forall>f. mem_read (nor f es) (slot_lo slot) 16 = img_hdr_bytes \<lparr>ih_magic = img_slot_magic slot, ih_len = len, ih_crc = crc\<rparr> \<and>
       mem_read (nor f es) (slot_lo slot + 4096) (unat len) = ev_recv es \<and>
       (\<forall>i. i < slot_lo slot \<or> slot_hi slot \<le> i \<longrightarrow> nor f es i = f i))"
proof -
  obtain slot len crc pre es g where a: "slot_ok slot" "img_accept_len (pe_ram e) slot len"
    "push_req (ev_header pre) = (slot, len, crc)" "ps_h s' = ps_h s @ pre @ es" "flash_of pre = []" "slot_trace slot len crc Pushed es"
    "ev_recv pre = []" "ps_armed s'" "flash_of g = flash_of es"
    "img_check (pe_crc e) (pe_ram e) (pe_window e (ps_h s @ pre @ g)) slot True = (0, len)" by (rule pushed_trace [OF assms])
  note t = slot_trace_nor [OF a(6,1,2)]
  have "mem_read (nor f es) (slot_lo slot) 16 = img_hdr_bytes \<lparr>ih_magic = img_slot_magic slot, ih_len = len, ih_crc = crc\<rparr>" for f
    using mem_read_sub [of 0 16 4096 "nor f es" "slot_lo slot"] by (simp add: t(2) hdr_block_head [OF a(1)])
  with t have f: "length (ev_recv es) = unat len \<and>
    (\<forall>f. mem_read (nor f es) (slot_lo slot) 16 = img_hdr_bytes \<lparr>ih_magic = img_slot_magic slot, ih_len = len, ih_crc = crc\<rparr> \<and>
       mem_read (nor f es) (slot_lo slot + 4096) (unat len) = ev_recv es \<and>
       (\<forall>i. i < slot_lo slot \<or> slot_hi slot \<le> i \<longrightarrow> nor f es i = f i))" by simp
  show ?thesis
    by (rule exI [of _ slot], rule exI [of _ len], rule exI [of _ crc], rule exI [of _ pre], rule exI [of _ es])
      (intro conjI a f [THEN conjunct1] f [THEN conjunct2])
qed

theorem push_installs_witness:
  "\<exists>s'. nl_push demo_push 1 demo_idle = (Pushed, s') \<and> (\<exists>slot len crc pre es. slot_ok slot \<and>
    push_req (ev_header pre) = (slot, len, crc) \<and> ps_h s' = ps_h demo_idle @ pre @ es \<and>
    flash_of pre = [] \<and> length (ev_recv es) = unat len \<and>
    (\<forall>f. mem_read (nor f es) (slot_lo slot) 16 = img_hdr_bytes \<lparr>ih_magic = img_slot_magic slot, ih_len = len, ih_crc = crc\<rparr> \<and>
       mem_read (nor f es) (slot_lo slot + 4096) (unat len) = ev_recv es \<and>
       (\<forall>i. i < slot_lo slot \<or> slot_hi slot \<le> i \<longrightarrow> nor f es i = f i)))"
proof -
  obtain s' where s': "nl_push demo_push 1 demo_idle = (Pushed, s')" using demo_pushed by blast
  show ?thesis by (rule exI [of _ s'], rule conjI, rule s', rule push_installs [OF s'])
qed

text \<open>
  When the board reboots: a push that succeeds arms a reboot for 30 seconds after its end, a
  connection that fails arms nothing by itself but postpones one that an earlier push has armed, and
  the listener reboots as soon as it looks at the clock at or after that time.
\<close>

lemma reboot_policy:
  assumes "nl_push e n s = (r, s1)" "\<not> ps_writer_lost s1" "nl_client e n s = (nx, s2)"
  shows "nx = Listen \<and> (ps_armed s2 \<longleftrightarrow> r = Pushed \<or> ps_armed s) \<and>
    (ps_armed s2 \<longrightarrow> ps_reboot_at s2 = pe_uptime e (ps_h s1) + 30000 \<and>
       (fst (nl_wait e s2) = Reboot \<longleftrightarrow> ps_reboot_at s2 \<le> pe_uptime e (ps_h s2))) \<and>
    (\<not> ps_armed s2 \<longrightarrow> nl_wait e s2 = (Listen, - 1, s2))"
proof -
  have armed: "ps_armed s1 \<longleftrightarrow> r = Pushed \<or> ps_armed s"
    using nl_push_trace [OF assms(1)] by (auto simp: push_trace_def)
  have "nx = Listen" "s2 = (if ps_armed s1 then arm_reboot e s1 else s1)"
    using assms by (auto simp: nl_client_def REBOOT_DELAY_S_def split: if_splits)
  then show ?thesis
    using armed by (auto simp: arm_reboot_def k_uptime_get_def nl_wait_def REBOOT_DELAY_S_def ps_log_def Let_def)
qed

end
