(* ===== verification/Mini_Rv32.thy ===== *)
theory Mini_Rv32
  imports Emu_Prelude "HOL-Library.Signed_Division"
begin

text \<open>
  The emulator of the first port (\<open>ra8d1-linux/rvlinux/src/mini-rv32ima.h\<close>): one call of
  \<open>MiniRV32IMAStep()\<close> advances the timer, takes the timer interrupt or executes up to \<open>count\<close>
  instructions of RV32IMA with Zicsr, and enters the trap handler. The header takes two pointers, the
  image and the state; \<open>rvlinux\<close> places the state inside the image, so both are views of one block
  of host memory here: the image starts at offset 0 and the state is at \<open>mc_core\<close>, wherever that
  is. A load or store outside the image and inside the MMIO window goes to the two hooks of the
  configuration. The hooks for other CSRs and the one after each instruction are empty, as they are
  in the only build of this repository.
\<close>

section \<open>State\<close>

datatype mini_field =
    M_regs nat
  | M_pc | M_mstatus | M_cyclel | M_cycleh
  | M_timerl | M_timerh | M_timermatchl | M_timermatchh
  | M_mscratch | M_mtvec | M_mie | M_mip
  | M_mepc | M_mtval | M_mcause | M_extraflags

text \<open>The place of a member in \<open>struct MiniRV32IMAState\<close>, in words.\<close>

fun field_idx :: "mini_field \<Rightarrow> nat" where
  "field_idx (M_regs i) = i"
| "field_idx M_pc = 32"
| "field_idx M_mstatus = 33"
| "field_idx M_cyclel = 34"
| "field_idx M_cycleh = 35"
| "field_idx M_timerl = 36"
| "field_idx M_timerh = 37"
| "field_idx M_timermatchl = 38"
| "field_idx M_timermatchh = 39"
| "field_idx M_mscratch = 40"
| "field_idx M_mtvec = 41"
| "field_idx M_mie = 42"
| "field_idx M_mip = 43"
| "field_idx M_mepc = 44"
| "field_idx M_mtval = 45"
| "field_idx M_mcause = 46"
| "field_idx M_extraflags = 47"

definition MINI_STATE_SIZE :: nat where "MINI_STATE_SIZE = 192"

text \<open>Host memory, and the state of the devices behind the hooks.\<close>

record 'e mini =
  mi_mem :: block
  mi_env :: 'e

record 'e mini_cfg =
  mc_ram :: u32
  mc_core :: nat
  mc_load :: "u32 \<Rightarrow> 'e mini \<Rightarrow> u32 \<times> 'e mini"
  mc_store :: "u32 \<Rightarrow> u32 \<Rightarrow> 'e mini \<Rightarrow> u32 \<times> 'e mini"

definition MINIRV32_RAM_IMAGE_OFFSET :: u32 where "MINIRV32_RAM_IMAGE_OFFSET = 0x80000000"

definition MINIRV32_MMIO_RANGE :: "u32 \<Rightarrow> bool" where
  "MINIRV32_MMIO_RANGE n \<longleftrightarrow> 0x10000000 \<le> n \<and> n < 0x12000000"

text \<open>\<open>MINIRV32_LOAD\<close> and \<open>MINIRV32_STORE\<close> of so many bytes, and the two macros for the state.\<close>

definition ld_img :: "nat \<Rightarrow> nat \<Rightarrow> 'e mini \<Rightarrow> u32" where
  "ld_img n ofs s = of_le (mem_read (mi_mem s) ofs n)"

definition st_img :: "nat \<Rightarrow> nat \<Rightarrow> u32 \<Rightarrow> 'e mini \<Rightarrow> 'e mini" where
  "st_img n ofs v s = s\<lparr>mi_mem := mem_write (mi_mem s) ofs (le_bytes n v)\<rparr>"

definition CSR :: "'e mini_cfg \<Rightarrow> mini_field \<Rightarrow> 'e mini \<Rightarrow> u32" where
  "CSR C f s = ld_img 4 (mc_core C + 4 * field_idx f) s"

definition SETCSR :: "'e mini_cfg \<Rightarrow> mini_field \<Rightarrow> u32 \<Rightarrow> 'e mini \<Rightarrow> 'e mini" where
  "SETCSR C f v s = st_img 4 (mc_core C + 4 * field_idx f) v s"

definition REG :: "'e mini_cfg \<Rightarrow> u32 \<Rightarrow> 'e mini \<Rightarrow> u32" where
  "REG C n s = CSR C (M_regs (unat (n AND 0x1f))) s"

section \<open>Timer\<close>

definition mini_due :: "'e mini_cfg \<Rightarrow> 'e mini \<Rightarrow> bool" where
  "mini_due C s \<longleftrightarrow>
     (CSR C M_timermatchh s < CSR C M_timerh s \<or>
      CSR C M_timerh s = CSR C M_timermatchh s \<and> CSR C M_timermatchl s < CSR C M_timerl s) \<and>
     (CSR C M_timermatchh s \<noteq> 0 \<or> CSR C M_timermatchl s \<noteq> 0)"

definition mini_timer :: "'e mini_cfg \<Rightarrow> u32 \<Rightarrow> 'e mini \<Rightarrow> 'e mini" where
  "mini_timer C elapsedUs s =
     (let new_timer = CSR C M_timerl s + elapsedUs;
          s1 = (if new_timer < CSR C M_timerl s then SETCSR C M_timerh (CSR C M_timerh s + 1) s else s);
          s2 = SETCSR C M_timerl new_timer s1
      in if mini_due C s2 then
           (let s3 = SETCSR C M_extraflags (CSR C M_extraflags s2 AND NOT 4) s2
            in SETCSR C M_mip (CSR C M_mip s3 OR 0x80) s3)
         else SETCSR C M_mip (CSR C M_mip s2 AND NOT 0x80) s2)"

section \<open>Immediates and arithmetic\<close>

definition mini_imm_j :: "u32 \<Rightarrow> u32" where
  "mini_imm_j ir =
     (let r = drop_bit 11 (ir AND 0x80000000) OR drop_bit 20 (ir AND 0x7fe00000) OR
              drop_bit 9 (ir AND 0x00100000) OR (ir AND 0x000ff000)
      in if r AND 0x00100000 \<noteq> 0 then r OR 0xffe00000 else r)"

definition mini_imm_i :: "u32 \<Rightarrow> u32" where
  "mini_imm_i ir = (let imm = drop_bit 20 ir in imm OR (if imm AND 0x800 \<noteq> 0 then 0xfffff000 else 0))"

definition mini_imm_b :: "u32 \<Rightarrow> u32" where
  "mini_imm_b ir =
     (let m = drop_bit 7 (ir AND 0xf00) OR drop_bit 20 (ir AND 0x7e000000) OR
              push_bit 4 (ir AND 0x80) OR push_bit 12 (drop_bit 31 ir)
      in if m AND 0x1000 \<noteq> 0 then m OR 0xffffe000 else m)"

definition mini_imm_s :: "u32 \<Rightarrow> u32" where
  "mini_imm_s ir =
     (let a = (drop_bit 7 ir AND 0x1f) OR drop_bit 20 (ir AND 0xfe000000)
      in if a AND 0x800 \<noteq> 0 then a OR 0xfffff000 else a)"

text \<open>The branch condition; \<open>None\<close> is the illegal instruction.\<close>

definition mini_branch :: "u32 \<Rightarrow> u32 \<Rightarrow> u32 \<Rightarrow> bool option" where
  "mini_branch f3 rs1 rs2 =
     (if f3 = 0 then Some (rs1 = rs2)
      else if f3 = 1 then Some (rs1 \<noteq> rs2)
      else if f3 = 4 then Some (rs1 <s rs2)
      else if f3 = 5 then Some (rs2 <=s rs1)
      else if f3 = 6 then Some (rs1 < rs2)
      else if f3 = 7 then Some (rs2 \<le> rs1)
      else None)"

definition mini_muldiv :: "u32 \<Rightarrow> u32 \<Rightarrow> u32 \<Rightarrow> u32" where
  "mini_muldiv f3 rs1 rs2 =
     (if f3 = 0 then rs1 * rs2
      else if f3 = 1 then ucast (signed_drop_bit 32 ((scast rs1 :: u64) * scast rs2))
      else if f3 = 2 then ucast (drop_bit 32 ((scast rs1 :: u64) * ucast rs2))
      else if f3 = 3 then ucast (drop_bit 32 ((ucast rs1 :: u64) * ucast rs2))
      else if f3 = 4 then
        (if rs2 = 0 then - 1
         else if rs1 = 0x80000000 \<and> rs2 = - 1 then rs1
         else word_of_int (sint rs1 sdiv sint rs2))
      else if f3 = 5 then (if rs2 = 0 then 0xffffffff else rs1 div rs2)
      else if f3 = 6 then
        (if rs2 = 0 then rs1
         else if rs1 = 0x80000000 \<and> rs2 = - 1 then 0
         else word_of_int (sint rs1 smod sint rs2))
      else (if rs2 = 0 then rs1 else rs1 mod rs2))"

definition mini_arith :: "u32 \<Rightarrow> bool \<Rightarrow> u32 \<Rightarrow> u32 \<Rightarrow> u32" where
  "mini_arith ir is_reg rs1 rs2 =
     (let f3 = drop_bit 12 ir AND 7; alt = ir AND 0x40000000 \<noteq> 0; n = unat (rs2 AND 0x1F)
      in if f3 = 0 then (if is_reg \<and> alt then rs1 - rs2 else rs1 + rs2)
         else if f3 = 1 then push_bit n rs1
         else if f3 = 2 then of_bool (rs1 <s rs2)
         else if f3 = 3 then of_bool (rs1 < rs2)
         else if f3 = 4 then rs1 XOR rs2
         else if f3 = 5 then (if alt then signed_drop_bit n rs1 else drop_bit n rs1)
         else if f3 = 6 then rs1 OR rs2
         else rs1 AND rs2)"

text \<open>Opcodes 0x13 and 0x33; the second operand is the register \<open>r2\<close> names or the immediate.\<close>

definition mini_op :: "u32 \<Rightarrow> u32 \<Rightarrow> (u32 \<Rightarrow> u32) \<Rightarrow> u32" where
  "mini_op ir rs1 reg =
     (let imm = mini_imm_i ir; is_reg = ir AND 0x20 \<noteq> 0; rs2 = (if is_reg then reg (imm AND 0x1f) else imm)
      in if is_reg \<and> ir AND 0x02000000 \<noteq> 0 then mini_muldiv (drop_bit 12 ir AND 7) rs1 rs2
         else mini_arith ir is_reg rs1 rs2)"

text \<open>What the AMO instructions store; \<open>None\<close> is an instruction that is not supported.\<close>

definition mini_amo_value :: "u32 \<Rightarrow> u32 \<Rightarrow> u32 \<Rightarrow> u32 option" where
  "mini_amo_value irmid rs2 rval =
     (if irmid = 1 then Some rs2
      else if irmid = 0 then Some (rs2 + rval)
      else if irmid = 4 then Some (rs2 XOR rval)
      else if irmid = 12 then Some (rs2 AND rval)
      else if irmid = 8 then Some (rs2 OR rval)
      else if irmid = 16 then Some (if rs2 <s rval then rs2 else rval)
      else if irmid = 20 then Some (if rval <s rs2 then rs2 else rval)
      else if irmid = 24 then Some (if rs2 < rval then rs2 else rval)
      else if irmid = 28 then Some (if rval < rs2 then rs2 else rval)
      else None)"

section \<open>Instructions\<close>

text \<open>
  What an instruction leaves in the locals of the loop: \<open>trap\<close> (cause plus one, 0 for none),
  \<open>rval\<close>, \<open>pc\<close> (4 less than the next one) and \<open>rdid\<close>; or the call returns from within.
\<close>

datatype 'e mini_insn =
    I_Next (it_trap: u32) (it_rval: u32) (it_pc: u32) (it_rd: u32) (it_s: "'e mini")
  | I_Ret u32 "'e mini"

definition mini_load :: "'e mini_cfg \<Rightarrow> u32 \<Rightarrow> u32 \<Rightarrow> u32 \<Rightarrow> 'e mini \<Rightarrow> 'e mini_insn" where
  "mini_load C ir pc rdid s =
     (let rsval = REG C (drop_bit 15 ir) s + mini_imm_i ir; ofs = rsval - MINIRV32_RAM_IMAGE_OFFSET;
          f3 = drop_bit 12 ir AND 7; o1 = unat ofs
      in if mc_ram C - 3 \<le> ofs then
           (if MINIRV32_MMIO_RANGE rsval then
              (case mc_load C rsval s of (v, s1) \<Rightarrow> I_Next 0 v pc rdid s1)
            else I_Next 6 rsval pc rdid s)
         else if f3 = 0 then I_Next 0 (scast (ucast (ld_img 1 o1 s) :: u8)) pc rdid s
         else if f3 = 1 then I_Next 0 (scast (ucast (ld_img 2 o1 s) :: u16)) pc rdid s
         else if f3 = 2 then I_Next 0 (ld_img 4 o1 s) pc rdid s
         else if f3 = 4 then I_Next 0 (ld_img 1 o1 s) pc rdid s
         else if f3 = 5 then I_Next 0 (ld_img 2 o1 s) pc rdid s
         else I_Next 3 0 pc rdid s)"

text \<open>A store hook that answers with a value other than 0 makes the call return the value stored.\<close>

definition mini_store :: "'e mini_cfg \<Rightarrow> u32 \<Rightarrow> u32 \<Rightarrow> 'e mini \<Rightarrow> 'e mini_insn" where
  "mini_store C ir pc s =
     (let rs2 = REG C (drop_bit 20 ir) s;
          ofs = mini_imm_s ir + (REG C (drop_bit 15 ir) s - MINIRV32_RAM_IMAGE_OFFSET);
          f3 = drop_bit 12 ir AND 7; o1 = unat ofs
      in if mc_ram C - 3 \<le> ofs then
           (let addy = ofs + MINIRV32_RAM_IMAGE_OFFSET
            in if MINIRV32_MMIO_RANGE addy then
                 (case mc_store C addy rs2 s of (r, s1) \<Rightarrow>
                    if r \<noteq> 0 then I_Ret rs2 s1 else I_Next 0 0 pc 0 s1)
               else I_Next 8 addy pc 0 s)
         else if f3 = 0 then I_Next 0 0 pc 0 (st_img 1 o1 rs2 s)
         else if f3 = 1 then I_Next 0 0 pc 0 (st_img 2 o1 rs2 s)
         else if f3 = 2 then I_Next 0 0 pc 0 (st_img 4 o1 rs2 s)
         else I_Next 3 0 pc 0 s)"

definition mini_csr_read :: "'e mini_cfg \<Rightarrow> u32 \<Rightarrow> u32 \<Rightarrow> 'e mini \<Rightarrow> u32" where
  "mini_csr_read C csrno cycle s =
     (if csrno = 0x340 then CSR C M_mscratch s
      else if csrno = 0x305 then CSR C M_mtvec s
      else if csrno = 0x304 then CSR C M_mie s
      else if csrno = 0xC00 then cycle
      else if csrno = 0x344 then CSR C M_mip s
      else if csrno = 0x341 then CSR C M_mepc s
      else if csrno = 0x300 then CSR C M_mstatus s
      else if csrno = 0x342 then CSR C M_mcause s
      else if csrno = 0x343 then CSR C M_mtval s
      else if csrno = 0xf11 then 0xff0ff0ff
      else if csrno = 0x301 then 0x40401101
      else 0)"

definition mini_csr_write :: "'e mini_cfg \<Rightarrow> u32 \<Rightarrow> u32 \<Rightarrow> 'e mini \<Rightarrow> 'e mini" where
  "mini_csr_write C csrno v s =
     (if csrno = 0x340 then SETCSR C M_mscratch v s
      else if csrno = 0x305 then SETCSR C M_mtvec v s
      else if csrno = 0x304 then SETCSR C M_mie v s
      else if csrno = 0x344 then SETCSR C M_mip v s
      else if csrno = 0x341 then SETCSR C M_mepc v s
      else if csrno = 0x300 then SETCSR C M_mstatus v s
      else if csrno = 0x342 then SETCSR C M_mcause v s
      else if csrno = 0x343 then SETCSR C M_mtval v s
      else s)"

definition mini_csr_value :: "u32 \<Rightarrow> u32 \<Rightarrow> u32 \<Rightarrow> u32 \<Rightarrow> u32" where
  "mini_csr_value microop rval rs1 rs1imm =
     (if microop = 1 then rs1
      else if microop = 2 then rval OR rs1
      else if microop = 3 then rval AND NOT rs1
      else if microop = 5 then rs1imm
      else if microop = 6 then rval OR rs1imm
      else if microop = 7 then rval AND NOT rs1imm
      else rs1)"

definition mini_mret :: "'e mini_cfg \<Rightarrow> 'e mini \<Rightarrow> 'e mini" where
  "mini_mret C s =
     (let startmstatus = CSR C M_mstatus s; startextraflags = CSR C M_extraflags s;
          s1 = SETCSR C M_mstatus (drop_bit 4 (startmstatus AND 0x80) OR push_bit 11 (startextraflags AND 3) OR 0x80) s
      in SETCSR C M_extraflags ((startextraflags AND NOT 3) OR (drop_bit 11 startmstatus AND 3)) s1)"

text \<open>The cycle counter of the call is written back with its carry.\<close>

definition mini_set_cycle :: "'e mini_cfg \<Rightarrow> u32 \<Rightarrow> 'e mini \<Rightarrow> 'e mini" where
  "mini_set_cycle C cycle s =
     SETCSR C M_cyclel cycle
       (if cycle < CSR C M_cyclel s then SETCSR C M_cycleh (CSR C M_cycleh s + 1) s else s)"

definition mini_wfi :: "'e mini_cfg \<Rightarrow> u32 \<Rightarrow> u32 \<Rightarrow> 'e mini \<Rightarrow> 'e mini" where
  "mini_wfi C pc cycle s =
     (let s1 = SETCSR C M_mstatus (CSR C M_mstatus s OR 8) s;
          s2 = SETCSR C M_extraflags (CSR C M_extraflags s1 OR 4) s1
      in SETCSR C M_pc (pc + 4) (mini_set_cycle C cycle s2))"

definition mini_system :: "'e mini_cfg \<Rightarrow> u32 \<Rightarrow> u32 \<Rightarrow> u32 \<Rightarrow> u32 \<Rightarrow> 'e mini \<Rightarrow> 'e mini_insn" where
  "mini_system C ir pc cycle rdid s =
     (let csrno = drop_bit 20 ir; microop = drop_bit 12 ir AND 7
      in if microop AND 3 \<noteq> 0 then
           (let rs1imm = drop_bit 15 ir AND 0x1f; rs1 = REG C rs1imm s; rval = mini_csr_read C csrno cycle s
            in I_Next 0 rval pc rdid (mini_csr_write C csrno (mini_csr_value microop rval rs1 rs1imm) s))
         else if microop = 0 then
           (if csrno AND 0xff = 0x02 then
              (let s1 = mini_mret C s in I_Next 0 0 (CSR C M_mepc s1 - 4) 0 s1)
            else if csrno = 0 then I_Next (if CSR C M_extraflags s AND 3 \<noteq> 0 then 12 else 9) 0 pc 0 s
            else if csrno = 1 then I_Next 4 0 pc 0 s
            else if csrno = 0x105 then I_Ret 1 (mini_wfi C pc cycle s)
            else I_Next 3 0 pc 0 s)
         else I_Next 3 0 pc rdid s)"

definition mini_amo :: "'e mini_cfg \<Rightarrow> u32 \<Rightarrow> u32 \<Rightarrow> u32 \<Rightarrow> 'e mini \<Rightarrow> 'e mini_insn" where
  "mini_amo C ir pc rdid s =
     (let ofs = REG C (drop_bit 15 ir) s - MINIRV32_RAM_IMAGE_OFFSET; rs2 = REG C (drop_bit 20 ir) s;
          irmid = drop_bit 27 ir AND 0x1f; o1 = unat ofs
      in if mc_ram C - 3 \<le> ofs then I_Next 8 (ofs + MINIRV32_RAM_IMAGE_OFFSET) pc rdid s
         else
           (let rval = ld_img 4 o1 s
            in if irmid = 2 then
                 I_Next 0 rval pc rdid (SETCSR C M_extraflags ((CSR C M_extraflags s AND 0x07) OR push_bit 3 ofs) s)
               else if irmid = 3 then
                 (let fails = drop_bit 3 (CSR C M_extraflags s) \<noteq> ofs AND 0x1fffffff
                  in I_Next 0 (of_bool fails) pc rdid (if fails then s else st_img 4 o1 rs2 s))
               else case mini_amo_value irmid rs2 rval of
                      Some v \<Rightarrow> I_Next 0 rval pc rdid (st_img 4 o1 v s)
                    | None \<Rightarrow> I_Next 3 rval pc rdid s))"

definition mini_exec :: "'e mini_cfg \<Rightarrow> u32 \<Rightarrow> u32 \<Rightarrow> u32 \<Rightarrow> 'e mini \<Rightarrow> 'e mini_insn" where
  "mini_exec C ir pc cycle s =
     (let rdid = drop_bit 7 ir AND 0x1f; op = ir AND 0x7f; rs1 = REG C (drop_bit 15 ir) s
      in if op = 0x37 then I_Next 0 (ir AND 0xfffff000) pc rdid s
         else if op = 0x17 then I_Next 0 (pc + (ir AND 0xfffff000)) pc rdid s
         else if op = 0x6F then I_Next 0 (pc + 4) (pc + mini_imm_j ir - 4) rdid s
         else if op = 0x67 then I_Next 0 (pc + 4) (((rs1 + mini_imm_i ir) AND NOT 1) - 4) rdid s
         else if op = 0x63 then
           (case mini_branch (drop_bit 12 ir AND 7) rs1 (REG C (drop_bit 20 ir) s) of
              Some b \<Rightarrow> I_Next 0 0 (if b then pc + mini_imm_b ir - 4 else pc) 0 s
            | None \<Rightarrow> I_Next 3 0 pc 0 s)
         else if op = 0x03 then mini_load C ir pc rdid s
         else if op = 0x23 then mini_store C ir pc s
         else if op = 0x13 \<or> op = 0x33 then I_Next 0 (mini_op ir rs1 (\<lambda>r. REG C r s)) pc rdid s
         else if op = 0x0f then I_Next 0 0 pc 0 s
         else if op = 0x73 then mini_system C ir pc cycle rdid s
         else if op = 0x2f then mini_amo C ir pc rdid s
         else I_Next 3 0 pc rdid s)"

section \<open>The step\<close>

datatype 'e mini_end =
    L_Ret u32 "'e mini"
  | L_End u32 u32 u32 u32 "'e mini"

text \<open>The loop; it ends with \<open>trap\<close>, \<open>rval\<close>, \<open>pc\<close> and \<open>cycle\<close>.\<close>

fun mini_loop :: "'e mini_cfg \<Rightarrow> nat \<Rightarrow> u32 \<Rightarrow> u32 \<Rightarrow> 'e mini \<Rightarrow> 'e mini_end" where
  "mini_loop C 0 pc cycle s = L_End 0 0 pc cycle s"
| "mini_loop C (Suc n) pc cycle s =
     (let cy = cycle + 1; ofs_pc = pc - MINIRV32_RAM_IMAGE_OFFSET
      in if mc_ram C \<le> ofs_pc then L_End 2 0 pc cy s
         else if ofs_pc AND 3 \<noteq> 0 then L_End 1 0 pc cy s
         else case mini_exec C (ld_img 4 (unat ofs_pc) s) pc cy s of
                I_Ret r s1 \<Rightarrow> L_Ret r s1
              | I_Next trap rval pc1 rd s1 \<Rightarrow>
                  if trap \<noteq> 0 then L_End trap rval pc1 cy (SETCSR C M_pc pc1 s1)
                  else mini_loop C n (pc1 + 4) cy (if rd \<noteq> 0 then SETCSR C (M_regs (unat rd)) rval s1 else s1))"

definition mini_trap :: "'e mini_cfg \<Rightarrow> u32 \<Rightarrow> u32 \<Rightarrow> u32 \<Rightarrow> 'e mini \<Rightarrow> u32 \<times> 'e mini" where
  "mini_trap C trap rval pc s =
     (let (pc1, s1) =
            (if trap AND 0x80000000 \<noteq> 0 then (pc + 4, SETCSR C M_mtval 0 (SETCSR C M_mcause trap s))
             else (pc, SETCSR C M_mtval (if 5 < trap \<and> trap \<le> 8 then rval else pc) (SETCSR C M_mcause (trap - 1) s)));
          s2 = SETCSR C M_mepc pc1 s1;
          s3 = SETCSR C M_mstatus (push_bit 4 (CSR C M_mstatus s2 AND 0x08) OR push_bit 11 (CSR C M_extraflags s2 AND 3)) s2;
          pc2 = CSR C M_mtvec s3 - 4
      in (pc2 + 4, SETCSR C M_extraflags (CSR C M_extraflags s3 OR 3) s3))"

definition mini_finish :: "'e mini_cfg \<Rightarrow> u32 \<Rightarrow> u32 \<Rightarrow> 'e mini \<Rightarrow> 'e mini" where
  "mini_finish C pc cycle s = SETCSR C M_pc pc (mini_set_cycle C cycle s)"

definition mini_irq :: "'e mini_cfg \<Rightarrow> 'e mini \<Rightarrow> bool" where
  "mini_irq C s \<longleftrightarrow> CSR C M_mip s AND 0x80 \<noteq> 0 \<and> CSR C M_mie s AND 0x80 \<noteq> 0 \<and> CSR C M_mstatus s AND 8 \<noteq> 0"

definition MiniRV32IMAStep :: "'e mini_cfg \<Rightarrow> u32 \<Rightarrow> nat \<Rightarrow> 'e mini \<Rightarrow> u32 \<times> 'e mini" where
  "MiniRV32IMAStep C elapsedUs count s0 =
     (let s = mini_timer C elapsedUs s0
      in if CSR C M_extraflags s AND 4 \<noteq> 0 then (1, s)
         else
           (let pc = CSR C M_pc s; cycle = CSR C M_cyclel s
            in case (if mini_irq C s then L_End 0x80000007 0 (pc - 4) cycle s else mini_loop C count pc cycle s) of
                 L_Ret r s1 \<Rightarrow> (r, s1)
               | L_End trap rval pc1 cy s1 \<Rightarrow>
                   (let (pc2, s2) = (if trap \<noteq> 0 then mini_trap C trap rval pc1 s1 else (pc1, s1))
                    in (0, mini_finish C pc2 cy s2))))"

section \<open>Confinement\<close>

text \<open>
  The bytes an emulator owns: the image and its state. \<open>overlay R h s\<close> is the same host with other
  contents outside \<open>R\<close>; an operation that commutes with it neither reads nor writes there.
\<close>

definition overlay :: "nat set \<Rightarrow> block \<Rightarrow> 'e mini \<Rightarrow> 'e mini" where
  "overlay R h s = s\<lparr>mi_mem := (\<lambda>a. if a \<in> R then mi_mem s a else h a)\<rparr>"

named_theorems confined

lemma ld_img_overlay:
  "{ofs..<ofs + n} \<subseteq> R \<Longrightarrow> ld_img n ofs (overlay R h s) = ld_img n ofs s"
  by (simp add: ld_img_def overlay_def, subst mem_read_cong [of _ _ _ "mi_mem s"]) auto

lemma st_img_overlay:
  "{ofs..<ofs + n} \<subseteq> R \<Longrightarrow> st_img n ofs v (overlay R h s) = overlay R h (st_img n ofs v s)"
proof -
  assume sub: "{ofs..<ofs + n} \<subseteq> R"
  have "mem_write (\<lambda>a. if a \<in> R then mi_mem s a else h a) ofs (le_bytes n v) =
      (\<lambda>a. if a \<in> R then mem_write (mi_mem s) ofs (le_bytes n v) a else h a)"
    using sub by (auto simp: mem_write_def fun_eq_iff)
  then show ?thesis by (simp add: st_img_def overlay_def cong: if_cong)
qed

definition mini_dom :: "'e mini_cfg \<Rightarrow> nat set" where
  "mini_dom C = {0..<unat (mc_ram C)} \<union> {mc_core C..<mc_core C + MINI_STATE_SIZE}"

definition mini_cfg_ok :: "'e mini_cfg \<Rightarrow> nat set \<Rightarrow> bool" where
  "mini_cfg_ok C R \<longleftrightarrow> 4 \<le> unat (mc_ram C) \<and> unat (mc_ram C) mod 4 = 0 \<and> mini_dom C \<subseteq> R \<and>
     (\<forall>a h s. mc_load C a (overlay R h s) = apsnd (overlay R h) (mc_load C a s)) \<and>
     (\<forall>a v h s. mc_store C a v (overlay R h s) = apsnd (overlay R h) (mc_store C a v s))"

fun field_ok :: "mini_field \<Rightarrow> bool" where
  "field_ok (M_regs i) = (i < 32)"
| "field_ok _ = True"

lemma field_idx_lt: "field_ok f \<Longrightarrow> field_idx f < 48"
  by (cases f) simp_all

lemma field_sub:
  assumes "mini_cfg_ok C R" "field_ok f"
  shows "{mc_core C + 4 * field_idx f..<mc_core C + 4 * field_idx f + 4} \<subseteq> R"
proof -
  have "field_idx f < 48" using assms(2) by (rule field_idx_lt)
  then have "{mc_core C + 4 * field_idx f..<mc_core C + 4 * field_idx f + 4} \<subseteq> mini_dom C"
    by (auto simp: mini_dom_def MINI_STATE_SIZE_def)
  with assms(1) show ?thesis by (auto simp: mini_cfg_ok_def)
qed

lemma CSR_overlay [confined]:
  "mini_cfg_ok C R \<Longrightarrow> field_ok f \<Longrightarrow> CSR C f (overlay R h s) = CSR C f s"
  by (simp add: CSR_def ld_img_overlay field_sub)

lemma SETCSR_overlay [confined]:
  "mini_cfg_ok C R \<Longrightarrow> field_ok f \<Longrightarrow> SETCSR C f v (overlay R h s) = overlay R h (SETCSR C f v s)"
  by (simp add: SETCSR_def st_img_overlay field_sub)

lemma reg_lt: "unat (n AND 0x1f :: u32) < 32"
proof -
  have "n AND 0x1f \<le> 0x1f" by (rule word_and_le1)
  then have "unat (n AND 0x1f) \<le> unat (0x1f :: u32)" by (simp only: word_le_nat_alt)
  then show ?thesis by simp
qed

lemma REG_overlay [confined]: "mini_cfg_ok C R \<Longrightarrow> REG C n (overlay R h s) = REG C n s"
  by (simp add: REG_def CSR_overlay reg_lt)

lemma img_sub:
  assumes "mini_cfg_ok C R" "\<not> mc_ram C - 3 \<le> ofs" "n \<le> 4"
  shows "{unat ofs..<unat ofs + n} \<subseteq> R"
proof -
  have r: "4 \<le> unat (mc_ram C)" "mini_dom C \<subseteq> R" using assms(1) by (simp_all add: mini_cfg_ok_def)
  then have "unat (mc_ram C - 3) = unat (mc_ram C) - 3" by (subst unat_sub) (simp_all add: word_le_nat_alt)
  with assms(2) have "unat ofs + 3 < unat (mc_ram C)" using r(1) by (simp add: word_le_nat_alt)
  then have "{unat ofs..<unat ofs + n} \<subseteq> mini_dom C" using assms(3) by (auto simp: mini_dom_def)
  with r(2) show ?thesis by blast
qed

lemma img_overlay:
  assumes "mini_cfg_ok C R" "\<not> mc_ram C - 3 \<le> ofs" "n \<le> 4"
  shows "ld_img n (unat ofs) (overlay R h s) = ld_img n (unat ofs) s"
    "st_img n (unat ofs) v (overlay R h s) = overlay R h (st_img n (unat ofs) v s)"
  by (rule ld_img_overlay st_img_overlay, rule img_sub [OF assms])+

lemma fetch_sub:
  assumes "mini_cfg_ok C R" "\<not> mc_ram C \<le> ofs" "ofs AND 3 = 0"
  shows "{unat ofs..<unat ofs + 4} \<subseteq> R"
proof -
  have r: "unat (mc_ram C) mod 4 = 0" "mini_dom C \<subseteq> R" using assms(1) by (simp_all add: mini_cfg_ok_def)
  have "unat ofs < unat (mc_ram C)" using assms(2) by (simp add: word_le_nat_alt)
  moreover have "unat ofs mod 4 = 0" using assms(3) by (simp add: and3_unat)
  ultimately have "unat ofs + 4 \<le> unat (mc_ram C)" using r(1) by presburger
  then have "{unat ofs..<unat ofs + 4} \<subseteq> mini_dom C" by (auto simp: mini_dom_def)
  with r(2) show ?thesis by blast
qed

definition map_insn :: "('e mini \<Rightarrow> 'e mini) \<Rightarrow> 'e mini_insn \<Rightarrow> 'e mini_insn" where
  "map_insn f r = (case r of I_Next t v p d s \<Rightarrow> I_Next t v p d (f s) | I_Ret v s \<Rightarrow> I_Ret v (f s))"

lemma map_insn_simps [simp]:
  "map_insn f (I_Next t v p d s) = I_Next t v p d (f s)" "map_insn f (I_Ret v s) = I_Ret v (f s)"
  by (simp_all add: map_insn_def)

lemma mini_load_overlay [confined]:
  assumes "mini_cfg_ok C R"
  shows "mini_load C ir pc rd (overlay R h s) = map_insn (overlay R h) (mini_load C ir pc rd s)"
proof -
  have hk: "mc_load C a (overlay R h s) = apsnd (overlay R h) (mc_load C a s)" for a
    using assms by (simp add: mini_cfg_ok_def)
  show ?thesis
    by (simp add: mini_load_def Let_def REG_overlay [OF assms] hk img_overlay [OF assms] split: prod.split)
qed

lemma mini_store_overlay [confined]:
  assumes "mini_cfg_ok C R"
  shows "mini_store C ir pc (overlay R h s) = map_insn (overlay R h) (mini_store C ir pc s)"
proof -
  have hk: "mc_store C a v (overlay R h s) = apsnd (overlay R h) (mc_store C a v s)" for a v
    using assms by (simp add: mini_cfg_ok_def)
  show ?thesis
    by (simp add: mini_store_def Let_def REG_overlay [OF assms] hk img_overlay [OF assms] split: prod.split)
qed

lemma mini_amo_overlay [confined]:
  assumes "mini_cfg_ok C R"
  shows "mini_amo C ir pc rd (overlay R h s) = map_insn (overlay R h) (mini_amo C ir pc rd s)"
  by (simp add: mini_amo_def Let_def REG_overlay [OF assms] CSR_overlay [OF assms] SETCSR_overlay [OF assms]
      img_overlay [OF assms] split: option.split)

lemma mini_set_cycle_overlay [confined]:
  "mini_cfg_ok C R \<Longrightarrow> mini_set_cycle C cy (overlay R h s) = overlay R h (mini_set_cycle C cy s)"
  by (simp add: mini_set_cycle_def CSR_overlay SETCSR_overlay)

lemma mini_csr_overlay [confined]:
  assumes "mini_cfg_ok C R"
  shows "mini_csr_read C n cy (overlay R h s) = mini_csr_read C n cy s"
    "mini_csr_write C n v (overlay R h s) = overlay R h (mini_csr_write C n v s)"
  by (simp_all add: mini_csr_read_def mini_csr_write_def CSR_overlay [OF assms] SETCSR_overlay [OF assms])

lemma mini_system_overlay [confined]:
  assumes "mini_cfg_ok C R"
  shows "mini_system C ir pc cy rd (overlay R h s) = map_insn (overlay R h) (mini_system C ir pc cy rd s)"
  by (simp add: mini_system_def mini_mret_def mini_wfi_def Let_def CSR_overlay [OF assms] SETCSR_overlay [OF assms]
      REG_overlay [OF assms] mini_csr_overlay [OF assms] mini_set_cycle_overlay [OF assms])

lemma mini_exec_overlay [confined]:
  assumes "mini_cfg_ok C R"
  shows "mini_exec C ir pc cy (overlay R h s) = map_insn (overlay R h) (mini_exec C ir pc cy s)"
  by (simp add: mini_exec_def Let_def REG_overlay [OF assms] mini_load_overlay [OF assms] mini_store_overlay [OF assms]
      mini_amo_overlay [OF assms] mini_system_overlay [OF assms] split: option.split)

definition map_end :: "('e mini \<Rightarrow> 'e mini) \<Rightarrow> 'e mini_end \<Rightarrow> 'e mini_end" where
  "map_end f r = (case r of L_Ret v s \<Rightarrow> L_Ret v (f s) | L_End t v p c s \<Rightarrow> L_End t v p c (f s))"

lemma map_end_simps [simp]:
  "map_end f (L_Ret v s) = L_Ret v (f s)" "map_end f (L_End t v p c s) = L_End t v p c (f s)"
  by (simp_all add: map_end_def)

text \<open>The register an instruction names is one of the 32.\<close>

lemma mini_exec_rd: "mini_exec C ir pc cy s = I_Next t v p rd s' \<Longrightarrow> unat rd < 32"
  by (auto simp: mini_exec_def mini_load_def mini_store_def mini_system_def mini_amo_def Let_def reg_lt
      split: if_splits option.splits prod.splits)

lemma mini_loop_overlay [confined]:
  assumes "mini_cfg_ok C R"
  shows "mini_loop C n pc cy (overlay R h s) = map_end (overlay R h) (mini_loop C n pc cy s)"
proof (induction n arbitrary: pc cy s)
  case (Suc n)
  let ?o = "pc - MINIRV32_RAM_IMAGE_OFFSET"
  show ?case
  proof (cases "mc_ram C \<le> ?o \<or> ?o AND 3 \<noteq> 0")
    case False
    then have f: "ld_img 4 (unat ?o) (overlay R h s) = ld_img 4 (unat ?o) s"
      by (intro ld_img_overlay fetch_sub [OF assms]) simp_all
    show ?thesis
    proof (cases "mini_exec C (ld_img 4 (unat ?o) s) pc (cy + 1) s")
      case (I_Next t v p rd s1)
      then have "field_ok (M_regs (unat rd))" using mini_exec_rd by fastforce
      with False f I_Next show ?thesis
        by (simp add: Let_def mini_exec_overlay [OF assms] SETCSR_overlay [OF assms] Suc.IH)
    next
      case (I_Ret r s1)
      with False f show ?thesis by (simp add: Let_def mini_exec_overlay [OF assms])
    qed
  qed (auto simp: Let_def)
qed simp

lemma mini_due_overlay [confined]: "mini_cfg_ok C R \<Longrightarrow> mini_due C (overlay R h s) = mini_due C s"
  by (simp add: mini_due_def CSR_overlay)

lemma mini_timer_overlay [confined]:
  assumes "mini_cfg_ok C R"
  shows "mini_timer C el (overlay R h s) = overlay R h (mini_timer C el s)"
  by (simp add: mini_timer_def Let_def mini_due_overlay [OF assms] CSR_overlay [OF assms] SETCSR_overlay [OF assms])

lemma mini_trap_overlay [confined]:
  assumes "mini_cfg_ok C R"
  shows "mini_trap C t v pc (overlay R h s) = apsnd (overlay R h) (mini_trap C t v pc s)"
  by (simp add: mini_trap_def Let_def CSR_overlay [OF assms] SETCSR_overlay [OF assms])

lemma mini_step_overlay:
  assumes "mini_cfg_ok C R"
  shows "MiniRV32IMAStep C el n (overlay R h s) = apsnd (overlay R h) (MiniRV32IMAStep C el n s)"
proof -
  note c = CSR_overlay [OF assms] SETCSR_overlay [OF assms]
  let ?s = "mini_timer C el s"
  have i: "mini_irq C (overlay R h ?s) = mini_irq C ?s" by (simp add: mini_irq_def c)
  show ?thesis
  proof (cases "mini_loop C n (CSR C M_pc ?s) (CSR C M_cyclel ?s) ?s")
    case (L_Ret r s1)
    then show ?thesis
      by (simp add: MiniRV32IMAStep_def mini_timer_overlay [OF assms] Let_def c i mini_loop_overlay [OF assms]
          mini_trap_overlay [OF assms] mini_finish_def mini_set_cycle_overlay [OF assms] split: prod.split)
  next
    case (L_End t v p cy s1)
    then show ?thesis
      by (simp add: MiniRV32IMAStep_def mini_timer_overlay [OF assms] Let_def c i mini_loop_overlay [OF assms]
          mini_trap_overlay [OF assms] mini_finish_def mini_set_cycle_overlay [OF assms] split: prod.split)
  qed
qed

end
