(* ===== verification/Mini_Laws.thy ===== *)
theory Mini_Laws
  imports Mini_Rv32 Rv_Alu
begin

text \<open>
  Laws of the emulator of \<open>Mini_Rv32\<close>: the members of its state are independent words; its arithmetic,
  branches and AMOs are those of the interpreter that replaced it (\<open>Rv_Alu\<close>), although the two
  decode differently; traps and \<open>mret\<close>; the 64-bit timer and cycle counter; register 0.
\<close>

section \<open>The members of the state\<close>

lemma ld_st_img:
  "n \<le> 4 \<Longrightarrow> ld_img n a (st_img n a v s) = take_bit (8 * n) v"
  by (simp add: ld_img_def st_img_def mem_simps of_le_le_bytes)

lemma ld_st_img_other:
  "a + n \<le> b \<or> b + m \<le> a \<Longrightarrow> ld_img n a (st_img m b v s) = ld_img n a s"
  by (simp add: ld_img_def st_img_def mem_read_write_disjoint)

lemma field_idx_eq: "field_ok f \<Longrightarrow> field_ok g \<Longrightarrow> field_idx f = field_idx g \<longleftrightarrow> f = g"
  by (cases f; cases g) auto

lemma CSR_SETCSR_same: "CSR C f (SETCSR C f v s) = v"
  by (simp add: CSR_def SETCSR_def ld_st_img take_bit_word_eq_self)

lemma CSR_SETCSR:
  assumes "field_ok f" "field_ok g"
  shows "CSR C f (SETCSR C g v s) = (if f = g then v else CSR C f s)"
proof (cases "f = g")
  case False
  then have "field_idx f \<noteq> field_idx g" using assms by (simp add: field_idx_eq)
  then have "field_idx f + 1 \<le> field_idx g \<or> field_idx g + 1 \<le> field_idx f" by linarith
  then have "mc_core C + 4 * field_idx f + 4 \<le> mc_core C + 4 * field_idx g \<or>
      mc_core C + 4 * field_idx g + 4 \<le> mc_core C + 4 * field_idx f" by linarith
  with False show ?thesis by (simp add: CSR_def SETCSR_def ld_st_img_other)
qed (simp add: CSR_SETCSR_same)

section \<open>The two interpreters agree\<close>

lemma and_bit:
  "(w :: u32) AND 0x800 = 0 \<longleftrightarrow> \<not> bit w 11" "w AND 0x1000 = 0 \<longleftrightarrow> \<not> bit w 12"
  "w AND 0x00100000 = 0 \<longleftrightarrow> \<not> bit w 20" "w AND 0x20 = 0 \<longleftrightarrow> \<not> bit w 5"
  "w AND 0x40000000 = 0 \<longleftrightarrow> \<not> bit w 30" "w AND 0x02000000 = 0 \<longleftrightarrow> \<not> bit w 25"
  "w AND 0x400 = 0 \<longleftrightarrow> \<not> bit w 10" "w AND 8 = 0 \<longleftrightarrow> \<not> bit w 3" "w AND 0x80 = 0 \<longleftrightarrow> \<not> bit w 7" "w AND 4 = 0 \<longleftrightarrow> \<not> bit w 2"
  using and_exp_eq_0_iff_not_bit [of w 11] and_exp_eq_0_iff_not_bit [of w 12] and_exp_eq_0_iff_not_bit [of w 20]
    and_exp_eq_0_iff_not_bit [of w 5] and_exp_eq_0_iff_not_bit [of w 30] and_exp_eq_0_iff_not_bit [of w 25]
    and_exp_eq_0_iff_not_bit [of w 10] and_exp_eq_0_iff_not_bit [of w 3] and_exp_eq_0_iff_not_bit [of w 7]
    and_exp_eq_0_iff_not_bit [of w 2]
  by simp_all

lemma bit_u32_high [simp]: "32 \<le> n \<Longrightarrow> \<not> bit (w :: u32) n"
  by (auto dest: bit_imp_le_length)

lemma mini_imms:
  "mini_imm_i ir = imm_i ir" "mini_imm_s ir = imm_s ir" "mini_imm_b ir = imm_b ir" "mini_imm_j ir = imm_j ir"
  by (cases "bit ir 31"; rule u32_bitsI;
      simp add: mini_imm_i_def imm_i_def mini_imm_s_def imm_s_def mini_imm_b_def imm_b_def
        mini_imm_j_def imm_j_def Let_def and_bit upt_32 bit_simps)+

lemma mini_muldiv_eq: "mini_muldiv f3 a b = alu_muldiv f3 a b"
proof -
  have "ucast (drop_bit 32 (x :: u64)) = (ucast (signed_drop_bit 32 x) :: u32)" for x
    by (rule bit_word_eqI) (auto simp: bit_simps)
  then show ?thesis
    by (simp add: mini_muldiv_def alu_muldiv_def mulh32_def mulhsu32_def mulhu32_def div32_def divu32_def
        rem32_def remu32_def)
qed

lemma opcode_bit5: "(ir :: u32) AND 0x7f = 0x13 \<Longrightarrow> \<not> bit ir 5" "ir AND 0x7f = 0x33 \<Longrightarrow> bit ir 5"
  using bit_and_iff [of ir "0x7f" 5] by simp_all

lemma mini_op_imm_agrees:
  assumes "ir AND 0x7f = 0x13" "alu_op_imm (insn_funct3 ir) a (imm_i ir) = Some v"
  shows "mini_op ir a r = v"
proof -
  have b: "bit (imm_i ir) 10 = bit ir 30" by (simp add: imm_i_def bit_simps)
  show ?thesis
    using assms(2) opcode_bit5(1) [OF assms(1)]
    by (simp add: mini_op_def mini_arith_def alu_op_imm_def insn_funct3_def [symmetric] mini_imms and_bit b sh_def Let_def
        split: if_splits; auto)
qed

lemma funct3_cases:
  obtains "insn_funct3 ir = 0" | "insn_funct3 ir = 1" | "insn_funct3 ir = 2" | "insn_funct3 ir = 3"
    | "insn_funct3 ir = 4" | "insn_funct3 ir = 5" | "insn_funct3 ir = 6" | "insn_funct3 ir = 7"
proof -
  have "insn_funct3 ir \<le> 7" unfolding insn_funct3_def by (rule word_and_le1)
  then have "unat (insn_funct3 ir) \<le> 7" by (simp add: word_le_nat_alt)
  then have "unat (insn_funct3 ir) \<in> {0, 1, 2, 3, 4, 5, 6, 7}" by auto
  moreover have "insn_funct3 ir = of_nat (unat (insn_funct3 ir))" by simp
  ultimately show ?thesis by (elim insertE emptyE; simp add: that)
qed

lemma mini_op_agrees:
  assumes "ir AND 0x7f = 0x33" "alu_op ir a (r (drop_bit 20 ir AND 0x1f)) = Some v"
  shows "mini_op ir a r = v"
proof -
  have rs2: "imm_i ir AND 0x1f = drop_bit 20 ir AND 0x1f"
    by (rule u32_bitsI) (simp add: imm_i_def upt_32 bit_simps)
  let ?b = "r (drop_bit 20 ir AND 0x1f)"
  show ?thesis
  proof (cases "drop_bit 25 ir = 1")
    case True
    then have "bit ir 25" using bit_drop_bit_eq [of 25 ir] by (metis add.right_neutral bit_1_0 comp_apply)
    with True assms(2) show ?thesis
      using opcode_bit5(2) [OF assms(1)]
      by (simp add: mini_op_def alu_op_def insn_funct3_def mini_imms and_bit rs2 mini_muldiv_eq Let_def)
  next
    case False
    then have "drop_bit 25 ir AND NOT 0x20 = 0" using assms(2) by (auto simp: alu_op_def Let_def split: if_splits)
    then have "\<not> bit (drop_bit 25 ir AND NOT 0x20) 0" by simp
    then have b25: "\<not> bit ir 25" by (simp add: bit_simps)
    have f: "drop_bit 27 ir AND 8 = (if bit ir 30 then 8 else 0)"
      by (cases "bit ir 30"; rule u32_bitsI; simp add: upt_32 bit_simps)
    show ?thesis
      using assms(2) False opcode_bit5(2) [OF assms(1)] b25
      by (cases rule: funct3_cases [of ir]; cases "bit ir 30";
          simp add: mini_op_def mini_arith_def alu_op_def insn_funct3_def [symmetric] mini_imms and_bit rs2 sh_def f
            Let_def split: if_splits; auto)
  qed
qed

lemma mini_branch_eq: "mini_branch (insn_funct3 ir) a b = branch_cond (insn_funct3 ir) a b"
  by (cases rule: funct3_cases [of ir]; simp add: mini_branch_def branch_cond_def Let_def bit_simps; auto)

lemma mini_amo_eq: "mini_amo_value k b v = amo_op k v b"
  by (simp add: mini_amo_value_def amo_op_def add.commute and.commute or.commute xor.commute; auto)

lemma REG_masked: "REG C (n AND 0x1f) s = REG C n s"
  by (simp add: REG_def and.assoc)


section \<open>Traps\<close>

lemmas csr_simps = CSR_SETCSR_same CSR_SETCSR

lemma mini_trap_fields:
  assumes "mini_trap C t v pc s = (h, s1)" "field_ok f"
  shows "h = CSR C M_mtvec s"
    "CSR C f s1 =
       (if f = M_mcause then (if bit t 31 then t else t - 1)
        else if f = M_mtval then (if bit t 31 then 0 else if 5 < t \<and> t \<le> 8 then v else pc)
        else if f = M_mepc then (if bit t 31 then pc + 4 else pc)
        else if f = M_mstatus then push_bit 4 (CSR C M_mstatus s AND 0x08) OR push_bit 11 (CSR C M_extraflags s AND 3)
        else if f = M_extraflags then CSR C M_extraflags s OR 3
        else CSR C f s)"
proof -
  have b: "t AND 0x80000000 = 0 \<longleftrightarrow> \<not> bit t 31" using and_exp_eq_0_iff_not_bit [of t 31] by simp
  show "h = CSR C M_mtvec s" using assms(1) by (auto simp: mini_trap_def Let_def b csr_simps split: if_splits)
  show "CSR C f s1 =
       (if f = M_mcause then (if bit t 31 then t else t - 1)
        else if f = M_mtval then (if bit t 31 then 0 else if 5 < t \<and> t \<le> 8 then v else pc)
        else if f = M_mepc then (if bit t 31 then pc + 4 else pc)
        else if f = M_mstatus then push_bit 4 (CSR C M_mstatus s AND 0x08) OR push_bit 11 (CSR C M_extraflags s AND 3)
        else if f = M_extraflags then CSR C M_extraflags s OR 3
        else CSR C f s)"
    using assms by (cases f) (auto simp: mini_trap_def Let_def b csr_simps split: if_splits)
qed

lemma mini_mret_fields:
  assumes "field_ok f"
  shows "CSR C f (mini_mret C s) =
       (if f = M_mstatus then drop_bit 4 (CSR C M_mstatus s AND 0x80) OR push_bit 11 (CSR C M_extraflags s AND 3) OR 0x80
        else if f = M_extraflags then (CSR C M_extraflags s AND NOT 3) OR (drop_bit 11 (CSR C M_mstatus s) AND 3)
        else CSR C f s)"
  using assms by (cases f) (simp_all add: mini_mret_def Let_def csr_simps)

text \<open>
  C35. A trap and the \<open>mret\<close> of its handler undo each other: in a handler that keeps the three registers
  the trap saved, \<open>mret\<close> returns to the instruction that trapped (after an interrupt, to the one that
  was not executed), in the privilege mode it had, with interrupts enabled exactly when they were.
  The handler itself runs in machine mode with interrupts off. What is lost is the rest of
  \<open>mstatus\<close>, which comes back as this one value.
\<close>

theorem mini_trap_mret:
  assumes "mini_trap C t v pc s = (h, s1)"
    "CSR C M_mepc s' = CSR C M_mepc s1" "CSR C M_mstatus s' = CSR C M_mstatus s1" "CSR C M_extraflags s' = CSR C M_extraflags s1"
  shows "h = CSR C M_mtvec s \<and> CSR C M_extraflags s1 AND 3 = 3 \<and> \<not> bit (CSR C M_mstatus s1) 3 \<and>
    (\<exists>s2. mini_exec C 0x30200073 pc' cy s' = I_Next 0 0 ((if bit t 31 then pc + 4 else pc) - 4) 0 s2 \<and>
      CSR C M_extraflags s2 = CSR C M_extraflags s \<and>
      CSR C M_mstatus s2 = (CSR C M_mstatus s AND 8) OR 0x1880 \<and>
      (\<forall>i<32. CSR C (M_regs i) s2 = CSR C (M_regs i) s'))"
proof -
  note f1 = mini_trap_fields [OF assms(1)]
  have e: "CSR C M_extraflags s' = CSR C M_extraflags s OR 3" using assms(4) f1(2) by simp
  have m: "CSR C M_mstatus s' = push_bit 4 (CSR C M_mstatus s AND 0x08) OR push_bit 11 (CSR C M_extraflags s AND 3)"
    using assms(3) f1(2) by simp
  have p: "CSR C M_mepc s' = (if bit t 31 then pc + 4 else pc)" using assms(2) f1(2) by simp
  have x: "mini_exec C 0x30200073 pc' cy s' = I_Next 0 0 (CSR C M_mepc (mini_mret C s') - 4) 0 (mini_mret C s')"
    by (simp add: mini_exec_def mini_system_def Let_def)
  have me: "CSR C M_extraflags (mini_mret C s') = CSR C M_extraflags s"
    unfolding mini_mret_fields [of M_extraflags, simplified] e m
    by (rule u32_bitsI) (simp add: upt_32 bit_simps)
  have mm: "CSR C M_mstatus (mini_mret C s') = (CSR C M_mstatus s AND 8) OR 0x1880"
    unfolding mini_mret_fields [of M_mstatus, simplified] e m
    by (rule u32_bitsI) (simp add: upt_32 bit_simps)
  have "CSR C M_extraflags s1 AND 3 = 3" using f1(2) [of M_extraflags]
    by (simp add: bit_eq_iff bit_simps) blast
  moreover have "\<not> bit (CSR C M_mstatus s1) 3" using f1(2) [of M_mstatus] by (simp add: bit_simps)
  ultimately show ?thesis
    using f1(1) [of M_pc] x me mm p by (intro conjI exI [of _ "mini_mret C s'"]) (simp_all add: mini_mret_fields)
qed

text \<open>
  No mode is refused \<open>mret\<close>. With the \<open>mstatus\<close> that the last one left, a user program that executes
  it continues in machine mode.
\<close>

lemma mini_user_mret:
  assumes "CSR C M_mstatus s = (m AND 8) OR 0x1880"
  shows "\<exists>s2. mini_exec C 0x30200073 pc cy s = I_Next 0 0 (CSR C M_mepc s - 4) 0 s2 \<and> CSR C M_extraflags s2 AND 3 = 3"
proof -
  have x: "mini_exec C 0x30200073 pc cy s = I_Next 0 0 (CSR C M_mepc (mini_mret C s) - 4) 0 (mini_mret C s)"
    by (simp add: mini_exec_def mini_system_def Let_def)
  have "CSR C M_extraflags (mini_mret C s) AND 3 = 3"
    unfolding mini_mret_fields [of M_extraflags, simplified] assms by (rule u32_bitsI) (simp add: upt_32 bit_simps)
  then show ?thesis using x by (intro exI [of _ "mini_mret C s"]) (simp add: mini_mret_fields)
qed

section \<open>Time\<close>

text \<open>The 64-bit values the emulator keeps in two words.\<close>

definition mini_pair :: "'e mini_cfg \<Rightarrow> mini_field \<Rightarrow> mini_field \<Rightarrow> 'e mini \<Rightarrow> nat" where
  "mini_pair C hi lo s = unat (CSR C hi s) * 2 ^ 32 + unat (CSR C lo s)"

lemma unat_add_carry:
  fixes h l e :: u32
  shows "(unat h * 2 ^ 32 + unat l + unat e) mod 2 ^ 64 =
     unat (if l + e < l then h + 1 else h) * 2 ^ 32 + unat (l + e)"
proof (cases "unat l + unat e < 2 ^ 32")
  case True
  then have u: "unat (l + e) = unat l + unat e" by (simp add: unat_word_ariths)
  then have "\<not> l + e < l" by (simp add: word_less_nat_alt)
  with u True show ?thesis using unat_u32_lt [of h] by simp
next
  case False
  have u: "unat (l + e) = unat l + unat e - 2 ^ 32"
    using False unat_u32_lt [of l] unat_u32_lt [of e] by (simp add: unat_word_ariths mod_if)
  then have c: "l + e < l" using False unat_u32_lt [of e] by (simp add: word_less_nat_alt)
  show ?thesis
  proof (cases "unat h = 2 ^ 32 - 1")
    case True
    then have "unat (h + 1) = 0" by (simp add: unat_word_ariths)
    with True c u False show ?thesis using unat_u32_lt [of l] unat_u32_lt [of e] by (simp add: mod_if)
  next
    case n: False
    then have "unat (h + 1) = unat h + 1" using unat_u32_lt [of h] by (simp add: unat_word_ariths)
    with n c u False show ?thesis using unat_u32_lt [of l] unat_u32_lt [of e] unat_u32_lt [of h] by simp
  qed
qed

lemma pair_less:
  fixes a b c d :: u32
  shows "unat a * 2 ^ 32 + unat b < unat c * 2 ^ 32 + unat d \<longleftrightarrow> a < c \<or> c = a \<and> b < d"
proof (cases "unat a = unat c")
  case True
  then have "a = c" by (simp add: word_unat_eq_iff)
  then show ?thesis by (simp add: word_less_nat_alt)
next
  case False
  then have ne: "a \<noteq> c" by blast
  note lt = unat_u32_lt [of b] unat_u32_lt [of d]
  from False consider "unat a + 1 \<le> unat c" | "unat c + 1 \<le> unat a" by linarith
  then show ?thesis
  proof cases
    case 1
    then have "(unat a + 1) * 2 ^ 32 \<le> unat c * 2 ^ 32" by (rule mult_le_mono1)
    with lt have "unat a * 2 ^ 32 + unat b < unat c * 2 ^ 32 + unat d" by simp
    with 1 show ?thesis by (simp add: word_less_nat_alt)
  next
    case 2
    then have "(unat c + 1) * 2 ^ 32 \<le> unat a * 2 ^ 32" by (rule mult_le_mono1)
    with lt have "\<not> unat a * 2 ^ 32 + unat b < unat c * 2 ^ 32 + unat d" by simp
    with 2 ne show ?thesis by (simp add: word_less_nat_alt)
  qed
qed

lemma mini_due_pair:
  "mini_due C s \<longleftrightarrow> 0 < mini_pair C M_timermatchh M_timermatchl s \<and>
     mini_pair C M_timermatchh M_timermatchl s < mini_pair C M_timerh M_timerl s"
proof -
  have z: "0 < unat a * 2 ^ 32 + unat b \<longleftrightarrow> a \<noteq> 0 \<or> b \<noteq> 0" for a b :: u32
    using pair_less [of 0 0 a b] unfolding word_greater_zero_iff by auto
  show ?thesis unfolding mini_due_def mini_pair_def pair_less z by blast
qed

text \<open>
  The timer is a 64-bit counter of microseconds kept in two words: a call adds what has elapsed
  modulo \<open>2 ^ 64\<close>, makes the timer interrupt pending exactly when a match is set and the counter is
  past it, wakes a sleeping processor exactly then, and changes nothing else. The cycle counter,
  written back with one carry, counts exactly too, whenever a call runs fewer than \<open>2 ^ 32\<close> instructions.
\<close>

lemma mini_time:
  "mini_pair C M_timerh M_timerl (mini_timer C el s) = (mini_pair C M_timerh M_timerl s + unat el) mod 2 ^ 64 \<and>
   (bit (CSR C M_mip (mini_timer C el s)) 7 \<longleftrightarrow>
      0 < mini_pair C M_timermatchh M_timermatchl s \<and>
      mini_pair C M_timermatchh M_timermatchl s < (mini_pair C M_timerh M_timerl s + unat el) mod 2 ^ 64) \<and>
   CSR C M_extraflags (mini_timer C el s) =
     (if bit (CSR C M_mip (mini_timer C el s)) 7 then CSR C M_extraflags s AND NOT 4 else CSR C M_extraflags s) \<and>
   (field_ok f \<and> f \<notin> {M_timerl, M_timerh, M_mip, M_extraflags} \<longrightarrow> CSR C f (mini_timer C el s) = CSR C f s) \<and>
   mini_pair C M_cycleh M_cyclel (mini_set_cycle C (CSR C M_cyclel s + k) s) =
     (mini_pair C M_cycleh M_cyclel s + unat k) mod 2 ^ 64"
proof -
  let ?new = "CSR C M_timerl s + el"
  let ?s2 = "SETCSR C M_timerl ?new (if ?new < CSR C M_timerl s then SETCSR C M_timerh (CSR C M_timerh s + 1) s else s)"
  have t: "mini_timer C el s =
     (if mini_due C ?s2 then SETCSR C M_mip (CSR C M_mip s OR 0x80) (SETCSR C M_extraflags (CSR C M_extraflags s AND NOT 4) ?s2)
      else SETCSR C M_mip (CSR C M_mip s AND NOT 0x80) ?s2)"
    by (simp add: mini_timer_def Let_def csr_simps)
  have p: "mini_pair C M_timerh M_timerl ?s2 = (mini_pair C M_timerh M_timerl s + unat el) mod 2 ^ 64"
    using unat_add_carry [of "CSR C M_timerh s" "CSR C M_timerl s" el] by (simp add: mini_pair_def csr_simps)
  have q: "mini_pair C M_timermatchh M_timermatchl ?s2 = mini_pair C M_timermatchh M_timermatchl s"
    by (simp add: mini_pair_def csr_simps)
  have r: "mini_pair C M_timerh M_timerl (mini_timer C el s) = mini_pair C M_timerh M_timerl ?s2"
    by (simp add: t mini_pair_def csr_simps)
  have b: "bit (CSR C M_mip (mini_timer C el s)) 7 \<longleftrightarrow> mini_due C ?s2" by (simp add: t csr_simps bit_simps)
  have e: "CSR C M_extraflags (mini_timer C el s) =
      (if mini_due C ?s2 then CSR C M_extraflags s AND NOT 4 else CSR C M_extraflags s)"
    by (simp add: t csr_simps)
  have f: "field_ok f \<and> f \<notin> {M_timerl, M_timerh, M_mip, M_extraflags} \<longrightarrow> CSR C f (mini_timer C el s) = CSR C f s"
    by (simp add: t csr_simps)
  have c: "mini_pair C M_cycleh M_cyclel (mini_set_cycle C (CSR C M_cyclel s + k) s) =
      (mini_pair C M_cycleh M_cyclel s + unat k) mod 2 ^ 64"
    using unat_add_carry [of "CSR C M_cycleh s" "CSR C M_cyclel s" k] by (simp add: mini_pair_def mini_set_cycle_def csr_simps)
  show ?thesis using r p b e f c mini_due_pair [of C ?s2] q by (intro conjI) simp_all
qed

section \<open>The zero register\<close>

text \<open>The state is not inside the image, and the hooks leave register 0 alone.\<close>

definition mini_apart :: "'e mini_cfg \<Rightarrow> bool" where
  "mini_apart C \<longleftrightarrow> 4 \<le> unat (mc_ram C) \<and> unat (mc_ram C) \<le> mc_core C \<and>
     (\<forall>a s. CSR C (M_regs 0) (snd (mc_load C a s)) = CSR C (M_regs 0) s) \<and>
     (\<forall>a v s. CSR C (M_regs 0) (snd (mc_store C a v s)) = CSR C (M_regs 0) s)"

lemma st_img_x0:
  assumes "mini_apart C" "\<not> mc_ram C - 3 \<le> ofs" "n \<le> 4"
  shows "CSR C (M_regs 0) (st_img n (unat ofs) v s) = CSR C (M_regs 0) s"
proof -
  have r: "4 \<le> unat (mc_ram C)" "unat (mc_ram C) \<le> mc_core C" using assms(1) by (simp_all add: mini_apart_def)
  then have "unat (mc_ram C - 3) = unat (mc_ram C) - 3" by (subst unat_sub) (simp_all add: word_le_nat_alt)
  with assms(2) have "unat ofs + 3 < unat (mc_ram C)" using r(1) by (simp add: word_le_nat_alt)
  then have "unat ofs + n \<le> mc_core C" using r(2) assms(3) by linarith
  then show ?thesis by (simp add: CSR_def ld_st_img_other)
qed

definition insn_state :: "'e mini_insn \<Rightarrow> 'e mini" where
  "insn_state r = (case r of I_Next t v p d s \<Rightarrow> s | I_Ret v s \<Rightarrow> s)"

lemma insn_state_simps [simp]: "insn_state (I_Next t v p d s) = s" "insn_state (I_Ret v s) = s"
  by (simp_all add: insn_state_def)

lemma mini_load_x0: "mini_apart C \<Longrightarrow> CSR C (M_regs 0) (insn_state (mini_load C ir pc rd s)) = CSR C (M_regs 0) s"
  by (auto simp: mini_load_def mini_apart_def Let_def split: prod.splits) (metis snd_conv)

lemma mini_store_x0: 
  assumes "mini_apart C"
  shows "CSR C (M_regs 0) (insn_state (mini_store C ir pc s)) = CSR C (M_regs 0) s"
proof -
  have hk: "mc_store C a v s = (r, s1) \<Longrightarrow> CSR C (M_regs 0) s1 = CSR C (M_regs 0) s" for a v r s1
    using assms by (metis mini_apart_def snd_conv)
  show ?thesis by (auto simp: mini_store_def Let_def hk st_img_x0 [OF assms] split: prod.splits)
qed

lemma mini_amo_x0: 
  assumes "mini_apart C"
  shows "CSR C (M_regs 0) (insn_state (mini_amo C ir pc rd s)) = CSR C (M_regs 0) s"
  by (simp add: mini_amo_def Let_def csr_simps st_img_x0 [OF assms] split: option.split)

lemma mini_set_cycle_x0 [simp]: "CSR C (M_regs 0) (mini_set_cycle C cy s) = CSR C (M_regs 0) s"
  by (simp add: mini_set_cycle_def csr_simps)

lemma mini_system_x0: "CSR C (M_regs 0) (insn_state (mini_system C ir pc cy rd s)) = CSR C (M_regs 0) s"
  by (simp add: mini_system_def mini_csr_write_def mini_mret_def mini_wfi_def Let_def csr_simps)

lemma mini_exec_x0: "mini_apart C \<Longrightarrow> CSR C (M_regs 0) (insn_state (mini_exec C ir pc cy s)) = CSR C (M_regs 0) s"
  by (simp add: mini_exec_def Let_def mini_load_x0 mini_store_x0 mini_amo_x0 mini_system_x0 split: option.split)

definition end_state :: "'e mini_end \<Rightarrow> 'e mini" where
  "end_state r = (case r of L_Ret v s \<Rightarrow> s | L_End t v p c s \<Rightarrow> s)"

lemma end_state_simps [simp]: "end_state (L_Ret v s) = s" "end_state (L_End t v p c s) = s"
  by (simp_all add: end_state_def)

lemma mini_loop_x0:
  assumes "mini_apart C"
  shows "CSR C (M_regs 0) (end_state (mini_loop C n pc cy s)) = CSR C (M_regs 0) s"
proof (induction n arbitrary: pc cy s)
  case (Suc n)
  let ?ir = "ld_img 4 (unat (pc - MINIRV32_RAM_IMAGE_OFFSET)) s"
  note x = mini_exec_x0 [OF assms, of ?ir pc "cy + 1" s]
  show ?case
  proof (cases "mini_exec C ?ir pc (cy + 1) s")
    case (I_Next t v p rd s1)
    then have rd: "unat rd < 32" by (rule mini_exec_rd)
    then have w: "CSR C (M_regs 0) (if rd \<noteq> 0 then SETCSR C (M_regs (unat rd)) v s1 else s1) = CSR C (M_regs 0) s1"
      by (simp add: csr_simps unat_eq_0)
    show ?thesis using x I_Next Suc.IH [of "p + 4" "cy + 1" "if rd \<noteq> 0 then SETCSR C (M_regs (unat rd)) v s1 else s1"] w
      by (simp add: Let_def csr_simps)
  qed (use x in \<open>simp add: Let_def\<close>)
qed simp


section \<open>A machine of two instructions\<close>

text \<open>
  16 bytes of image, the state above them, no devices: \<open>sub x0, x1, x2\<close>, then an \<open>ecall\<close>.
\<close>

definition demo_mcfg :: "unit mini_cfg" where
  "demo_mcfg = \<lparr>mc_ram = 16, mc_core = 16, mc_load = (\<lambda>a s. (0, s)), mc_store = (\<lambda>a v s. (0, s))\<rparr>"

definition demo_mini :: "unit mini" where
  "demo_mini = SETCSR demo_mcfg M_extraflags 3 (SETCSR demo_mcfg M_mtvec 0x80000008 (SETCSR demo_mcfg M_pc 0x80000000
     (SETCSR demo_mcfg (M_regs 1) 9 (SETCSR demo_mcfg (M_regs 2) 4
       \<lparr>mi_mem = mem_write (\<lambda>_. 0) 0 (le_bytes 4 (0x40208033 :: u32) @ le_bytes 4 (0x73 :: u32)), mi_env = ()\<rparr>))))"

lemma demo_fields:
  "CSR demo_mcfg (M_regs 0) demo_mini = 0" "CSR demo_mcfg (M_regs 1) demo_mini = 9" "CSR demo_mcfg (M_regs 2) demo_mini = 4"
  "CSR demo_mcfg M_extraflags demo_mini = 3" "CSR demo_mcfg M_pc demo_mini = 0x80000000"
  by code_simp+

lemma demo_apart: "mini_apart demo_mcfg"
  by (simp add: mini_apart_def demo_mcfg_def)



theorem mini_trap_mret_witness:
  "\<exists>s2. mini_exec demo_mcfg 0x30200073 0x80000008 7 (snd (mini_trap demo_mcfg 12 0 0x80000004 demo_mini)) =
       I_Next 0 0 0x80000000 0 s2 \<and> CSR demo_mcfg M_extraflags s2 = 3"
proof -
  obtain h s1 where t: "mini_trap demo_mcfg 12 0 0x80000004 demo_mini = (h, s1)" by (cases "mini_trap demo_mcfg 12 0 0x80000004 demo_mini")
  from mini_trap_mret [OF t refl refl refl, of "0x80000008" 7] show ?thesis
    by (auto simp: t demo_fields)
qed

end
