(* ===== verification/Net_Bridge.thy ===== *)
theory Net_Bridge
  imports Emu_Prelude
begin

text \<open>
  The bridge between the guest's NIC and the wire (\<open>src/netbridge.c\<close>): the emulator's hooks
  \<open>plat_net_mac()\<close>, \<open>plat_net_send()\<close> and \<open>plat_net_recv()\<close>, and the thread that filters what the
  wire delivers into a ring of length-prefixed frames. The ring is \<open>ring_buf\<close> of Zephyr, an argument
  of the definitions; \<open>ring_laws\<close> is what its documentation promises. The thread runs at a higher
  priority than the emulator and does not block inside a frame, so it may interrupt
  \<open>plat_net_recv()\<close> between any two calls on the ring, and not the other way round.
\<close>

section \<open>The ring\<close>

record 'r ring_ops =
  rg_put :: "'r \<Rightarrow> u8 list \<Rightarrow> nat \<times> 'r"
  rg_get :: "'r \<Rightarrow> nat \<Rightarrow> u8 list \<times> 'r"
  rg_peek :: "'r \<Rightarrow> nat \<Rightarrow> u8 list"
  rg_space :: "'r \<Rightarrow> nat"

text \<open>A byte queue of bounded size; a put stores what fits, a get or a peek gives what is there.\<close>

definition ring_laws :: "'r ring_ops \<Rightarrow> nat \<Rightarrow> ('r \<Rightarrow> u8 list) \<Rightarrow> bool" where
  "ring_laws rg N cont \<longleftrightarrow>
     (\<forall>r bs. fst (rg_put rg r bs) = min (length bs) (N - length (cont r)) \<and>
        cont (snd (rg_put rg r bs)) = cont r @ take (N - length (cont r)) bs) \<and>
     (\<forall>r n. fst (rg_get rg r n) = take n (cont r) \<and> cont (snd (rg_get rg r n)) = drop n (cont r)) \<and>
     (\<forall>r n. rg_peek rg r n = take n (cont r)) \<and> (\<forall>r. rg_space rg r = N - length (cont r))"

lemma ring_lawsD:
  assumes "ring_laws rg N cont"
  shows "fst (rg_put rg r bs) = min (length bs) (N - length (cont r))"
    "cont (snd (rg_put rg r bs)) = cont r @ take (N - length (cont r)) bs"
    "fst (rg_get rg r n) = take n (cont r)" "cont (snd (rg_get rg r n)) = drop n (cont r)"
    "rg_peek rg r n = take n (cont r)" "rg_space rg r = N - length (cont r)"
  using assms by (simp_all add: ring_laws_def)

text \<open>An instance: the ring as the list of its bytes.\<close>

definition list_ring :: "nat \<Rightarrow> u8 list ring_ops" where
  "list_ring N = \<lparr>rg_put = (\<lambda>r bs. (min (length bs) (N - length r), r @ take (N - length r) bs)),
     rg_get = (\<lambda>r n. (take n r, drop n r)), rg_peek = (\<lambda>r n. take n r), rg_space = (\<lambda>r. N - length r)\<rparr>"

lemma list_ring_laws: "ring_laws (list_ring N) N id"
  by (simp add: ring_laws_def list_ring_def)

section \<open>State\<close>

definition NET_FRAME_MAX :: nat where "NET_FRAME_MAX = 1514"

record nb =
  nb_mac :: "u8 list"
  nb_up :: bool
  nb_rx_kept :: u32
  nb_rx_filtered :: u32
  nb_rx_dropped :: u32
  nb_tx_sent :: u32
  nb_tx_dropped :: u32

section \<open>Address and transmission\<close>

text \<open>\<open>ll\<close> is the link address of the default interface, when there is one.\<close>

definition plat_net_mac :: "bool \<Rightarrow> u8 list option \<Rightarrow> nb \<Rightarrow> u8 list option \<times> nb" where
  "plat_net_mac guest_net ll b =
     (case ll of
        None \<Rightarrow> (None, b)
      | Some addr \<Rightarrow>
          if \<not> guest_net \<or> length addr \<noteq> 6 then (None, b)
          else let mac = addr[0 := addr ! 0 OR 0x02]; mac1 = mac[5 := NOT (mac ! 5)] in (Some mac1, b\<lparr>nb_mac := mac1\<rparr>))"

datatype nb_ev = P_Alloc nat | P_Write "u8 list" | P_Rewind | P_Unref | P_Queue

text \<open>Whether the interface is there, a packet can be allocated, and the write into it succeeds.\<close>

definition plat_net_send_nb :: "bool \<Rightarrow> bool \<Rightarrow> bool \<Rightarrow> u8 list \<Rightarrow> nb \<Rightarrow> nb_ev list \<times> nb" where
  "plat_net_send_nb iface alloc wr frame b =
     (let drop1 = b\<lparr>nb_tx_dropped := nb_tx_dropped b + 1\<rparr>
      in if \<not> nb_up b \<or> \<not> iface \<or> length frame < 14 \<or> length frame > NET_FRAME_MAX then ([], drop1)
         else if \<not> alloc then ([P_Alloc (length frame)], drop1)
         else if \<not> wr then ([P_Alloc (length frame), P_Write frame, P_Unref], drop1)
         else ([P_Alloc (length frame), P_Write frame, P_Rewind, P_Queue], b\<lparr>nb_tx_sent := nb_tx_sent b + 1\<rparr>))"

definition rvt_netbridge_suspend :: "bool \<Rightarrow> nb \<Rightarrow> nb" where
  "rvt_netbridge_suspend iface b = (if \<not> nb_up b \<or> \<not> iface then b else b\<lparr>nb_up := False\<rparr>)"

section \<open>Reception\<close>

definition frame_is_for_guest :: "nb \<Rightarrow> u8 list \<Rightarrow> bool" where
  "frame_is_for_guest b dst \<longleftrightarrow>
     take 6 dst = nb_mac b \<or> take 6 dst = replicate 6 0xff \<or> dst ! 0 AND 0x01 \<noteq> 0"

text \<open>A packet: its length, and a read of so many bytes at the cursor, which may fail.\<close>

record net_pkt =
  pk_len :: nat
  pk_read :: "nat \<Rightarrow> nat \<Rightarrow> u8 list option"

text \<open>The copy into the ring, in chunks of 64 bytes.\<close>

function nb_copy :: "'r ring_ops \<Rightarrow> net_pkt \<Rightarrow> nat \<Rightarrow> 'r \<Rightarrow> 'r" where
  "nb_copy rg p off r =
     (if off < pk_len p then
        let n = min 64 (pk_len p - off)
        in case pk_read p off n of
             None \<Rightarrow> r
           | Some bs \<Rightarrow> nb_copy rg p (off + n) (snd (rg_put rg r bs))
      else r)"
  by pat_completeness auto

termination by (relation "measure (\<lambda>(rg, p, off, r). pk_len p - off)") auto

declare nb_copy.simps [simp del]

definition nb_wanted :: "nb \<Rightarrow> net_pkt \<Rightarrow> bool" where
  "nb_wanted b p \<longleftrightarrow> \<not> (pk_len p < 14 \<or> pk_len p > NET_FRAME_MAX) \<and>
     (case pk_read p 0 14 of None \<Rightarrow> False | Some hdr \<Rightarrow> frame_is_for_guest b hdr)"

text \<open>One round of \<open>nb_rx_thread()\<close>.\<close>

definition nb_rx :: "'r ring_ops \<Rightarrow> net_pkt \<Rightarrow> nb \<times> 'r \<Rightarrow> nb \<times> 'r" where
  "nb_rx rg p s =
     (case s of (b, r) \<Rightarrow>
        if \<not> nb_wanted b p then (b\<lparr>nb_rx_filtered := nb_rx_filtered b + 1\<rparr>, r)
        else if rg_space rg r < 2 + pk_len p then (b\<lparr>nb_rx_dropped := nb_rx_dropped b + 1\<rparr>, r)
        else (b\<lparr>nb_rx_kept := nb_rx_kept b + 1\<rparr>, nb_copy rg p 0 (snd (rg_put rg r (le_bytes 2 (of_nat (pk_len p) :: u16))))))"

text \<open>
  \<open>plat_net_recv()\<close> one ring call at a time: the peek at the length, then the two gets, or the one
  that discards a frame too long for the caller.
\<close>

datatype nb_phase = R_Idle | R_Big nat | R_Len nat | R_Body nat

record 'r nb_sys =
  ns_b :: nb
  ns_r :: 'r
  ns_phase :: nb_phase
  ns_out :: "(int \<times> u8 list) list"    \<comment> \<open>what the calls have returned, oldest first\<close>
  ns_acc :: "u8 list list"             \<comment> \<open>ghost: the frames kept\<close>

datatype nb_act = B_Rx net_pkt | B_Recv nat | B_Next

definition pk_bytes :: "net_pkt \<Rightarrow> u8 list" where
  "pk_bytes p = (case pk_read p 0 (pk_len p) of None \<Rightarrow> [] | Some bs \<Rightarrow> bs)"

fun nb_do :: "'r ring_ops \<Rightarrow> nb_act \<Rightarrow> 'r nb_sys \<Rightarrow> 'r nb_sys" where
  "nb_do rg (B_Rx p) s =
     (case nb_rx rg p (ns_b s, ns_r s) of (b, r) \<Rightarrow>
        s\<lparr>ns_b := b, ns_r := r,
          ns_acc := (if nb_wanted (ns_b s) p \<and> 2 + pk_len p \<le> rg_space rg (ns_r s) then ns_acc s @ [pk_bytes p] else ns_acc s)\<rparr>)"
| "nb_do rg (B_Recv cap) s =
     (case ns_phase s of
        R_Idle \<Rightarrow>
          (let bs = rg_peek rg (ns_r s) 2
           in if length bs < 2 then s\<lparr>ns_out := ns_out s @ [(- 1, [])]\<rparr>
              else let len = unat (of_le bs :: u16) in s\<lparr>ns_phase := (if len > cap then R_Big len else R_Len len)\<rparr>)
      | _ \<Rightarrow> s)"
| "nb_do rg B_Next s =
     (case ns_phase s of
        R_Idle \<Rightarrow> s
      | R_Big n \<Rightarrow> s\<lparr>ns_r := snd (rg_get rg (ns_r s) (2 + n)), ns_b := (ns_b s)\<lparr>nb_rx_dropped := nb_rx_dropped (ns_b s) + 1\<rparr>,
          ns_phase := R_Idle, ns_out := ns_out s @ [(- 1, [])]\<rparr>
      | R_Len n \<Rightarrow> s\<lparr>ns_r := snd (rg_get rg (ns_r s) 2), ns_phase := R_Body n\<rparr>
      | R_Body n \<Rightarrow> (case rg_get rg (ns_r s) n of (bs, r) \<Rightarrow>
          s\<lparr>ns_r := r, ns_phase := R_Idle, ns_out := ns_out s @ [(int n, bs)]\<rparr>))"

fun nb_run :: "'r ring_ops \<Rightarrow> nb_act list \<Rightarrow> 'r nb_sys \<Rightarrow> 'r nb_sys" where
  "nb_run rg [] s = s"
| "nb_run rg (a # as) s = nb_run rg as (nb_do rg a s)"

section \<open>The frames on their way\<close>

definition nb_enc :: "u8 list \<Rightarrow> u8 list" where
  "nb_enc f = le_bytes 2 (of_nat (length f) :: u16) @ f"

text \<open>A packet whose reads succeed and agree.\<close>

definition pk_ok :: "net_pkt \<Rightarrow> bool" where
  "pk_ok p \<longleftrightarrow> (\<exists>bs. length bs = pk_len p \<and> (\<forall>off n. off + n \<le> pk_len p \<longrightarrow> pk_read p off n = Some (take n (drop off bs))))"

definition nb_got :: "'r nb_sys \<Rightarrow> u8 list list" where
  "nb_got s = map snd (filter (\<lambda>(n, f). 0 \<le> n) (ns_out s))"

definition nb_inv :: "'r ring_ops \<Rightarrow> nat \<Rightarrow> ('r \<Rightarrow> u8 list) \<Rightarrow> 'r nb_sys \<Rightarrow> bool" where
  "nb_inv rg N cont s \<longleftrightarrow> (\<exists>rest. ns_acc s = nb_got s @ rest \<and> (\<forall>f \<in> set rest. length f \<le> NET_FRAME_MAX) \<and>
     (\<forall>(n, f) \<in> set (ns_out s). n = - 1 \<or> n = int (length f)) \<and> length (cont (ns_r s)) \<le> N \<and>
     (case ns_phase s of
        R_Idle \<Rightarrow> cont (ns_r s) = concat (map nb_enc rest)
      | R_Big n \<Rightarrow> False
      | R_Len n \<Rightarrow> rest \<noteq> [] \<and> length (hd rest) = n \<and> cont (ns_r s) = concat (map nb_enc rest)
      | R_Body n \<Rightarrow> rest \<noteq> [] \<and> length (hd rest) = n \<and> cont (ns_r s) = hd rest @ concat (map nb_enc (tl rest))))"

lemma nb_invE:
  assumes "nb_inv rg N cont s"
  obtains rest where "ns_acc s = nb_got s @ rest" "\<forall>f \<in> set rest. length f \<le> NET_FRAME_MAX"
    "\<forall>(n, f) \<in> set (ns_out s). n = - 1 \<or> n = int (length f)" "length (cont (ns_r s)) \<le> N"
    "case ns_phase s of
        R_Idle \<Rightarrow> cont (ns_r s) = concat (map nb_enc rest)
      | R_Big n \<Rightarrow> False
      | R_Len n \<Rightarrow> rest \<noteq> [] \<and> length (hd rest) = n \<and> cont (ns_r s) = concat (map nb_enc rest)
      | R_Body n \<Rightarrow> rest \<noteq> [] \<and> length (hd rest) = n \<and> cont (ns_r s) = hd rest @ concat (map nb_enc (tl rest))"
  using assms unfolding nb_inv_def by blast

lemma nb_copy_ok:
  assumes "ring_laws rg N cont" "pk_len p = length bs" "\<forall>off n. off + n \<le> pk_len p \<longrightarrow> pk_read p off n = Some (take n (drop off bs))"
    "off \<le> pk_len p" "length (cont r) + (pk_len p - off) \<le> N"
  shows "cont (nb_copy rg p off r) = cont r @ drop off bs"
  using assms(4,5)
proof (induction "pk_len p - off" arbitrary: off r rule: less_induct)
  case less
  show ?case
  proof (cases "off < pk_len p")
    case False
    then show ?thesis using assms(2) by (simp add: nb_copy.simps)
  next
    case True
    define n where "n = min 64 (pk_len p - off)"
    define r1 where "r1 = snd (rg_put rg r (take n (drop off bs)))"
    have n: "0 < n" "off + n \<le> pk_len p" using True by (simp_all add: n_def)
    have l: "length (take n (drop off bs)) = n" using n(2) assms(2) by simp
    have "n \<le> N - length (cont r)" using less.prems n(2) by linarith
    then have r1: "cont r1 = cont r @ take n (drop off bs)"
      unfolding r1_def ring_lawsD(2) [OF assms(1)] using l by simp
    have "length (cont r1) + (pk_len p - (off + n)) \<le> N" using less.prems n(2) r1 l by simp
    from less.hyps [OF _ n(2) this] n True
    have "cont (nb_copy rg p (off + n) r1) = cont r1 @ drop (off + n) bs" by simp
    moreover have "nb_copy rg p off r = nb_copy rg p (off + n) r1"
      using True n(2) assms(3) by (subst nb_copy.simps) (simp add: n_def [symmetric] Let_def r1_def)
    ultimately show ?thesis by (simp add: r1 add.commute [of off n] flip: drop_drop)
  qed
qed

lemma nb_len_bytes:
  "n \<le> NET_FRAME_MAX \<Longrightarrow> unat (of_le (le_bytes 2 (of_nat n :: u16)) :: u16) = n"
  using take_bit_length_eq [of "of_nat n :: u16"]
  by (simp add: of_le_le_bytes NET_FRAME_MAX_def unsigned_of_nat take_bit_nat_eq_self)

lemma nb_rx_inv:
  assumes "ring_laws rg N cont" "nb_inv rg N cont s" "pk_ok p"
  shows "nb_inv rg N cont (nb_do rg (B_Rx p) s)"
proof -
  let ?r = "ns_r s"
  obtain bs where bs: "length bs = pk_len p" "\<forall>off n. off + n \<le> pk_len p \<longrightarrow> pk_read p off n = Some (take n (drop off bs))"
    using assms(3) by (auto simp: pk_ok_def)
  obtain rest where inv: "ns_acc s = nb_got s @ rest" "\<forall>f \<in> set rest. length f \<le> NET_FRAME_MAX"
    "\<forall>(n, f) \<in> set (ns_out s). n = - 1 \<or> n = int (length f)" "length (cont (ns_r s)) \<le> N"
    "case ns_phase s of
        R_Idle \<Rightarrow> cont (ns_r s) = concat (map nb_enc rest)
      | R_Big n \<Rightarrow> False
      | R_Len n \<Rightarrow> rest \<noteq> [] \<and> length (hd rest) = n \<and> cont (ns_r s) = concat (map nb_enc rest)
      | R_Body n \<Rightarrow> rest \<noteq> [] \<and> length (hd rest) = n \<and> cont (ns_r s) = hd rest @ concat (map nb_enc (tl rest))"
    by (rule nb_invE [OF assms(2)])
  show ?thesis
  proof (cases "nb_wanted (ns_b s) p \<and> 2 + pk_len p \<le> rg_space rg ?r")
    case False
    then have st: "ns_r (nb_do rg (B_Rx p) s) = ?r" "ns_acc (nb_do rg (B_Rx p) s) = ns_acc s"
      "ns_out (nb_do rg (B_Rx p) s) = ns_out s" "ns_phase (nb_do rg (B_Rx p) s) = ns_phase s"
      by (auto simp: nb_rx_def)
    from inv show ?thesis unfolding nb_inv_def nb_got_def st by blast
  next
    case True
    define r1 where "r1 = snd (rg_put rg ?r (le_bytes 2 (of_nat (pk_len p) :: u16)))"
    define r2 where "r2 = nb_copy rg p 0 r1"
    have sp: "length (cont ?r) + (2 + pk_len p) \<le> N" using True ring_lawsD(6) [OF assms(1), of ?r] inv(4) by linarith
    then have r1: "cont r1 = cont ?r @ le_bytes 2 (of_nat (pk_len p) :: u16)"
      unfolding r1_def ring_lawsD(2) [OF assms(1)] by simp
    have "cont r2 = cont r1 @ drop 0 bs" unfolding r2_def
      by (rule nb_copy_ok [OF assms(1) bs(1) [symmetric] bs(2)]) (use sp r1 in simp_all)
    then have r2: "cont r2 = cont ?r @ nb_enc bs" using r1 bs(1) by (simp add: nb_enc_def)
    have pk: "pk_bytes p = bs" using bs by (simp add: pk_bytes_def)
    have st: "ns_r (nb_do rg (B_Rx p) s) = r2" "ns_acc (nb_do rg (B_Rx p) s) = ns_acc s @ [bs]"
      "ns_out (nb_do rg (B_Rx p) s) = ns_out s" "ns_phase (nb_do rg (B_Rx p) s) = ns_phase s"
      using True pk by (auto simp: nb_rx_def r1_def r2_def)
    have "length bs \<le> NET_FRAME_MAX" using True bs(1) by (simp add: nb_wanted_def)
    then show ?thesis using inv sp r2 bs(1) unfolding nb_inv_def st nb_got_def
      by (intro exI [of _ "rest @ [bs]"]) (auto simp: nb_enc_def split: nb_phase.splits)
  qed
qed

lemma nb_recv_inv:
  assumes "ring_laws rg N cont" "nb_inv rg N cont s" "NET_FRAME_MAX \<le> cap"
  shows "nb_inv rg N cont (nb_do rg (B_Recv cap) s)"
proof (cases "ns_phase s")
  case R_Idle
  let ?r = "ns_r s"
  obtain rest where inv: "ns_acc s = nb_got s @ rest" "\<forall>f \<in> set rest. length f \<le> NET_FRAME_MAX"
    "\<forall>(n, f) \<in> set (ns_out s). n = - 1 \<or> n = int (length f)" "length (cont ?r) \<le> N" "cont ?r = concat (map nb_enc rest)"
    by (rule nb_invE [OF assms(2)]) (use R_Idle in simp)
  note pk = ring_lawsD(5) [OF assms(1), of ?r 2]
  show ?thesis
  proof (cases rest)
    case Nil
    then have "nb_do rg (B_Recv cap) s = s\<lparr>ns_out := ns_out s @ [(- 1, [])]\<rparr>" using pk inv(5) R_Idle by simp
    then show ?thesis using inv Nil R_Idle by (auto simp: nb_inv_def nb_got_def)
  next
    case (Cons f fs)
    have f: "length f \<le> NET_FRAME_MAX" using inv(2) Cons by simp
    have "rg_peek rg ?r 2 = le_bytes 2 (of_nat (length f) :: u16)" using pk inv(5) Cons by (simp add: nb_enc_def)
    moreover have "\<not> length f > cap" using f assms(3) by simp
    ultimately have "nb_do rg (B_Recv cap) s = s\<lparr>ns_phase := R_Len (length f)\<rparr>"
      using nb_len_bytes [OF f] R_Idle by (simp add: Let_def)
    then show ?thesis using inv Cons unfolding nb_inv_def nb_got_def by (intro exI [of _ rest]) simp
  qed
qed (use assms(2) in simp_all)

lemma nb_next_inv:
  assumes "ring_laws rg N cont" "nb_inv rg N cont s"
  shows "nb_inv rg N cont (nb_do rg B_Next s)"
proof (cases "ns_phase s")
  case (R_Big n)
  then show ?thesis using assms(2) by (auto simp: nb_inv_def)
next
  case (R_Len n)
  note g = ring_lawsD(4) [OF assms(1), of "ns_r s" 2]
  obtain rest where inv: "ns_acc s = nb_got s @ rest" "\<forall>f \<in> set rest. length f \<le> NET_FRAME_MAX"
    "\<forall>(n, f) \<in> set (ns_out s). n = - 1 \<or> n = int (length f)" "length (cont (ns_r s)) \<le> N"
    "rest \<noteq> []" "length (hd rest) = n" "cont (ns_r s) = concat (map nb_enc rest)"
    by (rule nb_invE [OF assms(2)]) (use R_Len in simp)
  obtain f fs where r: "rest = f # fs" using inv(5) by (cases rest) auto
  have "cont (snd (rg_get rg (ns_r s) 2)) = f @ concat (map nb_enc fs)" using g inv(7) r by (simp add: nb_enc_def)
  moreover have "length f + length (concat (map nb_enc fs)) \<le> N" using inv(4,7) r by (simp add: nb_enc_def)
  ultimately show ?thesis using inv R_Len r unfolding nb_inv_def nb_got_def
    by (intro exI [of _ rest]) auto
next
  case (R_Body n)
  note g = ring_lawsD(3,4) [OF assms(1), of "ns_r s" n]
  obtain rest where inv: "ns_acc s = nb_got s @ rest" "\<forall>f \<in> set rest. length f \<le> NET_FRAME_MAX"
    "\<forall>(n, f) \<in> set (ns_out s). n = - 1 \<or> n = int (length f)" "length (cont (ns_r s)) \<le> N"
    "rest \<noteq> []" "length (hd rest) = n" "cont (ns_r s) = hd rest @ concat (map nb_enc (tl rest))"
    by (rule nb_invE [OF assms(2)]) (use R_Body in simp)
  obtain f fs where r: "rest = f # fs" using inv(5) by (cases rest) auto
  obtain got r' where gr: "rg_get rg (ns_r s) n = (got, r')" by fastforce
  have "got = f" "cont r' = concat (map nb_enc fs)" using g gr inv(6,7) r by simp_all
  then show ?thesis using inv R_Body r gr unfolding nb_inv_def nb_got_def
    by (intro exI [of _ fs]) auto
qed (use assms(2) in simp)

lemma nb_run_inv:
  assumes "ring_laws rg N cont" "nb_inv rg N cont s" "\<forall>a \<in> set as. case a of B_Rx p \<Rightarrow> pk_ok p | B_Recv cap \<Rightarrow> NET_FRAME_MAX \<le> cap | B_Next \<Rightarrow> True"
  shows "nb_inv rg N cont (nb_run rg as s)"
  using assms(2,3)
proof (induction as arbitrary: s)
  case (Cons a as)
  have "nb_inv rg N cont (nb_do rg a s)"
    using Cons.prems nb_rx_inv [OF assms(1)] nb_recv_inv [OF assms(1)] nb_next_inv [OF assms(1)] by (cases a) auto
  with Cons show ?case by simp
qed simp

lemma frame_prefix: "14 \<le> length f \<Longrightarrow> frame_is_for_guest b (take 14 f) = frame_is_for_guest b f"
  by (simp add: frame_is_for_guest_def)

lemma nb_do_acc:
  assumes "pk_ok p" "\<forall>f \<in> set (ns_acc s). 14 \<le> length f \<and> length f \<le> NET_FRAME_MAX \<and> frame_is_for_guest (ns_b s) f"
  shows "\<forall>f \<in> set (ns_acc (nb_do rg (B_Rx p) s)). 14 \<le> length f \<and> length f \<le> NET_FRAME_MAX \<and> frame_is_for_guest (ns_b (nb_do rg (B_Rx p) s)) f"
proof -
  have mac: "nb_mac (ns_b (nb_do rg (B_Rx p) s)) = nb_mac (ns_b s)" by (auto simp: nb_rx_def)
  obtain bs where bs: "length bs = pk_len p" "\<forall>off n. off + n \<le> pk_len p \<longrightarrow> pk_read p off n = Some (take n (drop off bs))"
    using assms(1) by (auto simp: pk_ok_def)
  have "14 \<le> length bs \<and> length bs \<le> NET_FRAME_MAX \<and> frame_is_for_guest (ns_b s) bs" if "nb_wanted (ns_b s) p"
    using that bs(1) bs(2) [rule_format, of 0 14] frame_prefix [of bs "ns_b s"] by (simp add: nb_wanted_def not_less)
  moreover have "pk_bytes p = bs" using bs by (simp add: pk_bytes_def)
  moreover have "ns_acc (nb_do rg (B_Rx p) s) = (if nb_wanted (ns_b s) p \<and> 2 + pk_len p \<le> rg_space rg (ns_r s) then ns_acc s @ [pk_bytes p] else ns_acc s)"
    by (auto split: prod.splits)
  ultimately show ?thesis using assms(2) mac by (auto simp: frame_is_for_guest_def)
qed

lemma nb_run_acc:
  assumes "\<forall>f \<in> set (ns_acc s). 14 \<le> length f \<and> length f \<le> NET_FRAME_MAX \<and> frame_is_for_guest (ns_b s) f"
    "\<forall>a \<in> set as. case a of B_Rx p \<Rightarrow> pk_ok p | _ \<Rightarrow> True"
  shows "\<forall>f \<in> set (ns_acc (nb_run rg as s)). 14 \<le> length f \<and> length f \<le> NET_FRAME_MAX \<and> frame_is_for_guest (ns_b (nb_run rg as s)) f"
  using assms
proof (induction as arbitrary: s)
  case (Cons a as)
  have "\<forall>f \<in> set (ns_acc (nb_do rg a s)). 14 \<le> length f \<and> length f \<le> NET_FRAME_MAX \<and> frame_is_for_guest (ns_b (nb_do rg a s)) f"
  proof (cases a)
    case (B_Rx p)
    then show ?thesis using Cons.prems nb_do_acc [of p s rg] by (simp del: nb_do.simps)
  qed (use Cons.prems in \<open>auto simp: Let_def frame_is_for_guest_def split: nb_phase.splits prod.splits\<close>)
  from Cons.IH [OF this] Cons.prems(2) show ?case by simp
qed simp

definition nb_start :: "nb \<Rightarrow> 'r \<Rightarrow> 'r nb_sys" where
  "nb_start b r = \<lparr>ns_b = b, ns_r = r, ns_phase = R_Idle, ns_out = [], ns_acc = []\<rparr>"


text \<open>A broadcast frame that arrives while the length of another is being read.\<close>

definition demo_frame :: "u8 \<Rightarrow> u8 list" where
  "demo_frame x = replicate 6 0xff @ replicate 9 x"

definition demo_pkt :: "u8 \<Rightarrow> net_pkt" where
  "demo_pkt x = \<lparr>pk_len = 15, pk_read = (\<lambda>off n. if off + n \<le> 15 then Some (take n (drop off (demo_frame x))) else None)\<rparr>"

definition demo_nb :: nb where
  "demo_nb = \<lparr>nb_mac = [2, 0, 0, 0, 0, 1], nb_up = True, nb_rx_kept = 0, nb_rx_filtered = 0, nb_rx_dropped = 0, nb_tx_sent = 0, nb_tx_dropped = 0\<rparr>"

definition demo_bridge :: "u8 list nb_sys" where
  "demo_bridge = nb_run (list_ring 64) [B_Rx (demo_pkt 7), B_Recv 1514, B_Rx (demo_pkt 8), B_Next, B_Next] (nb_start demo_nb [])"

lemma demo_bridge_run: "ns_out demo_bridge = [(15, demo_frame 7)] \<and> ns_acc demo_bridge = [demo_frame 7, demo_frame 8] \<and> ns_phase demo_bridge = R_Idle"
  by code_simp

lemma demo_pkt_ok: "pk_ok (demo_pkt x)"
  by (auto simp: pk_ok_def demo_pkt_def demo_frame_def intro!: exI [of _ "demo_frame x"])


end
