(* ===== verification/Board.thy ===== *)
theory Board
  imports Net_Bridge
begin

text \<open>
  The board behind the platform interface (\<open>src/platform_zephyr.c\<close>): the microsecond clock built from
  a 32-bit cycle counter, the receive side of the UART, and the I2C and GPIO entry points of the
  paravirtual bridge. Drivers are arguments; the ring is that of \<open>Net_Bridge\<close>.
\<close>

section \<open>Time\<close>

record cyc =
  cyc_last :: u32
  cyc_total :: u64

text \<open>\<open>hz\<close> is the rate of the cycle counter, \<open>c\<close> what it reads.\<close>

definition plat_now_us_z :: "u32 \<Rightarrow> u32 \<Rightarrow> cyc \<Rightarrow> u64 \<times> cyc" where
  "plat_now_us_z hz c s =
     (let total = cyc_total s + ucast (c - cyc_last s)
      in (total div ucast (hz div 1000000), \<lparr>cyc_last = c, cyc_total = total\<rparr>))"

fun now_calls :: "u32 \<Rightarrow> nat list \<Rightarrow> cyc \<Rightarrow> u64 list \<times> cyc" where
  "now_calls hz [] s = ([], s)"
| "now_calls hz (t # ts) s =
     (let (v, s1) = plat_now_us_z hz (of_nat t) s; (vs, s2) = now_calls hz ts s1 in (v # vs, s2))"

text \<open>
  \<open>ts\<close> are the true cycle counts at the calls, of which the hardware shows the low 32 bits: as long as
  two calls are less than a wrap apart, every result is the true time.
\<close>

fun gaps_ok :: "nat \<Rightarrow> nat list \<Rightarrow> bool" where
  "gaps_ok t0 [] \<longleftrightarrow> True"
| "gaps_ok t0 (t # ts) \<longleftrightarrow> t0 \<le> t \<and> t < t0 + 2 ^ 32 \<and> gaps_ok t ts"

lemma ucast_small: "d < 2 ^ 32 \<Longrightarrow> ucast (of_nat d :: u32) = (of_nat d :: u64)"
  by (simp add: word_unat_eq_iff unsigned_ucast_eq unsigned_of_nat take_bit_nat_eq_self)

lemma cyc_step:
  assumes "t0 \<le> t" "t < t0 + 2 ^ 32"
  shows "of_nat t0 + ucast ((of_nat t :: u32) - of_nat t0) = (of_nat t :: u64)"
proof -
  have "(of_nat t :: u32) - of_nat t0 = of_nat (t - t0)" using assms(1) by (simp add: of_nat_diff)
  moreover have "ucast (of_nat (t - t0) :: u32) = (of_nat (t - t0) :: u64)"
    by (rule ucast_small) (use assms in linarith)
  ultimately show ?thesis using assms(1) by (simp add: of_nat_diff)
qed

lemma now_calls_exact:
  assumes "gaps_ok t0 ts" "s = \<lparr>cyc_last = of_nat t0, cyc_total = of_nat t0\<rparr>"
  shows "fst (now_calls hz ts s) = map (\<lambda>t. of_nat t div ucast (hz div 1000000)) ts"
  using assms
proof (induction ts arbitrary: t0 s)
  case (Cons t ts)
  have "t0 \<le> t" "t < t0 + 2 ^ 32" "gaps_ok t ts" using Cons.prems(1) by simp_all
  note st = cyc_step [OF this(1,2)]
  from Cons.IH [OF \<open>gaps_ok t ts\<close> refl] show ?case
    by (auto simp: Cons.prems(2) plat_now_us_z_def st Let_def split: prod.splits)
qed simp

section \<open>The UART's receiver\<close>

text \<open>
  The interrupt handler: \<open>reads\<close> is what the UART's queue gives at each turn of the loop, while it is
  ready; nothing ends the loop. The second component counts puts that did not store everything.
\<close>

fun uart_rx_isr :: "'r ring_ops \<Rightarrow> u8 list list \<Rightarrow> 'r \<times> u32 \<Rightarrow> 'r \<times> u32" where
  "uart_rx_isr rg [] s = s"
| "uart_rx_isr rg (bs # reads) s =
     (if bs = [] then s
      else let (n, r) = rg_put rg (fst s) bs
           in uart_rx_isr rg reads (r, if n < length bs then snd s + 1 else snd s))"

text \<open>\<open>plat_getc()\<close>: the telnet client first, then the ring.\<close>

definition plat_getc_uart :: "'r ring_ops \<Rightarrow> int \<Rightarrow> 'r \<Rightarrow> int \<times> 'r" where
  "plat_getc_uart rg telnet r =
     (if telnet \<ge> 0 then (telnet, r)
      else case rg_get rg r 1 of ([c], r1) \<Rightarrow> (uint c, r1) | (_, r1) \<Rightarrow> (- 1, r1))"

lemma uart_rx_stored:
  assumes "ring_laws rg N cont" "length (cont r) + length (concat (takeWhile (\<lambda>bs. bs \<noteq> []) reads)) \<le> N"
  shows "cont (fst (uart_rx_isr rg reads (r, d))) = cont r @ concat (takeWhile (\<lambda>bs. bs \<noteq> []) reads)"
    "snd (uart_rx_isr rg reads (r, d)) = d"
proof -
  have "cont (fst (uart_rx_isr rg reads (r, d))) = cont r @ concat (takeWhile (\<lambda>bs. bs \<noteq> []) reads) \<and> snd (uart_rx_isr rg reads (r, d)) = d"
    using assms(2)
  proof (induction reads arbitrary: r)
    case (Cons bs reads)
    show ?case
    proof (cases "bs = []")
      case False
      obtain n r1 where p: "rg_put rg r bs = (n, r1)" by fastforce
      have "length bs \<le> N - length (cont r)" using Cons.prems False by simp
      with p ring_lawsD(1,2) [OF assms(1), of r bs] have "n = length bs" "cont r1 = cont r @ bs" by auto
      with Cons.IH [of r1] Cons.prems False p show ?thesis by simp
    qed simp
  qed simp
  then show "cont (fst (uart_rx_isr rg reads (r, d))) = cont r @ concat (takeWhile (\<lambda>bs. bs \<noteq> []) reads)"
    "snd (uart_rx_isr rg reads (r, d)) = d" by blast+
qed

text \<open>A full ring counts one for a whole burst that is lost.\<close>

lemma uart_rx_undercounts:
  assumes "ring_laws rg N cont" "length (cont r) = N" "bs \<noteq> []"
  shows "cont (fst (uart_rx_isr rg [bs] (r, d))) = cont r" "snd (uart_rx_isr rg [bs] (r, d)) = d + 1"
  using ring_lawsD(1,2) [OF assms(1), of r bs] assms(2,3) by (auto split: prod.splits)

section \<open>The paravirtual bridge\<close>

definition PV_NI2C :: nat where "PV_NI2C = 1"
definition PV_NGPIO :: nat where "PV_NGPIO = 8"

definition plat_pv_caps :: "u8 \<times> u8" where
  "plat_pv_caps = (of_nat PV_NI2C, of_nat PV_NGPIO)"

text \<open>Whether a bus or a pin may be used; \<open>ready\<close> is \<open>device_is_ready()\<close>.\<close>

definition pv_bus_z :: "(u8 \<Rightarrow> bool) \<Rightarrow> u8 \<Rightarrow> u8 option" where
  "pv_bus_z ready bus = (if PV_NI2C = 0 \<or> unat bus \<ge> PV_NI2C \<or> \<not> ready bus then None else Some bus)"

definition pv_pin_z :: "(u8 \<Rightarrow> bool) \<Rightarrow> u8 \<Rightarrow> u8 option" where
  "pv_pin_z ready pin = (if unat pin \<ge> PV_NGPIO \<or> \<not> ready pin then None else Some pin)"

text \<open>The flags of Zephyr's GPIO driver.\<close>

record 'f gpio_flags =
  GPIO_DISCONNECTED :: 'f
  GPIO_INPUT :: 'f
  GPIO_OUTPUT :: 'f
  GPIO_PULL_UP :: 'f
  GPIO_PULL_DOWN :: 'f
  GPIO_OPEN_DRAIN :: 'f
  GPIO_OUTPUT_INIT_HIGH :: 'f
  GPIO_OUTPUT_INIT_LOW :: 'f

definition pv_map_gpio_flags :: "u32 gpio_flags \<Rightarrow> u32 \<Rightarrow> u32" where
  "pv_map_gpio_flags g f =
     (if bit f 7 then GPIO_DISCONNECTED g
      else (if bit f 0 then GPIO_INPUT g else 0) OR (if bit f 1 then GPIO_OUTPUT g else 0) OR
        (if bit f 2 then GPIO_PULL_UP g else 0) OR (if bit f 3 then GPIO_PULL_DOWN g else 0) OR
        (if bit f 4 then GPIO_OPEN_DRAIN g else 0) OR (if bit f 5 then GPIO_OUTPUT_INIT_HIGH g else 0) OR
        (if bit f 6 then GPIO_OUTPUT_INIT_LOW g else 0))"

definition plat_pv_i2c_write :: "(u8 \<Rightarrow> bool) \<Rightarrow> (u8 \<Rightarrow> u8 \<Rightarrow> u8 list \<Rightarrow> int) \<Rightarrow> u8 \<Rightarrow> u8 \<Rightarrow> u8 list \<Rightarrow> int" where
  "plat_pv_i2c_write ready drv bus addr w = (case pv_bus_z ready bus of None \<Rightarrow> - ENODEV | Some dev \<Rightarrow> drv dev addr w)"

definition plat_pv_i2c_read :: "(u8 \<Rightarrow> bool) \<Rightarrow> (u8 \<Rightarrow> u8 \<Rightarrow> nat \<Rightarrow> int \<times> u8 list) \<Rightarrow> u8 \<Rightarrow> u8 \<Rightarrow> nat \<Rightarrow> int \<times> u8 list" where
  "plat_pv_i2c_read ready drv bus addr n = (case pv_bus_z ready bus of None \<Rightarrow> (- ENODEV, []) | Some dev \<Rightarrow> drv dev addr n)"

definition plat_pv_i2c_write_read ::
    "(u8 \<Rightarrow> bool) \<Rightarrow> (u8 \<Rightarrow> u8 \<Rightarrow> u8 list \<Rightarrow> nat \<Rightarrow> int \<times> u8 list) \<Rightarrow> u8 \<Rightarrow> u8 \<Rightarrow> u8 list \<Rightarrow> nat \<Rightarrow> int \<times> u8 list" where
  "plat_pv_i2c_write_read ready drv bus addr w n = (case pv_bus_z ready bus of None \<Rightarrow> (- ENODEV, []) | Some dev \<Rightarrow> drv dev addr w n)"

definition plat_pv_gpio_config :: "(u8 \<Rightarrow> bool) \<Rightarrow> u32 gpio_flags \<Rightarrow> (u8 \<Rightarrow> u32 \<Rightarrow> int) \<Rightarrow> u8 \<Rightarrow> u32 \<Rightarrow> int" where
  "plat_pv_gpio_config ready g drv pin flags =
     (case pv_pin_z ready pin of None \<Rightarrow> - ENODEV | Some p \<Rightarrow> drv p (pv_map_gpio_flags g flags))"

definition plat_pv_gpio_set :: "(u8 \<Rightarrow> bool) \<Rightarrow> (u8 \<Rightarrow> bool \<Rightarrow> int) \<Rightarrow> u8 \<Rightarrow> u32 \<Rightarrow> int" where
  "plat_pv_gpio_set ready drv pin val = (case pv_pin_z ready pin of None \<Rightarrow> - ENODEV | Some p \<Rightarrow> drv p (val \<noteq> 0))"

definition plat_pv_gpio_get :: "(u8 \<Rightarrow> bool) \<Rightarrow> (u8 \<Rightarrow> int) \<Rightarrow> u8 \<Rightarrow> int \<times> u32 option" where
  "plat_pv_gpio_get ready drv pin =
     (case pv_pin_z ready pin of
        None \<Rightarrow> (- ENODEV, None)
      | Some p \<Rightarrow> let ret = drv p in if ret < 0 then (ret, None) else (0, Some (of_int ret)))"

definition plat_pv_gpio_toggle :: "(u8 \<Rightarrow> bool) \<Rightarrow> (u8 \<Rightarrow> int) \<Rightarrow> u8 \<Rightarrow> int" where
  "plat_pv_gpio_toggle ready drv pin = (case pv_pin_z ready pin of None \<Rightarrow> - ENODEV | Some p \<Rightarrow> drv p)"

text \<open>
  C32. The guest's clock does not jump when the cycle counter wraps: if the emulator reads it at least
  once per wrap of the 32-bit counter, from boot on, every reading is the number of cycles since
  boot divided by the cycles of a microsecond.
\<close>

theorem now_us_exact:
  assumes "gaps_ok 0 ts"
  shows "fst (now_calls hz ts \<lparr>cyc_last = 0, cyc_total = 0\<rparr>) = map (\<lambda>t. of_nat t div ucast (hz div 1000000)) ts"
  using now_calls_exact [OF assms] by simp

theorem now_us_exact_witness:
  "fst (now_calls 480000000 [4000000000, 8000000000, 12000000000] \<lparr>cyc_last = 0, cyc_total = 0\<rparr>) = [8333333, 16666666, 25000000]"
  using now_us_exact [of "[4000000000, 8000000000, 12000000000]" 480000000] by simp

end
