(* ===== verification/Pv_Guest.thy ===== *)
theory Pv_Guest
  imports Machine
begin

text \<open>
  The guest's side of the paravirtual bridge (\<open>ra8d1-linux/guest/pv-io.c\<close>, a Linux driver for an I2C
  adapter and a GPIO chip) run against the registers of \<open>Machine\<close>: \<open>writel()\<close> and \<open>readl()\<close> are
  accesses of 32 bits to the bridge. The specification is the bus as the guest's callers see it: what
  happens when the messages go to the board directly.
\<close>

section \<open>Register accesses\<close>

definition EOPNOTSUPP :: int where "EOPNOTSUPP = 95"
definition PV_ID_MAGIC :: u32 where "PV_ID_MAGIC = 0x50564930"

definition writel :: "plat \<Rightarrow> u32 \<Rightarrow> u32 \<Rightarrow> emu \<Rightarrow> emu" where
  "writel P v off s = pv_write P s off v 2"

definition readl :: "plat \<Rightarrow> u32 \<Rightarrow> emu \<Rightarrow> u32 \<times> emu" where
  "readl P off s = pv_read P s off 2"

text \<open>Bytes packed into words of the data window, and back; \<open>i\<close> is the loop's counter.\<close>

function pv_put :: "plat \<Rightarrow> nat \<Rightarrow> u8 list \<Rightarrow> emu \<Rightarrow> emu" where
  "pv_put P i [] s = s"
| "pv_put P i (b # bs) s = pv_put P (i + 4) (drop 4 (b # bs)) (writel P (of_le (take 4 (b # bs))) (PV_REG_DATA + of_nat i) s)"
  by pat_completeness auto

termination by (relation "measure (\<lambda>(P, i, bs, s). length bs)") auto

function pv_get :: "plat \<Rightarrow> nat \<Rightarrow> nat \<Rightarrow> emu \<Rightarrow> u8 list \<times> emu" where
  "pv_get P i n s =
     (if n = 0 then ([], s)
      else let (w, s1) = readl P (PV_REG_DATA + of_nat i) s; (rest, s2) = pv_get P (i + 4) (n - 4) s1
           in (take n (le_bytes 4 w) @ rest, s2))"
  by pat_completeness auto

termination by (relation "measure (\<lambda>(P, i, n, s). n)") auto

declare pv_get.simps [simp del]

definition pv_cmd :: "plat \<Rightarrow> u32 \<Rightarrow> emu \<Rightarrow> int \<times> emu" where
  "pv_cmd P cmd s = (case readl P PV_REG_STATUS (writel P cmd PV_REG_CMD s) of (st, s1) \<Rightarrow> (sint st, s1))"

section \<open>I2C transfers\<close>

text \<open>\<open>struct i2c_msg\<close>, with the two flags the driver looks at.\<close>

record i2c_msg =
  im_addr :: u16
  im_rd :: bool
  im_ten :: bool
  im_buf :: "u8 list"

abbreviation im_len :: "i2c_msg \<Rightarrow> nat" where "im_len m \<equiv> length (im_buf m)"

text \<open>A write and a read of one device are one command, with a repeated start.\<close>

definition pv_pair :: "nat \<Rightarrow> i2c_msg \<Rightarrow> i2c_msg \<Rightarrow> bool" where
  "pv_pair db m n \<longleftrightarrow> \<not> im_rd m \<and> im_rd n \<and> im_addr n = im_addr m \<and> im_len n \<le> db \<and> im_len m + im_len n \<le> db"

definition pv_i2c_pair :: "plat \<Rightarrow> i2c_msg \<Rightarrow> i2c_msg \<Rightarrow> emu \<Rightarrow> int \<times> u8 list \<times> emu" where
  "pv_i2c_pair P m n s =
     (let s1 = writel P (of_nat (im_len n)) PV_REG_I2C_RLEN (writel P (of_nat (im_len m)) PV_REG_I2C_WLEN (pv_put P 0 (im_buf m) s));
          (ret, s2) = pv_cmd P PV_CMD_I2C_WRITE_READ s1
      in if ret \<noteq> 0 then (ret, im_buf n, s2) else case pv_get P 0 (im_len n) s2 of (bs, s3) \<Rightarrow> (0, bs, s3))"

definition pv_i2c_one :: "plat \<Rightarrow> i2c_msg \<Rightarrow> emu \<Rightarrow> int \<times> u8 list \<times> emu" where
  "pv_i2c_one P m s =
     (if im_rd m then
        (let (ret, s1) = pv_cmd P PV_CMD_I2C_READ (writel P (of_nat (im_len m)) PV_REG_I2C_RLEN s)
         in if ret \<noteq> 0 then (ret, im_buf m, s1) else case pv_get P 0 (im_len m) s1 of (bs, s2) \<Rightarrow> (0, bs, s2))
      else if im_len m = 0 then
        (case pv_cmd P PV_CMD_I2C_PROBE (writel P 0 PV_REG_I2C_WLEN s) of (ret, s1) \<Rightarrow> (ret, im_buf m, s1))
      else
        (case pv_cmd P PV_CMD_I2C_WRITE (writel P (of_nat (im_len m)) PV_REG_I2C_WLEN (pv_put P 0 (im_buf m) s)) of
           (ret, s1) \<Rightarrow> (ret, im_buf m, s1)))"

text \<open>The loop over the messages: the result, the messages with what was read, the machine.\<close>

function pv_i2c_loop :: "plat \<Rightarrow> nat \<Rightarrow> i2c_msg list \<Rightarrow> int \<Rightarrow> emu \<Rightarrow> int \<times> i2c_msg list \<times> emu" where
  "pv_i2c_loop P db [] n s = (n, [], s)"
| "pv_i2c_loop P db (m # ms) n s =
     (if im_ten m then (- EOPNOTSUPP, m # ms, s)
      else if im_len m > db then (- EOPNOTSUPP, m # ms, s)
      else let s1 = writel P (ucast (im_addr m)) PV_REG_I2C_ADDR s
           in if ms \<noteq> [] \<and> pv_pair db m (hd ms) then
                (case pv_i2c_pair P m (hd ms) s1 of (ret, bs, s2) \<Rightarrow>
                   if ret \<noteq> 0 then (ret, m # ms, s2)
                   else (case pv_i2c_loop P db (tl ms) (n + 2) s2 of (r, rest, s3) \<Rightarrow> (r, m # (hd ms)\<lparr>im_buf := bs\<rparr> # rest, s3)))
              else
                (case pv_i2c_one P m s1 of (ret, bs, s2) \<Rightarrow>
                   if ret \<noteq> 0 then (ret, m # ms, s2)
                   else (case pv_i2c_loop P db ms (n + 1) s2 of (r, rest, s3) \<Rightarrow> (r, m\<lparr>im_buf := bs\<rparr> # rest, s3))))"
  by pat_completeness auto

termination by (relation "measure (\<lambda>(P, db, ms, n, s). length ms)") auto

declare pv_i2c_loop.simps(2) [simp del]

definition pv_i2c_xfer :: "plat \<Rightarrow> nat \<Rightarrow> i2c_msg list \<Rightarrow> emu \<Rightarrow> int \<times> i2c_msg list \<times> emu" where
  "pv_i2c_xfer P db ms s = pv_i2c_loop P db ms 0 (writel P 0 PV_REG_I2C_BUS s)"

section \<open>GPIO\<close>

definition PV_GPIO_F_INPUT :: u32 where "PV_GPIO_F_INPUT = 1"
definition PV_GPIO_F_OUTPUT :: u32 where "PV_GPIO_F_OUTPUT = 2"
definition PV_GPIO_F_INIT_HIGH :: u32 where "PV_GPIO_F_INIT_HIGH = 32"
definition PV_GPIO_F_INIT_LOW :: u32 where "PV_GPIO_F_INIT_LOW = 64"

definition pv_gpio_get :: "plat \<Rightarrow> u32 \<Rightarrow> emu \<Rightarrow> int \<times> emu" where
  "pv_gpio_get P off s =
     (let (ret, s1) = pv_cmd P PV_CMD_GPIO_GET (writel P off PV_REG_GPIO_PIN s)
      in if ret = 0 then case readl P PV_REG_GPIO_VAL s1 of (v, s2) \<Rightarrow> (if v \<noteq> 0 then 1 else 0, s2) else (ret, s1))"

definition pv_gpio_set :: "plat \<Rightarrow> u32 \<Rightarrow> int \<Rightarrow> emu \<Rightarrow> emu" where
  "pv_gpio_set P off val s =
     snd (pv_cmd P PV_CMD_GPIO_SET (writel P (if val \<noteq> 0 then 1 else 0) PV_REG_GPIO_VAL (writel P off PV_REG_GPIO_PIN s)))"

definition pv_gpio_dir_in :: "plat \<Rightarrow> u32 \<Rightarrow> emu \<Rightarrow> int \<times> emu" where
  "pv_gpio_dir_in P off s =
     pv_cmd P PV_CMD_GPIO_CONFIG (writel P PV_GPIO_F_INPUT PV_REG_GPIO_FLAGS (writel P off PV_REG_GPIO_PIN s))"

definition pv_gpio_dir_out :: "plat \<Rightarrow> u32 \<Rightarrow> int \<Rightarrow> emu \<Rightarrow> int \<times> emu" where
  "pv_gpio_dir_out P off val s =
     pv_cmd P PV_CMD_GPIO_CONFIG
       (writel P (PV_GPIO_F_OUTPUT OR (if val \<noteq> 0 then PV_GPIO_F_INIT_HIGH else PV_GPIO_F_INIT_LOW)) PV_REG_GPIO_FLAGS
         (writel P off PV_REG_GPIO_PIN s))"

text \<open>
  \<open>pv_io_init()\<close>: no bridge, or the numbers of buses and pins and the size of the window. Whether the
  probing load faults is an argument.
\<close>

definition pv_io_init :: "plat \<Rightarrow> bool \<Rightarrow> emu \<Rightarrow> (u32 \<times> u32 \<times> nat) option \<times> emu" where
  "pv_io_init P fault s =
     (if fault then (None, s)
      else let (id1, s1) = readl P PV_REG_ID s
           in if id1 \<noteq> PV_ID_MAGIC then (None, s1)
              else let (caps, s2) = readl P PV_REG_CAPS s1
                   in (Some (caps AND 0xff, drop_bit 8 caps AND 0xff, unat (drop_bit 16 caps)), s2))"

section \<open>The bus as a caller sees it\<close>

text \<open>
  The specification: each message, or write-read pair, is one transaction on bus 0, in order, until
  one fails. An empty write asks whether the device answers. Transfers the host refuses, an empty
  read alone or in a pair or an empty write in a pair, give EINVAL and reach no bus.
\<close>

definition i2c_address :: "i2c_msg \<Rightarrow> u8" where
  "i2c_address m = ucast (im_addr m)"

definition bus_pair :: "plat \<Rightarrow> i2c_msg \<Rightarrow> i2c_msg \<Rightarrow> history \<Rightarrow> int \<times> u8 list \<times> history" where
  "bus_pair P m n h =
     (if im_len m = 0 \<or> im_len n = 0 then (- EINVAL, im_buf n, h)
      else let (ret, bs) = po_i2c_write_read P h 0 (i2c_address m) (im_buf m) (im_len n)
           in (ret, if ret \<noteq> 0 then im_buf n else bs, EvI2cWriteRead 0 (i2c_address m) (im_buf m) (im_len n) # h))"

definition bus_one :: "plat \<Rightarrow> i2c_msg \<Rightarrow> history \<Rightarrow> int \<times> u8 list \<times> history" where
  "bus_one P m h =
     (if im_rd m then
        (if im_len m = 0 then (- EINVAL, im_buf m, h)
         else let (ret, bs) = po_i2c_read P h 0 (i2c_address m) (im_len m)
              in (ret, if ret \<noteq> 0 then im_buf m else bs, EvI2cRead 0 (i2c_address m) (im_len m) # h))
      else if im_len m = 0 then (fst (po_i2c_read P h 0 (i2c_address m) 1), im_buf m, EvI2cRead 0 (i2c_address m) 1 # h)
      else (po_i2c_write P h 0 (i2c_address m) (im_buf m), im_buf m, EvI2cWrite 0 (i2c_address m) (im_buf m) # h))"

function i2c_bus :: "plat \<Rightarrow> i2c_msg list \<Rightarrow> int \<Rightarrow> history \<Rightarrow> int \<times> i2c_msg list \<times> history" where
  "i2c_bus P [] n h = (n, [], h)"
| "i2c_bus P (m # ms) n h =
     (if im_ten m \<or> im_len m > 256 then (- EOPNOTSUPP, m # ms, h)
      else if ms \<noteq> [] \<and> pv_pair 256 m (hd ms) then
        (case bus_pair P m (hd ms) h of (ret, bs, h1) \<Rightarrow>
           if ret \<noteq> 0 then (ret, m # ms, h1)
           else (case i2c_bus P (tl ms) (n + 2) h1 of (r, rest, h2) \<Rightarrow> (r, m # (hd ms)\<lparr>im_buf := bs\<rparr> # rest, h2)))
      else
        (case bus_one P m h of (ret, bs, h1) \<Rightarrow>
           if ret \<noteq> 0 then (ret, m # ms, h1)
           else (case i2c_bus P ms (n + 1) h1 of (r, rest, h2) \<Rightarrow> (r, m\<lparr>im_buf := bs\<rparr> # rest, h2))))"
  by pat_completeness auto

termination by (relation "measure (\<lambda>(P, ms, n, h). length ms)") auto

declare i2c_bus.simps(2) [simp del]

text \<open>What a driver of the board promises: a result of 32 bits, and as many bytes as asked for.\<close>

definition int32 :: "int \<Rightarrow> bool" where
  "int32 r \<longleftrightarrow> - (2 ^ 31) \<le> r \<and> r < 2 ^ 31"

definition i2c_driver_ok :: "plat \<Rightarrow> bool" where
  "i2c_driver_ok P \<longleftrightarrow> (\<forall>h b a w. int32 (po_i2c_write P h b a w)) \<and>
     (\<forall>h b a n. case po_i2c_read P h b a n of (r, bs) \<Rightarrow> int32 r \<and> (r = 0 \<longrightarrow> length bs = n)) \<and>
     (\<forall>h b a w n. case po_i2c_write_read P h b a w n of (r, bs) \<Rightarrow> int32 r \<and> (r = 0 \<longrightarrow> length bs = n))"


section \<open>The window\<close>

lemma pv_window_offset:
  assumes "i mod 4 = 0" "i < 256"
  shows "pv_in_data (PV_REG_DATA + of_nat i)" "(PV_REG_DATA + of_nat i) AND 3 = 0" "unat (PV_REG_DATA + of_nat i) = 0x200 + i"
proof -
  have b: "i \<le> 252" using assms by presburger
  then have u: "unat (of_nat i :: u32) = i" by (simp add: unsigned_of_nat take_bit_nat_eq_self)
  then show n: "unat (PV_REG_DATA + of_nat i) = 0x200 + i" using b by (simp add: PV_REG_DATA_def unat_word_ariths)
  then show "pv_in_data (PV_REG_DATA + of_nat i)"
    using b by (simp add: pv_in_data_def word_le_nat_alt word_less_nat_alt) (simp add: PV_REG_DATA_def PV_DATA_BYTES_def)
  have "(0x200 + i) mod 4 = 0" using assms(1) by presburger
  then show "(PV_REG_DATA + of_nat i) AND 3 = 0" using n by (simp add: and3_unat)
qed

lemma writel_data:
  "i mod 4 = 0 \<Longrightarrow> i < 256 \<Longrightarrow>
   writel P v (PV_REG_DATA + of_nat i) s = upd_m (\<lambda>m. m\<lparr>m_pv_data := mem_write (m_pv_data m) i (le_bytes 4 v)\<rparr>) s"
  by (simp add: writel_def pv_write_data pv_window_offset)

lemma readl_data:
  "i mod 4 = 0 \<Longrightarrow> i < 256 \<Longrightarrow> readl P (PV_REG_DATA + of_nat i) s = (of_le (mem_read (m_pv_data (e_m s)) i 4), s)"
  by (simp add: readl_def pv_read_data pv_window_offset)

lemma take_le_bytes: "length bs \<le> 4 \<Longrightarrow> take (length bs) (le_bytes 4 (of_le bs :: u32)) = bs"
  using le_bytes_of_le [of bs, where 'a = 32] by (simp add: le_bytes_def take_map)

lemma pv_get_window:
  "i mod 4 = 0 \<Longrightarrow> i + n \<le> 256 \<Longrightarrow> pv_get P i n s = (mem_read (m_pv_data (e_m s)) i n, s)"
proof (induction n arbitrary: i rule: less_induct)
  case (less n)
  show ?case
  proof (cases "n = 0")
    case True
    then show ?thesis by (simp add: pv_get.simps)
  next
    case False
    let ?D = "m_pv_data (e_m s)"
    have r: "readl P (PV_REG_DATA + of_nat i) s = (of_le (mem_read ?D i 4), s)" using False less.prems by (intro readl_data) simp_all
    have t: "take n (le_bytes 4 (of_le (mem_read ?D i 4) :: u32)) = mem_read ?D i (min n 4)"
      using le_bytes_of_le [of "mem_read ?D i 4", where 'a = 32] by (simp add: mem_read_def take_map min_def)
    show ?thesis
    proof (cases "n \<le> 4")
      case True
      then have "pv_get P (i + 4) (n - 4) s = ([], s)" by (simp add: pv_get.simps)
      with r t True False show ?thesis by (subst pv_get.simps) simp
    next
      case F: False
      then have "pv_get P (i + 4) (n - 4) s = (mem_read ?D (i + 4) (n - 4), s)"
        using less.prems by (intro less.IH) (simp_all add: mod_add_eq)
      moreover have "mem_read ?D i n = mem_read ?D i 4 @ mem_read ?D (i + 4) (n - 4)" using mem_read_add [of ?D i 4 "n - 4"] F by simp
      ultimately show ?thesis using r t False F by (subst pv_get.simps) (simp add: min_def)
    qed
  qed
qed

lemma pv_put_window:
  "i mod 4 = 0 \<Longrightarrow> i + length bs \<le> 256 \<Longrightarrow>
   \<exists>D. pv_put P i bs s = upd_m (\<lambda>m. m\<lparr>m_pv_data := D\<rparr>) s \<and> mem_read D i (length bs) = bs \<and>
     (\<forall>a < i. D a = m_pv_data (e_m s) a)"
proof (induction P i bs s rule: pv_put.induct)
  case (1 P i s)
  then show ?case by (intro exI [of _ "m_pv_data (e_m s)"]) (simp add: upd_m_def)
next
  case (2 P i b bs s)
  define s1 where "s1 = writel P (of_le (take 4 (b # bs))) (PV_REG_DATA + of_nat i) s"
  let ?w = "mem_write (m_pv_data (e_m s)) i (le_bytes 4 (of_le (take 4 (b # bs)) :: u32))"
  have s1: "s1 = upd_m (\<lambda>m. m\<lparr>m_pv_data := ?w\<rparr>) s"
    unfolding s1_def using 2(2,3) by (simp add: writel_data upd_m_def)
  show ?case
  proof (cases "length (b # bs) \<le> 4")
    case True
    then have "drop 4 (b # bs) = []" by simp
    then have "pv_put P i (b # bs) s = upd_m (\<lambda>m. m\<lparr>m_pv_data := ?w\<rparr>) s" using s1 by (simp add: s1_def)
    moreover have "mem_read ?w i (length (b # bs)) = b # bs"
    proof -
      have "mem_read ?w i 4 = le_bytes 4 (of_le (take 4 (b # bs)) :: u32)" by (rule mem_read_write_same') simp
      then show ?thesis using mem_read_sub [of 0 "length (b # bs)" 4 ?w i] take_le_bytes [OF True] True
        by (simp del: of_le.simps)
    qed

    ultimately show ?thesis by (intro exI [of _ ?w]) (simp add: mem_write_def)
  next
    case False
    have "(i + 4) mod 4 = 0" "i + 4 + length (drop 4 (b # bs)) \<le> 256" using 2(2,3) False by (simp_all add: mod_add_eq)
    from "2.IH" [OF this] obtain D where D: "pv_put P (i + 4) (drop 4 (b # bs)) s1 = upd_m (\<lambda>m. m\<lparr>m_pv_data := D\<rparr>) s1"
      "mem_read D (i + 4) (length (drop 4 (b # bs))) = drop 4 (b # bs)" "\<forall>a < i + 4. D a = m_pv_data (e_m s1) a"
      unfolding s1_def by blast
    have "mem_read D i 4 = mem_read ?w i 4" using D(3) s1 by (intro mem_read_cong) (simp add: upd_m_def)
    also have "\<dots> = take 4 (b # bs)" using take_le_bytes [of "take 4 (b # bs)"] False by (simp add: mem_read_write_same')
    finally have "mem_read D i 4 = take 4 (b # bs)" .
    moreover have "length (b # bs) = 4 + length (drop 4 (b # bs))" using False by simp
    ultimately have "mem_read D i (length (b # bs)) = b # bs"
      using mem_read_add [of D i 4 "length (drop 4 (b # bs))"] D(2) by (metis append_take_drop_id)
    moreover have "pv_put P i (b # bs) s = upd_m (\<lambda>m. m\<lparr>m_pv_data := D\<rparr>) s" using D(1) s1 by (simp add: s1_def upd_m_def)
    moreover have "\<forall>a < i. D a = m_pv_data (e_m s) a" using D(3) s1 by (simp add: upd_m_def mem_write_def)
    ultimately show ?thesis by blast
  qed
qed


section \<open>Commands\<close>

lemma writel_regs:
  "writel P v PV_REG_I2C_BUS s = upd_m (\<lambda>m. m\<lparr>m_pv_i2c_bus := v\<rparr>) s"
  "writel P v PV_REG_I2C_ADDR s = upd_m (\<lambda>m. m\<lparr>m_pv_i2c_addr := v\<rparr>) s"
  "writel P v PV_REG_I2C_WLEN s = upd_m (\<lambda>m. m\<lparr>m_pv_i2c_wlen := v\<rparr>) s"
  "writel P v PV_REG_I2C_RLEN s = upd_m (\<lambda>m. m\<lparr>m_pv_i2c_rlen := v\<rparr>) s"
  "writel P v PV_REG_GPIO_PIN s = upd_m (\<lambda>m. m\<lparr>m_pv_gpio_pin := v\<rparr>) s"
  "writel P v PV_REG_GPIO_VAL s = upd_m (\<lambda>m. m\<lparr>m_pv_gpio_val := v\<rparr>) s"
  "writel P v PV_REG_GPIO_FLAGS s = upd_m (\<lambda>m. m\<lparr>m_pv_gpio_flags := v\<rparr>) s"
  "writel P v PV_REG_CMD s = pv_exec P s v"
  by (simp_all add: writel_def pv_write_def pv_in_data_def pv_reg_defs PV_DATA_BYTES_def)

lemma readl_regs:
  "readl P PV_REG_STATUS s = (m_pv_status (e_m s), s)" "readl P PV_REG_GPIO_VAL s = (m_pv_gpio_val (e_m s), s)"
  "readl P PV_REG_ID s = (PV_ID, s)"
  by (simp_all add: readl_def pv_read_def pv_in_data_def pv_reg_defs PV_DATA_BYTES_def)

lemma pv_cmd_exec: "pv_cmd P c s = (sint (m_pv_status (e_m (pv_exec P s c))), pv_exec P s c)"
  by (simp add: pv_cmd_def writel_regs readl_regs)

lemma int32_word: "int32 r \<Longrightarrow> sint (word_of_int r :: u32) = r"
  by (simp add: int32_def signed_of_int signed_take_bit_int_eq_self)

definition pv_ready :: "emu \<Rightarrow> bool" where
  "pv_ready s \<longleftrightarrow> m_pv_i2c_bus (e_m s) = 0 \<and> unat (m_pv_i2c_wlen (e_m s)) \<le> 256 \<and> unat (m_pv_i2c_rlen (e_m s)) \<le> 256"

text \<open>All that is not the bridge's own.\<close>

definition pv_clear :: "rvmachine \<Rightarrow> rvmachine" where
  "pv_clear m = m\<lparr>m_pv_status := 0, m_pv_result := 0, m_pv_i2c_bus := 0, m_pv_i2c_addr := 0, m_pv_i2c_wlen := 0, m_pv_i2c_rlen := 0,
     m_pv_gpio_pin := 0, m_pv_gpio_val := 0, m_pv_gpio_flags := 0, m_pv_data := (\<lambda>_. 0)\<rparr>"

definition pv_kept :: "emu \<Rightarrow> emu \<Rightarrow> bool" where
  "pv_kept s s' \<longleftrightarrow> e_ram s' = e_ram s \<and> e_cpu s' = e_cpu s \<and> e_map s' = e_map s \<and> pv_clear (e_m s') = pv_clear (e_m s)"

lemma pv_kept_refl [simp]: "pv_kept s s"
  by (simp add: pv_kept_def)

lemma pv_kept_trans: "pv_kept s s1 \<Longrightarrow> pv_kept s1 s2 \<Longrightarrow> pv_kept s s2"
  by (simp add: pv_kept_def)

lemma of_nat_len: "n \<le> 256 \<Longrightarrow> unat (of_nat n :: u32) = n"
  by (simp add: unsigned_of_nat take_bit_nat_eq_self)

lemma driver_ok:
  assumes "i2c_driver_ok P"
  shows "int32 (po_i2c_write P h b a w)" "int32 (fst (po_i2c_read P h b a n))" "int32 (fst (po_i2c_write_read P h b a w n))"
    "fst (po_i2c_read P h b a n) = 0 \<Longrightarrow> length (snd (po_i2c_read P h b a n)) = n"
    "fst (po_i2c_write_read P h b a w n) = 0 \<Longrightarrow> length (snd (po_i2c_write_read P h b a w n)) = n"
  using assms by (auto simp: i2c_driver_ok_def split_beta)

lemma einval_word: "sint (word_of_int (- EINVAL) :: u32) = - EINVAL"
  by (rule int32_word) (simp add: int32_def EINVAL_def)

text \<open>The command of a write, of a read, of both and of a probe.\<close>

lemma exec_write:
  assumes "m_pv_i2c_bus (e_m s) = 0" "unat (m_pv_i2c_wlen (e_m s)) = length w" "unat (m_pv_i2c_rlen (e_m s)) \<le> 256" "w \<noteq> []"
    "length w \<le> 256" "mem_read (m_pv_data (e_m s)) 0 (length w) = w" "i2c_driver_ok P"
  shows "\<exists>s'. pv_cmd P PV_CMD_I2C_WRITE s = (po_i2c_write P (e_ev s) 0 (pv_addr s) w, s') \<and>
    e_ev s' = EvI2cWrite 0 (pv_addr s) w # e_ev s \<and> pv_kept s s' \<and> (pv_ready s \<longrightarrow> pv_ready s')"
proof -
  have "pv_bus s = 0" using assms(1) by (simp add: pv_bus_def)
  then show ?thesis using assms int32_word [OF driver_ok(1) [OF assms(7)]]
    by (simp add: pv_cmd_exec pv_exec_def pv_cmd_defs Let_def pv_do_write_def pv_status_def add_ev_def upd_m_def PV_DATA_BYTES_def
        pv_bus_def pv_addr_def pv_kept_def pv_clear_def pv_ready_def)
qed

lemma pv_reply_full:
  assumes "int32 (fst res)" "fst res = 0 \<longrightarrow> length (snd res) = n"
  shows "sint (m_pv_status (e_m (pv_reply n res s))) = fst res" "e_ev (pv_reply n res s) = e_ev s"
    "fst res = 0 \<longrightarrow> mem_read (m_pv_data (e_m (pv_reply n res s))) 0 n = snd res"
    "pv_kept s (pv_reply n res s)" "pv_ready s \<longrightarrow> pv_ready (pv_reply n res s)"
proof -
  have "(word_of_int (fst res) :: u32) = 0 \<longleftrightarrow> fst res = 0" using int32_word [OF assms(1)] by (metis signed_0 of_int_0)
  then show "sint (m_pv_status (e_m (pv_reply n res s))) = fst res" "e_ev (pv_reply n res s) = e_ev s"
    "fst res = 0 \<longrightarrow> mem_read (m_pv_data (e_m (pv_reply n res s))) 0 n = snd res"
    "pv_kept s (pv_reply n res s)" "pv_ready s \<longrightarrow> pv_ready (pv_reply n res s)"
    using assms(2) int32_word [OF assms(1)]
    by (simp_all add: pv_reply_def Let_def pv_status_def upd_m_def pv_kept_def pv_clear_def pv_ready_def mem_read_write_same')
qed

lemma exec_read:
  assumes "m_pv_i2c_bus (e_m s) = 0" "unat (m_pv_i2c_rlen (e_m s)) = n" "unat (m_pv_i2c_wlen (e_m s)) \<le> 256" "0 < n" "n \<le> 256"
    "i2c_driver_ok P" "po_i2c_read P (e_ev s) 0 (pv_addr s) n = (ret, bs)"
  shows "\<exists>s'. pv_cmd P PV_CMD_I2C_READ s = (ret, s') \<and> e_ev s' = EvI2cRead 0 (pv_addr s) n # e_ev s \<and> pv_kept s s' \<and>
    (pv_ready s \<longrightarrow> pv_ready s') \<and> (ret = 0 \<longrightarrow> mem_read (m_pv_data (e_m s')) 0 n = bs)"
proof -
  define s0 where "s0 = add_ev (EvI2cRead 0 (pv_addr s) n) (upd_m (\<lambda>m. m\<lparr>m_pv_result := 0\<rparr>) s)"
  have d: "int32 (fst (ret, bs))" "fst (ret, bs) = 0 \<longrightarrow> length (snd (ret, bs)) = n"
    using driver_ok(2,4) [OF assms(6), of "e_ev s" 0 "pv_addr s" n] assms(7) by simp_all
  have s0: "e_ev s0 = EvI2cRead 0 (pv_addr s) n # e_ev s" "pv_kept s s0" "pv_ready s \<longrightarrow> pv_ready s0"
    by (simp_all add: s0_def add_ev_def upd_m_def pv_kept_def pv_clear_def pv_ready_def)
  have "pv_exec P s PV_CMD_I2C_READ = pv_reply n (ret, bs) s0"
    using assms by (simp add: pv_exec_def pv_cmd_defs Let_def pv_do_read_def PV_DATA_BYTES_def s0_def pv_bus_def pv_addr_def upd_m_def)
  with pv_reply_full [OF d, of s0] s0 pv_kept_trans [of s s0] show ?thesis by (simp add: pv_cmd_exec)
qed

lemma exec_write_read:
  assumes "m_pv_i2c_bus (e_m s) = 0" "unat (m_pv_i2c_wlen (e_m s)) = length w" "unat (m_pv_i2c_rlen (e_m s)) = n" "w \<noteq> []"
    "length w \<le> 256" "0 < n" "n \<le> 256" "mem_read (m_pv_data (e_m s)) 0 (length w) = w" "i2c_driver_ok P"
    "po_i2c_write_read P (e_ev s) 0 (pv_addr s) w n = (ret, bs)"
  shows "\<exists>s'. pv_cmd P PV_CMD_I2C_WRITE_READ s = (ret, s') \<and> e_ev s' = EvI2cWriteRead 0 (pv_addr s) w n # e_ev s \<and> pv_kept s s' \<and>
    (pv_ready s \<longrightarrow> pv_ready s') \<and> (ret = 0 \<longrightarrow> mem_read (m_pv_data (e_m s')) 0 n = bs)"
proof -
  define s0 where "s0 = add_ev (EvI2cWriteRead 0 (pv_addr s) w n) (upd_m (\<lambda>m. m\<lparr>m_pv_result := 0\<rparr>) s)"
  have d: "int32 (fst (ret, bs))" "fst (ret, bs) = 0 \<longrightarrow> length (snd (ret, bs)) = n"
    using driver_ok(3,5) [OF assms(9), of "e_ev s" 0 "pv_addr s" w n] assms(10) by simp_all
  have s0: "e_ev s0 = EvI2cWriteRead 0 (pv_addr s) w n # e_ev s" "pv_kept s s0" "pv_ready s \<longrightarrow> pv_ready s0"
    by (simp_all add: s0_def add_ev_def upd_m_def pv_kept_def pv_clear_def pv_ready_def)
  have "pv_exec P s PV_CMD_I2C_WRITE_READ = pv_reply n (ret, bs) s0"
    using assms by (simp add: pv_exec_def pv_cmd_defs Let_def pv_do_write_read_def PV_DATA_BYTES_def s0_def pv_bus_def pv_addr_def upd_m_def)
  with pv_reply_full [OF d, of s0] s0 pv_kept_trans [of s s0] show ?thesis by (simp add: pv_cmd_exec)
qed

lemma exec_probe:
  assumes "pv_ready s" "i2c_driver_ok P"
  shows "\<exists>s'. pv_cmd P PV_CMD_I2C_PROBE s = (fst (po_i2c_read P (e_ev s) 0 (pv_addr s) 1), s') \<and>
    e_ev s' = EvI2cRead 0 (pv_addr s) 1 # e_ev s \<and> pv_kept s s' \<and> pv_ready s'"
  using assms int32_word [OF driver_ok(2) [OF assms(2)]]
  by (simp add: pv_cmd_exec pv_exec_def pv_cmd_defs Let_def pv_do_probe_def pv_status_def add_ev_def upd_m_def PV_DATA_BYTES_def
      pv_bus_def pv_addr_def pv_kept_def pv_clear_def pv_ready_def)

text \<open>A read or a combined transfer with an empty part is refused.\<close>

lemma exec_empty:
  assumes "pv_ready s" "c = PV_CMD_I2C_READ \<and> m_pv_i2c_rlen (e_m s) = 0 \<or>
    c = PV_CMD_I2C_WRITE_READ \<and> (m_pv_i2c_wlen (e_m s) = 0 \<or> m_pv_i2c_rlen (e_m s) = 0)"
  shows "\<exists>s'. pv_cmd P c s = (- EINVAL, s') \<and> e_ev s' = e_ev s \<and> pv_kept s s' \<and> pv_ready s'"
  using assms einval_word
  by (auto simp: pv_cmd_exec pv_exec_def pv_cmd_defs Let_def pv_status_def upd_m_def PV_DATA_BYTES_def pv_kept_def pv_clear_def pv_ready_def)

text \<open>One message, and one pair, against the bus.\<close>

lemma upd_kept:
  "pv_kept s (upd_m (\<lambda>m. m\<lparr>m_pv_i2c_bus := v\<rparr>) s)" "pv_kept s (upd_m (\<lambda>m. m\<lparr>m_pv_i2c_addr := v\<rparr>) s)"
  "pv_kept s (upd_m (\<lambda>m. m\<lparr>m_pv_i2c_wlen := v\<rparr>) s)" "pv_kept s (upd_m (\<lambda>m. m\<lparr>m_pv_i2c_rlen := v\<rparr>) s)"
  "pv_kept s (upd_m (\<lambda>m. m\<lparr>m_pv_data := D\<rparr>) s)"
  by (simp_all add: pv_kept_def pv_clear_def upd_m_def)

lemma pv_one_bus:
  assumes "pv_ready s" "im_len m \<le> 256" "pv_addr s = i2c_address m" "i2c_driver_ok P" "pv_i2c_one P m s = (ret, bs, s')"
  shows "bus_one P m (e_ev s) = (ret, bs, e_ev s') \<and> pv_ready s' \<and> pv_kept s s'"
proof -
  let ?n = "im_len m"
  note n = of_nat_len [OF assms(2)]
  consider (rd) "im_rd m" | (probe) "\<not> im_rd m" "?n = 0" | (wr) "\<not> im_rd m" "?n \<noteq> 0" by blast
  then show ?thesis
  proof cases
    case rd
    define s1 where "s1 = writel P (of_nat ?n) PV_REG_I2C_RLEN s"
    have s1: "pv_ready s1" "pv_kept s s1" "e_ev s1 = e_ev s" "m_pv_i2c_rlen (e_m s1) = of_nat ?n" "pv_addr s1 = i2c_address m"
      using assms(1-3) n by (simp_all add: s1_def writel_regs upd_m_def pv_ready_def pv_kept_def pv_clear_def pv_addr_def)
    have eq: "pv_i2c_one P m s = (let (ret, s2) = pv_cmd P PV_CMD_I2C_READ s1
        in if ret \<noteq> 0 then (ret, im_buf m, s2) else case pv_get P 0 ?n s2 of (bs, s3) \<Rightarrow> (0, bs, s3))"
      using rd by (simp add: pv_i2c_one_def s1_def)
    show ?thesis
    proof (cases "?n = 0")
      case True
      with exec_empty [OF s1(1), of PV_CMD_I2C_READ P] s1(4) obtain s2 where "pv_cmd P PV_CMD_I2C_READ s1 = (- EINVAL, s2)"
        "e_ev s2 = e_ev s1" "pv_kept s1 s2" "pv_ready s2" by auto
      then show ?thesis using rd True assms(5) s1 pv_kept_trans [of s s1 s2] unfolding eq
        by (auto simp: bus_one_def EINVAL_def)
    next
      case False
      obtain r xs where rr: "po_i2c_read P (e_ev s1) 0 (pv_addr s1) ?n = (r, xs)" by fastforce
      have "\<exists>s'. pv_cmd P PV_CMD_I2C_READ s1 = (r, s') \<and> e_ev s' = EvI2cRead 0 (pv_addr s1) ?n # e_ev s1 \<and> pv_kept s1 s' \<and>
        (pv_ready s1 \<longrightarrow> pv_ready s') \<and> (r = 0 \<longrightarrow> mem_read (m_pv_data (e_m s')) 0 ?n = xs)"
        by (rule exec_read [OF _ _ _ _ assms(2,4) rr]) (use s1 n False in \<open>simp_all add: pv_ready_def\<close>)
      then obtain s2 where s2: "pv_cmd P PV_CMD_I2C_READ s1 = (r, s2)" "e_ev s2 = EvI2cRead 0 (pv_addr s1) ?n # e_ev s1"
        "pv_kept s1 s2" "pv_ready s2" "r = 0 \<longrightarrow> mem_read (m_pv_data (e_m s2)) 0 ?n = xs" using s1(1) by blast
      have "ret = r" "bs = (if r \<noteq> 0 then im_buf m else xs)" "s' = s2"
        using assms(5) s2(1,5) pv_get_window [of 0 ?n P s2] assms(2) unfolding eq
        by (auto split: if_splits)
      then show ?thesis using rd False s1 s2 rr pv_kept_trans [of s s1 s2] by (simp add: bus_one_def)
    qed
  next
    case probe
    define s1 where "s1 = writel P 0 PV_REG_I2C_WLEN s"
    have s1: "pv_ready s1" "pv_kept s s1" "e_ev s1 = e_ev s" "pv_addr s1 = i2c_address m"
      using assms(1,3) by (simp_all add: s1_def writel_regs upd_m_def pv_ready_def pv_kept_def pv_clear_def pv_addr_def)
    from exec_probe [OF s1(1) assms(4)] obtain s2 where "pv_cmd P PV_CMD_I2C_PROBE s1 = (fst (po_i2c_read P (e_ev s1) 0 (pv_addr s1) 1), s2)"
      "e_ev s2 = EvI2cRead 0 (pv_addr s1) 1 # e_ev s1" "pv_kept s1 s2" "pv_ready s2" by blast
    then show ?thesis using probe assms(5) s1 pv_kept_trans [of s s1 s2]
      by (auto simp: pv_i2c_one_def s1_def [symmetric] bus_one_def)
  next
    case wr
    have "0 + ?n \<le> 256" "(0 :: nat) mod 4 = 0" using assms(2) by simp_all
    from pv_put_window [OF this(2,1), of P s] obtain D where D: "pv_put P 0 (im_buf m) s = upd_m (\<lambda>m. m\<lparr>m_pv_data := D\<rparr>) s"
      "mem_read D 0 ?n = im_buf m" by blast
    define s1 where "s1 = writel P (of_nat ?n) PV_REG_I2C_WLEN (pv_put P 0 (im_buf m) s)"
    have s1: "pv_ready s1" "pv_kept s s1" "e_ev s1 = e_ev s" "m_pv_i2c_wlen (e_m s1) = of_nat ?n" "pv_addr s1 = i2c_address m"
      "m_pv_data (e_m s1) = D"
      using assms(1-3) n by (simp_all add: s1_def D(1) writel_regs upd_m_def pv_ready_def pv_kept_def pv_clear_def pv_addr_def)
    have "\<exists>s'. pv_cmd P PV_CMD_I2C_WRITE s1 = (po_i2c_write P (e_ev s1) 0 (pv_addr s1) (im_buf m), s') \<and>
      e_ev s' = EvI2cWrite 0 (pv_addr s1) (im_buf m) # e_ev s1 \<and> pv_kept s1 s' \<and> (pv_ready s1 \<longrightarrow> pv_ready s')"
      by (rule exec_write [OF _ _ _ _ assms(2) _ assms(4)]) (use s1 n wr D(2) in \<open>simp_all add: pv_ready_def\<close>)
    then obtain s2 where "pv_cmd P PV_CMD_I2C_WRITE s1 = (po_i2c_write P (e_ev s1) 0 (pv_addr s1) (im_buf m), s2)"
      "e_ev s2 = EvI2cWrite 0 (pv_addr s1) (im_buf m) # e_ev s1" "pv_kept s1 s2" "pv_ready s2" using s1(1) by blast
    then show ?thesis using wr assms(5) s1 pv_kept_trans [of s s1 s2]
      by (auto simp: pv_i2c_one_def s1_def [symmetric] bus_one_def)
  qed
qed

lemma pv_pair_bus:
  assumes "pv_ready s" "pv_pair 256 m m'" "pv_addr s = i2c_address m" "i2c_driver_ok P" "pv_i2c_pair P m m' s = (ret, bs, s')"
  shows "bus_pair P m m' (e_ev s) = (ret, bs, e_ev s') \<and> pv_ready s' \<and> pv_kept s s'"
proof -
  let ?w = "im_buf m" and ?n = "im_len m'"
  have len: "length ?w \<le> 256" "?n \<le> 256" using assms(2) by (simp_all add: pv_pair_def)
  note n = of_nat_len [OF len(1)] of_nat_len [OF len(2)]
  have "0 + length ?w \<le> 256" "(0 :: nat) mod 4 = 0" using len by simp_all
  from pv_put_window [OF this(2,1), of P s] obtain D where D: "pv_put P 0 ?w s = upd_m (\<lambda>m. m\<lparr>m_pv_data := D\<rparr>) s"
    "mem_read D 0 (length ?w) = ?w" by blast
  define s1 where "s1 = writel P (of_nat ?n) PV_REG_I2C_RLEN (writel P (of_nat (length ?w)) PV_REG_I2C_WLEN (pv_put P 0 ?w s))"
  have s1: "pv_ready s1" "pv_kept s s1" "e_ev s1 = e_ev s" "m_pv_i2c_wlen (e_m s1) = of_nat (length ?w)"
    "m_pv_i2c_rlen (e_m s1) = of_nat ?n" "pv_addr s1 = i2c_address m" "m_pv_data (e_m s1) = D"
    using assms(1,3) n len by (simp_all add: s1_def D(1) writel_regs upd_m_def pv_ready_def pv_kept_def pv_clear_def pv_addr_def)
  have eq: "pv_i2c_pair P m m' s = (let (ret, s2) = pv_cmd P PV_CMD_I2C_WRITE_READ s1
      in if ret \<noteq> 0 then (ret, im_buf m', s2) else case pv_get P 0 ?n s2 of (bs, s3) \<Rightarrow> (0, bs, s3))"
    by (simp add: pv_i2c_pair_def s1_def Let_def)
  show ?thesis
  proof (cases "?w = [] \<or> ?n = 0")
    case True
    with exec_empty [OF s1(1), of PV_CMD_I2C_WRITE_READ P] s1(4,5) obtain s2 where "pv_cmd P PV_CMD_I2C_WRITE_READ s1 = (- EINVAL, s2)"
      "e_ev s2 = e_ev s1" "pv_kept s1 s2" "pv_ready s2" by auto
    then show ?thesis using True assms(5) s1 pv_kept_trans [of s s1 s2] unfolding eq
      by (auto simp: bus_pair_def EINVAL_def)
  next
    case False
    obtain r xs where rr: "po_i2c_write_read P (e_ev s1) 0 (pv_addr s1) ?w ?n = (r, xs)" by fastforce
    have "\<exists>s'. pv_cmd P PV_CMD_I2C_WRITE_READ s1 = (r, s') \<and> e_ev s' = EvI2cWriteRead 0 (pv_addr s1) ?w ?n # e_ev s1 \<and> pv_kept s1 s' \<and>
      (pv_ready s1 \<longrightarrow> pv_ready s') \<and> (r = 0 \<longrightarrow> mem_read (m_pv_data (e_m s')) 0 ?n = xs)"
      by (rule exec_write_read [OF _ _ _ _ len(1) _ len(2) _ assms(4) rr]) (use s1 n False D(2) in \<open>simp_all add: pv_ready_def\<close>)
    then obtain s2 where s2: "pv_cmd P PV_CMD_I2C_WRITE_READ s1 = (r, s2)" "e_ev s2 = EvI2cWriteRead 0 (pv_addr s1) ?w ?n # e_ev s1"
      "pv_kept s1 s2" "pv_ready s2" "r = 0 \<longrightarrow> mem_read (m_pv_data (e_m s2)) 0 ?n = xs" using s1(1) by blast
    have "ret = r" "bs = (if r \<noteq> 0 then im_buf m' else xs)" "s' = s2"
      using assms(5) s2(1,5) pv_get_window [of 0 ?n P s2] len unfolding eq
      by (auto split: if_splits)
    then show ?thesis using False s1 s2 rr pv_kept_trans [of s s1 s2] by (simp add: bus_pair_def)
  qed
qed

lemma address_cast: "ucast (ucast (a :: u16) :: u32) = (ucast a :: u8)"
  by (rule bit_word_eqI) (auto simp: bit_simps)

lemma pv_loop_bus:
  assumes "i2c_driver_ok P"
  shows "pv_ready s \<Longrightarrow> pv_i2c_loop P 256 ms n s = (r, ms', s') \<Longrightarrow>
    i2c_bus P ms n (e_ev s) = (r, ms', e_ev s') \<and> pv_ready s' \<and> pv_kept s s'"
proof (induction ms arbitrary: n s r ms' s' rule: length_induct)
  case (1 ms)
  show ?case
  proof (cases ms)
    case Nil
    with 1 show ?thesis by simp
  next
    case (Cons m rest)
    show ?thesis
    proof (cases "im_ten m \<or> im_len m > 256")
      case True
      with 1(2,3) Cons show ?thesis by (cases "im_ten m") (auto simp: pv_i2c_loop.simps(2) i2c_bus.simps(2))
    next
      case ok: False
      define s1 where "s1 = writel P (ucast (im_addr m)) PV_REG_I2C_ADDR s"
      have s1: "pv_ready s1" "pv_kept s s1" "e_ev s1 = e_ev s" "pv_addr s1 = i2c_address m"
        using 1(2) by (simp_all add: s1_def writel_regs upd_m_def pv_ready_def pv_kept_def pv_clear_def pv_addr_def i2c_address_def address_cast)
      show ?thesis
      proof (cases "rest \<noteq> [] \<and> pv_pair 256 m (hd rest)")
        case True
        obtain ret bs s2 where p: "pv_i2c_pair P m (hd rest) s1 = (ret, bs, s2)" by (cases "pv_i2c_pair P m (hd rest) s1")
        note b = pv_pair_bus [OF s1(1) _ s1(4) assms p]
        have b: "bus_pair P m (hd rest) (e_ev s) = (ret, bs, e_ev s2)" "pv_ready s2" "pv_kept s s2"
          using b True s1 pv_kept_trans by auto
        obtain r1 ms1 s3 where l: "pv_i2c_loop P 256 (tl rest) (n + 2) s2 = (r1, ms1, s3)" by (cases "pv_i2c_loop P 256 (tl rest) (n + 2) s2")
        have "length (tl rest) < length ms" using Cons by simp
        with 1(1) b(2) l have "i2c_bus P (tl rest) (n + 2) (e_ev s2) = (r1, ms1, e_ev s3) \<and> pv_ready s3 \<and> pv_kept s2 s3" by blast
        moreover have "(r, ms', s') = (if ret \<noteq> 0 then (ret, m # rest, s2) else (r1, m # (hd rest)\<lparr>im_buf := bs\<rparr> # ms1, s3))"
          using 1(3) Cons ok True p l by (cases "ret = 0") (simp_all add: pv_i2c_loop.simps(2) s1_def [symmetric])
        ultimately show ?thesis using Cons ok True b pv_kept_trans [of s s2 s3]
          by (cases "ret = 0") (simp_all add: i2c_bus.simps(2))
      next
        case False
        obtain ret bs s2 where p: "pv_i2c_one P m s1 = (ret, bs, s2)" by (cases "pv_i2c_one P m s1")
        have "im_len m \<le> 256" using ok by simp
        note b = pv_one_bus [OF s1(1) this s1(4) assms p]
        have b: "bus_one P m (e_ev s) = (ret, bs, e_ev s2)" "pv_ready s2" "pv_kept s s2"
          using b s1 pv_kept_trans by auto
        obtain r1 ms1 s3 where l: "pv_i2c_loop P 256 rest (n + 1) s2 = (r1, ms1, s3)" by (cases "pv_i2c_loop P 256 rest (n + 1) s2")
        have "length rest < length ms" using Cons by simp
        with 1(1) b(2) l have "i2c_bus P rest (n + 1) (e_ev s2) = (r1, ms1, e_ev s3) \<and> pv_ready s3 \<and> pv_kept s2 s3" by blast
        moreover have "(r, ms', s') = (if ret \<noteq> 0 then (ret, m # rest, s2) else (r1, m\<lparr>im_buf := bs\<rparr> # ms1, s3))"
          using 1(3) Cons ok False p l by (cases "rest = []"; cases "ret = 0") (simp_all add: pv_i2c_loop.simps(2) s1_def [symmetric])
        ultimately show ?thesis using Cons ok False b pv_kept_trans [of s s2 s3]
          by (cases "rest = []"; cases "ret = 0") (simp_all add: i2c_bus.simps(2))
      qed
    qed
  qed
qed


text \<open>A register read: a write of one byte and a read of three from the device at 0x48.\<close>

definition demo_bus :: plat where
  "demo_bus = quiet_plat\<lparr>po_i2c_write_read := \<lambda>h b a w n. (0, replicate n (hd w))\<rparr>"

definition demo_msgs :: "i2c_msg list" where
  "demo_msgs = [\<lparr>im_addr = 0x48, im_rd = False, im_ten = False, im_buf = [5]\<rparr>, \<lparr>im_addr = 0x48, im_rd = True, im_ten = False, im_buf = [0, 0, 0]\<rparr>]"


text \<open>The window the driver reads from the bridge is the 256 bytes of the theorem.\<close>

lemma pv_io_init_window:
  assumes "po_caps P (e_ev s) = (a, b)"
  shows "fst (pv_io_init P False s) = Some (ucast a, ucast b, 256)"
proof -
  let ?c = "ucast a OR push_bit 8 (ucast b) OR push_bit 16 256 :: u32"
  have m: "(0xff :: u32) = mask 8" by (simp add: mask_eq_exp_minus_1)
  have k: "push_bit 16 256 = (push_bit 24 1 :: u32)" "drop_bit 16 (push_bit 24 1) = (256 :: u32)" by (simp_all add: push_bit_eq_mult drop_bit_eq_div)
  have hi: "bit a n \<Longrightarrow> n < 8" "bit b n \<Longrightarrow> n < 8" for n by (auto dest: bit_imp_le_length)
  have "?c AND 0xff = ucast a" unfolding m k(1)
    by (rule bit_word_eqI) (auto simp: bit_simps bit_1_iff simp del: push_bit_of_1 dest: hi)
  moreover have "drop_bit 8 ?c AND 0xff = ucast b" unfolding m k(1)
    by (rule bit_word_eqI) (auto simp: bit_simps bit_1_iff simp del: push_bit_of_1 dest: hi)
  moreover have "drop_bit 16 ?c = drop_bit 16 (push_bit 24 1)" unfolding k(1)
    by (rule bit_word_eqI) (auto simp: bit_simps bit_1_iff simp del: push_bit_of_1 dest: hi)
  ultimately have "?c AND 0xff = ucast a" "drop_bit 8 ?c AND 0xff = ucast b" "drop_bit 16 ?c = 256" unfolding k(2) .
  then show ?thesis using assms
    by (simp add: pv_io_init_def readl_def pv_read_def pv_in_data_def pv_reg_defs PV_DATA_BYTES_def PV_ID_def PV_ID_MAGIC_def Let_def)
qed

text \<open>The pins: one access of the board each, with the value or the configuration asked for.\<close>

lemma pv_gpio_transparent:
  assumes "pv_ready s" "\<And>h p. int32 (fst (po_gpio_get P h p))" "\<And>h p. fst (po_gpio_get P h p) = 0 \<Longrightarrow> snd (po_gpio_get P h p) \<noteq> None"
    "\<And>h p f. int32 (po_gpio_config P h p f)"
  shows "fst (pv_gpio_get P off s) = (case po_gpio_get P (e_ev s) (ucast off) of (ret, v) \<Rightarrow> if ret = 0 then (if v = Some 0 then 0 else 1) else ret)"
    "e_ev (snd (pv_gpio_get P off s)) = EvGpioGet (ucast off) # e_ev s"
    "e_ev (pv_gpio_set P off val s) = EvGpioSet (ucast off) (if val \<noteq> 0 then 1 else 0) # e_ev s"
    "pv_gpio_dir_in P off s = (po_gpio_config P (e_ev s) (ucast off) PV_GPIO_F_INPUT, snd (pv_gpio_dir_in P off s))"
    "e_ev (snd (pv_gpio_dir_out P off val s)) =
       EvGpioConfig (ucast off) (PV_GPIO_F_OUTPUT OR (if val \<noteq> 0 then PV_GPIO_F_INIT_HIGH else PV_GPIO_F_INIT_LOW)) # e_ev s"
proof -
  note exec = pv_cmd_exec writel_regs readl_regs pv_exec_def pv_cmd_defs Let_def pv_status_def add_ev_def upd_m_def PV_DATA_BYTES_def
    pv_do_gpio_get_def pv_pin_def
  have r: "\<not> 256 < unat (m_pv_i2c_wlen (e_m s))" "\<not> 256 < unat (m_pv_i2c_rlen (e_m s))" using assms(1) by (simp_all add: pv_ready_def)
  obtain ret v where g: "po_gpio_get P (e_ev s) (ucast off) = (ret, v)" by fastforce
  have i: "sint (word_of_int ret :: u32) = ret" "ret = 0 \<longrightarrow> v \<noteq> None"
    using int32_word assms(2,3) [of "e_ev s" "ucast off"] g by simp_all
  show "fst (pv_gpio_get P off s) = (case po_gpio_get P (e_ev s) (ucast off) of (ret, v) \<Rightarrow> if ret = 0 then (if v = Some 0 then 0 else 1) else ret)"
    "e_ev (snd (pv_gpio_get P off s)) = EvGpioGet (ucast off) # e_ev s"
    using r g i by (auto simp: pv_gpio_get_def exec)
  show "e_ev (pv_gpio_set P off val s) = EvGpioSet (ucast off) (if val \<noteq> 0 then 1 else 0) # e_ev s"
    "pv_gpio_dir_in P off s = (po_gpio_config P (e_ev s) (ucast off) PV_GPIO_F_INPUT, snd (pv_gpio_dir_in P off s))"
    "e_ev (snd (pv_gpio_dir_out P off val s)) =
       EvGpioConfig (ucast off) (PV_GPIO_F_OUTPUT OR (if val \<noteq> 0 then PV_GPIO_F_INIT_HIGH else PV_GPIO_F_INIT_LOW)) # e_ev s"
    using r int32_word [OF assms(4)] by (simp_all add: pv_gpio_set_def pv_gpio_dir_in_def pv_gpio_dir_out_def exec)
qed

end
