(* ===== verification/Rvlinux.thy ===== *)
theory Rvlinux
  imports Mini_Laws Spsc Board Pv_Guest
begin

text \<open>
  The first port around its emulator (\<open>ra8d1-linux/rvlinux/src/main.c\<close>): the devices behind the two
  hooks (an 8250 that is a console over the UART or a telnet client, CLINT, syscon, the paravirtual
  bridge), the preparation of guest RAM, and the loop of \<open>main()\<close>. The state of the emulator lies at
  the top of guest RAM, so what the guest stores there is its own state. Drivers of the board are an
  argument; an answer may depend on all calls before it, the history \<open>rl_ev\<close> (latest first). The rings
  are those of \<open>Spsc\<close>; the telnet thread may change them, and the session flag, between two turns.
\<close>

section \<open>Devices\<close>

text \<open>The drivers of Zephyr the bridge calls, and the console UART.\<close>

record zdrivers =
  zd_uart :: "history \<Rightarrow> u8 option"
  zd_bus_ready :: "u8 \<Rightarrow> bool"
  zd_pin_ready :: "u8 \<Rightarrow> bool"
  zd_flags :: "u32 gpio_flags"
  zd_i2c_write :: "history \<Rightarrow> u8 \<Rightarrow> u8 \<Rightarrow> u8 list \<Rightarrow> int"
  zd_i2c_read :: "history \<Rightarrow> u8 \<Rightarrow> u8 \<Rightarrow> nat \<Rightarrow> int \<times> u8 list"
  zd_i2c_write_read :: "history \<Rightarrow> u8 \<Rightarrow> u8 \<Rightarrow> u8 list \<Rightarrow> nat \<Rightarrow> int \<times> u8 list"
  zd_gpio_config :: "history \<Rightarrow> u8 \<Rightarrow> u32 \<Rightarrow> int"
  zd_gpio_set :: "history \<Rightarrow> u8 \<Rightarrow> bool \<Rightarrow> int"
  zd_gpio_get :: "history \<Rightarrow> u8 \<Rightarrow> int"
  zd_gpio_toggle :: "history \<Rightarrow> u8 \<Rightarrow> int"

record pvio =
  px_status :: u32
  px_result :: u32
  px_i2c_bus :: u32
  px_i2c_addr :: u32
  px_i2c_wlen :: u32
  px_i2c_rlen :: u32
  px_gpio_pin :: u32
  px_gpio_val :: u32
  px_gpio_flags :: u32
  px_data :: block

record rvl =
  rl_ev :: history
  rl_rx_have :: int
  rl_active :: bool
  rl_tx :: spsc
  rl_rx :: spsc
  rl_dropped :: u32
  rl_pv :: pvio

definition rl_log :: "plat_event \<Rightarrow> rvl \<Rightarrow> rvl" where "rl_log e s = s\<lparr>rl_ev := e # rl_ev s\<rparr>"
definition rl_upd :: "(pvio \<Rightarrow> pvio) \<Rightarrow> rvl \<Rightarrow> rvl" where "rl_upd f s = s\<lparr>rl_pv := f (rl_pv s)\<rparr>"

text \<open>The guest's console. \<open>mirror\<close> is \<open>CONFIG_RVL_TELNET_MIRROR_UART\<close>.\<close>

definition guest_out :: "bool \<Rightarrow> u8 \<Rightarrow> rvl \<Rightarrow> rvl" where
  "guest_out mirror c s =
     (if rl_active s then
        (let (ok, tx) = spsc_put (rl_tx s) c;
             s1 = s\<lparr>rl_tx := tx, rl_dropped := (if ok then rl_dropped s else rl_dropped s + 1)\<rparr>
         in if mirror then rl_log (EvPutc c) s1 else s1)
      else rl_log (EvPutc c) s)"

definition uart_rx_poll :: "zdrivers \<Rightarrow> rvl \<Rightarrow> int \<times> rvl" where
  "uart_rx_poll D s =
     (if rl_rx_have s \<ge> 0 then (rl_rx_have s, s)
      else case zd_uart D (rl_ev s) of
             Some c \<Rightarrow> (uint c, rl_log (EvGetc (uint c)) (s\<lparr>rl_rx_have := uint c\<rparr>))
           | None \<Rightarrow> (rl_rx_have s, rl_log (EvGetc (- 1)) s))"

definition guest_rx_poll :: "zdrivers \<Rightarrow> rvl \<Rightarrow> int \<times> rvl" where
  "guest_rx_poll D s =
     (if rl_rx_have s \<ge> 0 then (rl_rx_have s, s)
      else if rl_active s then
        (let (c, rx) = spsc_get (rl_rx s); s1 = s\<lparr>rl_rx := rx\<rparr>
         in if c \<ge> 0 then (c, s1\<lparr>rl_rx_have := c\<rparr>) else uart_rx_poll D s1)
      else uart_rx_poll D s)"

definition guest_rx_take :: "zdrivers \<Rightarrow> rvl \<Rightarrow> int \<times> rvl" where
  "guest_rx_take D s = (case guest_rx_poll D s of (c, s1) \<Rightarrow> (c, s1\<lparr>rl_rx_have := - 1\<rparr>))"

section \<open>The paravirtual bridge\<close>

text \<open>A driver that reads fills at most the requested bytes of the caller's buffer.\<close>

definition px_fill :: "nat \<Rightarrow> nat \<Rightarrow> u8 list \<Rightarrow> rvl \<Rightarrow> rvl" where
  "px_fill off n bs = rl_upd (\<lambda>p. p\<lparr>px_data := mem_write (px_data p) off (take n bs)\<rparr>)"

definition px_i2c :: "zdrivers \<Rightarrow> u32 \<Rightarrow> rvl \<Rightarrow> int \<times> rvl" where
  "px_i2c D cmd s =
     (let p = rl_pv s; bus = ucast (px_i2c_bus p); addr = ucast (px_i2c_addr p);
          wlen = unat (px_i2c_wlen p); rlen = unat (px_i2c_rlen p); h = rl_ev s
      in if PV_NI2C = 0 \<or> PV_NI2C \<le> unat (px_i2c_bus p) then (- ENODEV, s)
         else if \<not> zd_bus_ready D bus then (- ENODEV, s)
         else if 0x7f < px_i2c_addr p then (- EINVAL, s)
         else if cmd = PV_CMD_I2C_PROBE then (fst (zd_i2c_read D h bus addr 1), rl_log (EvI2cRead bus addr 1) s)
         else if PV_DATA_BYTES < wlen \<or> PV_DATA_BYTES < rlen then (- EINVAL, s)
         else if cmd = PV_CMD_I2C_WRITE then
           (let w = mem_read (px_data p) 0 wlen; rc = zd_i2c_write D h bus addr w; s1 = rl_log (EvI2cWrite bus addr w) s
            in (rc, if rc = 0 then rl_upd (\<lambda>p. p\<lparr>px_result := px_i2c_wlen p\<rparr>) s1 else s1))
         else if cmd = PV_CMD_I2C_READ then
           (let (rc, bs) = zd_i2c_read D h bus addr rlen; s1 = px_fill 0 rlen bs (rl_log (EvI2cRead bus addr rlen) s)
            in (rc, if rc = 0 then rl_upd (\<lambda>p. p\<lparr>px_result := px_i2c_rlen p\<rparr>) s1 else s1))
         else if PV_DATA_BYTES < wlen + rlen then (- EINVAL, s)
         else
           (let w = mem_read (px_data p) 0 wlen; (rc, bs) = zd_i2c_write_read D h bus addr w rlen;
                s1 = px_fill wlen rlen bs (rl_log (EvI2cWriteRead bus addr w rlen) s)
            in (rc, if rc = 0 then
                      rl_upd (\<lambda>p. p\<lparr>px_data := mem_write (px_data p) 0 (mem_read (px_data p) wlen rlen),
                                     px_result := px_i2c_rlen p\<rparr>) s1
                    else s1)))"

definition px_gpio :: "zdrivers \<Rightarrow> u32 \<Rightarrow> rvl \<Rightarrow> int \<times> rvl" where
  "px_gpio D cmd s =
     (let p = rl_pv s; pin = ucast (px_gpio_pin p); h = rl_ev s
      in if PV_NGPIO \<le> unat (px_gpio_pin p) then (- EINVAL, s)
         else if \<not> zd_pin_ready D pin then (- ENODEV, s)
         else if cmd = PV_CMD_GPIO_CONFIG then
           (zd_gpio_config D h pin (pv_map_gpio_flags (zd_flags D) (px_gpio_flags p)),
            rl_log (EvGpioConfig pin (px_gpio_flags p)) s)
         else if cmd = PV_CMD_GPIO_SET then
           (zd_gpio_set D h pin (px_gpio_val p \<noteq> 0), rl_log (EvGpioSet pin (px_gpio_val p)) s)
         else if cmd = PV_CMD_GPIO_TOGGLE then (zd_gpio_toggle D h pin, rl_log (EvGpioToggle pin) s)
         else
           (let v = zd_gpio_get D h pin; s1 = rl_log (EvGpioGet pin) s
            in if v < 0 then (v, s1)
               else (0, rl_upd (\<lambda>p. p\<lparr>px_gpio_val := word_of_int v, px_result := word_of_int v\<rparr>) s1)))"

definition px_exec :: "zdrivers \<Rightarrow> u32 \<Rightarrow> rvl \<Rightarrow> int \<times> rvl" where
  "px_exec D cmd s0 =
     (let s = rl_upd (\<lambda>p. p\<lparr>px_result := 0\<rparr>) s0
      in if cmd = PV_CMD_NOP then (0, s)
         else if cmd \<in> {PV_CMD_I2C_WRITE, PV_CMD_I2C_READ, PV_CMD_I2C_WRITE_READ, PV_CMD_I2C_PROBE} then px_i2c D cmd s
         else if cmd \<in> {PV_CMD_GPIO_CONFIG, PV_CMD_GPIO_SET, PV_CMD_GPIO_GET, PV_CMD_GPIO_TOGGLE} then px_gpio D cmd s
         else (- ENOTSUP, s))"

definition px_write :: "zdrivers \<Rightarrow> u32 \<Rightarrow> u32 \<Rightarrow> rvl \<Rightarrow> rvl" where
  "px_write D off val s =
     (if PV_REG_DATA \<le> off then
        (let i = unat (drop_bit 2 (off - PV_REG_DATA))
         in if i < 64 then rl_upd (\<lambda>p. p\<lparr>px_data := mem_write (px_data p) (4 * i) (le_bytes 4 val)\<rparr>) s else s)
      else if off = PV_REG_CMD then (case px_exec D val s of (rc, s1) \<Rightarrow> rl_upd (\<lambda>p. p\<lparr>px_status := word_of_int rc\<rparr>) s1)
      else if off = PV_REG_I2C_BUS then rl_upd (\<lambda>p. p\<lparr>px_i2c_bus := val\<rparr>) s
      else if off = PV_REG_I2C_ADDR then rl_upd (\<lambda>p. p\<lparr>px_i2c_addr := val\<rparr>) s
      else if off = PV_REG_I2C_WLEN then rl_upd (\<lambda>p. p\<lparr>px_i2c_wlen := val\<rparr>) s
      else if off = PV_REG_I2C_RLEN then rl_upd (\<lambda>p. p\<lparr>px_i2c_rlen := val\<rparr>) s
      else if off = PV_REG_GPIO_PIN then rl_upd (\<lambda>p. p\<lparr>px_gpio_pin := val\<rparr>) s
      else if off = PV_REG_GPIO_VAL then rl_upd (\<lambda>p. p\<lparr>px_gpio_val := val\<rparr>) s
      else if off = PV_REG_GPIO_FLAGS then rl_upd (\<lambda>p. p\<lparr>px_gpio_flags := val\<rparr>) s
      else s)"

definition px_read :: "u32 \<Rightarrow> pvio \<Rightarrow> u32" where
  "px_read off p =
     (if PV_REG_DATA \<le> off then
        (let i = unat (drop_bit 2 (off - PV_REG_DATA)) in if i < 64 then of_le (mem_read (px_data p) (4 * i) 4) else 0)
      else if off = PV_REG_ID then PV_ID
      else if off = PV_REG_VERSION then PV_VERSION
      else if off = PV_REG_CAPS then of_nat PV_NI2C OR push_bit 8 (of_nat PV_NGPIO) OR push_bit 16 (of_nat PV_DATA_BYTES)
      else if off = PV_REG_STATUS then px_status p
      else if off = PV_REG_RESULT then px_result p
      else if off = PV_REG_I2C_BUS then px_i2c_bus p
      else if off = PV_REG_I2C_ADDR then px_i2c_addr p
      else if off = PV_REG_I2C_WLEN then px_i2c_wlen p
      else if off = PV_REG_I2C_RLEN then px_i2c_rlen p
      else if off = PV_REG_GPIO_PIN then px_gpio_pin p
      else if off = PV_REG_GPIO_VAL then px_gpio_val p
      else if off = PV_REG_GPIO_FLAGS then px_gpio_flags p
      else 0)"

section \<open>The hooks\<close>

text \<open>\<open>core\<close> is where the state of the emulator is.\<close>

definition on_env :: "(rvl \<Rightarrow> rvl) \<Rightarrow> rvl mini \<Rightarrow> rvl mini" where
  "on_env f s = s\<lparr>mi_env := f (mi_env s)\<rparr>"

definition core_get :: "nat \<Rightarrow> mini_field \<Rightarrow> rvl mini \<Rightarrow> u32" where
  "core_get core f s = ld_img 4 (core + 4 * field_idx f) s"

definition core_set :: "nat \<Rightarrow> mini_field \<Rightarrow> u32 \<Rightarrow> rvl mini \<Rightarrow> rvl mini" where
  "core_set core f v s = st_img 4 (core + 4 * field_idx f) v s"

definition PV_BASE :: u32 where "PV_BASE = 0x11200000"
definition PV_MASK :: u32 where "PV_MASK = 0xfffff000"

definition mmio_store :: "zdrivers \<Rightarrow> bool \<Rightarrow> nat \<Rightarrow> u32 \<Rightarrow> u32 \<Rightarrow> rvl mini \<Rightarrow> u32 \<times> rvl mini" where
  "mmio_store D mirror core addy val s =
     (if addy = 0x10000000 then (0, on_env (guest_out mirror (ucast val)) s)
      else if addy = 0x11004004 then (0, core_set core M_timermatchh val s)
      else if addy = 0x11004000 then (0, core_set core M_timermatchl val s)
      else if addy = 0x11100000 then (val, core_set core M_pc (core_get core M_pc s + 4) s)
      else if addy AND PV_MASK = PV_BASE then (0, on_env (px_write D (addy AND NOT PV_MASK) val) s)
      else (0, s))"

definition mmio_load :: "zdrivers \<Rightarrow> nat \<Rightarrow> u32 \<Rightarrow> rvl mini \<Rightarrow> u32 \<times> rvl mini" where
  "mmio_load D core addy s =
     (if addy = 0x10000005 then
        (case guest_rx_poll D (mi_env s) of (c, e) \<Rightarrow> (0x60 OR (if c \<ge> 0 then 1 else 0), s\<lparr>mi_env := e\<rparr>))
      else if addy = 0x10000000 then
        (case guest_rx_take D (mi_env s) of (c, e) \<Rightarrow> (if c \<ge> 0 then word_of_int c else 0, s\<lparr>mi_env := e\<rparr>))
      else if addy = 0x1100bffc then (core_get core M_timerh s, s)
      else if addy = 0x1100bff8 then (core_get core M_timerl s, s)
      else if addy AND PV_MASK = PV_BASE then (px_read (addy AND NOT PV_MASK) (rl_pv (mi_env s)), s)
      else (0, s))"

section \<open>The guest's memory and the loop\<close>

definition core_off :: "u32 \<Rightarrow> nat" where "core_off ram = unat ram - MINI_STATE_SIZE"

definition rvl_cfg :: "zdrivers \<Rightarrow> bool \<Rightarrow> u32 \<Rightarrow> rvl mini_cfg" where
  "rvl_cfg D mirror ram = \<lparr>mc_ram = ram, mc_core = core_off ram,
     mc_load = mmio_load D (core_off ram), mc_store = mmio_store D mirror (core_off ram)\<rparr>"

definition mem_set :: "block \<Rightarrow> nat \<Rightarrow> nat \<Rightarrow> u8 \<Rightarrow> block" where
  "mem_set m off len v = (\<lambda>a. if off \<le> a \<and> a < off + len then v else m a)"

text \<open>\<open>img\<close> is the payload of the kernel's slot in the flash window, \<open>dtb\<close> the devicetree in the firmware.\<close>

definition dtb_at :: "u32 \<Rightarrow> u8 list \<Rightarrow> nat" where
  "dtb_at ram dtb = unat ram - length dtb - MINI_STATE_SIZE"

definition guest_prepare :: "u32 \<Rightarrow> u8 list \<Rightarrow> block \<Rightarrow> nat \<Rightarrow> rvl mini \<Rightarrow> rvl mini" where
  "guest_prepare ram dtb img img_len s =
     (let m1 = mem_write (mi_mem s) 0 (mem_read img 0 img_len);
          m2 = mem_set m1 img_len (unat ram - img_len) 0;
          dtb_ptr = dtb_at ram dtb;
          m3 = mem_write m2 dtb_ptr dtb;
          m4 = (if (of_le (mem_read m3 (dtb_ptr + 0x13c) 4) :: u32) = 0x00c0ff03
                then mem_write m3 (dtb_ptr + 0x13c) (be32 (of_nat dtb_ptr)) else m3);
          m5 = mem_set m4 (core_off ram) MINI_STATE_SIZE 0;
          c = core_off ram;
          s1 = core_set c M_pc MINIRV32_RAM_IMAGE_OFFSET (s\<lparr>mi_mem := m5\<rparr>);
          s2 = core_set c (M_regs 10) 0 s1;
          s3 = core_set c (M_regs 11) (of_nat dtb_ptr + MINIRV32_RAM_IMAGE_OFFSET) s2
      in core_set c M_extraflags (core_get c M_extraflags s3 OR 3) s3)"

text \<open>The clock of the loop, over readings of the cycle counter.\<close>

definition now_us :: "u32 \<Rightarrow> u32 \<Rightarrow> cyc \<Rightarrow> u64 \<times> cyc" where
  "now_us hz c s =
     (let total = cyc_total s + ucast (c - cyc_last s)
      in (total div ucast (hz div 1000000), \<lparr>cyc_last = c, cyc_total = total\<rparr>))"

record rvl_boot =
  rb_ram :: u32
  rb_dtb :: "u8 list"
  rb_img :: block
  rb_len :: nat
  rb_hz :: u32

record rvl_loop =
  lp_s :: "rvl mini"
  lp_cyc :: cyc
  lp_last :: u64

datatype rvl_end = Running rvl_loop | Poweroff rvl_loop

text \<open>One turn, with what the cycle counter reads at its start.\<close>

definition rvl_turn :: "zdrivers \<Rightarrow> bool \<Rightarrow> rvl_boot \<Rightarrow> u32 \<Rightarrow> rvl_loop \<Rightarrow> rvl_end" where
  "rvl_turn D mirror B c l =
     (let (t, cy) = now_us (rb_hz B) c (lp_cyc l); elapsed = ucast (t - lp_last l);
          (ret, s) = MiniRV32IMAStep (rvl_cfg D mirror (rb_ram B)) elapsed 1024 (lp_s l)
      in if ret = 0x7777 then
           Running \<lparr>lp_s = guest_prepare (rb_ram B) (rb_dtb B) (rb_img B) (rb_len B) s, lp_cyc = cy, lp_last = t\<rparr>
         else if ret = 0x5555 then Poweroff \<lparr>lp_s = s, lp_cyc = cy, lp_last = t\<rparr>
         else Running \<lparr>lp_s = s, lp_cyc = cy, lp_last = t\<rparr>)"

text \<open>Before each turn the other threads may have changed what they share with the loop.\<close>

fun rvl_run :: "zdrivers \<Rightarrow> bool \<Rightarrow> rvl_boot \<Rightarrow> (u32 \<times> (rvl \<Rightarrow> rvl)) list \<Rightarrow> rvl_loop \<Rightarrow> rvl_end" where
  "rvl_run D mirror B [] l = Running l"
| "rvl_run D mirror B ((c, other) # ts) l =
     (case rvl_turn D mirror B c (l\<lparr>lp_s := on_env other (lp_s l)\<rparr>) of
        Poweroff l1 \<Rightarrow> Poweroff l1
      | Running l1 \<Rightarrow> rvl_run D mirror B ts l1)"

section \<open>Confinement\<close>

definition ram_ok :: "u32 \<Rightarrow> bool" where
  "ram_ok ram \<longleftrightarrow> MINI_STATE_SIZE \<le> unat ram \<and> unat ram mod 4 = 0"

lemma overlay_env [simp]: "mi_env (overlay R h s) = mi_env s"
  by (simp add: overlay_def)

lemma on_env_overlay: "on_env f (overlay R h s) = overlay R h (on_env f s)"
  by (simp add: overlay_def on_env_def cong: if_cong)

lemma set_env_overlay: "(overlay R h s)\<lparr>mi_env := e\<rparr> = overlay R h (s\<lparr>mi_env := e\<rparr>)"
  by (simp add: overlay_def cong: if_cong)

lemma core_sub:
  assumes "ram_ok ram" "field_ok f"
  shows "{core_off ram + 4 * field_idx f..<core_off ram + 4 * field_idx f + 4} \<subseteq> {0..<unat ram}"
  using assms field_idx_lt [OF assms(2)] by (auto simp: ram_ok_def core_off_def MINI_STATE_SIZE_def)

lemma core_overlay:
  assumes "ram_ok ram" "field_ok f"
  shows "core_get (core_off ram) f (overlay {0..<unat ram} h s) = core_get (core_off ram) f s"
    "core_set (core_off ram) f v (overlay {0..<unat ram} h s) = overlay {0..<unat ram} h (core_set (core_off ram) f v s)"
  by (simp_all add: core_get_def core_set_def ld_img_overlay [OF core_sub [OF assms]] st_img_overlay [OF core_sub [OF assms]])

lemma rvl_cfg_ok:
  assumes "ram_ok ram"
  shows "mini_cfg_ok (rvl_cfg D mirror ram) {0..<unat ram}"
proof -
  have dom: "mini_dom (rvl_cfg D mirror ram) \<subseteq> {0..<unat ram}"
    using assms by (auto simp: mini_dom_def rvl_cfg_def core_off_def ram_ok_def)
  have ld: "mmio_load D (core_off ram) a (overlay {0..<unat ram} h s) =
      apsnd (overlay {0..<unat ram} h) (mmio_load D (core_off ram) a s)" for a h s
    by (simp add: mmio_load_def core_overlay [OF assms] set_env_overlay split: prod.split)
  have st: "mmio_store D mirror (core_off ram) a v (overlay {0..<unat ram} h s) =
      apsnd (overlay {0..<unat ram} h) (mmio_store D mirror (core_off ram) a v s)" for a v h s
    by (simp add: mmio_store_def core_overlay [OF assms] on_env_overlay)
  show ?thesis using assms dom ld st by (simp add: mini_cfg_ok_def rvl_cfg_def ram_ok_def MINI_STATE_SIZE_def)
qed

definition boot_ok :: "rvl_boot \<Rightarrow> bool" where
  "boot_ok B \<longleftrightarrow> ram_ok (rb_ram B) \<and> 0x140 \<le> length (rb_dtb B) \<and>
     rb_len B + length (rb_dtb B) + MINI_STATE_SIZE \<le> unat (rb_ram B)"

definition map_ov :: "rvl_boot \<Rightarrow> block \<Rightarrow> rvl_loop \<Rightarrow> rvl_loop" where
  "map_ov B h l = l\<lparr>lp_s := overlay {0..<unat (rb_ram B)} h (lp_s l)\<rparr>"

lemma mem_write_ov:
  assumes "{off..<off + length bs} \<subseteq> R"
  shows "mem_write (\<lambda>a. if a \<in> R then m a else h a) off bs = (\<lambda>a. if a \<in> R then mem_write m off bs a else h a)"
  using assms by (auto simp: mem_write_def fun_eq_iff)

lemma mem_set_ov:
  assumes "{off..<off + n} \<subseteq> R"
  shows "mem_set (\<lambda>a. if a \<in> R then m a else h a) off n v = (\<lambda>a. if a \<in> R then mem_set m off n v a else h a)"
  using assms by (auto simp: mem_set_def fun_eq_iff)

lemma mem_read_ov:
  assumes "{off..<off + n} \<subseteq> R"
  shows "mem_read (\<lambda>a. if a \<in> R then m a else h a) off n = mem_read m off n"
  by (rule mem_read_cong) (use assms in auto)

lemma guest_prepare_overlay:
  assumes "boot_ok B"
  defines "R \<equiv> {0..<unat (rb_ram B)}"
  shows "guest_prepare (rb_ram B) (rb_dtb B) img (rb_len B) (overlay R h s) =
    overlay R h (guest_prepare (rb_ram B) (rb_dtb B) img (rb_len B) s)"
proof -
  have ok: "ram_ok (rb_ram B)" using assms(1) by (simp add: boot_ok_def)
  have sub: "{0..<0 + length (mem_read img 0 (rb_len B))} \<subseteq> R" "{rb_len B..<rb_len B + (unat (rb_ram B) - rb_len B)} \<subseteq> R"
    "{dtb_at (rb_ram B) (rb_dtb B)..<dtb_at (rb_ram B) (rb_dtb B) + length (rb_dtb B)} \<subseteq> R"
    "{dtb_at (rb_ram B) (rb_dtb B) + 0x13c..<dtb_at (rb_ram B) (rb_dtb B) + 0x13c + 4} \<subseteq> R"
    "{dtb_at (rb_ram B) (rb_dtb B) + 0x13c..<dtb_at (rb_ram B) (rb_dtb B) + 0x13c + length (be32 v)} \<subseteq> R"
    "{core_off (rb_ram B)..<core_off (rb_ram B) + MINI_STATE_SIZE} \<subseteq> R" for v
    using assms by (auto simp: boot_ok_def dtb_at_def core_off_def MINI_STATE_SIZE_def)
  let ?o = "\<lambda>m a. if a \<in> R then m a else h a"
  have ov: "(overlay R h s)\<lparr>mi_mem := ?o m\<rparr> = overlay R h (s\<lparr>mi_mem := m\<rparr>)" for m
    by (simp add: overlay_def cong: if_cong)
  have m: "mi_mem (overlay R h s) = ?o (mi_mem s)" by (simp add: overlay_def)
  have split: "(if P then ?o m else ?o m') = ?o (if P then m else m')" for P m m' by simp
  show ?thesis
    unfolding guest_prepare_def Let_def m mem_write_ov [OF sub(1)] mem_set_ov [OF sub(2)] mem_write_ov [OF sub(3)]
      mem_read_ov [OF sub(4)] mem_write_ov [OF sub(5)] split mem_set_ov [OF sub(6)] ov
    by (simp add: core_overlay [OF ok, folded R_def])
qed

lemma rvl_turn_overlay:
  assumes "boot_ok B"
  shows "rvl_turn D mirror B c (map_ov B h l) =
    (case rvl_turn D mirror B c l of Running l1 \<Rightarrow> Running (map_ov B h l1) | Poweroff l1 \<Rightarrow> Poweroff (map_ov B h l1))"
proof -
  have ok: "ram_ok (rb_ram B)" using assms(1) by (simp add: boot_ok_def)
  obtain t cy where n: "now_us (rb_hz B) c (lp_cyc l) = (t, cy)" by fastforce
  obtain ret s where st: "MiniRV32IMAStep (rvl_cfg D mirror (rb_ram B)) (ucast (t - lp_last l)) 1024 (lp_s l) = (ret, s)" by fastforce
  show ?thesis
    using mini_step_overlay [OF rvl_cfg_ok [OF ok], of D mirror "ucast (t - lp_last l)" 1024 h "lp_s l"]
    by (simp add: rvl_turn_def map_ov_def n st guest_prepare_overlay [OF assms])
qed

definition end_loop :: "rvl_end \<Rightarrow> rvl_loop" where
  "end_loop r = (case r of Running l \<Rightarrow> l | Poweroff l \<Rightarrow> l)"

definition map_rvl_end :: "(rvl_loop \<Rightarrow> rvl_loop) \<Rightarrow> rvl_end \<Rightarrow> rvl_end" where
  "map_rvl_end f r = (case r of Running l \<Rightarrow> Running (f l) | Poweroff l \<Rightarrow> Poweroff (f l))"

lemma rvl_run_overlay:
  assumes "boot_ok B"
  shows "rvl_run D mirror B ts (map_ov B h l) = map_rvl_end (map_ov B h) (rvl_run D mirror B ts l)"
proof (induction ts arbitrary: l)
  case (Cons t ts)
  obtain c other where t: "t = (c, other)" by fastforce
  have e: "(map_ov B h l)\<lparr>lp_s := on_env other (lp_s (map_ov B h l))\<rparr> = map_ov B h (l\<lparr>lp_s := on_env other (lp_s l)\<rparr>)"
    by (simp add: map_ov_def on_env_overlay)
  show ?case
    by (cases "rvl_turn D mirror B c (l\<lparr>lp_s := on_env other (lp_s l)\<rparr>)")
      (simp_all add: t e rvl_turn_overlay [OF assms] Cons.IH map_rvl_end_def)
qed (simp add: map_rvl_end_def)

text \<open>
  C4. Whatever the guest executes, through traps, device accesses and reboots, for any number of turns
  and with the other threads at work in between: memory of the host outside the SDRAM is neither
  changed nor read. With other contents there the run goes the same way.
\<close>

theorem rvl_confined:
  assumes "boot_ok B" "unat (rb_ram B) \<le> a"
  shows "mi_mem (lp_s (end_loop (rvl_run D mirror B ts l))) a = mi_mem (lp_s l) a \<and>
    rvl_run D mirror B ts (map_ov B h l) = map_rvl_end (map_ov B h) (rvl_run D mirror B ts l)"
proof -
  note o = rvl_run_overlay [OF assms(1), of D mirror ts]
  have "map_ov B (mi_mem (lp_s l)) l = l" by (simp add: map_ov_def overlay_def)
  with o [of "mi_mem (lp_s l)" l] have "rvl_run D mirror B ts l = map_rvl_end (map_ov B (mi_mem (lp_s l))) (rvl_run D mirror B ts l)" by simp
  then have "end_loop (rvl_run D mirror B ts l) = map_ov B (mi_mem (lp_s l)) (end_loop (rvl_run D mirror B ts l))"
    by (cases "rvl_run D mirror B ts l") (simp_all add: end_loop_def map_rvl_end_def)
  then have "mi_mem (lp_s (end_loop (rvl_run D mirror B ts l))) a =
      mi_mem (lp_s (map_ov B (mi_mem (lp_s l)) (end_loop (rvl_run D mirror B ts l)))) a" by simp
  then show ?thesis using assms(2) o by (simp add: map_ov_def overlay_def)
qed

section \<open>The guest's memory at its start\<close>

lemma core_CSR: "core_get (core_off ram) = CSR (rvl_cfg D mirror ram)" "core_set (core_off ram) = SETCSR (rvl_cfg D mirror ram)"
  by (simp_all add: fun_eq_iff core_get_def core_set_def CSR_def SETCSR_def rvl_cfg_def)

lemma core_get_set:
  assumes "field_ok f" "field_ok g"
  shows "core_get c f (core_set c g v s) = (if f = g then v else core_get c f s)"
  using CSR_SETCSR [OF assms, of "\<lparr>mc_ram = 0, mc_core = c, mc_load = undefined, mc_store = undefined\<rparr>" v s]
  by (simp add: core_get_def core_set_def CSR_def SETCSR_def)

lemma core_set_below: "a < c \<Longrightarrow> mi_mem (core_set c f v s) a = mi_mem s a"
  by (simp add: core_set_def st_img_def mem_simps)

lemma zero_word:
  assumes "\<And>a. off \<le> a \<Longrightarrow> a < off + 4 \<Longrightarrow> m a = 0"
  shows "of_le (mem_read m off 4) = 0"
proof -
  have "mem_read m off 4 = replicate 4 0"
    by (rule nth_equalityI) (use assms in \<open>simp_all add: nth_mem_read\<close>)
  then show ?thesis by (simp add: numeral_eq_Suc)
qed

text \<open>The memory before the state is set up.\<close>

definition prepared :: "u32 \<Rightarrow> u8 list \<Rightarrow> block \<Rightarrow> nat \<Rightarrow> block \<Rightarrow> block" where
  "prepared ram dtb img img_len m =
     (let m2 = mem_set (mem_write m 0 (mem_read img 0 img_len)) img_len (unat ram - img_len) 0;
          m3 = mem_write m2 (dtb_at ram dtb) dtb;
          m4 = (if (of_le (mem_read m3 (dtb_at ram dtb + 0x13c) 4) :: u32) = 0x00c0ff03
                then mem_write m3 (dtb_at ram dtb + 0x13c) (be32 (of_nat (dtb_at ram dtb))) else m3)
      in mem_set m4 (core_off ram) MINI_STATE_SIZE 0)"

lemma guest_prepare_alt:
  "guest_prepare ram dtb img img_len s =
     (let c = core_off ram;
          s1 = core_set c (M_regs 11) (of_nat (dtb_at ram dtb) + MINIRV32_RAM_IMAGE_OFFSET)
            (core_set c (M_regs 10) 0 (core_set c M_pc MINIRV32_RAM_IMAGE_OFFSET
              (s\<lparr>mi_mem := prepared ram dtb img img_len (mi_mem s)\<rparr>)))
      in core_set c M_extraflags (core_get c M_extraflags s1 OR 3) s1)"
  by (simp add: guest_prepare_def prepared_def Let_def)

text \<open>
  C18. Before the guest runs, its memory holds the kernel at offset 0, zeroes up to the devicetree, the
  devicetree with the size of usable memory patched in (when the place is marked as expected),
  and the state of the emulator: machine mode, the program counter at the start of RAM, the address
  of the devicetree in \<open>a1\<close>, everything else 0.
\<close>

theorem guest_prepare_layout:
  assumes "boot_ok B" "s' = guest_prepare (rb_ram B) (rb_dtb B) img (rb_len B) s"
    "of_le (take 4 (drop 0x13c (rb_dtb B))) = (0x00c0ff03 :: u32)" "field_ok f"
  shows "mem_read (mi_mem s') 0 (rb_len B) = mem_read img 0 (rb_len B) \<and>
    (\<forall>a. rb_len B \<le> a \<and> a < dtb_at (rb_ram B) (rb_dtb B) \<longrightarrow> mi_mem s' a = 0) \<and>
    mem_read (mi_mem s') (dtb_at (rb_ram B) (rb_dtb B)) (length (rb_dtb B)) =
      take 0x13c (rb_dtb B) @ be32 (of_nat (dtb_at (rb_ram B) (rb_dtb B))) @ drop 0x140 (rb_dtb B) \<and>
    CSR (rvl_cfg D mirror (rb_ram B)) f s' =
      (if f = M_pc then 0x80000000 else if f = M_extraflags then 3
       else if f = M_regs 11 then of_nat (dtb_at (rb_ram B) (rb_dtb B)) + 0x80000000 else 0)"
proof -
  define ram dtb n d c where "ram = rb_ram B" and "dtb = rb_dtb B" and "n = rb_len B"
    and "d = dtb_at ram dtb" and "c = core_off ram"
  have b: "192 \<le> unat ram" "0x140 \<le> length dtb" "n + length dtb + 192 \<le> unat ram" "d + length dtb = c" "c + 192 = unat ram"
    "n \<le> d"
    using assms(1) by (auto simp: boot_ok_def ram_ok_def MINI_STATE_SIZE_def ram_def dtb_def n_def d_def c_def dtb_at_def core_off_def)
  let ?m3 = "mem_write (mem_set (mem_write (mi_mem s) 0 (mem_read img 0 n)) n (unat ram - n) 0) d dtb"
  have "mem_read ?m3 (d + 0x13c) 4 = take 4 (drop 0x13c dtb)"
    using mem_read_sub [of "0x13c" 4 "length dtb" ?m3 d] b(2) by simp
  then have sent: "(of_le (mem_read ?m3 (d + 0x13c) 4) :: u32) = 0x00c0ff03" using assms(3) by (simp add: dtb_def)
  define m where "m = prepared ram dtb img n (mi_mem s)"
  have m: "m = mem_set (mem_write ?m3 (d + 0x13c) (be32 (of_nat d))) c 192 0"
    using sent by (simp add: m_def prepared_def Let_def d_def [symmetric] c_def [symmetric] MINI_STATE_SIZE_def)
  have low: "mi_mem s' a = m a" if "a < c" for a
    using that assms(2) by (simp add: guest_prepare_alt Let_def core_set_below m_def ram_def dtb_def n_def c_def)
  have kern: "mem_read (mi_mem s') 0 n = mem_read img 0 n"
  proof -
    have "mi_mem s' a = img a" if "a < n" for a
      using that b by (subst low) (simp_all add: m mem_set_def mem_write_def nth_mem_read)
    then show ?thesis by (auto simp: mem_read_def)
  qed
  have zero: "mi_mem s' a = 0" if "n \<le> a" "a < d" for a
    using that b by (subst low) (simp_all add: m mem_set_def mem_write_def)
  have dt: "mem_read (mi_mem s') d (length dtb) = take 0x13c dtb @ be32 (of_nat d) @ drop 0x140 dtb"
  proof (rule nth_equalityI)
    fix i assume "i < length (mem_read (mi_mem s') d (length dtb))"
    then have i: "i < length dtb" by simp
    then have "mi_mem s' (d + i) = m (d + i)" using b by (intro low) linarith
    with i show "mem_read (mi_mem s') d (length dtb) ! i = (take 0x13c dtb @ be32 (of_nat d) @ drop 0x140 dtb) ! i"
      using b by (auto simp: nth_mem_read m mem_set_def mem_write_def nth_append)
  qed (use b in simp)
  have z: "core_get c g (s\<lparr>mi_mem := m\<rparr>) = 0" if "field_ok g" for g
    using field_idx_lt [OF that]
    by (simp add: core_get_def ld_img_def, intro zero_word) (simp add: m mem_set_def)
  have core: "core_get c f s' =
      (if f = M_pc then 0x80000000 else if f = M_extraflags then 3 else if f = M_regs 11 then of_nat d + 0x80000000 else 0)"
    using assms(2,4)
    by (simp add: guest_prepare_alt Let_def core_get_set z MINIRV32_RAM_IMAGE_OFFSET_def
        m_def [symmetric] ram_def [symmetric] dtb_def [symmetric] n_def [symmetric] c_def [symmetric] d_def [symmetric])
  show ?thesis
    using kern zero dt core
    by (simp add: core_CSR(1) [where ram = ram and D = D and mirror = mirror, symmetric] flip: ram_def dtb_def n_def d_def c_def)
qed

section \<open>The emulator's state within the guest's reach\<close>

text \<open>
  C37. Unlike the state of \<open>mini_x0\<close>, this one is inside guest RAM: a word stored at the right place of the
  top of RAM, in any privilege mode, becomes any register the guest likes, the privilege mode and
  register 0 among them. Only the size in the devicetree keeps a guest from going there.
\<close>

theorem core_in_reach:
  assumes "ram_ok ram" "field_ok f" "ir AND 0x7f = 0x23" "drop_bit 12 ir AND 7 = 2"
    "REG (rvl_cfg D mirror ram) (drop_bit 15 ir) s + mini_imm_s ir = 0x80000000 + of_nat (core_off ram + 4 * field_idx f)"
  shows "mini_exec (rvl_cfg D mirror ram) ir pc cy s =
    I_Next 0 0 pc 0 (SETCSR (rvl_cfg D mirror ram) f (REG (rvl_cfg D mirror ram) (drop_bit 20 ir) s) s)"
proof -
  let ?C = "rvl_cfg D mirror ram"
  define a where "a = core_off ram + 4 * field_idx f"
  have a: "a + 4 \<le> unat ram"
    using assms(1) field_idx_lt [OF assms(2)] by (simp add: a_def ram_ok_def core_off_def MINI_STATE_SIZE_def)
  have ofs: "mini_imm_s ir + (REG ?C (drop_bit 15 ir) s - MINIRV32_RAM_IMAGE_OFFSET) = of_nat a"
    using assms(5) unfolding a_def [symmetric] by (simp add: MINIRV32_RAM_IMAGE_OFFSET_def algebra_simps)
  have u: "unat (of_nat a :: u32) = a"
    using a unat_u32_lt [of ram] by (simp add: unsigned_of_nat take_bit_nat_eq_self)
  have "unat (ram - 3) = unat ram - 3" using a by (subst unat_sub) (simp_all add: word_le_nat_alt)
  then have in1: "\<not> mc_ram ?C - 3 \<le> of_nat a" using a u by (simp add: word_le_nat_alt rvl_cfg_def)
  have "mini_store ?C ir pc s = I_Next 0 0 pc 0 (st_img 4 a (REG ?C (drop_bit 20 ir) s) s)"
    unfolding mini_store_def Let_def ofs u using in1 by (simp add: assms(4))
  then show ?thesis using assms(3) by (simp add: mini_exec_def Let_def SETCSR_def rvl_cfg_def a_def)
qed

text \<open>
  A store to the syscon ends the call with the value stored, whatever it is. The counter it leaves is
  made from the one saved when the call began, not from where the store is: after a value
  that is neither reboot nor poweroff the guest resumes 4 bytes after the start of that call.
\<close>

lemma syscon_resumes_at_start:
  assumes "4 \<le> unat ram" "unat ram \<le> 0x90000000" "ir AND 0x7f = 0x23" "REG (rvl_cfg D mirror ram) (drop_bit 20 ir) s \<noteq> 0"
    "REG (rvl_cfg D mirror ram) (drop_bit 15 ir) s + mini_imm_s ir = 0x11100000"
  shows "mini_exec (rvl_cfg D mirror ram) ir pc cy s =
    I_Ret (REG (rvl_cfg D mirror ram) (drop_bit 20 ir) s)
      (SETCSR (rvl_cfg D mirror ram) M_pc (CSR (rvl_cfg D mirror ram) M_pc s + 4) s)"
proof -
  let ?C = "rvl_cfg D mirror ram"
  have ofs: "mini_imm_s ir + (REG ?C (drop_bit 15 ir) s - MINIRV32_RAM_IMAGE_OFFSET) = 0x11100000 - 0x80000000"
    unfolding assms(5) [symmetric] by (simp add: MINIRV32_RAM_IMAGE_OFFSET_def algebra_simps)
  have "unat (ram - 3) = unat ram - 3" using assms(1) by (subst unat_sub) (simp_all add: word_le_nat_alt)
  then have big: "mc_ram ?C - 3 \<le> 0x11100000 - 0x80000000" using assms(2) by (simp add: word_le_nat_alt rvl_cfg_def)
  have "mini_store ?C ir pc s = I_Ret (REG ?C (drop_bit 20 ir) s) (core_set (core_off ram) M_pc (core_get (core_off ram) M_pc s + 4) s)"
    unfolding mini_store_def Let_def ofs if_P [OF big] using assms(4)
    by (simp add: MINIRV32_MMIO_RANGE_def MINIRV32_RAM_IMAGE_OFFSET_def rvl_cfg_def mmio_store_def)
  then show ?thesis
    using assms(3) by (simp add: mini_exec_def Let_def core_CSR [where D = D and mirror = mirror])
qed

section \<open>Small instances\<close>

text \<open>A kilobyte of RAM with an empty devicetree that carries the mark, and drivers that always answer.\<close>

definition demo_zd :: zdrivers where
  "demo_zd = \<lparr>zd_uart = (\<lambda>h. None), zd_bus_ready = (\<lambda>b. True), zd_pin_ready = (\<lambda>p. True),
     zd_flags = \<lparr>GPIO_DISCONNECTED = 0, GPIO_INPUT = 1, GPIO_OUTPUT = 2, GPIO_PULL_UP = 4, GPIO_PULL_DOWN = 8,
       GPIO_OPEN_DRAIN = 16, GPIO_OUTPUT_INIT_HIGH = 32, GPIO_OUTPUT_INIT_LOW = 64\<rparr>,
     zd_i2c_write = (\<lambda>h b a w. 0), zd_i2c_read = (\<lambda>h b a n. (0, replicate n 7)),
     zd_i2c_write_read = (\<lambda>h b a w n. (0, replicate n 9)), zd_gpio_config = (\<lambda>h p f. 0), zd_gpio_set = (\<lambda>h p v. 0),
     zd_gpio_get = (\<lambda>h p. 1), zd_gpio_toggle = (\<lambda>h p. 0)\<rparr>"

definition demo_pvio :: pvio where
  "demo_pvio = \<lparr>px_status = 0, px_result = 0, px_i2c_bus = 0, px_i2c_addr = 0x48, px_i2c_wlen = 1, px_i2c_rlen = 2,
     px_gpio_pin = 0, px_gpio_val = 0, px_gpio_flags = 0, px_data = (\<lambda>_. 0)\<rparr>"

definition demo_rvl :: rvl where
  "demo_rvl = \<lparr>rl_ev = [], rl_rx_have = - 1, rl_active = False,
     rl_tx = \<lparr>sp_buf = (\<lambda>_. 0), sp_mask = 8191, sp_head = 0, sp_tail = 0\<rparr>,
     rl_rx = \<lparr>sp_buf = (\<lambda>_. 0), sp_mask = 1023, sp_head = 0, sp_tail = 0\<rparr>, rl_dropped = 0, rl_pv = demo_pvio\<rparr>"

definition demo_boot :: rvl_boot where
  "demo_boot = \<lparr>rb_ram = 1024, rb_dtb = replicate 0x13c 0 @ le_bytes 4 (0x00c0ff03 :: u32), rb_img = (\<lambda>a. of_nat a),
     rb_len = 8, rb_hz = 480000000\<rparr>"

definition demo_host :: "rvl mini" where "demo_host = \<lparr>mi_mem = (\<lambda>_. 1), mi_env = demo_rvl\<rparr>"

definition demo_loop :: rvl_loop where
  "demo_loop = \<lparr>lp_s = guest_prepare 1024 (rb_dtb demo_boot) (rb_img demo_boot) 8 demo_host,
     lp_cyc = \<lparr>cyc_last = 0, cyc_total = 0\<rparr>, lp_last = 0\<rparr>"

lemma demo_boot_ok: "boot_ok demo_boot"
  by (simp add: boot_ok_def ram_ok_def demo_boot_def MINI_STATE_SIZE_def)

lemma demo_ram: "rb_ram demo_boot = 1024" "rb_len demo_boot = 8" "length (rb_dtb demo_boot) = 320"
  by (simp_all add: demo_boot_def)

theorem rvl_confined_witness:
  "mi_mem (lp_s (end_loop (rvl_run demo_zd False demo_boot [(5, id), (9, id)] demo_loop))) 5000 = 1"
proof -
  have "mi_mem (lp_s demo_loop) 5000 = 1"
    by (simp add: demo_loop_def guest_prepare_alt prepared_def Let_def core_set_def st_img_def mem_write_def mem_set_def
        core_off_def MINI_STATE_SIZE_def dtb_at_def demo_host_def demo_ram)
  then show ?thesis using demo_boot_ok rvl_confined [where B = demo_boot and a = 5000 and D = demo_zd and mirror = False and ts = "[(5, id), (9, id)]" and l = demo_loop] by (simp add: demo_ram)
qed

theorem guest_prepare_layout_witness:
  "CSR (rvl_cfg demo_zd False 1024) (M_regs 11) (guest_prepare 1024 (rb_dtb demo_boot) (rb_img demo_boot) 8 demo_host) = 0x80000200"
proof -
  have "of_le (take 4 (drop 0x13c (rb_dtb demo_boot))) = (0x00c0ff03 :: u32)" by (simp add: demo_boot_def)
  from guest_prepare_layout [OF demo_boot_ok refl this, where f = "M_regs 11" and D = demo_zd and mirror = False and img = "rb_img demo_boot" and s = demo_host]
  show ?thesis by (simp add: demo_ram dtb_at_def MINI_STATE_SIZE_def)
qed

text \<open>In user mode: \<open>sw x2, 0(x1)\<close> to the last word of RAM, which holds the privilege mode.\<close>

definition demo_user :: "rvl mini" where
  "demo_user = core_set 832 (M_regs 1) 0x800003fc (core_set 832 (M_regs 2) 3 \<lparr>mi_mem = (\<lambda>_. 0), mi_env = demo_rvl\<rparr>)"

theorem core_in_reach_witness:
  "mini_exec (rvl_cfg demo_zd False 1024) 0x0020a023 0x80000000 1 demo_user =
     I_Next 0 0 0x80000000 0 (SETCSR (rvl_cfg demo_zd False 1024) M_extraflags 3 demo_user)"
proof -
  have r: "ram_ok 1024" by (simp add: ram_ok_def MINI_STATE_SIZE_def)
  have c: "core_off 1024 = 832" by (simp add: core_off_def MINI_STATE_SIZE_def)
  have g: "CSR (rvl_cfg demo_zd False 1024) f demo_user = core_get 832 f demo_user" for f
    using core_CSR(1) [of "1024" demo_zd False] by (simp add: c)
  have x: "REG (rvl_cfg demo_zd False 1024) (drop_bit 15 0x0020a023) demo_user = 0x800003fc"
    "REG (rvl_cfg demo_zd False 1024) (drop_bit 20 0x0020a023) demo_user = 3"
    unfolding REG_def g by (simp_all add: demo_user_def core_get_set)
  have i: "mini_imm_s 0x0020a023 = 0" by code_simp
  show ?thesis
    using core_in_reach [OF r, of M_extraflags "0x0020a023" demo_zd False demo_user "0x80000000" 1] x i by (simp add: c)
qed

end
