(* ===== verification/Rvl_Bridge.thy ===== *)
theory Rvl_Bridge
  imports Rvlinux
begin

text \<open>
  The paravirtual bridge exists twice: in \<open>ra8d1-linux/rvlinux/src/main.c\<close> (\<open>Rvlinux\<close>) and in the
  later port, where \<open>emu/rv_machine.c\<close> (\<open>Machine\<close>) is on top of \<open>src/platform_zephyr.c\<close> (\<open>Board\<close>). The guest's
  driver is the same. Here the two are run over the same drivers of Zephyr and compared.
\<close>

section \<open>One bridge, two hosts\<close>

text \<open>The platform the later port builds from the same drivers (\<open>Board\<close>).\<close>

definition board_plat :: "zdrivers \<Rightarrow> plat \<Rightarrow> plat" where
  "board_plat D P = P\<lparr>po_caps := (\<lambda>h. plat_pv_caps),
     po_i2c_write := (\<lambda>h. plat_pv_i2c_write (zd_bus_ready D) (zd_i2c_write D h)),
     po_i2c_read := (\<lambda>h. plat_pv_i2c_read (zd_bus_ready D) (zd_i2c_read D h)),
     po_i2c_write_read := (\<lambda>h. plat_pv_i2c_write_read (zd_bus_ready D) (zd_i2c_write_read D h)),
     po_gpio_config := (\<lambda>h. plat_pv_gpio_config (zd_pin_ready D) (zd_flags D) (zd_gpio_config D h)),
     po_gpio_set := (\<lambda>h. plat_pv_gpio_set (zd_pin_ready D) (zd_gpio_set D h)),
     po_gpio_get := (\<lambda>h. plat_pv_gpio_get (zd_pin_ready D) (zd_gpio_get D h)),
     po_gpio_toggle := (\<lambda>h. plat_pv_gpio_toggle (zd_pin_ready D) (zd_gpio_toggle D h))\<rparr>"

text \<open>A driver answers with a C \<open>int\<close>, and a read that succeeds fills the buffer.\<close>

definition zd_ok :: "zdrivers \<Rightarrow> bool" where
  "zd_ok D \<longleftrightarrow>
     (\<forall>h b a n. - (2 ^ 31) \<le> fst (zd_i2c_read D h b a n) \<and> fst (zd_i2c_read D h b a n) < 2 ^ 31 \<and>
        (fst (zd_i2c_read D h b a n) = 0 \<longrightarrow> length (snd (zd_i2c_read D h b a n)) = n)) \<and>
     (\<forall>h b a w n. - (2 ^ 31) \<le> fst (zd_i2c_write_read D h b a w n) \<and> fst (zd_i2c_write_read D h b a w n) < 2 ^ 31 \<and>
        (fst (zd_i2c_write_read D h b a w n) = 0 \<longrightarrow> length (snd (zd_i2c_write_read D h b a w n)) = n))"

text \<open>The same registers, the same window, the same past.\<close>

definition bridge_same :: "emu \<Rightarrow> rvl \<Rightarrow> bool" where
  "bridge_same s t \<longleftrightarrow> e_ev s = rl_ev t \<and>
     m_pv_status (e_m s) = px_status (rl_pv t) \<and> m_pv_result (e_m s) = px_result (rl_pv t) \<and>
     m_pv_i2c_bus (e_m s) = px_i2c_bus (rl_pv t) \<and> m_pv_i2c_addr (e_m s) = px_i2c_addr (rl_pv t) \<and>
     m_pv_i2c_wlen (e_m s) = px_i2c_wlen (rl_pv t) \<and> m_pv_i2c_rlen (e_m s) = px_i2c_rlen (rl_pv t) \<and>
     m_pv_gpio_pin (e_m s) = px_gpio_pin (rl_pv t) \<and> m_pv_gpio_val (e_m s) = px_gpio_val (rl_pv t) \<and>
     m_pv_gpio_flags (e_m s) = px_gpio_flags (rl_pv t) \<and>
     mem_read (m_pv_data (e_m s)) 0 256 = mem_read (px_data (rl_pv t)) 0 256"

text \<open>What a driver that follows the register map asks for.\<close>

definition px_legal :: "zdrivers \<Rightarrow> u32 \<Rightarrow> pvio \<Rightarrow> bool" where
  "px_legal D cmd p \<longleftrightarrow> unat (px_i2c_wlen p) \<le> 256 \<and> unat (px_i2c_rlen p) \<le> 256 \<and>
     (cmd \<in> {PV_CMD_I2C_WRITE, PV_CMD_I2C_READ, PV_CMD_I2C_WRITE_READ, PV_CMD_I2C_PROBE} \<longrightarrow>
        unat (px_i2c_bus p) < PV_NI2C \<and> zd_bus_ready D (ucast (px_i2c_bus p)) \<and> unat (px_i2c_addr p) \<le> 0x7f) \<and>
     (cmd \<in> {PV_CMD_I2C_WRITE, PV_CMD_I2C_WRITE_READ} \<longrightarrow> px_i2c_wlen p \<noteq> 0) \<and>
     (cmd \<in> {PV_CMD_I2C_READ, PV_CMD_I2C_WRITE_READ} \<longrightarrow> px_i2c_rlen p \<noteq> 0) \<and>
     (cmd = PV_CMD_I2C_WRITE_READ \<longrightarrow> unat (px_i2c_wlen p) + unat (px_i2c_rlen p) \<le> 256) \<and>
     (cmd \<in> {PV_CMD_GPIO_CONFIG, PV_CMD_GPIO_SET, PV_CMD_GPIO_GET, PV_CMD_GPIO_TOGGLE} \<longrightarrow> unat (px_gpio_pin p) < PV_NGPIO \<and> zd_pin_ready D (ucast (px_gpio_pin p)))"

lemmas px_defs = px_write_def px_exec_def px_i2c_def px_gpio_def px_fill_def rl_upd_def rl_log_def

definition same_answer :: "u32 \<Rightarrow> emu \<Rightarrow> rvl \<Rightarrow> bool" where
  "same_answer cmd s t \<longleftrightarrow> e_ev s = rl_ev t \<and> m_pv_status (e_m s) = px_status (rl_pv t) \<and>
     m_pv_gpio_val (e_m s) = px_gpio_val (rl_pv t) \<and>
     (cmd \<in> {PV_CMD_I2C_READ, PV_CMD_I2C_WRITE_READ} \<longrightarrow>
        m_pv_result (e_m s) = px_result (rl_pv t) \<and>
        mem_read (m_pv_data (e_m s)) 0 (unat (m_pv_result (e_m s))) = mem_read (px_data (rl_pv t)) 0 (unat (m_pv_result (e_m s))))"

lemma small_cast: "unat (w :: u32) < 256 \<Longrightarrow> unat (ucast w :: u8) = unat w"
  by (simp add: unsigned_ucast_eq take_bit_nat_eq_self)

lemma status_zero: "- (2 ^ 31) \<le> r \<Longrightarrow> r < 2 ^ 31 \<Longrightarrow> (word_of_int r :: u32) = 0 \<longleftrightarrow> r = 0"
  using int32_word [of r] by (auto simp: int32_def)

lemma bridge_gpio:
  assumes "bridge_same s t" "px_legal D cmd (rl_pv t)"
    "cmd \<in> {PV_CMD_NOP, PV_CMD_GPIO_CONFIG, PV_CMD_GPIO_SET, PV_CMD_GPIO_GET, PV_CMD_GPIO_TOGGLE}"
  shows "same_answer cmd (pv_exec (board_plat D P) s cmd) (px_write D PV_REG_CMD cmd t)"
  using assms
  by (elim insertE emptyE; clarsimp simp: bridge_same_def px_legal_def same_answer_def px_defs pv_exec_def pv_cmd_defs pv_reg_defs
      pv_do_gpio_get_def pv_status_def add_ev_def pv_pin_def PV_DATA_BYTES_def Let_def board_plat_def small_cast
      plat_pv_gpio_config_def plat_pv_gpio_set_def plat_pv_gpio_get_def plat_pv_gpio_toggle_def pv_pin_z_def PV_NGPIO_def)

lemmas bridge_defs = bridge_same_def px_legal_def same_answer_def px_defs pv_exec_def pv_cmd_defs pv_reg_defs
  pv_status_def add_ev_def pv_bus_def pv_addr_def PV_DATA_BYTES_def board_plat_def pv_bus_z_def PV_NI2C_def

lemma small_le: "unat (w :: u32) \<le> 127 \<Longrightarrow> \<not> 0x7f < w"
  by (simp add: word_less_nat_alt)

lemma bridge_i2c_write:
  assumes "bridge_same s t" "px_legal D PV_CMD_I2C_WRITE (rl_pv t)"
  shows "same_answer PV_CMD_I2C_WRITE (pv_exec (board_plat D P) s PV_CMD_I2C_WRITE) (px_write D PV_REG_CMD PV_CMD_I2C_WRITE t)"
proof -
  have w: "mem_read (m_pv_data (e_m s)) 0 (unat (px_i2c_wlen (rl_pv t))) = mem_read (px_data (rl_pv t)) 0 (unat (px_i2c_wlen (rl_pv t)))"
    using assms mem_read_sub [of 0 "unat (px_i2c_wlen (rl_pv t))" 256 "m_pv_data (e_m s)" 0]
      mem_read_sub [of 0 "unat (px_i2c_wlen (rl_pv t))" 256 "px_data (rl_pv t)" 0]
    by (simp add: bridge_same_def px_legal_def)
  show ?thesis
    using assms w by (simp add: bridge_defs Let_def small_le small_cast pv_do_write_def plat_pv_i2c_write_def unat_eq_0 [symmetric])
qed

lemma bridge_i2c_probe:
  assumes "bridge_same s t" "px_legal D PV_CMD_I2C_PROBE (rl_pv t)"
  shows "same_answer PV_CMD_I2C_PROBE (pv_exec (board_plat D P) s PV_CMD_I2C_PROBE) (px_write D PV_REG_CMD PV_CMD_I2C_PROBE t)"
  using assms by (simp add: bridge_defs Let_def small_le small_cast pv_do_probe_def plat_pv_i2c_read_def)

lemma bridge_i2c_read:
  assumes "zd_ok D" "bridge_same s t" "px_legal D PV_CMD_I2C_READ (rl_pv t)"
  shows "same_answer PV_CMD_I2C_READ (pv_exec (board_plat D P) s PV_CMD_I2C_READ) (px_write D PV_REG_CMD PV_CMD_I2C_READ t)"
proof -
  let ?n = "unat (px_i2c_rlen (rl_pv t))"
  obtain rc bs where x: "zd_i2c_read D (rl_ev t) (ucast (px_i2c_bus (rl_pv t))) (ucast (px_i2c_addr (rl_pv t))) ?n = (rc, bs)" by fastforce
  have k: "- (2 ^ 31) \<le> rc" "rc < 2 ^ 31" "rc = 0 \<Longrightarrow> length bs = ?n"
    using assms(1) x unfolding zd_ok_def by (metis fst_conv snd_conv)+
  note st = status_zero [OF k(1,2)]
  show ?thesis
  proof (cases "rc = 0")
    case True
    then show ?thesis
      using assms x k(3) by (simp add: bridge_defs Let_def small_le small_cast pv_do_read_def pv_reply_def
          plat_pv_i2c_read_def unat_eq_0 [symmetric] mem_simps)
  next
    case False
    then show ?thesis
      using assms x st by (simp add: bridge_defs Let_def small_le small_cast pv_do_read_def pv_reply_def
          plat_pv_i2c_read_def unat_eq_0 [symmetric])
  qed
qed

lemma bridge_i2c_write_read:
  assumes "zd_ok D" "bridge_same s t" "px_legal D PV_CMD_I2C_WRITE_READ (rl_pv t)"
  shows "same_answer PV_CMD_I2C_WRITE_READ (pv_exec (board_plat D P) s PV_CMD_I2C_WRITE_READ)
    (px_write D PV_REG_CMD PV_CMD_I2C_WRITE_READ t)"
proof -
  let ?n = "unat (px_i2c_rlen (rl_pv t))" and ?w = "unat (px_i2c_wlen (rl_pv t))"
  define w where "w = mem_read (px_data (rl_pv t)) 0 ?w"
  have w: "mem_read (m_pv_data (e_m s)) 0 ?w = w"
    using assms(2,3) mem_read_sub [of 0 ?w 256 "m_pv_data (e_m s)" 0] mem_read_sub [of 0 ?w 256 "px_data (rl_pv t)" 0]
    by (simp add: w_def bridge_same_def px_legal_def)
  obtain rc bs where x: "zd_i2c_write_read D (rl_ev t) (ucast (px_i2c_bus (rl_pv t))) (ucast (px_i2c_addr (rl_pv t))) w ?n = (rc, bs)" by fastforce
  have k: "- (2 ^ 31) \<le> rc" "rc < 2 ^ 31" "rc = 0 \<Longrightarrow> length bs = ?n"
    using assms(1) x unfolding zd_ok_def by (metis fst_conv snd_conv)+
  note st = status_zero [OF k(1,2)]
  show ?thesis
  proof (cases "rc = 0")
    case True
    then show ?thesis
      using assms x w k(3) by (simp add: bridge_defs Let_def small_le small_cast pv_do_write_read_def pv_reply_def
          plat_pv_i2c_write_read_def unat_eq_0 [symmetric] mem_simps w_def [symmetric])
  next
    case False
    then show ?thesis
      using assms x w st by (simp add: bridge_defs Let_def small_le small_cast pv_do_write_read_def pv_reply_def
          plat_pv_i2c_write_read_def unat_eq_0 [symmetric] w_def [symmetric])
  qed
qed

text \<open>Every other access of the register file reads the same and keeps the two the same.\<close>

lemma px_window:
  assumes "off AND 3 = 0" "PV_REG_DATA \<le> off"
  shows "4 * unat (drop_bit 2 (off - PV_REG_DATA)) = unat (off - PV_REG_DATA)"
    "pv_in_data off \<longleftrightarrow> unat (drop_bit 2 (off - PV_REG_DATA)) < 64"
    "pv_in_data off \<Longrightarrow> unat (off - PV_REG_DATA) + 4 \<le> 256"
proof -
  have u: "unat (off - PV_REG_DATA) = unat off - 512" using assms(2) by (subst unat_sub) (simp_all add: PV_REG_DATA_def)
  have b: "512 \<le> unat off" using assms(2) by (simp add: PV_REG_DATA_def word_le_nat_alt)
  have "unat off mod 4 = 0" using assms(1) by (simp add: and3_unat)
  then have m: "unat (off - PV_REG_DATA) mod 4 = 0" unfolding u using b by presburger
  have d: "unat (drop_bit 2 (off - PV_REG_DATA)) = unat (off - PV_REG_DATA) div 4"
    by (simp add: drop_bit_eq_div unat_div)
  show "4 * unat (drop_bit 2 (off - PV_REG_DATA)) = unat (off - PV_REG_DATA)" unfolding d using m by presburger
  have i: "pv_in_data off \<longleftrightarrow> unat off < 768"
    using assms(2) by (simp add: pv_in_data_def PV_REG_DATA_def PV_DATA_BYTES_def word_less_nat_alt)
  show "pv_in_data off \<longleftrightarrow> unat (drop_bit 2 (off - PV_REG_DATA)) < 64" unfolding d u i using b by presburger
  show "pv_in_data off \<Longrightarrow> unat (off - PV_REG_DATA) + 4 \<le> 256" unfolding i using m u b by presburger
qed

lemma bridge_registers:
  assumes "bridge_same s t" "off AND 3 = 0"
  shows "fst (pv_read (board_plat D P) s off 2) = px_read off (rl_pv t)"
    and "off \<noteq> PV_REG_CMD \<Longrightarrow> bridge_same (pv_write (board_plat D P) s off v 2) (px_write D off v t)"
proof -
  let ?k = "unat (off - PV_REG_DATA)"
  have e: "mem_read (m_pv_data (e_m s)) 0 256 = mem_read (px_data (rl_pv t)) 0 256" using assms(1) by (simp add: bridge_same_def)
  then have b: "m_pv_data (e_m s) i = px_data (rl_pv t) i" if "i < 256" for i
    using that by (metis add_0 nth_mem_read)
  have rd: "mem_read (m_pv_data (e_m s)) ?k 4 = mem_read (px_data (rl_pv t)) ?k 4" if "?k + 4 \<le> 256"
    using that b by (intro mem_read_cong) simp
  have wr: "mem_read (mem_write (m_pv_data (e_m s)) ?k bs) 0 256 = mem_read (mem_write (px_data (rl_pv t)) ?k bs) 0 256" for bs
    using b by (intro mem_read_cong) (simp add: mem_write_def)
  have low: "\<not> pv_in_data off" if "\<not> PV_REG_DATA \<le> off" using that by (simp add: pv_in_data_def)
  show "fst (pv_read (board_plat D P) s off 2) = px_read off (rl_pv t)"
  proof (cases "PV_REG_DATA \<le> off")
    case True
    with px_window [OF assms(2) True] rd show ?thesis
      by (auto simp: pv_read_def px_read_def Let_def assms(2) pv_reg_defs)
  next
    case False
    with low [OF False] assms show ?thesis
      by (auto simp: pv_read_def px_read_def Let_def board_plat_def bridge_same_def plat_pv_caps_def PV_NI2C_def PV_NGPIO_def)
  qed
  assume "off \<noteq> PV_REG_CMD"
  show "bridge_same (pv_write (board_plat D P) s off v 2) (px_write D off v t)"
  proof (cases "PV_REG_DATA \<le> off")
    case True
    with px_window [OF assms(2) True] wr assms show ?thesis
      by (auto simp: pv_write_def px_write_def Let_def pv_reg_defs bridge_same_def rl_upd_def upd_m_def)
  next
    case False
    with low [OF False] assms \<open>off \<noteq> PV_REG_CMD\<close> show ?thesis
      by (auto simp: pv_write_def px_write_def bridge_same_def rl_upd_def upd_m_def)
  qed
qed


text \<open>A transfer of one byte out and two in.\<close>

definition demo_emu :: emu where
  "demo_emu = upd_m (\<lambda>m. m\<lparr>m_pv_i2c_addr := 0x48, m_pv_i2c_wlen := 1, m_pv_i2c_rlen := 2\<rparr>) emu_start"


end
