(* ===== verification/Spec2Isabelle.thy ===== *)
theory Spec2Isabelle
  imports Progress Rv_Laws Pusher Rvl_Bridge
begin

text \<open>
  A verification development for \<open>ra8d1-tinyemu\<close>: a RISC-V machine that boots Linux inside one
  thread of a Zephyr application on the RA8D1 board. The guest is untrusted code in a block of
  SDRAM; the emulator around it runs with the rights of the firmware.

  Parts of the program and where they are modelled (paths under \<open>src/ra8d1-tinyemu/emu/\<close>):

  \<^item> \<open>Emu_Prelude\<close>: bytes, little- and big-endian words, blocks of memory, error numbers, and the
    lemmas on words the components share. \<open>Fifo\<close>: the locale of a bounded byte queue and the ring
    arithmetic behind its implementations.
  \<^item> \<open>Iomem\<close> (\<open>rv_iomem.c\<close>, \<open>iomem.h\<close>): the table of address ranges; a locale of address buses.
  \<^item> \<open>Cpu\<close> (\<open>riscv_cpu.c\<close>, \<open>riscv_cpu_priv.h\<close>): the hart's record, CSRs, traps, interrupts.
  \<^item> \<open>Platform\<close> (\<open>rv_platform.h\<close>): what the board provides, as functions of the history of events;
    the machine's record \<open>RVMachine\<close> and the state \<open>emu\<close> of hart, machine, RAM, map and history.
  \<^item> \<open>Machine\<close> (\<open>rv_machine.c\<close>): CLINT, PLIC, UART, syscon and the paravirtual I/O bridge.
    \<open>Hostsbi\<close> (\<open>rv_hostsbi.c\<close>, \<open>raise_exception2()\<close>): SBI calls answered by the emulator.
  \<^item> \<open>Virtq\<close>, \<open>Virtio_Blk\<close>, \<open>Virtio_Net\<close> (\<open>rv_virtio.c\<close>, \<open>rv_virtio_net.c\<close>): rings and devices.
  \<^item> \<open>Mmu\<close>, \<open>Bus\<close>, \<open>Ram_Access\<close> (\<open>riscv_cpu.c\<close>, \<open>riscv_cpu_priv.h\<close>): the Sv32 walk, the software TLB,
    loads, stores and fetches, with their dispatch to RAM and to the devices.
  \<^item> \<open>Fdt\<close> (\<open>rv_fdt.c\<close>): the devicetree writer, and a parser of the format for its round trip.
  \<^item> \<open>Rv_Alu\<close>, \<open>Rv_Exec\<close>, \<open>Interp\<close> (\<open>riscv_cpu_template.h\<close>, \<open>riscv_cpu_fp_template.h\<close>): the
    interpreter at XLEN 32 and FLEN 64: tables and immediates, one definition per opcode, the loop.
  \<^item> \<open>Boot\<close>, \<open>Run\<close> (\<open>rv_machine.c\<close>): \<open>rv_machine_init()\<close> and the run loop.
  \<^item> \<open>Rv_Laws\<close>: the interpreter against the ISA (compressed instructions, division, NaN boxing).
  \<^item> \<open>Sandbox\<close>, \<open>Progress\<close>: what the interpreter keeps and that it comes back. The interpreter's
    reliance on hart and bus is stated as two locales (\<open>exec_laws\<close>, \<open>interp_laws\<close>), interpreted
    twice on the machine: for the guest invariant and for the growth of the history.

  The application around the emulator (paths under \<open>src/ra8d1-tinyemu/src/\<close>):

  \<^item> \<open>Spsc\<close>, \<open>Telnet\<close> (\<open>telnet.c\<close>, the console hooks of \<open>platform_zephyr.c\<close>): the single-producer
    single-consumer rings with their interleaving, the negotiation filter, and a session.
  \<^item> \<open>Slots\<close> (\<open>image.h\<close>, \<open>plat_slot_*()\<close> in \<open>platform_zephyr.c\<close>, \<open>slot_check()\<close> in \<open>main.c\<close>): the two image
    slots of the flash, their container and the choice of what to boot.
  \<^item> \<open>Flash_Writer\<close> (the payload loop of \<open>nl_push()\<close> and \<open>nl_writer()\<close> in \<open>pusher.c\<close>): two threads, two
    buffers and two semaphores, as a machine whose every schedule is a list of actions (\<open>nl_act\<close>).
    \<open>nl_st\<close> holds the \<open>nl_*\<close> statics and where each thread is.
  \<^item> \<open>Pusher\<close> (\<open>pusher.c\<close>): a push from banner to commit and the listener's deferred reboot. Socket,
    flash driver, clock and the stop of the guest are functions of the history of events
    (\<open>push_env\<close>); \<open>push_st\<close> holds the statics; \<open>nor\<close> says what the flash holds after a history.
  \<^item> \<open>Net_Bridge\<close> (\<open>netbridge.c\<close>): frames between the guest's NIC and the wire. Zephyr's packets and its
    \<open>ring_buf\<close> are arguments; \<open>ring_laws\<close> and \<open>pk_ok\<close> say what is relied on.
  \<^item> \<open>Board\<close> (\<open>platform_zephyr.c\<close>): the microsecond clock, the UART receiver, the I2C and GPIO entry points.
  \<^item> \<open>Pv_Guest\<close> (\<open>src/ra8d1-linux/guest/pv-io.c\<close>): the Linux driver of the guest for the paravirtual bridge,
    run against the registers of \<open>Machine\<close>.

  The first port, which \<open>ra8d1-tinyemu\<close> replaced (paths under \<open>src/ra8d1-linux/rvlinux/src/\<close>):

  \<^item> \<open>Mini_Rv32\<close> (\<open>mini-rv32ima.h\<close>): the emulator, one definition per group of instructions, and that it
    touches only its image and state. State and image are one block of host memory, as they overlap
    in this port; a field is a place in it (\<open>mini_field\<close>). \<open>Mini_Laws\<close>: its arithmetic against \<open>Rv_Alu\<close>,
    traps, time and register 0.
  \<^item> \<open>Rvlinux\<close> (\<open>main.c\<close>): the devices behind its hooks, guest RAM before the start, the loop of \<open>main()\<close>.
    Drivers are the record \<open>zdrivers\<close>; \<open>rvl\<close> holds the statics of the devices.
  \<^item> \<open>Rvl_Bridge\<close>: the paravirtual bridge of this port and that of \<open>Machine\<close> over \<open>Board\<close>, compared.

  How the state corresponds. \<open>cpu\<close> has a field \<open>c_x\<close> for the field \<open>x\<close> of \<open>RISCVCPUState\<close>, \<open>rvmachine\<close> a
  field \<open>m_x\<close> for \<open>x\<close> of \<open>RVMachine\<close>; integers have the width of the C type and wrap as it does.
  Guest RAM is the block \<open>e_ram\<close>, a function from indices to bytes that does not stop at the end of
  the allocation: what lies after \<open>ram_size\<close> is the host's memory, so that an overrun would be
  visible, and a host pointer into RAM is an index. The devices' registers see 32-bit offsets and
  values. Reads of the clock, the console, the buses and the network are answered by the record
  \<open>plat\<close> from the history of all earlier calls, on which nothing is assumed but where a theorem says
  so. Errors are negative integers, options or sums, as the code has them.

  Loops. Structural recursion wherever the code has a bound (the descriptor chain stops after the
  queue's size, the page-table walk after two levels); \<open>uart_poll_input()\<close> carries 64 rounds of fuel
  and \<open>uart_poll_returns\<close> shows them enough; \<open>interp_loop\<close> and \<open>cpu_interp_loop\<close> are total functions by
  the cycle budget and the distance to the end of the block; the run loop may go on forever and is
  a partial function, whose turns are total on booted machines and which returns under a time limit
  (\<open>run_bounded_returns\<close>). \<open>tn_turns\<close> cuts a telnet session after any number of rounds; \<open>halt_loop\<close> has as
  fuel the number of 100 ms waits, and running out is a result of its own (\<open>Unfinished\<close>), as is a
  schedule that stops before both threads of the flash writer are done.

  What the properties show, in the order of the list: that the guest stays inside its RAM and
  below M-mode from boot on; that a run ends when it must; the layout and the devicetree of a boot;
  the bus, the page tables and the TLB; the block and network devices; the interrupt controller,
  timer, console, bridge and SBI; that a push stays inside its slot, keeps the rules of the flash
  part, installs what was sent, and boots; that the guest's I2C driver, the network bridge and the clock
  are transparent; that the first port is confined to its memory, computes what the later one computes
  and offers the guest the same bridge; and error paths, some of which record defects of the code.

  Not modelled, and why. The bodies of the SoftFP functions (\<open>softfp.c\<close>, vendored): the interpreter
  takes them as a record of functions with no assumption. XLEN 64 and 128 and FLEN other than 64:
  the firmware builds \<open>riscv_cpu.c\<close> with \<open>MAX_XLEN\<close> 32 and \<open>FLEN\<close> 64 only. Register dumps and log
  output, among it \<open>img_diagnose()\<close> of the pusher. Start-up of threads and listening sockets, and what
  the drivers of Zephyr do inside: code that is not part of the repository. Of the first port the
  telnet console and the image loader, from which \<open>telnet.c\<close> and \<open>pusher.c\<close> were developed, its
  self-test, and the bring-up code in \<open>zephyr-app\<close>.
\<close>

section \<open>From a push to the next boot\<close>

text \<open>
  C15. What is pushed is what boots: when the window shows what the flash holds, a push that reported
  success leaves a slot that the check at the next boot accepts, with the length pushed, and the
  check of the other slot gives what it gave before.
\<close>

theorem push_then_boot:
  assumes "nl_push e n s = (Pushed, s')" "pe_window e = nor f0"
  shows "\<exists>slot len crc pre es. ps_h s' = ps_h s @ pre @ es \<and> push_req (ev_header pre) = (slot, len, crc) \<and>
    slot_check (pe_crc e) (nor f0 (ps_h s')) slot v = Some (slot_lo slot + 4096, len) \<and>
    slot_check (pe_crc e) (nor f0 (ps_h s')) (1 - slot) v = slot_check (pe_crc e) (nor f0 (ps_h s)) (1 - slot) v"
proof -
  obtain slot len crc pre es g where a: "slot_ok slot" "img_accept_len (pe_ram e) slot len"
    "push_req (ev_header pre) = (slot, len, crc)" "ps_h s' = ps_h s @ pre @ es" "flash_of pre = []" "slot_trace slot len crc Pushed es"
    "ev_recv pre = []" "ps_armed s'" "flash_of g = flash_of es"
    "img_check (pe_crc e) (pe_ram e) (pe_window e (ps_h s @ pre @ g)) slot True = (0, len)" by (rule pushed_trace [OF assms(1)])
  have w: "nor f0 (ps_h s @ pre @ g) = nor f0 (ps_h s')" "nor f0 (ps_h s') = nor (nor f0 (ps_h s)) es"
    using a(5,9) nor_flash [of _ g] nor_flash [of _ es] nor_flash [of _ pre] by (simp_all add: a(4) nor_append)
  have other: "slot_ok (1 - slot)" using a(1) by (auto simp: slot_ok_def slot_consts)
  have "slot_check (pe_crc e) (nor f0 (ps_h s')) (1 - slot) v = slot_check (pe_crc e) (nor f0 (ps_h s)) (1 - slot) v"
  proof (rule slot_check_cong [OF other])
    fix i assume "slot_lo (1 - slot) \<le> i" "i < slot_lo (1 - slot) + unat (snd (plat_slot_base (1 - slot)))"
    then have "i < slot_lo slot \<or> slot_hi slot \<le> i" using slot_apart [OF a(1)] by auto
    then show "nor f0 (ps_h s') i = nor f0 (ps_h s) i" unfolding w(2) by (rule slot_trace_nor(4) [OF a(6,1,2)])
  qed
  moreover have "slot_check (pe_crc e) (nor f0 (ps_h s')) slot v = Some (slot_lo slot + 4096, len)"
    using img_check_boots [OF a(1)] a(10) w(1) assms(2) by simp
  ultimately show ?thesis using a(3,4) by blast
qed

theorem push_then_boot_witness:
  "\<exists>s'. nl_push demo_push 1 demo_idle = (Pushed, s') \<and> (\<exists>slot len crc pre es. ps_h s' = ps_h demo_idle @ pre @ es \<and>
    push_req (ev_header pre) = (slot, len, crc) \<and>
    slot_check (pe_crc demo_push) (nor (\<lambda>_. 0) (ps_h s')) slot True = Some (slot_lo slot + 4096, len) \<and>
    slot_check (pe_crc demo_push) (nor (\<lambda>_. 0) (ps_h s')) (1 - slot) True =
      slot_check (pe_crc demo_push) (nor (\<lambda>_. 0) (ps_h demo_idle)) (1 - slot) True)"
proof -
  obtain s' where s': "nl_push demo_push 1 demo_idle = (Pushed, s')" using demo_pushed by blast
  have "pe_window demo_push = nor (\<lambda>_. 0)" by (simp add: demo_push_def)
  show ?thesis by (rule exI [of _ s'], rule conjI, rule s', rule push_then_boot [OF s' \<open>pe_window demo_push = nor (\<lambda>_. 0)\<close>, of True])
qed

end
